(* ===== verification/Prelude.thy ===== *)
theory Prelude
  imports Complex_Main "HOL-Library.List_Lexorder" "HOL-Library.Char_ord" "HOL-Library.AList"
begin

text \<open>
  Shared vocabulary of the development: values of the program's language (TypeScript on
  Node), the string, set, map and sort operations of its standard library that the
  modelled code calls, errors as sums, and the generic lemmas about them.

  \<^item> \<open>jsval\<close> is an untyped value (\<open>unknown\<close> in the source). Numbers are rationals: every
    number the modelled code receives comes from JSON or a counter, so NaN and the
    infinities do not occur. An object is an association list in insertion order; the
    first entry of a key is the one that is read. Property names inherited from
    \<open>Object.prototype\<close> are not modelled.
  \<^item> A \<open>Set\<close> is a duplicate-free list in insertion order, a \<open>Map\<close> an association list
    updated in place (\<open>AList.update\<close> keeps the position of an existing key and appends a new
    one, as \<open>Map.set\<close> does).
  \<^item> A string is a list of characters; strings are ASCII, so byte order is the order of
    \<open>Array.prototype.sort\<close> and of \<open><\<close> on strings.
\<close>

subsection \<open>Values\<close>

datatype jsval =
    JUndef
  | JNull
  | JBool bool
  | JNum rat
  | JStr string
  | JArr "jsval list"
  | JObj "(string \<times> jsval) list"

text \<open>Property read: \<open>undefined\<close> on a missing property and on a value without properties.\<close>

fun js_get :: "jsval \<Rightarrow> string \<Rightarrow> jsval" where
  "js_get (JObj ps) k = (case map_of ps k of None \<Rightarrow> JUndef | Some v \<Rightarrow> v)"
| "js_get _ k = JUndef"

text \<open>\<open>k in obj\<close> for own properties.\<close>

fun js_has :: "jsval \<Rightarrow> string \<Rightarrow> bool" where
  "js_has (JObj ps) k = (map_of ps k \<noteq> None)"
| "js_has _ k = False"

fun js_truthy :: "jsval \<Rightarrow> bool" where
  "js_truthy JUndef = False"
| "js_truthy JNull = False"
| "js_truthy (JBool b) = b"
| "js_truthy (JNum n) = (n \<noteq> 0)"
| "js_truthy (JStr s) = (s \<noteq> [])"
| "js_truthy (JArr _) = True"
| "js_truthy (JObj _) = True"

text \<open>\<open>v == null\<close>: null or undefined.\<close>

fun js_nullish :: "jsval \<Rightarrow> bool" where
  "js_nullish JUndef = True"
| "js_nullish JNull = True"
| "js_nullish _ = False"

text \<open>
  Strict equality \<open>===\<close>. Arrays and objects compare by identity; the modelled
  comparisons always take their two sides from different sources, so two of them
  are never the same object.
\<close>

fun js_seq :: "jsval \<Rightarrow> jsval \<Rightarrow> bool" where
  "js_seq JUndef JUndef = True"
| "js_seq JNull JNull = True"
| "js_seq (JBool a) (JBool b) = (a = b)"
| "js_seq (JNum a) (JNum b) = (a = b)"
| "js_seq (JStr a) (JStr b) = (a = b)"
| "js_seq _ _ = False"

text \<open>\<open>arr.includes(v)\<close> on values (SameValueZero agrees with \<open>===\<close> without NaN).\<close>

definition js_includes :: "jsval list \<Rightarrow> jsval \<Rightarrow> bool" where
  "js_includes xs v = list_ex (\<lambda>x. js_seq x v) xs"

fun js_string :: "jsval \<Rightarrow> string option" where
  "js_string (JStr s) = Some s"
| "js_string _ = None"

text \<open>\<open>arr.filter((x) => typeof x === 'string')\<close>; a value that is no array gives \<open>[]\<close>.\<close>

fun str_arr :: "jsval \<Rightarrow> string list" where
  "str_arr (JArr xs) = List.map_filter js_string xs"
| "str_arr _ = []"

fun is_prim :: "jsval \<Rightarrow> bool" where
  "is_prim JNull = True"
| "is_prim (JBool _) = True"
| "is_prim (JNum _) = True"
| "is_prim (JStr _) = True"
| "is_prim _ = False"

abbreviation str_list :: "string list \<Rightarrow> jsval" where
  "str_list xs \<equiv> JArr (map JStr xs)"

lemma js_seq_refl [simp]: "is_prim v \<Longrightarrow> js_seq v v"
  by (cases v) auto

lemma js_seq_eq: "js_seq a b \<Longrightarrow> a = b"
  by (cases a; cases b) auto

lemma js_seq_prim_iff: "is_prim b \<Longrightarrow> js_seq a b \<longleftrightarrow> a = b"
  by (cases a; cases b) auto

lemma js_seq_sym: "js_seq a b = js_seq b a"
  by (cases a; cases b) auto

lemma js_includes_iff: "js_includes xs v \<longleftrightarrow> (\<exists>x \<in> set xs. js_seq x v)"
  by (simp add: js_includes_def list_ex_iff)

lemma js_get_JObj_Cons [simp]:
  "js_get (JObj ((k, v) # ps)) k' = (if k = k' then v else js_get (JObj ps) k')"
  by simp

subsection \<open>Strings\<close>

definition is_ws :: "char \<Rightarrow> bool" where
  "is_ws c \<longleftrightarrow> c \<in> {CHR 0x20, CHR 0x09, CHR 0x0A, CHR 0x0B, CHR 0x0C, CHR 0x0D}"

definition trim :: "string \<Rightarrow> string" where
  "trim s = rev (dropWhile is_ws (rev (dropWhile is_ws s)))"

fun starts_with :: "string \<Rightarrow> string \<Rightarrow> bool" where
  "starts_with s [] = True"
| "starts_with [] (p # ps) = False"
| "starts_with (c # s) (p # ps) = (c = p \<and> starts_with s ps)"

lemma starts_with_iff: "starts_with s p \<longleftrightarrow> (\<exists>r. s = p @ r)"
  by (induction s p rule: starts_with.induct) auto

fun contains_str :: "string \<Rightarrow> string \<Rightarrow> bool" where
  "contains_str [] n = (n = [])"
| "contains_str (c # s) n = (starts_with (c # s) n \<or> contains_str s n)"

text \<open>\<open>arr.join(sep)\<close>.\<close>

fun join :: "string \<Rightarrow> string list \<Rightarrow> string" where
  "join sep [] = []"
| "join sep [s] = s"
| "join sep (s # t # ss) = s @ sep @ join sep (t # ss)"

text \<open>\<open>String(n)\<close> for a natural number, in decimal.\<close>

definition digit_char :: "nat \<Rightarrow> char" where
  "digit_char d = char_of (48 + d)"

fun nat_str :: "nat \<Rightarrow> string" where
  "nat_str n = (if n < 10 then [digit_char n] else nat_str (n div 10) @ [digit_char (n mod 10)])"

declare nat_str.simps [simp del]

definition char_digit :: "char \<Rightarrow> nat" where
  "char_digit c = of_char c - 48"

definition is_digit :: "char \<Rightarrow> bool" where
  "is_digit c \<longleftrightarrow> 48 \<le> (of_char c :: nat) \<and> (of_char c :: nat) \<le> 57"

text \<open>\<open>Number(s)\<close> on a string of decimal digits.\<close>

definition str_nat :: "string \<Rightarrow> nat" where
  "str_nat s = foldl (\<lambda>n c. 10 * n + char_digit c) 0 s"

lemma digit_char_digit [simp]: "d < 10 \<Longrightarrow> char_digit (digit_char d) = d"
  by (simp add: char_digit_def digit_char_def of_char_of)

lemma is_digit_digit_char [simp]: "d < 10 \<Longrightarrow> is_digit (digit_char d)"
  by (simp add: is_digit_def digit_char_def of_char_of)

lemma nat_str_digits: "list_all is_digit (nat_str n)"
proof (induction n rule: nat_str.induct)
  case (1 n)
  then show ?case by (cases "n < 10") (simp_all add: nat_str.simps [of n])
qed

lemma nat_str_nonempty [simp]: "nat_str n \<noteq> []"
  by (simp add: nat_str.simps [of n])

lemma str_nat_snoc [simp]: "str_nat (s @ [c]) = 10 * str_nat s + char_digit c"
  by (simp add: str_nat_def)

lemma str_nat_nat_str [simp]: "str_nat (nat_str n) = n"
proof (induction n rule: nat_str.induct)
  case (1 n)
  show ?case
  proof (cases "n < 10")
    case True
    then show ?thesis by (simp add: nat_str.simps [of n] str_nat_def)
  next
    case False
    with "1.IH" have "str_nat (nat_str (n div 10)) = n div 10" by simp
    with False show ?thesis by (simp add: nat_str.simps [of n])
  qed
qed

lemma nat_str_inj: "nat_str m = nat_str n \<Longrightarrow> m = n"
  by (metis str_nat_nat_str)

subsection \<open>Sets, maps and sorting\<close>

definition js_add :: "'a list \<Rightarrow> 'a \<Rightarrow> 'a list" where
  "js_add xs x = (if x \<in> set xs then xs else xs @ [x])"

definition js_set_of :: "'a list \<Rightarrow> 'a list" where
  "js_set_of xs = foldl js_add [] xs"

lemma set_js_add [simp]: "set (js_add xs x) = insert x (set xs)"
  by (auto simp: js_add_def)

lemma distinct_js_add [simp]: "distinct xs \<Longrightarrow> distinct (js_add xs x)"
  by (simp add: js_add_def)

lemma set_foldl_js_add [simp]: "set (foldl js_add acc xs) = set acc \<union> set xs"
  by (induction xs arbitrary: acc) auto

lemma distinct_foldl_js_add: "distinct acc \<Longrightarrow> distinct (foldl js_add acc xs)"
  by (induction xs arbitrary: acc) auto

lemma set_js_set_of [simp]: "set (js_set_of xs) = set xs"
  by (simp add: js_set_of_def)

lemma distinct_js_set_of [simp]: "distinct (js_set_of xs)"
  by (simp add: js_set_of_def distinct_foldl_js_add)

text \<open>\<open>arr.sort(cmp)\<close>: a stable sort by the comparison \<open>le\<close>.\<close>

fun js_insort :: "('a \<Rightarrow> 'a \<Rightarrow> bool) \<Rightarrow> 'a \<Rightarrow> 'a list \<Rightarrow> 'a list" where
  "js_insort le x [] = [x]"
| "js_insort le x (y # ys) = (if le x y then x # y # ys else y # js_insort le x ys)"

fun js_sort_by :: "('a \<Rightarrow> 'a \<Rightarrow> bool) \<Rightarrow> 'a list \<Rightarrow> 'a list" where
  "js_sort_by le [] = []"
| "js_sort_by le (x # xs) = js_insort le x (js_sort_by le xs)"

lemma set_js_insort [simp]: "set (js_insort le x ys) = insert x (set ys)"
  by (induction ys) auto

lemma set_js_sort_by [simp]: "set (js_sort_by le xs) = set xs"
  by (induction xs) auto

text \<open>\<open>set.delete(k)\<close> for every \<open>k\<close> of a list.\<close>

definition js_remove_all :: "'a list \<Rightarrow> 'a list \<Rightarrow> 'a list" where
  "js_remove_all ks xs = filter (\<lambda>x. x \<notin> set ks) xs"

lemma set_js_remove_all [simp]: "set (js_remove_all ks xs) = set xs - set ks"
  by (auto simp: js_remove_all_def)

lemma sorted_js_insort: "sorted ys \<Longrightarrow> sorted (js_insort (\<le>) x ys)" for x :: "'a::linorder"
  by (induction ys) auto

lemma sorted_js_sort_by [simp]: "sorted (js_sort_by (\<le>) xs)" for xs :: "'a::linorder list"
  by (induction xs) (auto simp: sorted_js_insort)

lemma distinct_js_insort: "distinct (js_insort le x ys) \<longleftrightarrow> distinct (x # ys)"
  by (induction ys) auto

lemma distinct_js_sort_by [simp]: "distinct (js_sort_by le xs) = distinct xs"
  by (induction xs) (auto simp: distinct_js_insort)

text \<open>\<open>arr.sort()\<close> on strings.\<close>

abbreviation js_sort :: "string list \<Rightarrow> string list" where
  "js_sort \<equiv> js_sort_by (\<le>)"

subsection \<open>Errors as sums\<close>

fun sbind :: "'e + 'a \<Rightarrow> ('a \<Rightarrow> 'e + 'b) \<Rightarrow> 'e + 'b" where
  "sbind (Inl e) f = Inl e"
| "sbind (Inr x) f = f x"

lemma sbind_cong [fundef_cong]:
  "m = m' \<Longrightarrow> (\<And>x. m' = Inr x \<Longrightarrow> f x = f' x) \<Longrightarrow> sbind m f = sbind m' f'"
  by (cases m') auto

lemma sbind_Inr: "sbind m f = Inr y \<longleftrightarrow> (\<exists>x. m = Inr x \<and> f x = Inr y)"
  by (cases m) auto

lemma sbind_Inl: "sbind m f = Inl e \<longleftrightarrow> m = Inl e \<or> (\<exists>x. m = Inr x \<and> f x = Inl e)"
  by (cases m) auto

fun is_ok :: "'e + 'a \<Rightarrow> bool" where
  "is_ok (Inl _) = False"
| "is_ok (Inr _) = True"

lemma is_ok_iff: "is_ok m \<longleftrightarrow> (\<exists>x. m = Inr x)"
  by (cases m) auto

text \<open>\<open>throw\<close> under a condition, then go on.\<close>

definition guard_err :: "bool \<Rightarrow> 'e \<Rightarrow> 'e + unit" where
  "guard_err ok e = (if ok then Inr () else Inl e)"

lemma guard_err_Inr [simp]: "guard_err ok e = Inr u \<longleftrightarrow> ok"
  by (simp add: guard_err_def)

text \<open>Map a fallible step over a list, stopping at the first error.\<close>

fun smap :: "('a \<Rightarrow> 'e + 'b) \<Rightarrow> 'a list \<Rightarrow> 'e + 'b list" where
  "smap f [] = Inr []"
| "smap f (x # xs) = sbind (f x) (\<lambda>y. sbind (smap f xs) (\<lambda>ys. Inr (y # ys)))"

lemma smap_cong [fundef_cong]:
  "xs = ys \<Longrightarrow> (\<And>x. x \<in> set ys \<Longrightarrow> f x = g x) \<Longrightarrow> smap f xs = smap g ys"
  by (induction ys arbitrary: xs) auto

lemma smap_Inr: "smap f xs = Inr ys \<longleftrightarrow> list_all2 (\<lambda>x y. f x = Inr y) xs ys"
  by (induction xs arbitrary: ys) (auto simp: sbind_Inr list_all2_Cons1)

lemma smap_list_all:
  "smap f xs = Inr ys \<Longrightarrow> (\<And>x y. x \<in> set xs \<Longrightarrow> f x = Inr y \<Longrightarrow> P y) \<Longrightarrow> list_all P ys"
  unfolding smap_Inr list_all_length list_all2_conv_all_nth by (metis nth_mem)

lemma enumerate_size [termination_simp]:
  "(i, n) \<in> set (enumerate k ns) \<Longrightarrow> size n < Suc (size_list size ns)"
  by (induction ns arbitrary: k) (auto simp: less_Suc_eq_le intro: le_SucI trans_le_add2 dest: less_imp_le)

subsection \<open>Collections\<close>

text \<open>Facts that unfold the access tables of the roles, and the ones for the shared lemmas.\<close>

named_theorems role_defs
named_theorems filter_sem
named_theorems step_defs

end
