(* ===== verification/AbacIr.thy ===== *)
theory AbacIr
  imports Prelude
begin

text \<open>
  The neutral tree of access conditions (\<^verbatim>\<open>shared/src/abac/ir.ts\<close>) and its parser
  (\<^verbatim>\<open>parse.ts\<close>). An \<open>AbacError\<close> is a code with the path of the offending node; the message
  text is not kept. A literal is a scalar JSON value or an array of them.
\<close>

subsection \<open>The tree\<close>

datatype abac_op = OEq | ONe | OGt | OGte | OLt | OLte | OIn | ONin

datatype abac_operand = ORef string | OLit jsval

datatype abac_node =
    Leaf abac_op abac_operand abac_operand
  | AndN "abac_node list"
  | OrN "abac_node list"
  | NotN abac_node

datatype abac_code =
    OPERATOR_NOT_SUPPORTED | OPERAND_NOT_ALLOWED | OPERAND_NESTED_PATH_UNSUPPORTED
  | FIELD_VS_FIELD_UNSUPPORTED | TYPE_MISMATCH | DATE_OPERAND_UNSUPPORTED
  | NOT_OVER_UNSUPPORTED_LEAF | NULL_IN_LITERAL_ARRAY | NULL_LITERAL_COMPARE
  | ABAC_BACKEND_UNSUPPORTED | NOT_COMPILABLE_MONGO | UNKNOWN_CONTEXT_REF | MALFORMED_NODE

type_synonym abac_err = "abac_code \<times> string"

definition ABAC_COMPARE_OPS :: "(string \<times> abac_op) list" where
  "ABAC_COMPARE_OPS = [(''eq'', OEq), (''ne'', ONe), (''gt'', OGt), (''gte'', OGte), (''lt'', OLt), (''lte'', OLte)]"

definition ABAC_SET_OPS :: "(string \<times> abac_op) list" where
  "ABAC_SET_OPS = [(''in'', OIn), (''nin'', ONin)]"

fun op_name :: "abac_op \<Rightarrow> string" where
  "op_name OEq = ''eq''" | "op_name ONe = ''ne''" | "op_name OGt = ''gt''" | "op_name OGte = ''gte''"
| "op_name OLt = ''lt''" | "op_name OLte = ''lte''" | "op_name OIn = ''in''" | "op_name ONin = ''nin''"

definition leaf_op :: "string \<Rightarrow> abac_op option" where
  "leaf_op s = map_of (ABAC_COMPARE_OPS @ ABAC_SET_OPS) s"

lemma leaf_op_name [simp]: "leaf_op (op_name c) = Some c"
  by (cases c) (simp_all add: leaf_op_def ABAC_COMPARE_OPS_def ABAC_SET_OPS_def)

subsection \<open>References\<close>

datatype ref_ns = NsRecord | NsUser | NsProject

definition is_word_start :: "char \<Rightarrow> bool" where
  "is_word_start c \<longleftrightarrow> (CHR ''A'' \<le> c \<and> c \<le> CHR ''Z'') \<or> (CHR ''a'' \<le> c \<and> c \<le> CHR ''z'') \<or> c = CHR ''_''"

definition is_word_char :: "char \<Rightarrow> bool" where
  "is_word_char c \<longleftrightarrow> is_word_start c \<or> is_digit c"

definition RECORD_FLAT_FIELD_RE :: "string \<Rightarrow> bool" where
  "RECORD_FLAT_FIELD_RE s \<longleftrightarrow> starts_with s ''record.'' \<and>
     (case drop 7 s of [] \<Rightarrow> False | c # cs \<Rightarrow> is_word_start c \<and> list_all is_word_char cs)"

definition refNamespace :: "string \<Rightarrow> string \<Rightarrow> abac_err + ref_ns" where
  "refNamespace r path =
     (if starts_with r ''record.'' then Inr NsRecord
      else if starts_with r ''user.'' then Inr NsUser
      else if starts_with r ''project.'' then Inr NsProject
      else Inl (OPERAND_NOT_ALLOWED, path))"

definition refField :: "string \<Rightarrow> string" where
  "refField r = (if CHR ''.'' \<in> set r then tl (dropWhile (\<lambda>c. c \<noteq> CHR ''.'') r) else r)"

lemma refField_record [simp]: "refField (''record.'' @ f) = f"
  by (simp add: refField_def)

lemma record_ref_split: "starts_with r ''record.'' \<Longrightarrow> r = ''record.'' @ refField r"
  unfolding starts_with_iff by (metis refField_record)

subsection \<open>The parser\<close>

fun is_lit_value :: "jsval \<Rightarrow> bool" where
  "is_lit_value (JArr xs) = list_all is_prim xs"
| "is_lit_value v = is_prim v"

text \<open>The index of the first element that is not a scalar.\<close>

fun first_bad :: "nat \<Rightarrow> jsval list \<Rightarrow> nat option" where
  "first_bad i [] = None"
| "first_bad i (x # xs) = (if is_prim x then first_bad (Suc i) xs else Some i)"

lemma first_bad_None: "first_bad i xs = None \<longleftrightarrow> list_all is_prim xs"
  by (induction xs arbitrary: i) auto

definition parse_ref :: "jsval \<Rightarrow> string \<Rightarrow> abac_err + abac_operand" where
  "parse_ref v path =
     (case v of
        JStr r \<Rightarrow>
          if r = [] then Inl (MALFORMED_NODE, path @ ''.ref'')
          else sbind (refNamespace r (path @ ''.ref'')) (\<lambda>ns.
            if ns = NsRecord \<and> \<not> RECORD_FLAT_FIELD_RE r
            then (if CHR ''['' \<in> set r \<or> 2 \<le> count_list r (CHR ''.'')
                  then Inl (OPERAND_NESTED_PATH_UNSUPPORTED, path @ ''.ref'')
                  else Inl (OPERAND_NOT_ALLOWED, path @ ''.ref''))
            else Inr (ORef r))
      | _ \<Rightarrow> Inl (MALFORMED_NODE, path @ ''.ref''))"

definition parse_lit :: "jsval \<Rightarrow> string \<Rightarrow> abac_err + abac_operand" where
  "parse_lit v path =
     (case v of
        JArr xs \<Rightarrow> (case first_bad 0 xs of
            Some i \<Rightarrow> Inl (MALFORMED_NODE, path @ ''.lit['' @ nat_str i @ '']'')
          | None \<Rightarrow> Inr (OLit v))
      | _ \<Rightarrow> if is_prim v then Inr (OLit v) else Inl (MALFORMED_NODE, path @ ''.lit''))"

definition parseOperand :: "jsval \<Rightarrow> string \<Rightarrow> abac_err + abac_operand" where
  "parseOperand raw path =
     (case raw of
        JObj _ \<Rightarrow>
          if js_has raw ''ref'' = js_has raw ''lit'' then Inl (MALFORMED_NODE, path)
          else if js_has raw ''ref'' then parse_ref (js_get raw ''ref'') path
          else parse_lit (js_get raw ''lit'') path
      | _ \<Rightarrow> Inl (MALFORMED_NODE, path))"

definition parseCompareOrSet :: "abac_op \<Rightarrow> jsval \<Rightarrow> string \<Rightarrow> abac_err + abac_node" where
  "parseCompareOrSet c raw path =
     (if \<not> js_has raw ''left'' \<or> \<not> js_has raw ''right'' then Inl (MALFORMED_NODE, path)
      else sbind (parseOperand (js_get raw ''left'') (path @ ''.left'')) (\<lambda>l.
           sbind (parseOperand (js_get raw ''right'') (path @ ''.right'')) (\<lambda>r.
             if c = OIn \<or> c = ONin then
               (case r of
                  ORef _ \<Rightarrow> Inl (FIELD_VS_FIELD_UNSUPPORTED, path @ ''.right'')
                | OLit (JArr _) \<Rightarrow> Inr (Leaf c l r)
                | OLit _ \<Rightarrow> Inl (MALFORMED_NODE, path @ ''.right''))
             else Inr (Leaf c l r))))"

lemma js_get_size: "js_get (JObj ps) k = w \<Longrightarrow> w \<noteq> JUndef \<Longrightarrow> size w < size (JObj ps)"
proof -
  assume w: "js_get (JObj ps) k = w" "w \<noteq> JUndef"
  then have "(k, w) \<in> set ps" by (auto split: option.splits dest: map_of_SomeD)
  then have "size w < Suc (size_list (size_prod (\<lambda>_. 0) size) ps)"
    by (induction ps) auto
  then show ?thesis by simp
qed

lemma js_get_arr_size:
  assumes "js_get (JObj ps) k = JArr ns" "(i, n) \<in> set (enumerate j ns)"
  shows "size n < size (JObj ps)"
proof -
  have "n \<in> set ns" using assms(2) by (auto simp: in_set_enumerate_eq)
  then have "size n < size (JArr ns)" by (induction ns) auto
  with js_get_size [OF assms(1)] show ?thesis by simp
qed

abbreviation node_path :: "string \<Rightarrow> nat \<Rightarrow> string" where
  "node_path path i \<equiv> path @ ''.nodes['' @ nat_str i @ '']''"

function parseNode :: "jsval \<Rightarrow> string \<Rightarrow> abac_err + abac_node" where
  "parseNode raw path =
     (case raw of
        JObj _ \<Rightarrow>
          (case js_get raw ''op'' of
             JStr c \<Rightarrow>
               (case leaf_op c of
                  Some lo \<Rightarrow> parseCompareOrSet lo raw path
                | None \<Rightarrow>
                    if c = ''and'' \<or> c = ''or'' then
                      (case js_get raw ''nodes'' of
                         JArr ns \<Rightarrow>
                           sbind (smap (\<lambda>(i, n). parseNode n (node_path path i)) (enumerate 0 ns)) (\<lambda>xs.
                             Inr (if c = ''and'' then AndN xs else OrN xs))
                       | _ \<Rightarrow> Inl (MALFORMED_NODE, path @ ''.nodes''))
                    else if c = ''not'' then
                      (if \<not> js_has raw ''node'' then Inl (MALFORMED_NODE, path @ ''.node'')
                       else if js_get raw ''node'' = JUndef then Inl (MALFORMED_NODE, path @ ''.node'')
                       else sbind (parseNode (js_get raw ''node'') (path @ ''.node'')) (\<lambda>x. Inr (NotN x)))
                    else Inl (OPERATOR_NOT_SUPPORTED, path @ ''.op''))
           | _ \<Rightarrow> Inl (MALFORMED_NODE, path @ ''.op''))
      | _ \<Rightarrow> Inl (MALFORMED_NODE, path))"
  by pat_completeness auto
termination
  by (relation "measure (\<lambda>(raw, _). size raw)")
     (auto simp del: js_get.simps js_has.simps jsval.size intro: js_get_arr_size js_get_size)

declare parseNode.simps [simp del]

definition parseAbac :: "jsval \<Rightarrow> abac_err + abac_node" where
  "parseAbac json = parseNode json ''$''"


subsection \<open>What the parser accepts\<close>

fun wf_operand :: "abac_operand \<Rightarrow> bool" where
  "wf_operand (ORef r) \<longleftrightarrow> is_ok (refNamespace r []) \<and> (starts_with r ''record.'' \<longrightarrow> RECORD_FLAT_FIELD_RE r)"
| "wf_operand (OLit v) \<longleftrightarrow> is_lit_value v"

fun arr_lit :: "abac_operand \<Rightarrow> bool" where
  "arr_lit (OLit (JArr _)) = True"
| "arr_lit _ = False"

fun wf_node :: "abac_node \<Rightarrow> bool" where
  "wf_node (Leaf c l r) \<longleftrightarrow> wf_operand l \<and> wf_operand r \<and> (c = OIn \<or> c = ONin \<longrightarrow> arr_lit r)"
| "wf_node (AndN ns) \<longleftrightarrow> list_all wf_node ns"
| "wf_node (OrN ns) \<longleftrightarrow> list_all wf_node ns"
| "wf_node (NotN n) \<longleftrightarrow> wf_node n"

text \<open>The JSON form of a tree, as it is stored and sent.\<close>

fun operand_js :: "abac_operand \<Rightarrow> jsval" where
  "operand_js (ORef r) = JObj [(''ref'', JStr r)]"
| "operand_js (OLit v) = JObj [(''lit'', v)]"

fun node_js :: "abac_node \<Rightarrow> jsval" where
  "node_js (Leaf c l r) = JObj [(''op'', JStr (op_name c)), (''left'', operand_js l), (''right'', operand_js r)]"
| "node_js (AndN ns) = JObj [(''op'', JStr ''and''), (''nodes'', JArr (map node_js ns))]"
| "node_js (OrN ns) = JObj [(''op'', JStr ''or''), (''nodes'', JArr (map node_js ns))]"
| "node_js (NotN n) = JObj [(''op'', JStr ''not''), (''node'', node_js n)]"

lemma refNamespace_path: "is_ok (refNamespace r p) = is_ok (refNamespace r q)"
  by (simp add: refNamespace_def)

lemma refNamespace_nonempty: "is_ok (refNamespace r p) \<Longrightarrow> r \<noteq> []"
  by (auto simp: refNamespace_def)

lemma refNamespace_record: "refNamespace r p = Inr NsRecord \<longleftrightarrow> starts_with r ''record.''"
  by (simp add: refNamespace_def)

lemma parseOperand_wf: "parseOperand raw path = Inr x \<Longrightarrow> wf_operand x"
proof (cases raw)
  case (JObj ps)
  assume p: "parseOperand raw path = Inr x"
  show ?thesis
  proof (cases "js_has raw ''ref''")
    case True
    with p JObj obtain r where "js_get raw ''ref'' = JStr r" "parse_ref (JStr r) path = Inr x"
      by (cases "js_get raw ''ref''") (auto simp: parseOperand_def parse_ref_def split: if_splits)
    then show ?thesis
      using refNamespace_path [of r "[]" "path @ ''.ref''"] refNamespace_record [of r "path @ ''.ref''"]
      by (auto simp: parse_ref_def sbind_Inr split: if_splits)
  next
    case False
    with p JObj have "parse_lit (js_get raw ''lit'') path = Inr x"
      by (auto simp: parseOperand_def split: if_splits)
    then show ?thesis
      by (cases "js_get raw ''lit''") (auto simp: parse_lit_def first_bad_None split: option.splits)
  qed
qed (simp_all add: parseOperand_def)

lemma parseCompareOrSet_wf: "parseCompareOrSet c raw path = Inr n \<Longrightarrow> wf_node n"
  by (auto simp: parseCompareOrSet_def sbind_Inr dest!: parseOperand_wf
      split: if_splits abac_operand.splits jsval.splits)

lemma parse_operand_print: "wf_operand x \<Longrightarrow> parseOperand (operand_js x) path = Inr x"
proof (cases x)
  case (ORef r)
  assume wf: "wf_operand x"
  then obtain ns where "refNamespace r (path @ ''.ref'') = Inr ns"
    using ORef refNamespace_path [of r "[]" "path @ ''.ref''"] by (auto simp: is_ok_iff)
  with wf ORef show ?thesis
    using refNamespace_nonempty [of r "[]"] refNamespace_record [of r "path @ ''.ref''"]
    by (auto simp: parseOperand_def parse_ref_def)
next
  case (OLit v)
  assume "wf_operand x"
  then have "parse_lit v path = Inr (OLit v)"
    using OLit first_bad_None [of 0] by (cases v) (auto simp: parse_lit_def split: option.splits)
  with OLit show ?thesis by (simp add: parseOperand_def)
qed

lemma smap_enumerate_wf:
  assumes "\<And>i n x. (i, n) \<in> set (enumerate k ns) \<Longrightarrow> f (i, n) = Inr x \<Longrightarrow> P x"
    and "smap f (enumerate k ns) = Inr xs"
  shows "list_all P xs"
  using assms
proof (induction ns arbitrary: k xs)
  case (Cons n ns)
  from Cons.prems(2) obtain y ys where "f (k, n) = Inr y" "smap f (enumerate (Suc k) ns) = Inr ys" "xs = y # ys"
    by (auto simp: sbind_Inr)
  moreover have "P y" using Cons.prems(1) [of k n y] calculation(1) by simp
  moreover have "list_all P ys"
    by (rule Cons.IH [OF _ calculation(2)]) (use Cons.prems(1) in auto)
  ultimately show ?case by simp
qed simp

lemma smap_enumerate_print:
  "(\<And>i n. n \<in> set ns \<Longrightarrow> f (i, g n) = Inr n) \<Longrightarrow> smap f (enumerate k (map g ns)) = Inr ns"
  by (induction ns arbitrary: k) auto

lemma parseNode_wf: "parseNode raw path = Inr n \<Longrightarrow> wf_node n"
proof (induction raw path arbitrary: n rule: parseNode.induct)
  case (1 raw path)
  from "1.prems" obtain ps c where raw: "raw = JObj ps" "js_get raw ''op'' = JStr c"
    by (simp add: parseNode.simps [of raw] split: jsval.splits)
  show ?case
  proof (cases "leaf_op c")
    case (Some lo)
    with "1.prems" raw have "parseCompareOrSet lo raw path = Inr n"
      by (simp add: parseNode.simps [of "JObj ps"] del: js_get.simps)
    then show ?thesis by (rule parseCompareOrSet_wf)
  next
    case None
    note IH = "1.IH" [OF raw None]
    consider (nary) "c = ''and'' \<or> c = ''or''" | (neg) "c = ''not''"
      using "1.prems" raw None
      by (auto simp: parseNode.simps [of "JObj ps"] simp del: js_get.simps split: if_splits)
    then show ?thesis
    proof cases
      case nary
      with "1.prems" raw None obtain ns xs where ns: "js_get raw ''nodes'' = JArr ns"
        and xs: "smap (\<lambda>(i, m). parseNode m (node_path path i)) (enumerate 0 ns) = Inr xs"
        and n: "n = AndN xs \<or> n = OrN xs"
        by (auto simp: parseNode.simps [of "JObj ps"] sbind_Inr simp del: js_get.simps split: jsval.splits)
      have "list_all wf_node xs"
        by (rule smap_enumerate_wf [OF _ xs]) (use IH(1) [OF nary ns] in auto)
      with n show ?thesis by auto
    next
      case neg
      with "1.prems" raw None obtain m where "parseNode (js_get raw ''node'') (path @ ''.node'') = Inr m" "n = NotN m"
        "js_has raw ''node''" "js_get raw ''node'' \<noteq> JUndef"
        by (auto simp: parseNode.simps [of "JObj ps"] sbind_Inr simp del: js_get.simps js_has.simps split: if_splits)
      then show ?thesis using IH(2) neg by simp
    qed
  qed
qed

lemma leaf_op_logic [simp]: "leaf_op ''and'' = None" "leaf_op ''or'' = None" "leaf_op ''not'' = None"
  by (simp_all add: leaf_op_def ABAC_COMPARE_OPS_def ABAC_SET_OPS_def)

lemma parse_print: "wf_node n \<Longrightarrow> parseNode (node_js n) path = Inr n"
proof (induction n arbitrary: path)
  case (Leaf c l r)
  have "parseCompareOrSet c (node_js (Leaf c l r)) path = Inr (Leaf c l r)"
    using Leaf by (cases r rule: arr_lit.cases) (auto simp: parseCompareOrSet_def parse_operand_print simp del: operand_js.simps)
  then show ?case by (simp add: parseNode.simps)
next
  case (AndN ns)
  then have "smap (\<lambda>(i, n). parseNode n (node_path path i)) (enumerate 0 (map node_js ns)) = Inr ns"
    by (intro smap_enumerate_print) (auto simp: list_all_iff)
  then show ?case by (simp add: parseNode.simps [of "JObj _"])
next
  case (OrN ns)
  then have "smap (\<lambda>(i, n). parseNode n (node_path path i)) (enumerate 0 (map node_js ns)) = Inr ns"
    by (intro smap_enumerate_print) (auto simp: list_all_iff)
  then show ?case by (simp add: parseNode.simps [of "JObj _"])
next
  case (NotN n)
  moreover have "node_js n \<noteq> JUndef" by (cases n) auto
  ultimately show ?case by (simp add: parseNode.simps [of "JObj _"])
qed

text \<open>C39: Whatever JSON the condition parser accepts, the tree it returns is well formed: every
  operator is one of the ten, a record reference is a flat field, an operand of \<open>in\<close>/\<open>nin\<close> is a
  literal array, and every literal is a scalar or an array of scalars. Its JSON form parses back to
  the same tree, so a stored condition is read as it was saved; and every well-formed tree is
  accepted.\<close>

theorem abac_parse_roundtrip:
  "(parseAbac json = Inr n \<longrightarrow> wf_node n) \<and> (parseAbac (node_js n) = Inr n) = wf_node n"
  using parseNode_wf parse_print by (auto simp: parseAbac_def)

theorem abac_parse_roundtrip_witness:
  "let n = NotN (Leaf OIn (ORef ''record.region'') (OLit (JArr [JStr ''EU'']))) in
     parseAbac (node_js n) = Inr n"
proof -
  let ?n = "NotN (Leaf OIn (ORef ''record.region'') (OLit (JArr [JStr ''EU''])))"
  have "wf_node ?n"
    by (simp add: refNamespace_def RECORD_FLAT_FIELD_RE_def is_word_start_def is_word_char_def less_eq_char_def)
  then show ?thesis using abac_parse_roundtrip [of JNull ?n] by (simp only: Let_def)
qed

end
