(* ===== verification/AbacNormalize.thy ===== *)
theory AbacNormalize
  imports AbacIr
begin

text \<open>
  Normalisation of a condition tree (\<^verbatim>\<open>shared/src/abac/normalize.ts\<close>): \<open>not\<close> is pushed to the
  leaves, nested logic of the same kind is flattened, a single child replaces its node. The
  three functions call each other, and \<open>negate\<close> normalises what \<open>negateLeaf\<close> returns, which
  is not a part of its input: termination rests on a bound of that result's weight.
\<close>

fun weight :: "abac_node \<Rightarrow> nat" where
  "weight (Leaf c l r) = 1"
| "weight (AndN ns) = 1 + sum_list (map weight ns)"
| "weight (OrN ns) = 1 + sum_list (map weight ns)"
| "weight (NotN n) = 1 + weight n"

lemma weight_member: "n \<in> set ns \<Longrightarrow> weight n < Suc (sum_list (map weight ns))"
  by (induction ns) auto

lemma weight_enumerate:
  "(i, n) \<in> set (enumerate k ns) \<Longrightarrow> weight n < Suc (sum_list (map weight ns))"
  by (auto simp: in_set_enumerate_eq intro!: weight_member)

text \<open>Flattening of the normalised children into the list of a node of kind \<open>and\<close> or \<open>or\<close>.\<close>

fun flat_and :: "abac_node \<Rightarrow> abac_node list" where
  "flat_and (AndN ns) = ns"
| "flat_and n = [n]"

fun flat_or :: "abac_node \<Rightarrow> abac_node list" where
  "flat_or (OrN ns) = ns"
| "flat_or n = [n]"

text \<open>\<open>if (out.length === 1) return out[0]\<close>\<close>

fun collapse :: "(abac_node list \<Rightarrow> abac_node) \<Rightarrow> abac_node list \<Rightarrow> abac_node" where
  "collapse mk [n] = n"
| "collapse mk ns = mk ns"

function negateLeaf :: "abac_node \<Rightarrow> string \<Rightarrow> abac_err + abac_node"
  and negate :: "abac_node \<Rightarrow> string \<Rightarrow> abac_err + abac_node"
  and normalize :: "abac_node \<Rightarrow> string \<Rightarrow> abac_err + abac_node" where
  "negateLeaf (Leaf c l r) path =
     (if c = OEq then Inr (Leaf ONe l r)
      else if c = OIn then Inr (Leaf ONin l r)
      else Inl (NOT_OVER_UNSUPPORTED_LEAF, path))"
| "negateLeaf (AndN ns) path =
     sbind (smap (\<lambda>(i, n). negate n (node_path path i)) (enumerate 0 ns)) (\<lambda>xs. Inr (OrN xs))"
| "negateLeaf (OrN ns) path =
     sbind (smap (\<lambda>(i, n). negate n (node_path path i)) (enumerate 0 ns)) (\<lambda>xs. Inr (AndN xs))"
| "negateLeaf (NotN n) path = Inr n"
| "negate n path = sbind (negateLeaf n path) (\<lambda>m. normalize m path)"
| "normalize (NotN n) path = negate n (path @ ''.node'')"
| "normalize (AndN ns) path =
     sbind (smap (\<lambda>(i, n). normalize n (node_path path i)) (enumerate 0 ns)) (\<lambda>xs.
       Inr (collapse AndN (concat (map flat_and xs))))"
| "normalize (OrN ns) path =
     sbind (smap (\<lambda>(i, n). normalize n (node_path path i)) (enumerate 0 ns)) (\<lambda>xs.
       Inr (collapse OrN (concat (map flat_or xs))))"
| "normalize (Leaf c l r) path = Inr (Leaf c l r)"
  by pat_completeness auto

lemma smap_weight:
  assumes "\<And>i n x. (i, n) \<in> set (enumerate k ns) \<Longrightarrow> f (i, n) = Inr x \<Longrightarrow> weight x \<le> weight n"
    and "smap f (enumerate k ns) = Inr xs"
  shows "sum_list (map weight xs) \<le> sum_list (map weight ns)"
  using assms
proof (induction ns arbitrary: k xs)
  case (Cons n ns)
  from Cons.prems(2) obtain y ys where "f (k, n) = Inr y" "smap f (enumerate (Suc k) ns) = Inr ys" "xs = y # ys"
    by (auto simp: sbind_Inr)
  moreover have "weight y \<le> weight n" using Cons.prems(1) [of k n y] calculation(1) by simp
  moreover have "sum_list (map weight ys) \<le> sum_list (map weight ns)"
    by (rule Cons.IH [OF _ calculation(2)]) (use Cons.prems(1) in auto)
  ultimately show ?case by simp
qed simp

lemma weight_flat_and: "sum_list (map weight (flat_and n)) \<le> weight n"
  by (cases n) auto

lemma weight_flat_or: "sum_list (map weight (flat_or n)) \<le> weight n"
  by (cases n) auto

lemma weight_flat_list:
  "sum_list (map weight (concat (map flat_and ns))) \<le> sum_list (map weight ns)"
  "sum_list (map weight (concat (map flat_or ns))) \<le> sum_list (map weight ns)"
proof (induction ns)
  case (Cons n ns)
  { case 1 with Cons weight_flat_and [of n] show ?case by simp }
  { case 2 with Cons weight_flat_or [of n] show ?case by simp }
qed simp_all

lemma weight_collapse:
  "weight (collapse AndN ns) \<le> Suc (sum_list (map weight ns))"
  "weight (collapse OrN ns) \<le> Suc (sum_list (map weight ns))"
  by (cases "(AndN, ns)" rule: collapse.cases; simp)+

lemma normalize_weight:
  shows "negateLeaf_negate_normalize_dom (Inl (n, path)) \<Longrightarrow> negateLeaf n path = Inr m \<Longrightarrow> weight m \<le> weight n"
    and "negateLeaf_negate_normalize_dom (Inr (Inl (n, path))) \<Longrightarrow> negate n path = Inr m \<Longrightarrow> weight m \<le> weight n"
    and "negateLeaf_negate_normalize_dom (Inr (Inr (n, path))) \<Longrightarrow> normalize n path = Inr m \<Longrightarrow> weight m \<le> weight n"
proof (induction n path and n path and n path arbitrary: m and m and m
    rule: negateLeaf_negate_normalize.pinduct)
  case (1 c l r path)
  then show ?case by (auto simp: negateLeaf.psimps split: if_splits)
next
  case (2 ns path)
  then obtain xs where xs: "smap (\<lambda>(i, n). negate n (node_path path i)) (enumerate 0 ns) = Inr xs" "m = OrN xs"
    by (auto simp: negateLeaf.psimps sbind_Inr)
  show ?case using smap_weight [OF _ xs(1)] xs(2) 2(2) by fastforce
next
  case (3 ns path)
  then obtain xs where xs: "smap (\<lambda>(i, n). negate n (node_path path i)) (enumerate 0 ns) = Inr xs" "m = AndN xs"
    by (auto simp: negateLeaf.psimps sbind_Inr)
  show ?case using smap_weight [OF _ xs(1)] xs(2) 3(2) by fastforce
next
  case (4 n path)
  then show ?case by (simp add: negateLeaf.psimps)
next
  case (5 n path)
  then obtain k where "negateLeaf n path = Inr k" "normalize k path = Inr m"
    by (auto simp: negate.psimps sbind_Inr)
  with 5 show ?case by fastforce
next
  case (6 n path)
  then show ?case by (fastforce simp: normalize.psimps)
next
  case (7 ns path)
  then obtain xs where xs: "smap (\<lambda>(i, n). normalize n (node_path path i)) (enumerate 0 ns) = Inr xs"
    "m = collapse AndN (concat (map flat_and xs))"
    by (auto simp: normalize.psimps sbind_Inr)
  show ?case
    using smap_weight [OF _ xs(1)] xs(2) 7(2) weight_collapse(1) [of "concat (map flat_and xs)"] weight_flat_list(1) [of xs]
    by fastforce
next
  case (8 ns path)
  then obtain xs where xs: "smap (\<lambda>(i, n). normalize n (node_path path i)) (enumerate 0 ns) = Inr xs"
    "m = collapse OrN (concat (map flat_or xs))"
    by (auto simp: normalize.psimps sbind_Inr)
  show ?case
    using smap_weight [OF _ xs(1)] xs(2) 8(2) weight_collapse(2) [of "concat (map flat_or xs)"] weight_flat_list(2) [of xs]
    by fastforce
next
  case (9 c l r path)
  then show ?case by (simp add: normalize.psimps)
qed

termination negateLeaf
proof (relation "measure (\<lambda>x. case x of
      Inl (n, _) \<Rightarrow> 3 * weight n + 1 | Inr (Inl (n, _)) \<Rightarrow> 3 * weight n + 2 | Inr (Inr (n, _)) \<Rightarrow> 3 * weight n)",
    goal_cases)
  case (5 n path m)
  then show ?case using normalize_weight(1) [of n path m] by simp
qed (auto dest: weight_enumerate)

definition normalizeAbac :: "abac_node \<Rightarrow> abac_err + abac_node" where
  "normalizeAbac n = normalize n ''$''"


subsection \<open>Leaves and normal form\<close>

fun all_leaves :: "(abac_op \<Rightarrow> abac_operand \<Rightarrow> abac_operand \<Rightarrow> bool) \<Rightarrow> abac_node \<Rightarrow> bool" where
  "all_leaves P (Leaf c l r) = P c l r"
| "all_leaves P (AndN ns) = list_all (all_leaves P) ns"
| "all_leaves P (OrN ns) = list_all (all_leaves P) ns"
| "all_leaves P (NotN n) = all_leaves P n"

text \<open>No negation, nothing left to flatten, no node with a single child.\<close>

fun is_and :: "abac_node \<Rightarrow> bool" where "is_and (AndN _) = True" | "is_and _ = False"
fun is_or :: "abac_node \<Rightarrow> bool" where "is_or (OrN _) = True" | "is_or _ = False"

fun nf :: "abac_node \<Rightarrow> bool" where
  "nf (Leaf c l r) = True"
| "nf (AndN ns) \<longleftrightarrow> list_all nf ns \<and> \<not> list_ex is_and ns \<and> length ns \<noteq> 1"
| "nf (OrN ns) \<longleftrightarrow> list_all nf ns \<and> \<not> list_ex is_or ns \<and> length ns \<noteq> 1"
| "nf (NotN n) = False"

text \<open>Whether a tree can be normalised: under an odd number of negations only \<open>eq\<close> and \<open>in\<close>.\<close>

fun neg_ok :: "bool \<Rightarrow> abac_node \<Rightarrow> bool" where
  "neg_ok pos (Leaf c l r) \<longleftrightarrow> pos \<or> c = OEq \<or> c = OIn"
| "neg_ok pos (AndN ns) = list_all (neg_ok pos) ns"
| "neg_ok pos (OrN ns) = list_all (neg_ok pos) ns"
| "neg_ok pos (NotN n) = neg_ok (\<not> pos) n"

lemma smap_enumerate_all2:
  assumes "smap (\<lambda>(i, n). f n (g i)) (enumerate k ns) = Inr xs"
  shows "list_all2 (\<lambda>n x. \<exists>p. f n p = Inr x) ns xs"
  using assms by (induction ns arbitrary: k xs) (auto simp: sbind_Inr)

lemma list_all2_mono_mem:
  "list_all2 P xs ys \<Longrightarrow> (\<And>x y. x \<in> set xs \<Longrightarrow> P x y \<Longrightarrow> Q x y) \<Longrightarrow> list_all2 Q xs ys"
  by (auto simp: list_all2_conv_all_nth)

lemma smap_enumerate_step:
  assumes "smap (\<lambda>(i, n). f n (node_path path i)) (enumerate 0 ns) = Inr xs"
    and "\<And>i n x. (i, n) \<in> set (enumerate 0 ns) \<Longrightarrow> f n (node_path path i) = Inr x \<Longrightarrow> Q n x"
  shows "list_all2 Q ns xs"
proof -
  have *: "list_all2 Q ns xs"
    if "smap (\<lambda>(i, n). f n (node_path path i)) (enumerate k ns) = Inr xs"
      "\<And>i n x. (i, n) \<in> set (enumerate k ns) \<Longrightarrow> f n (node_path path i) = Inr x \<Longrightarrow> Q n x" for k
    using that by (induction ns arbitrary: k xs) (fastforce simp: sbind_Inr)+
  show ?thesis by (rule *) (use assms in auto)
qed

lemma is_ok_smap: "is_ok (smap f xs) \<longleftrightarrow> list_all (\<lambda>x. is_ok (f x)) xs"
proof (induction xs)
  case (Cons x xs)
  then show ?case by (cases "f x"; cases "smap f xs") auto
qed simp

lemma is_ok_sbind_total: "(\<And>x. is_ok (f x)) \<Longrightarrow> is_ok (sbind m f) = is_ok m"
  by (cases m) auto

lemma flat_and_nf: "nf x \<Longrightarrow> list_all nf (flat_and x) \<and> \<not> list_ex is_and (flat_and x)"
  by (cases x) (auto simp: list_all_iff list_ex_iff)

lemma flat_or_nf: "nf x \<Longrightarrow> list_all nf (flat_or x) \<and> \<not> list_ex is_or (flat_or x)"
  by (cases x) (auto simp: list_all_iff list_ex_iff)

lemma collapse_nf:
  "list_all nf xs \<Longrightarrow> \<not> list_ex is_and xs \<Longrightarrow> nf (collapse AndN xs)"
  "list_all nf xs \<Longrightarrow> \<not> list_ex is_or xs \<Longrightarrow> nf (collapse OrN xs)"
  by (cases "(AndN, xs)" rule: collapse.cases; simp)+

lemma concat_flat_nf:
  "list_all nf xs \<Longrightarrow> list_all nf (concat (map flat_and xs)) \<and> \<not> list_ex is_and (concat (map flat_and xs))"
  "list_all nf xs \<Longrightarrow> list_all nf (concat (map flat_or xs)) \<and> \<not> list_ex is_or (concat (map flat_or xs))"
  by (induction xs) (simp_all add: flat_and_nf flat_or_nf)

lemma list_all2_snd: "list_all2 (\<lambda>n x. Q x) ns xs \<Longrightarrow> list_all Q xs"
  by (induction rule: list_all2_induct) auto

lemma normalize_nf:
  shows "negateLeaf n path = Inr m \<Longrightarrow> True"
    and "negate n path = Inr m \<Longrightarrow> nf m"
    and "normalize n path = Inr m \<Longrightarrow> nf m"
proof (induction n path and n path and n path arbitrary: m and m and m rule: negateLeaf_negate_normalize.induct)
  case (7 ns path)
  then obtain xs where xs: "smap (\<lambda>(i, n). normalize n (node_path path i)) (enumerate 0 ns) = Inr xs"
    "m = collapse AndN (concat (map flat_and xs))"
    by (auto simp: sbind_Inr)
  have "list_all nf xs"
    by (rule list_all2_snd, rule smap_enumerate_step [OF xs(1)]) (use 7 in auto)
  then show ?case using concat_flat_nf(1) collapse_nf(1) xs(2) by blast
next
  case (8 ns path)
  then obtain xs where xs: "smap (\<lambda>(i, n). normalize n (node_path path i)) (enumerate 0 ns) = Inr xs"
    "m = collapse OrN (concat (map flat_or xs))"
    by (auto simp: sbind_Inr)
  have "list_all nf xs"
    by (rule list_all2_snd, rule smap_enumerate_step [OF xs(1)]) (use 8 in auto)
  then show ?case using concat_flat_nf(2) collapse_nf(2) xs(2) by blast
qed (auto simp: sbind_Inr)

lemma flat_and_id: "\<not> is_and n \<Longrightarrow> flat_and n = [n]" by (cases n) auto
lemma flat_or_id: "\<not> is_or n \<Longrightarrow> flat_or n = [n]" by (cases n) auto

lemma concat_flat_id:
  "\<not> list_ex is_and ns \<Longrightarrow> concat (map flat_and ns) = ns"
  "\<not> list_ex is_or ns \<Longrightarrow> concat (map flat_or ns) = ns"
  by (induction ns) (auto simp: flat_and_id flat_or_id)

lemma collapse_id: "length ns \<noteq> 1 \<Longrightarrow> collapse mk ns = mk ns"
  by (cases "(mk, ns)" rule: collapse.cases) auto

lemma normalize_of_nf: "nf n \<Longrightarrow> normalize n path = Inr n"
proof (induction n arbitrary: path)
  case (AndN ns)
  have "smap (\<lambda>(i, n). normalize n (node_path path i)) (enumerate 0 (map (\<lambda>x. x) ns)) = Inr ns"
    by (rule smap_enumerate_print) (use AndN in \<open>auto simp: list_all_iff\<close>)
  with AndN show ?case by (simp add: concat_flat_id collapse_id)
next
  case (OrN ns)
  have "smap (\<lambda>(i, n). normalize n (node_path path i)) (enumerate 0 (map (\<lambda>x. x) ns)) = Inr ns"
    by (rule smap_enumerate_print) (use OrN in \<open>auto simp: list_all_iff\<close>)
  with OrN show ?case by (simp add: concat_flat_id collapse_id)
qed auto

lemma nf_neg_ok: "nf n \<Longrightarrow> neg_ok True n"
  by (induction n) (auto simp: list_all_iff)

lemma neg_ok_concat_flat:
  "list_all (neg_ok b) (concat (map flat_and xs)) = list_all (neg_ok b) xs"
  "list_all (neg_ok b) (concat (map flat_or xs)) = list_all (neg_ok b) xs"
proof -
  have "list_all (neg_ok b) (flat_and x) = neg_ok b x" "list_all (neg_ok b) (flat_or x) = neg_ok b x" for x
    by (cases x; simp)+
  then show "list_all (neg_ok b) (concat (map flat_and xs)) = list_all (neg_ok b) xs"
    "list_all (neg_ok b) (concat (map flat_or xs)) = list_all (neg_ok b) xs"
    by (induction xs) auto
qed

lemma list_all_enumerate: "list_all (\<lambda>(i, n). P n) (enumerate k ns) = list_all P ns"
  by (induction ns arbitrary: k) auto

lemma is_ok_smap_enum:
  assumes "\<And>i n. (i, n) \<in> set (enumerate k ns) \<Longrightarrow> is_ok (f n (g i)) = P n"
  shows "is_ok (smap (\<lambda>(i, n). f n (g i)) (enumerate k ns)) = list_all P ns"
  using assms unfolding is_ok_smap by (induction ns arbitrary: k) auto

lemma normalize_ok_iff:
  shows "is_ok (negateLeaf n path) = (case n of NotN k \<Rightarrow> True | _ \<Rightarrow> neg_ok False n)
         \<and> (\<forall>m. negateLeaf n path = Inr m \<longrightarrow> neg_ok True m = neg_ok False n)"
    and "is_ok (negate n path) = neg_ok False n"
    and "is_ok (normalize n path) = neg_ok True n"
proof (induction n path and n path and n path rule: negateLeaf_negate_normalize.induct)
  case (2 ns path)
  have ok: "is_ok (smap (\<lambda>(i, n). negate n (node_path path i)) (enumerate 0 ns)) = list_all (neg_ok False) ns"
    by (rule is_ok_smap_enum) (use 2 in auto)
  have "list_all (neg_ok True) xs"
    if "smap (\<lambda>(i, n). negate n (node_path path i)) (enumerate 0 ns) = Inr xs" for xs
    by (rule list_all2_snd, rule smap_enumerate_step [OF that]) (metis normalize_nf(2) nf_neg_ok)
  with ok show ?case by (auto simp: is_ok_sbind_total sbind_Inr)
next
  case (3 ns path)
  have ok: "is_ok (smap (\<lambda>(i, n). negate n (node_path path i)) (enumerate 0 ns)) = list_all (neg_ok False) ns"
    by (rule is_ok_smap_enum) (use 3 in auto)
  have "list_all (neg_ok True) xs"
    if "smap (\<lambda>(i, n). negate n (node_path path i)) (enumerate 0 ns) = Inr xs" for xs
    by (rule list_all2_snd, rule smap_enumerate_step [OF that]) (metis normalize_nf(2) nf_neg_ok)
  with ok show ?case by (auto simp: is_ok_sbind_total sbind_Inr)
next
  case (5 n path)
  then show ?case by (cases "negateLeaf n path") (auto split: abac_node.splits)
next
  case (7 ns path)
  have "is_ok (smap (\<lambda>(i, n). normalize n (node_path path i)) (enumerate 0 ns)) = list_all (neg_ok True) ns"
    by (rule is_ok_smap_enum) (use 7 in auto)
  then show ?case by (simp add: is_ok_sbind_total)
next
  case (8 ns path)
  have "is_ok (smap (\<lambda>(i, n). normalize n (node_path path i)) (enumerate 0 ns)) = list_all (neg_ok True) ns"
    by (rule is_ok_smap_enum) (use 8 in auto)
  then show ?case by (simp add: is_ok_sbind_total)
qed auto

text \<open>A property of leaves that survives the inversion of \<open>eq\<close> and \<open>in\<close> survives normalisation.\<close>

lemma all_leaves_flat:
  "list_all (all_leaves P) (concat (map flat_and xs)) = list_all (all_leaves P) xs"
  "list_all (all_leaves P) (concat (map flat_or xs)) = list_all (all_leaves P) xs"
proof -
  have "list_all (all_leaves P) (flat_and x) = all_leaves P x" "list_all (all_leaves P) (flat_or x) = all_leaves P x" for x
    by (cases x; simp)+
  then show "list_all (all_leaves P) (concat (map flat_and xs)) = list_all (all_leaves P) xs"
    "list_all (all_leaves P) (concat (map flat_or xs)) = list_all (all_leaves P) xs"
    by (induction xs) simp_all
qed

lemma all_leaves_collapse:
  "all_leaves P (collapse AndN xs) = list_all (all_leaves P) xs"
  "all_leaves P (collapse OrN xs) = list_all (all_leaves P) xs"
  by (cases "(AndN, xs)" rule: collapse.cases; simp)+

lemma list_all2_eq_all: "list_all2 (\<lambda>x y. P y = P x) xs ys \<Longrightarrow> list_all P ys = list_all P xs"
  by (induction rule: list_all2_induct) auto

lemma normalize_leaves:
  assumes neg: "\<And>l r. P ONe l r = P OEq l r" "\<And>l r. P ONin l r = P OIn l r"
  shows "negateLeaf n path = Inr m \<Longrightarrow> all_leaves P m = all_leaves P n"
    and "negate n path = Inr m \<Longrightarrow> all_leaves P m = all_leaves P n"
    and "normalize n path = Inr m \<Longrightarrow> all_leaves P m = all_leaves P n"
proof (induction n path and n path and n path arbitrary: m and m and m rule: negateLeaf_negate_normalize.induct)
  case (1 c l r path)
  then show ?case using neg by (auto split: if_splits)
next
  case (2 ns path)
  then obtain xs where xs: "smap (\<lambda>(i, n). negate n (node_path path i)) (enumerate 0 ns) = Inr xs" "m = OrN xs"
    by (auto simp: sbind_Inr)
  have "list_all (all_leaves P) xs = list_all (all_leaves P) ns"
    by (rule list_all2_eq_all, rule smap_enumerate_step [OF xs(1)]) (use 2 in auto)
  with xs show ?case by simp
next
  case (3 ns path)
  then obtain xs where xs: "smap (\<lambda>(i, n). negate n (node_path path i)) (enumerate 0 ns) = Inr xs" "m = AndN xs"
    by (auto simp: sbind_Inr)
  have "list_all (all_leaves P) xs = list_all (all_leaves P) ns"
    by (rule list_all2_eq_all, rule smap_enumerate_step [OF xs(1)]) (use 3 in auto)
  with xs show ?case by simp
next
  case (7 ns path)
  then obtain xs where xs: "smap (\<lambda>(i, n). normalize n (node_path path i)) (enumerate 0 ns) = Inr xs"
    "m = collapse AndN (concat (map flat_and xs))"
    by (auto simp: sbind_Inr)
  have "list_all (all_leaves P) xs = list_all (all_leaves P) ns"
    by (rule list_all2_eq_all, rule smap_enumerate_step [OF xs(1)]) (use 7 in auto)
  with xs show ?case by (simp add: all_leaves_collapse all_leaves_flat)
next
  case (8 ns path)
  then obtain xs where xs: "smap (\<lambda>(i, n). normalize n (node_path path i)) (enumerate 0 ns) = Inr xs"
    "m = collapse OrN (concat (map flat_or xs))"
    by (auto simp: sbind_Inr)
  have "list_all (all_leaves P) xs = list_all (all_leaves P) ns"
    by (rule list_all2_eq_all, rule smap_enumerate_step [OF xs(1)]) (use 8 in auto)
  with xs show ?case by (simp add: all_leaves_collapse all_leaves_flat)
qed (auto simp: sbind_Inr)

text \<open>C38: Normalisation succeeds exactly on the trees in which only \<open>eq\<close> and \<open>in\<close> stand under an odd
  number of negations. Its result is in normal form (no negation, no nested logic of the same kind,
  no node with a single child), and normalising it again changes nothing.\<close>

theorem normalize_total_and_idempotent:
  "is_ok (normalizeAbac n) = neg_ok True n
   \<and> (\<forall>m. normalizeAbac n = Inr m \<longrightarrow> nf m \<and> normalizeAbac m = Inr m)"
  using normalize_ok_iff(3) normalize_nf(3) normalize_of_nf by (auto simp: normalizeAbac_def)

theorem normalize_total_and_idempotent_witness:
  "let n = NotN (AndN [Leaf OEq (ORef ''record.a'') (OLit (JNum 1)), NotN (Leaf OGt (ORef ''record.b'') (OLit (JNum 2)))]);
       m = OrN [Leaf ONe (ORef ''record.a'') (OLit (JNum 1)), Leaf OGt (ORef ''record.b'') (OLit (JNum 2))]
   in normalizeAbac n = Inr m \<and> nf m \<and> normalizeAbac m = Inr m"
  using normalize_total_and_idempotent [of "NotN (AndN [Leaf OEq (ORef ''record.a'') (OLit (JNum 1)),
      NotN (Leaf OGt (ORef ''record.b'') (OLit (JNum 2)))])"]
  by (simp add: normalizeAbac_def)

end
