(* ===== verification/MongoFilter.thy ===== *)
theory MongoFilter
  imports Prelude
begin

text \<open>
  Mongo read filters as the services build them, and what a store does with them.
  \<open>mfilter\<close> is the filter document. MongoDB itself is not part of the repository: the
  locales \<open>mongo_core\<close> and \<open>mongo_store\<close> state the documented meaning of the operators the
  code emits, the second for every filter and with the array semantics of Mongo (a
  condition on an array field holds when it holds for the array or for one of its
  elements). \<open>matchFilter\<close> is the repository's own in-memory matcher
  (\<^verbatim>\<open>search/src/search/fake-mongo.testkit.ts\<close>); it provides \<open>mongo_core\<close>. \<open>mongo_ref\<close> is a
  reference matcher that provides both.
\<close>

type_synonym doc = "(string \<times> jsval) list"

datatype mop =
    OpVal jsval            \<comment> \<open>plain value: field equals it\<close>
  | OpEq jsval
  | OpNe jsval
  | OpGt jsval
  | OpGte jsval
  | OpLt jsval
  | OpLte jsval
  | OpIn "jsval list"
  | OpNin "jsval list"
  | OpExists bool

datatype mfilter =
    MFields "(string \<times> mop) list"   \<comment> \<open>implicit conjunction; the empty one is \<open>{}\<close>\<close>
  | MAnd "mfilter list"
  | MOr "mfilter list"
  | MNor "mfilter list"

definition fld :: "doc \<Rightarrow> string \<Rightarrow> jsval" where
  "fld d k = js_get (JObj d) k"

text \<open>A missing field reads as null.\<close>

definition nul :: "jsval \<Rightarrow> jsval" where
  "nul v = (if v = JUndef then JNull else v)"

abbreviation mfield :: "string \<Rightarrow> mop \<Rightarrow> mfilter" where
  "mfield k c \<equiv> MFields [(k, c)]"

lemma nul_simps [simp]: "nul JUndef = JNull" "nul JNull = JNull" "nul (JStr s) = JStr s"
    "nul (JNum n) = JNum n" "nul (JBool b) = JBool b" "nul (JArr xs) = JArr xs" "nul (JObj ps) = JObj ps"
  by (simp_all add: nul_def)

fun is_arr :: "jsval \<Rightarrow> bool" where
  "is_arr (JArr _) = True"
| "is_arr _ = False"

subsection \<open>Ordering of comparable values\<close>

text \<open>\<open>ordCompare\<close>: numbers with numbers, strings with strings, anything else is incomparable.\<close>

datatype cmp = LessC | EqC | GreaterC

fun ord_cmp :: "jsval \<Rightarrow> jsval \<Rightarrow> cmp option" where
  "ord_cmp (JNum a) (JNum b) = Some (if a < b then LessC else if b < a then GreaterC else EqC)"
| "ord_cmp (JStr a) (JStr b) = Some (if a < b then LessC else if b < a then GreaterC else EqC)"
| "ord_cmp _ _ = None"

text \<open>The candidates a condition on a field is tried on: the value and, for an array, its elements.\<close>

fun cands :: "jsval \<Rightarrow> jsval list" where
  "cands (JArr xs) = JArr xs # xs"
| "cands v = [v]"

lemma cands_scalar [simp]: "\<not> is_arr v \<Longrightarrow> cands v = [v]"
  by (cases v) auto

text \<open>The scalar literals that are not null, and those that order.\<close>

fun is_lit :: "jsval \<Rightarrow> bool" where
  "is_lit (JBool _) = True"
| "is_lit (JNum _) = True"
| "is_lit (JStr _) = True"
| "is_lit _ = False"

fun is_ordlit :: "jsval \<Rightarrow> bool" where
  "is_ordlit (JNum _) = True"
| "is_ordlit (JStr _) = True"
| "is_ordlit _ = False"

lemma is_lit_prim: "is_lit v \<Longrightarrow> is_prim v \<and> v \<noteq> JNull \<and> v \<noteq> JUndef"
  by (cases v) auto

subsection \<open>What a store promises\<close>

text \<open>
  \<open>core_filter\<close>: the filters of the visibility layer: plain values, \<open>$in\<close>, \<open>$nin\<close>, \<open>$ne\<close>,
  \<open>$exists\<close> over primitive operands, and the three connectives.
\<close>

fun core_op :: "mop \<Rightarrow> bool" where
  "core_op (OpVal v) = is_prim v"
| "core_op (OpIn vs) = list_all is_prim vs"
| "core_op (OpNin vs) = list_all is_prim vs"
| "core_op (OpNe v) = is_prim v"
| "core_op (OpExists _) = True"
| "core_op _ = False"

fun core_filter :: "mfilter \<Rightarrow> bool" where
  "core_filter (MFields ps) = list_all (\<lambda>(k, c). core_op c) ps"
| "core_filter (MAnd fs) = list_all core_filter fs"
| "core_filter (MOr fs) = list_all core_filter fs"
| "core_filter (MNor fs) = list_all core_filter fs"

locale mongo_core =
  fixes mt :: "mfilter \<Rightarrow> doc \<Rightarrow> bool"
  assumes core_and: "core_filter (MAnd fs) \<Longrightarrow> mt (MAnd fs) d \<longleftrightarrow> (\<forall>f \<in> set fs. mt f d)"
    and core_or: "core_filter (MOr fs) \<Longrightarrow> mt (MOr fs) d \<longleftrightarrow> (\<exists>f \<in> set fs. mt f d)"
    and core_nor: "core_filter (MNor fs) \<Longrightarrow> mt (MNor fs) d \<longleftrightarrow> \<not> (\<exists>f \<in> set fs. mt f d)"
    and core_fields: "core_filter (MFields ps) \<Longrightarrow>
      mt (MFields ps) d \<longleftrightarrow> (\<forall>(k, c) \<in> set ps. mt (mfield k c) d)"
    and core_val: "is_prim v \<Longrightarrow> \<not> is_arr (fld d k) \<Longrightarrow>
      mt (mfield k (OpVal v)) d \<longleftrightarrow> nul (fld d k) = v"
    and core_in: "list_all is_prim vs \<Longrightarrow> \<not> is_arr (fld d k) \<Longrightarrow>
      mt (mfield k (OpIn vs)) d \<longleftrightarrow> nul (fld d k) \<in> set vs"
    and core_nin: "list_all is_prim vs \<Longrightarrow> \<not> is_arr (fld d k) \<Longrightarrow>
      mt (mfield k (OpNin vs)) d \<longleftrightarrow> nul (fld d k) \<notin> set vs"
    and core_ne: "is_prim v \<Longrightarrow> \<not> is_arr (fld d k) \<Longrightarrow>
      mt (mfield k (OpNe v)) d \<longleftrightarrow> nul (fld d k) \<noteq> v"
    and core_exists: "mt (mfield k (OpExists b)) d \<longleftrightarrow> (map_of d k \<noteq> None) = b"

text \<open>
  The full contract: the connectives for every filter, and the comparison operators with
  their literal operands, over scalar and array fields alike. A key is a field name. MongoDB reads a
  name with dots as a path and refuses an empty list under a connective; the compilers emit neither,
  so the laws are used only where they state documented behaviour.
\<close>

locale mongo_store = mongo_core +
  assumes all_and: "mt (MAnd fs) d \<longleftrightarrow> (\<forall>f \<in> set fs. mt f d)"
    and all_or: "mt (MOr fs) d \<longleftrightarrow> (\<exists>f \<in> set fs. mt f d)"
    and all_nor: "mt (MNor fs) d \<longleftrightarrow> \<not> (\<exists>f \<in> set fs. mt f d)"
    and all_fields: "mt (MFields ps) d \<longleftrightarrow> (\<forall>(k, c) \<in> set ps. mt (mfield k c) d)"
    and eq_lit: "is_lit v \<Longrightarrow> mt (mfield k (OpEq v)) d \<longleftrightarrow> v \<in> set (cands (fld d k))"
    and ne_lit: "is_lit v \<Longrightarrow> mt (mfield k (OpNe v)) d \<longleftrightarrow> v \<notin> set (cands (fld d k))"
    and ne_null: "mt (mfield k (OpNe JNull)) d \<longleftrightarrow> JNull \<notin> set (cands (nul (fld d k)))"
    and in_lit: "list_all is_lit vs \<Longrightarrow>
      mt (mfield k (OpIn vs)) d \<longleftrightarrow> (\<exists>v \<in> set (cands (fld d k)). v \<in> set vs)"
    and nin_lit: "list_all is_lit vs \<Longrightarrow>
      mt (mfield k (OpNin vs)) d \<longleftrightarrow> \<not> (\<exists>v \<in> set (cands (fld d k)). v \<in> set vs)"
    and gt_lit: "is_ordlit v \<Longrightarrow>
      mt (mfield k (OpGt v)) d \<longleftrightarrow> (\<exists>x \<in> set (cands (fld d k)). ord_cmp x v = Some GreaterC)"
    and gte_lit: "is_ordlit v \<Longrightarrow> mt (mfield k (OpGte v)) d \<longleftrightarrow>
      (\<exists>x \<in> set (cands (fld d k)). ord_cmp x v = Some GreaterC \<or> ord_cmp x v = Some EqC)"
    and lt_lit: "is_ordlit v \<Longrightarrow>
      mt (mfield k (OpLt v)) d \<longleftrightarrow> (\<exists>x \<in> set (cands (fld d k)). ord_cmp x v = Some LessC)"
    and lte_lit: "is_ordlit v \<Longrightarrow> mt (mfield k (OpLte v)) d \<longleftrightarrow>
      (\<exists>x \<in> set (cands (fld d k)). ord_cmp x v = Some LessC \<or> ord_cmp x v = Some EqC)"

subsection \<open>The reference matcher\<close>

fun ref_op :: "jsval \<Rightarrow> bool \<Rightarrow> mop \<Rightarrow> bool" where
  "ref_op v p (OpVal x) = (x \<in> set (cands (nul v)))"
| "ref_op v p (OpEq x) = (x \<in> set (cands (nul v)))"
| "ref_op v p (OpNe x) = (x \<notin> set (cands (nul v)))"
| "ref_op v p (OpGt x) = (\<exists>y \<in> set (cands v). ord_cmp y x = Some GreaterC)"
| "ref_op v p (OpGte x) =
     (\<exists>y \<in> set (cands v). ord_cmp y x = Some GreaterC \<or> ord_cmp y x = Some EqC)"
| "ref_op v p (OpLt x) = (\<exists>y \<in> set (cands v). ord_cmp y x = Some LessC)"
| "ref_op v p (OpLte x) =
     (\<exists>y \<in> set (cands v). ord_cmp y x = Some LessC \<or> ord_cmp y x = Some EqC)"
| "ref_op v p (OpIn xs) = (\<exists>y \<in> set (cands (nul v)). y \<in> set xs)"
| "ref_op v p (OpNin xs) = (\<not> (\<exists>y \<in> set (cands (nul v)). y \<in> set xs))"
| "ref_op v p (OpExists b) = (p = b)"

fun mongo_ref :: "mfilter \<Rightarrow> doc \<Rightarrow> bool" where
  "mongo_ref (MFields ps) d =
     list_all (\<lambda>(k, c). ref_op (fld d k) (map_of d k \<noteq> None) c) ps"
| "mongo_ref (MAnd fs) d = list_all (\<lambda>f. mongo_ref f d) fs"
| "mongo_ref (MOr fs) d = list_ex (\<lambda>f. mongo_ref f d) fs"
| "mongo_ref (MNor fs) d = (\<not> list_ex (\<lambda>f. mongo_ref f d) fs)"

lemma lit_in_cands_nul: "is_lit x \<Longrightarrow> x \<in> set (cands (nul v)) \<longleftrightarrow> x \<in> set (cands v)"
  by (cases v) (auto simp: nul_def)

lemma cands_nul_ex_lit:
  "list_all is_lit xs \<Longrightarrow>
    (\<exists>y \<in> set (cands (nul v)). y \<in> set xs) \<longleftrightarrow> (\<exists>y \<in> set (cands v). y \<in> set xs)"
  by (cases v) (auto simp: nul_def list_all_iff)

lemma cands_nul_scalar [simp]: "\<not> is_arr v \<Longrightarrow> cands (nul v) = [nul v]"
  by (cases v) (auto simp: nul_def)

interpretation mref: mongo_store mongo_ref
  by unfold_locales
     (auto simp: list_all_iff list_ex_iff lit_in_cands_nul cands_nul_ex_lit)

subsection \<open>The repository's in-memory matcher\<close>

text \<open>
  \<open><\<close> of the language on the operands the matcher is used with: two numbers, two strings,
  or a null field against a number (null counts as 0). Other mixtures of types are not
  modelled and end in the error value, as an unsupported operator does.
\<close>

fun js_lt :: "jsval \<Rightarrow> jsval \<Rightarrow> string + bool" where
  "js_lt (JNum a) (JNum b) = Inr (a < b)"
| "js_lt (JStr a) (JStr b) = Inr (a < b)"
| "js_lt JNull (JNum b) = Inr (0 < b)"
| "js_lt (JNum a) JNull = Inr (a < 0)"
| "js_lt _ _ = Inl ''unmodelled comparison''"

fun match_op :: "doc \<Rightarrow> string \<Rightarrow> mop \<Rightarrow> string + bool" where
  "match_op d k (OpVal c) = Inr (js_seq (nul (fld d k)) c)"
| "match_op d k (OpIn xs) =
     Inr (list_ex (\<lambda>x. js_seq x (nul (fld d k)) \<or> (x = JNull \<and> nul (fld d k) = JNull)) xs)"
| "match_op d k (OpNin xs) = Inr (\<not> js_includes xs (nul (fld d k)))"
| "match_op d k (OpLt x) = js_lt (nul (fld d k)) x"
| "match_op d k (OpGt x) = js_lt x (nul (fld d k))"
| "match_op d k (OpNe x) = Inr (\<not> js_seq (nul (fld d k)) x)"
| "match_op d k (OpExists b) = Inr ((map_of d k \<noteq> None) = b)"
| "match_op d k (OpEq _) = Inl ''unsupported op in test matcher: $eq''"
| "match_op d k (OpGte _) = Inl ''unsupported op in test matcher: $gte''"
| "match_op d k (OpLte _) = Inl ''unsupported op in test matcher: $lte''"

fun match_ops :: "doc \<Rightarrow> (string \<times> mop) list \<Rightarrow> string + bool" where
  "match_ops d [] = Inr True"
| "match_ops d ((k, c) # ps) =
     sbind (match_op d k c) (\<lambda>b. if b then match_ops d ps else Inr False)"

fun matchFilter :: "doc \<Rightarrow> mfilter \<Rightarrow> string + bool"
  and match_every :: "doc \<Rightarrow> mfilter list \<Rightarrow> string + bool"
  and match_some :: "doc \<Rightarrow> mfilter list \<Rightarrow> string + bool" where
  "matchFilter d (MFields ps) = match_ops d ps"
| "matchFilter d (MAnd fs) = match_every d fs"
| "matchFilter d (MOr fs) = match_some d fs"
| "matchFilter d (MNor fs) = sbind (match_some d fs) (\<lambda>b. Inr (\<not> b))"
| "match_every d [] = Inr True"
| "match_every d (f # fs) =
     sbind (matchFilter d f) (\<lambda>b. if b then match_every d fs else Inr False)"
| "match_some d [] = Inr False"
| "match_some d (f # fs) =
     sbind (matchFilter d f) (\<lambda>b. if b then Inr True else match_some d fs)"

definition fake_matches :: "mfilter \<Rightarrow> doc \<Rightarrow> bool" where
  "fake_matches f d \<longleftrightarrow> matchFilter d f = Inr True"

text \<open>On core filters the matcher never errs, and it computes the connectives.\<close>

lemma match_op_core: "core_op c \<Longrightarrow> \<exists>b. match_op d k c = Inr b"
  by (cases c) auto

lemma match_ops_core:
  "list_all (\<lambda>(k, c). core_op c) ps \<Longrightarrow>
    match_ops d ps = Inr (\<forall>(k, c) \<in> set ps. match_op d k c = Inr True)"
proof (induction ps)
  case (Cons p ps)
  obtain k c where p: "p = (k, c)" by (cases p)
  with Cons.prems obtain b where "match_op d k c = Inr b"
    using match_op_core [of c d k] by auto
  with Cons p show ?case by (cases b) auto
qed simp

lemma match_core:
  shows "core_filter f \<Longrightarrow> \<exists>b. matchFilter d f = Inr b"
    and "list_all core_filter fs \<Longrightarrow> match_every d fs = Inr (\<forall>f \<in> set fs. matchFilter d f = Inr True)"
    and "list_all core_filter fs \<Longrightarrow> match_some d fs = Inr (\<exists>f \<in> set fs. matchFilter d f = Inr True)"
proof (induction d f and d fs and d fs rule: matchFilter_match_every_match_some.induct)
  case (1 d ps)
  then show ?case by (simp add: match_ops_core)
next
  case (6 d f fs)
  then obtain b where "matchFilter d f = Inr b" by auto
  with 6 show ?case by (cases b) auto
next
  case (8 d f fs)
  then obtain b where "matchFilter d f = Inr b" by auto
  with 8 show ?case by (cases b) auto
qed auto

lemma fake_field [simp]: "fake_matches (mfield k c) d \<longleftrightarrow> match_op d k c = Inr True"
  by (cases "match_op d k c") (auto simp: fake_matches_def)

lemma nul_not_undef: "nul v \<noteq> JUndef"
  by (simp add: nul_def)

interpretation fake: mongo_core fake_matches
proof (unfold_locales, goal_cases)
  case (1 fs d)
  then show ?case using match_core(2) [of fs d] by (simp add: fake_matches_def)
next
  case (2 fs d)
  then show ?case using match_core(3) [of fs d] by (simp add: fake_matches_def)
next
  case (3 fs d)
  then show ?case using match_core(3) [of fs d] by (simp add: fake_matches_def)
next
  case (4 ps d)
  then have "match_ops d ps = Inr (\<forall>(k, c) \<in> set ps. match_op d k c = Inr True)"
    by (intro match_ops_core) simp
  then show ?case by (simp add: fake_matches_def [of "MFields ps"] case_prod_beta)
qed (auto simp: js_seq_prim_iff js_includes_iff list_ex_iff list_all_iff js_seq_sym [of _ "nul _"])

end
