(* ===== verification/AbacEval.thy ===== *)
theory AbacEval
  imports AbacNormalize MongoFilter
begin

text \<open>
  The three readers of a condition tree: \<open>resolveContextRefs\<close> (\<^verbatim>\<open>partial-eval.ts\<close>) replaces the
  references to the caller and the project by literals, \<open>evalGate\<close> (\<^verbatim>\<open>eval-gate.ts\<close>) decides
  one record, \<open>compileMongo\<close> (\<^verbatim>\<open>compile-mongo.ts\<close>) turns the rest into a read filter. What
  connects them: on validated conditions and records whose tested fields are no arrays, the
  filter selects exactly the records the gate accepts.
\<close>

subsection \<open>Partial evaluation\<close>

record eval_user =
  u_id :: string
  u_departmentId :: "string option"
  u_departmentChain :: "string list"
  u_leaderOfDepartmentIds :: "string list"
  u_role :: string

record eval_project =
  p_id :: string
  p_ownerType :: string
  p_ownerId :: string

record abac_ctx =
  c_user :: eval_user
  c_project :: eval_project

definition resolveUserAttr :: "abac_ctx \<Rightarrow> string \<Rightarrow> abac_err + jsval" where
  "resolveUserAttr ctx attr =
     (if attr = ''id'' then Inr (JStr (u_id (c_user ctx)))
      else if attr = ''departmentId'' then
        Inr (case u_departmentId (c_user ctx) of None \<Rightarrow> JNull | Some d \<Rightarrow> JStr d)
      else if attr = ''departmentChain'' then Inr (str_list (u_departmentChain (c_user ctx)))
      else if attr = ''leaderOfDepartmentIds'' then Inr (str_list (u_leaderOfDepartmentIds (c_user ctx)))
      else if attr = ''role'' then Inr (JStr (u_role (c_user ctx)))
      else Inl (UNKNOWN_CONTEXT_REF, ''$''))"

definition resolveProjectAttr :: "abac_ctx \<Rightarrow> string \<Rightarrow> abac_err + jsval" where
  "resolveProjectAttr ctx attr =
     (if attr = ''id'' then Inr (JStr (p_id (c_project ctx)))
      else if attr = ''ownerType'' then Inr (JStr (p_ownerType (c_project ctx)))
      else if attr = ''ownerId'' then Inr (JStr (p_ownerId (c_project ctx)))
      else Inl (UNKNOWN_CONTEXT_REF, ''$''))"

fun resolveOperand :: "abac_ctx \<Rightarrow> abac_operand \<Rightarrow> abac_err + abac_operand" where
  "resolveOperand ctx (OLit v) = Inr (OLit v)"
| "resolveOperand ctx (ORef r) =
     sbind (refNamespace r ''$'') (\<lambda>ns.
       if ns = NsRecord then Inr (ORef r)
       else sbind (if ns = NsUser then resolveUserAttr ctx (refField r) else resolveProjectAttr ctx (refField r))
              (\<lambda>v. Inr (OLit v)))"

fun resolveContextRefs :: "abac_ctx \<Rightarrow> abac_node \<Rightarrow> abac_err + abac_node" where
  "resolveContextRefs ctx (AndN ns) = sbind (smap (resolveContextRefs ctx) ns) (\<lambda>xs. Inr (AndN xs))"
| "resolveContextRefs ctx (OrN ns) = sbind (smap (resolveContextRefs ctx) ns) (\<lambda>xs. Inr (OrN xs))"
| "resolveContextRefs ctx (NotN n) = sbind (resolveContextRefs ctx n) (\<lambda>x. Inr (NotN x))"
| "resolveContextRefs ctx (Leaf c l r) =
     sbind (resolveOperand ctx l) (\<lambda>l'. sbind (resolveOperand ctx r) (\<lambda>r'. Inr (Leaf c l' r')))"

subsection \<open>The gate\<close>

definition fieldValue :: "doc \<Rightarrow> string \<Rightarrow> jsval" where
  "fieldValue d f = nul (fld d f)"

fun resolveValue :: "abac_operand \<Rightarrow> doc \<Rightarrow> abac_err + jsval" where
  "resolveValue (ORef r) d =
     (if starts_with r ''record.'' then Inr (fieldValue d (refField r)) else Inl (UNKNOWN_CONTEXT_REF, ''$''))"
| "resolveValue (OLit v) d = Inr v"

text \<open>\<open>ordCompare\<close> gives a sign or null.\<close>

definition ordCompare :: "jsval \<Rightarrow> jsval \<Rightarrow> cmp option" where
  "ordCompare a b = ord_cmp a b"

definition arr_of :: "jsval \<Rightarrow> jsval list" where
  "arr_of v = (case v of JArr xs \<Rightarrow> xs | _ \<Rightarrow> [])"

fun is_ref :: "abac_operand \<Rightarrow> bool" where
  "is_ref (ORef _) = True"
| "is_ref (OLit _) = False"

definition evalLeaf :: "abac_op \<Rightarrow> abac_operand \<Rightarrow> abac_operand \<Rightarrow> doc \<Rightarrow> abac_err + bool" where
  "evalLeaf c l r d =
     sbind (resolveValue l d) (\<lambda>lv.
     sbind (resolveValue r d) (\<lambda>rv.
       let recVal = (if is_ref l then lv else rv) in
       if js_nullish recVal then Inr False
       else Inr (case c of
           OEq \<Rightarrow> js_seq lv rv
         | ONe \<Rightarrow> \<not> js_seq lv rv
         | OGt \<Rightarrow> ordCompare lv rv = Some GreaterC
         | OGte \<Rightarrow> ordCompare lv rv = Some GreaterC \<or> ordCompare lv rv = Some EqC
         | OLt \<Rightarrow> ordCompare lv rv = Some LessC
         | OLte \<Rightarrow> ordCompare lv rv = Some LessC \<or> ordCompare lv rv = Some EqC
         | OIn \<Rightarrow> js_includes (arr_of rv) recVal
         | ONin \<Rightarrow> \<not> js_includes (arr_of rv) recVal)))"

text \<open>\<open>every\<close> and \<open>some\<close> stop at the first child that decides.\<close>

fun evalNode :: "abac_node \<Rightarrow> doc \<Rightarrow> abac_err + bool"
  and eval_every :: "abac_node list \<Rightarrow> doc \<Rightarrow> abac_err + bool"
  and eval_some :: "abac_node list \<Rightarrow> doc \<Rightarrow> abac_err + bool" where
  "evalNode (AndN ns) d = eval_every ns d"
| "evalNode (OrN ns) d = eval_some ns d"
| "evalNode (NotN n) d = sbind (evalNode n d) (\<lambda>b. Inr (\<not> b))"
| "evalNode (Leaf c l r) d = evalLeaf c l r d"
| "eval_every [] d = Inr True"
| "eval_every (n # ns) d = sbind (evalNode n d) (\<lambda>b. if b then eval_every ns d else Inr False)"
| "eval_some [] d = Inr False"
| "eval_some (n # ns) d = sbind (evalNode n d) (\<lambda>b. if b then Inr True else eval_some ns d)"

definition evalGate :: "abac_node \<Rightarrow> doc \<Rightarrow> abac_err + bool" where
  "evalGate n d = evalNode n d"

definition evalGateRaw :: "abac_node \<Rightarrow> doc \<Rightarrow> abac_err + bool" where
  "evalGateRaw n d = sbind (normalizeAbac n) (\<lambda>m. evalNode m d)"

subsection \<open>The compiler\<close>

definition FALSE_FRAGMENT :: mfilter where "FALSE_FRAGMENT = MNor [MFields []]"
definition TRUE_FRAGMENT :: mfilter where "TRUE_FRAGMENT = MFields []"

fun leafField :: "abac_operand \<Rightarrow> string \<Rightarrow> abac_err + string" where
  "leafField (ORef r) path =
     (if starts_with r ''record.'' then Inr (refField r) else Inl (NOT_COMPILABLE_MONGO, path))"
| "leafField (OLit v) path = Inl (NOT_COMPILABLE_MONGO, path)"

fun leafLiteral :: "abac_operand \<Rightarrow> string \<Rightarrow> abac_err + jsval" where
  "leafLiteral (OLit v) path = Inr v"
| "leafLiteral (ORef r) path = Inl (NOT_COMPILABLE_MONGO, path)"

definition presentGuards :: "string \<Rightarrow> mfilter list" where
  "presentGuards f = [mfield f (OpExists True), mfield f (OpNe JNull)]"

definition lit_list :: "jsval \<Rightarrow> jsval list" where
  "lit_list v = (case v of JArr xs \<Rightarrow> xs | _ \<Rightarrow> [v])"

definition compileLeaf :: "abac_op \<Rightarrow> abac_operand \<Rightarrow> abac_operand \<Rightarrow> string \<Rightarrow> abac_err + mfilter" where
  "compileLeaf c l r path =
     sbind (leafField l path) (\<lambda>f.
     sbind (leafLiteral r path) (\<lambda>L.
       Inr (case c of
           OEq \<Rightarrow> mfield f (OpEq L)
         | ONe \<Rightarrow> MAnd (presentGuards f @ [mfield f (OpNe L)])
         | OGt \<Rightarrow> mfield f (OpGt L)
         | OGte \<Rightarrow> mfield f (OpGte L)
         | OLt \<Rightarrow> mfield f (OpLt L)
         | OLte \<Rightarrow> mfield f (OpLte L)
         | OIn \<Rightarrow> mfield f (OpIn (lit_list L))
         | ONin \<Rightarrow> MAnd (presentGuards f @ [mfield f (OpNin (lit_list L))]))))"

fun compileNode :: "abac_node \<Rightarrow> string \<Rightarrow> abac_err + mfilter" where
  "compileNode (AndN ns) path =
     (if ns = [] then Inr TRUE_FRAGMENT
      else sbind (smap (\<lambda>(i, n). compileNode n (node_path path i)) (enumerate 0 ns)) (\<lambda>fs. Inr (MAnd fs)))"
| "compileNode (OrN ns) path =
     (if ns = [] then Inr FALSE_FRAGMENT
      else sbind (smap (\<lambda>(i, n). compileNode n (node_path path i)) (enumerate 0 ns)) (\<lambda>fs. Inr (MOr fs)))"
| "compileNode (NotN n) path = Inl (NOT_COMPILABLE_MONGO, path)"
| "compileNode (Leaf c l r) path = compileLeaf c l r path"

definition compileMongo :: "abac_node \<Rightarrow> abac_err + mfilter" where
  "compileMongo n = compileNode n ''$''"

definition compileMongoRaw :: "abac_node \<Rightarrow> abac_err + mfilter" where
  "compileMongoRaw n = sbind (normalizeAbac n) (\<lambda>m. compileNode m ''$'')"

subsection \<open>Residual trees\<close>

text \<open>A reference that is left reads the record.\<close>

fun rec_operand :: "abac_operand \<Rightarrow> bool" where
  "rec_operand (ORef r) = starts_with r ''record.''"
| "rec_operand (OLit _) = True"

abbreviation residual :: "abac_node \<Rightarrow> bool" where
  "residual n \<equiv> all_leaves (\<lambda>c l r. rec_operand l \<and> rec_operand r) n"

text \<open>The gate without its errors.\<close>

fun gate_leaf :: "abac_op \<Rightarrow> abac_operand \<Rightarrow> abac_operand \<Rightarrow> doc \<Rightarrow> bool" where
  "gate_leaf c l r d \<longleftrightarrow> evalLeaf c l r d = Inr True"

fun gate :: "abac_node \<Rightarrow> doc \<Rightarrow> bool" where
  "gate (Leaf c l r) d = gate_leaf c l r d"
| "gate (AndN ns) d = list_all (\<lambda>n. gate n d) ns"
| "gate (OrN ns) d = list_ex (\<lambda>n. gate n d) ns"
| "gate (NotN n) d = (\<not> gate n d)"

lemma rec_operand_value: "rec_operand x \<Longrightarrow> \<exists>v. resolveValue x d = Inr v"
  by (cases x) auto

lemma evalLeaf_residual: "rec_operand l \<Longrightarrow> rec_operand r \<Longrightarrow> evalLeaf c l r d = Inr (gate_leaf c l r d)"
  using rec_operand_value [of l d] rec_operand_value [of r d] by (auto simp: evalLeaf_def Let_def)

lemma eval_residual:
  shows "residual n \<Longrightarrow> evalNode n d = Inr (gate n d)"
    and "list_all residual ns \<Longrightarrow> eval_every ns d = Inr (list_all (\<lambda>n. gate n d) ns)"
    and "list_all residual ns \<Longrightarrow> eval_some ns d = Inr (list_ex (\<lambda>n. gate n d) ns)"
  by (induction n d and ns d and ns d rule: evalNode_eval_every_eval_some.induct)
     (auto simp: evalLeaf_residual simp del: gate_leaf.simps)

lemma resolveOperand_rec: "resolveOperand ctx x = Inr y \<Longrightarrow> rec_operand y"
  by (cases x) (auto simp: sbind_Inr refNamespace_def split: if_splits)

lemma resolve_residual: "resolveContextRefs ctx n = Inr m \<Longrightarrow> residual m"
proof (induction n arbitrary: m)
  case (AndN ns)
  then show ?case by (auto simp: sbind_Inr elim!: smap_list_all)
next
  case (OrN ns)
  then show ?case by (auto simp: sbind_Inr elim!: smap_list_all)
qed (auto simp: sbind_Inr dest: resolveOperand_rec)

lemma rec_operand_lit: "\<not> is_ref x \<Longrightarrow> \<exists>v. x = OLit v"
  by (cases x) auto

text \<open>C40: After the references of a condition are resolved, none to the caller or the project is
  left, and the gate then returns a verdict on every record: normalisation may refuse the
  condition, but evaluation never raises.\<close>

theorem resolved_condition_never_raises:
  assumes "resolveContextRefs ctx n = Inr m"
  shows "residual m \<and> is_ok (evalGate m d)
    \<and> (\<forall>k. normalizeAbac m = Inr k \<longrightarrow> residual k \<and> evalGateRaw m d = Inr (gate k d))"
proof -
  have m: "residual m" using assms by (rule resolve_residual)
  have "residual k" if "normalizeAbac m = Inr k" for k
    using normalize_leaves(3) [of "\<lambda>c l r. rec_operand l \<and> rec_operand r" m "''$''" k] that m by (simp add: normalizeAbac_def)
  with m show ?thesis by (auto simp: evalGate_def evalGateRaw_def eval_residual)
qed

definition sample_ctx :: abac_ctx where
  "sample_ctx = \<lparr>c_user = \<lparr>u_id = ''u1'', u_departmentId = None, u_departmentChain = [],
                          u_leaderOfDepartmentIds = [], u_role = ''member''\<rparr>,
                c_project = \<lparr>p_id = ''p1'', p_ownerType = ''user'', p_ownerId = ''u1''\<rparr>\<rparr>"

theorem resolved_condition_never_raises_witness:
  "let n = Leaf OEq (ORef ''record.authorId'') (ORef ''user.id'');
       m = Leaf OEq (ORef ''record.authorId'') (OLit (JStr ''u1''))
   in resolveContextRefs sample_ctx n = Inr m \<and> residual m
      \<and> evalGateRaw m [(''authorId'', JStr ''u1'')] = Inr (gate m [(''authorId'', JStr ''u1'')])"
proof -
  let ?n = "Leaf OEq (ORef ''record.authorId'') (ORef ''user.id'')"
  let ?m = "Leaf OEq (ORef ''record.authorId'') (OLit (JStr ''u1''))"
  have r: "resolveContextRefs sample_ctx ?n = Inr ?m"
    by (simp add: refNamespace_def refField_def sample_ctx_def resolveUserAttr_def)
  have "normalizeAbac ?m = Inr ?m" by (simp add: normalizeAbac_def)
  with resolved_condition_never_raises [OF r, of "[(''authorId'', JStr ''u1'')]"] r
  show ?thesis by (simp add: Let_def del: resolveContextRefs.simps gate.simps)
qed

subsection \<open>Gate and filter\<close>

text \<open>
  A leaf whose literal fits its operator, as validation demands: a field of the record
  against a scalar that is not null (an ordered one for an ordering), or against a list of
  such scalars.
\<close>

fun good_leaf :: "abac_op \<Rightarrow> abac_operand \<Rightarrow> abac_operand \<Rightarrow> bool" where
  "good_leaf c (ORef r) (OLit v) \<longleftrightarrow> starts_with r ''record.'' \<and>
     (case c of
        OEq \<Rightarrow> is_lit v | ONe \<Rightarrow> is_lit v
      | OIn \<Rightarrow> (\<exists>vs. v = JArr vs \<and> list_all is_lit vs) | ONin \<Rightarrow> (\<exists>vs. v = JArr vs \<and> list_all is_lit vs)
      | _ \<Rightarrow> is_ordlit v)"
| "good_leaf c _ _ = False"

text \<open>The fields a tree reads.\<close>

fun operand_fields :: "abac_operand \<Rightarrow> string list" where
  "operand_fields (ORef r) = (if starts_with r ''record.'' then [refField r] else [])"
| "operand_fields (OLit _) = []"

abbreviation scalar_fields :: "doc \<Rightarrow> abac_node \<Rightarrow> bool" where
  "scalar_fields d n \<equiv> all_leaves (\<lambda>c l r. list_all (\<lambda>f. \<not> is_arr (fld d f)) (operand_fields l)) n"

lemma good_leaf_rec: "good_leaf c l r \<Longrightarrow> rec_operand l \<and> rec_operand r"
  by (cases "(c, l, r)" rule: good_leaf.cases) auto

lemma ord_cmp_undef [simp]: "ord_cmp JUndef v = None" "ord_cmp JNull v = None"
  by (cases v; simp)+

lemma is_ordlit_lit: "is_ordlit v \<Longrightarrow> is_lit v" by (cases v) auto

lemma js_seq_lit: "is_lit v \<Longrightarrow> js_seq a v \<longleftrightarrow> a = v"
  by (simp add: js_seq_prim_iff is_lit_prim)

lemma js_includes_lit: "list_all is_lit vs \<Longrightarrow> js_includes vs v \<longleftrightarrow> v \<in> set vs"
  unfolding js_includes_iff list_all_iff by (metis js_seq_lit js_seq_sym)

lemma nul_cases: "nul v = (if js_nullish v then JNull else v)"
  by (cases v) auto

lemma is_lit_nullish: "is_lit v \<Longrightarrow> \<not> js_nullish v"
  by (cases v) auto

lemma nullish_fld_missing: "fld d f \<noteq> JUndef \<Longrightarrow> map_of d f \<noteq> None"
  by (auto simp: fld_def split: option.splits)

lemma gate_leaf_field:
  assumes "starts_with r ''record.''"
  shows "gate_leaf c (ORef r) (OLit v) d \<longleftrightarrow>
    \<not> js_nullish (fld d (refField r)) \<and>
    (let x = fld d (refField r) in case c of
        OEq \<Rightarrow> js_seq x v | ONe \<Rightarrow> \<not> js_seq x v
      | OGt \<Rightarrow> ord_cmp x v = Some GreaterC
      | OGte \<Rightarrow> ord_cmp x v = Some GreaterC \<or> ord_cmp x v = Some EqC
      | OLt \<Rightarrow> ord_cmp x v = Some LessC
      | OLte \<Rightarrow> ord_cmp x v = Some LessC \<or> ord_cmp x v = Some EqC
      | OIn \<Rightarrow> js_includes (arr_of v) x | ONin \<Rightarrow> \<not> js_includes (arr_of v) x)"
  using assms by (cases "js_nullish (fld d (refField r))")
    (auto simp: evalLeaf_def fieldValue_def nul_cases Let_def ordCompare_def split: abac_op.splits)

lemma js_nullish_iff: "js_nullish v \<longleftrightarrow> v = JUndef \<or> v = JNull"
  by (cases v) auto

lemma nullish_not_lit: "js_nullish v \<Longrightarrow> \<not> is_lit v" "js_nullish v \<Longrightarrow> ord_cmp v w = None"
  by (cases v; simp)+

lemma list_all_lit_nullish: "list_all is_lit vs \<Longrightarrow> js_nullish v \<Longrightarrow> v \<notin> set vs"
  by (auto simp: list_all_iff nullish_not_lit)

lemma js_seq_fld: "is_lit v \<Longrightarrow> js_nullish x \<Longrightarrow> x \<noteq> v"
  using nullish_not_lit by blast

context mongo_store
begin

lemma guards_agree:
  "\<not> is_arr (fld d f) \<Longrightarrow> (\<forall>g \<in> set (presentGuards f). mt g d) \<longleftrightarrow> \<not> js_nullish (fld d f)"
  by (auto simp: presentGuards_def core_exists ne_null nul_cases js_nullish_iff fld_def split: option.splits)

lemma leaf_agrees:
  assumes good: "good_leaf c (ORef r) (OLit v)" and scal: "\<not> is_arr (fld d (refField r))"
    and comp: "compileLeaf c (ORef r) (OLit v) path = Inr F"
  shows "gate_leaf c (ORef r) (OLit v) d \<longleftrightarrow> mt F d"
proof -
  have rec: "starts_with r ''record.''" using good by (cases c) auto
  note gl = gate_leaf_field [OF rec] and cl = comp [unfolded compileLeaf_def]
  note lits = js_seq_lit js_seq_fld js_includes_lit list_all_lit_nullish nullish_not_lit arr_of_def lit_list_def
  show ?thesis
  proof (cases c)
    case ONe
    with good cl guards_agree [OF scal] scal show ?thesis
      by (auto simp: gl rec all_and ball_Un ne_lit lits simp del: gate_leaf.simps)
  next
    case ONin
    with good obtain vs where "v = JArr vs" "list_all is_lit vs" by auto
    with ONin cl guards_agree [OF scal] scal show ?thesis
      by (auto simp: gl rec all_and ball_Un nin_lit lits simp del: gate_leaf.simps)
  next
    case OIn
    with good obtain vs where "v = JArr vs" "list_all is_lit vs" by auto
    with OIn cl scal show ?thesis
      by (cases "js_nullish (fld d (refField r))") (auto simp: gl rec in_lit lits simp del: gate_leaf.simps)
  next
    case OEq
    with good cl scal show ?thesis
      by (cases "js_nullish (fld d (refField r))") (auto simp: gl rec eq_lit lits simp del: gate_leaf.simps)
  qed (use good cl scal in \<open>cases "js_nullish (fld d (refField r))";
         auto simp: gl rec gt_lit gte_lit lt_lit lte_lit lits simp del: gate_leaf.simps\<close>)+
qed

lemma compile_agrees:
  assumes "compileNode n path = Inr F" "all_leaves good_leaf n" "scalar_fields d n"
  shows "gate n d \<longleftrightarrow> mt F d"
  using assms
proof (induction n path arbitrary: F rule: compileNode.induct)
  case (1 ns path)
  show ?case
  proof (cases "ns = []")
    case True
    with 1 show ?thesis by (auto simp: TRUE_FRAGMENT_def all_fields [of "[]"])
  next
    case False
    with 1 obtain fs where fs: "smap (\<lambda>(i, n). compileNode n (node_path path i)) (enumerate 0 ns) = Inr fs" "F = MAnd fs"
      by (auto simp: sbind_Inr)
    have "list_all2 (\<lambda>n f. gate n d \<longleftrightarrow> mt f d) ns fs"
      by (rule smap_enumerate_step [OF fs(1)])
         (use 1 False in \<open>auto simp: list_all_iff in_set_enumerate_eq\<close>)
    then have "list_all (\<lambda>n. gate n d) ns \<longleftrightarrow> (\<forall>f \<in> set fs. mt f d)"
      by (induction rule: list_all2_induct) auto
    with fs show ?thesis by (simp add: all_and)
  qed
next
  case (2 ns path)
  show ?case
  proof (cases "ns = []")
    case True
    with 2 show ?thesis by (auto simp: FALSE_FRAGMENT_def all_fields [of "[]"] all_nor)
  next
    case False
    with 2 obtain fs where fs: "smap (\<lambda>(i, n). compileNode n (node_path path i)) (enumerate 0 ns) = Inr fs" "F = MOr fs"
      by (auto simp: sbind_Inr)
    have "list_all2 (\<lambda>n f. gate n d \<longleftrightarrow> mt f d) ns fs"
      by (rule smap_enumerate_step [OF fs(1)])
         (use 2 False in \<open>auto simp: list_all_iff in_set_enumerate_eq\<close>)
    then have "list_ex (\<lambda>n. gate n d) ns \<longleftrightarrow> (\<exists>f \<in> set fs. mt f d)"
      by (induction rule: list_all2_induct) auto
    with fs show ?thesis by (simp add: all_or)
  qed
next
  case (4 c l r path)
  then obtain x v where lr: "l = ORef x" "r = OLit v"
    by (cases "(c, l, r)" rule: good_leaf.cases) auto
  with 4 have "starts_with x ''record.''" using good_leaf_rec [of c l r] by simp
  with 4 lr leaf_agrees [of c x v d path F] show ?case
    by (simp del: good_leaf.simps(1) gate_leaf.simps)
qed simp

end

text \<open>A normalised tree of good leaves always compiles.\<close>

lemma good_leaf_compiles: "good_leaf c l r \<Longrightarrow> is_ok (compileLeaf c l r path)"
  by (cases "(c, l, r)" rule: good_leaf.cases) (auto simp: compileLeaf_def)

lemma nf_compiles: "nf n \<Longrightarrow> all_leaves good_leaf n \<Longrightarrow> is_ok (compileNode n path)"
proof (induction n path rule: compileNode.induct)
  case (1 ns path)
  then have "is_ok (smap (\<lambda>(i, n). compileNode n (node_path path i)) (enumerate 0 ns)) = list_all (\<lambda>_. True) ns"
    if "ns \<noteq> []" by (intro is_ok_smap_enum) (use that 1 in \<open>auto simp: list_all_iff in_set_enumerate_eq\<close>)
  then show ?case by (simp add: is_ok_sbind_total list_all_iff)
next
  case (2 ns path)
  then have "is_ok (smap (\<lambda>(i, n). compileNode n (node_path path i)) (enumerate 0 ns)) = list_all (\<lambda>_. True) ns"
    if "ns \<noteq> []" by (intro is_ok_smap_enum) (use that 2 in \<open>auto simp: list_all_iff in_set_enumerate_eq\<close>)
  then show ?case by (simp add: is_ok_sbind_total list_all_iff)
qed (auto simp: good_leaf_compiles)

lemma good_leaf_negate: "good_leaf ONe l r = good_leaf OEq l r" "good_leaf ONin l r = good_leaf OIn l r"
  by (cases "(OEq, l, r)" rule: good_leaf.cases; auto)+

lemma good_residual: "all_leaves good_leaf n \<Longrightarrow> residual n"
  by (induction n) (auto simp: list_all_iff dest: good_leaf_rec)

lemma gate_filter_agree:
  assumes st: "mongo_store mt" and ok: "neg_ok True n" and good: "all_leaves good_leaf n"
    and scal: "scalar_fields d n"
  shows "\<exists>F. compileMongoRaw n = Inr F \<and> evalGateRaw n d = Inr (mt F d)"
proof -
  obtain m where m: "normalize n ''$'' = Inr m"
    using ok normalize_ok_iff(3) [of n "''$''"] by (auto simp: is_ok_iff)
  have gm: "all_leaves good_leaf m" using normalize_leaves(3) [of good_leaf, OF good_leaf_negate m] good by simp
  have sm: "scalar_fields d m" 
    using normalize_leaves(3) [of "\<lambda>c l r. list_all (\<lambda>f. \<not> is_arr (fld d f)) (operand_fields l)" n "''$''" m] m scal by simp
  obtain F where F: "compileNode m ''$'' = Inr F"
    using nf_compiles [OF normalize_nf(3) [OF m] gm] by (auto simp: is_ok_iff)
  have "gate m d \<longleftrightarrow> mt F d"
    by (rule mongo_store.compile_agrees [OF st F gm sm])
  with m F show ?thesis
    by (simp add: compileMongoRaw_def evalGateRaw_def normalizeAbac_def eval_residual good_residual [OF gm])
qed

text \<open>C2: The gate and the compiled filter agree. For a condition that normalises and whose leaves
  compare a record field with a fitting literal, the condition compiles, and on every document
  whose tested fields are not arrays a store that follows the documented operators selects the
  document exactly when the gate accepts it; in particular a missing or null field passes neither.\<close>

theorem gate_equals_filter:
  assumes "mongo_store mt" "neg_ok True n" "all_leaves good_leaf n" "scalar_fields d n"
  shows "\<exists>F. compileMongoRaw n = Inr F \<and> evalGateRaw n d = Inr (mt F d)"
  using assms by (rule gate_filter_agree)

theorem gate_equals_filter_witness:
  "\<exists>F. compileMongoRaw (NotN (Leaf OEq (ORef ''record.status'') (OLit (JStr ''lost'')))) = Inr F
     \<and> evalGateRaw (NotN (Leaf OEq (ORef ''record.status'') (OLit (JStr ''lost'')))) [(''status'', JStr ''won'')]
       = Inr (mongo_ref F [(''status'', JStr ''won'')])"
  by (rule gate_equals_filter [OF mref.mongo_store_axioms]) (simp_all add: fld_def refField_def)

text \<open>On an array field the two sides of the access check differ: for the list of tags of a
  record, the compiled filter of \<open>tags in [vip]\<close> selects a document tagged \<open>vip\<close> while the gate
  refuses it, and the filter of \<open>tags nin [vip]\<close> rejects it while the gate accepts it. The
  agreement above therefore needs its condition on the tested fields.\<close>

theorem gate_and_filter_differ_on_arrays:
  assumes "mongo_store mt" "c = OIn \<or> c = ONin"
  shows "\<exists>F. compileMongoRaw (Leaf c (ORef ''record.tags'') (OLit (JArr [JStr ''vip'']))) = Inr F
    \<and> evalGateRaw (Leaf c (ORef ''record.tags'') (OLit (JArr [JStr ''vip''])))
          [(''tags'', JArr [JStr ''vip'', JStr ''new''])]
      = Inr (\<not> mt F [(''tags'', JArr [JStr ''vip'', JStr ''new''])])"
  using assms(2)
  by (auto simp: compileMongoRaw_def evalGateRaw_def normalizeAbac_def compileLeaf_def evalLeaf_def refField_def
      fieldValue_def fld_def lit_list_def arr_of_def js_includes_def presentGuards_def mongo_store.all_and [OF assms(1)]
      mongo_store.in_lit [OF assms(1)] mongo_store.nin_lit [OF assms(1)] mongo_store.ne_null [OF assms(1)]
      mongo_core.core_exists [OF mongo_store.axioms(1) [OF assms(1)]])

theorem gate_and_filter_differ_on_arrays_witness:
  "\<exists>F. compileMongoRaw (Leaf OIn (ORef ''record.tags'') (OLit (JArr [JStr ''vip'']))) = Inr F
    \<and> evalGateRaw (Leaf OIn (ORef ''record.tags'') (OLit (JArr [JStr ''vip''])))
          [(''tags'', JArr [JStr ''vip'', JStr ''new''])]
      = Inr (\<not> mongo_ref F [(''tags'', JArr [JStr ''vip'', JStr ''new''])])"
  by (rule gate_and_filter_differ_on_arrays [OF mref.mongo_store_axioms]) simp

text \<open>A set test whose left side was resolved to a literal ignores it: \<open>in\<close> is then false
  and \<open>nin\<close> true whatever the caller is and whatever the list holds, since the gate looks the
  list up in itself. The test \<open>user.role in [..]\<close> can therefore never hold in the gate.\<close>

theorem gate_set_test_ignores_literal_left:
  "evalGateRaw (Leaf OIn (OLit v) (OLit (JArr vs))) d = Inr False
    \<and> evalGateRaw (Leaf ONin (OLit v) (OLit (JArr vs))) d = Inr True"
proof -
  have "\<not> js_includes vs (JArr vs)"
    by (simp add: js_includes_iff)
  then show ?thesis
    by (simp add: evalGateRaw_def normalizeAbac_def evalLeaf_def arr_of_def)
qed

theorem gate_set_test_ignores_literal_left_witness:
  "(let n = Leaf OIn (ORef ''user.role'') (OLit (JArr [JStr ''member''])) in
    sbind (resolveContextRefs sample_ctx n) (\<lambda>m. evalGateRaw m [])) = Inr False"
  using gate_set_test_ignores_literal_left [of "JStr ''member''" "[JStr ''member'']" "[]"]
  by (simp add: Let_def refNamespace_def resolveUserAttr_def sample_ctx_def refField_def)

end
