(* ===== verification/AbacValidate.thy ===== *)
theory AbacValidate
  imports AbacEval
begin

text \<open>
  Validation of a parsed condition against the operand catalog of its subject
  (\<^verbatim>\<open>shared/src/abac/validate.ts\<close>), as it is meant to run when a rule is saved, and the
  compiler for relational stores, which always refuses (\<^verbatim>\<open>compile-postgres.ts\<close>). What
  validation accepts is enforceable: it compiles, reads whitelisted fields only and needs
  no reference to the caller.
\<close>

datatype operand_type = TString | TNumber | TBoolean | TDate | TId

record operand_desc =
  od_path :: string
  od_type :: operand_type
  od_ops :: "abac_op list"

datatype abac_backend = BMongo | BPostgres | BMongoOnly

record abac_vctx =
  v_operands :: "operand_desc list"
  v_backend :: "abac_backend option"

definition PLATFORM_OPERANDS :: "(string \<times> operand_type) list" where
  "PLATFORM_OPERANDS =
     [(''user.id'', TId), (''user.departmentId'', TId), (''user.departmentChain'', TId),
      (''user.leaderOfDepartmentIds'', TId), (''user.role'', TString),
      (''project.id'', TId), (''project.ownerType'', TString), (''project.ownerId'', TId)]"

definition ORDERED_OPS :: "abac_op list" where
  "ORDERED_OPS = [OGt, OGte, OLt, OLte]"

text \<open>The type of a literal; \<open>None\<close> is null.\<close>

fun litType :: "jsval \<Rightarrow> operand_type option" where
  "litType JNull = None"
| "litType (JNum _) = Some TNumber"
| "litType (JBool _) = Some TBoolean"
| "litType _ = Some TString"

definition literalMatchesType :: "jsval \<Rightarrow> operand_type \<Rightarrow> bool" where
  "literalMatchesType v t =
     (case litType v of
        None \<Rightarrow> False
      | Some lt \<Rightarrow> (case t of TNumber \<Rightarrow> lt = TNumber | TBoolean \<Rightarrow> lt = TBoolean | _ \<Rightarrow> lt = TString))"

definition descriptorFor :: "string \<Rightarrow> abac_vctx \<Rightarrow> string \<Rightarrow> abac_err + operand_type \<times> abac_op list option" where
  "descriptorFor r ctx path =
     sbind (refNamespace r path) (\<lambda>ns.
       if ns = NsRecord then
         (case find (\<lambda>desc. od_path desc = r) (v_operands ctx) of
            None \<Rightarrow> Inl (OPERAND_NOT_ALLOWED, path)
          | Some d \<Rightarrow> Inr (od_type d, Some (od_ops d)))
       else
         (case map_of PLATFORM_OPERANDS r of
            None \<Rightarrow> Inl (OPERAND_NOT_ALLOWED, path)
          | Some t \<Rightarrow> Inr (t, None)))"

fun check_elems :: "operand_type \<Rightarrow> string \<Rightarrow> nat \<Rightarrow> jsval list \<Rightarrow> abac_err + unit" where
  "check_elems t path i [] = Inr ()"
| "check_elems t path i (x # xs) =
     (if x = JNull then Inl (NULL_IN_LITERAL_ARRAY, path @ ''.right['' @ nat_str i @ '']'')
      else if \<not> literalMatchesType x t then Inl (TYPE_MISMATCH, path @ ''.right['' @ nat_str i @ '']'')
      else check_elems t path (Suc i) xs)"

definition check_right :: "abac_op \<Rightarrow> abac_operand \<Rightarrow> operand_type \<Rightarrow> string \<Rightarrow> abac_err + unit" where
  "check_right c r t path =
     (if c = OIn \<or> c = ONin then
        (case r of OLit (JArr xs) \<Rightarrow> check_elems t path 0 xs
         | _ \<Rightarrow> Inl (FIELD_VS_FIELD_UNSUPPORTED, path @ ''.right''))
      else
        (case r of
           ORef _ \<Rightarrow> Inl (FIELD_VS_FIELD_UNSUPPORTED, path @ ''.right'')
         | OLit v \<Rightarrow>
             if is_arr v then Inl (TYPE_MISMATCH, path @ ''.right'')
             else if v = JNull then Inl (NULL_LITERAL_COMPARE, path @ ''.right'')
             else if \<not> literalMatchesType v t then Inl (TYPE_MISMATCH, path @ ''.right'')
             else Inr ()))"

definition validateLeaf :: "abac_op \<Rightarrow> abac_operand \<Rightarrow> abac_operand \<Rightarrow> abac_vctx \<Rightarrow> string \<Rightarrow> abac_err + unit" where
  "validateLeaf c l r ctx path =
     (case l of
        OLit _ \<Rightarrow> Inl (OPERAND_NOT_ALLOWED, path @ ''.left'')
      | ORef f \<Rightarrow>
          sbind (descriptorFor f ctx (path @ ''.left'')) (\<lambda>(t, ops).
            if t = TDate then Inl (DATE_OPERAND_UNSUPPORTED, path @ ''.left'')
            else if (case ops of None \<Rightarrow> False | Some os \<Rightarrow> c \<notin> set os) then Inl (OPERATOR_NOT_SUPPORTED, path @ ''.op'')
            else if c \<in> set ORDERED_OPS \<and> (t = TBoolean \<or> t = TId) then Inl (TYPE_MISMATCH, path @ ''.op'')
            else check_right c r t path))"

fun validateNode :: "abac_node \<Rightarrow> abac_vctx \<Rightarrow> string \<Rightarrow> abac_err + unit" where
  "validateNode (AndN ns) ctx path =
     sbind (smap (\<lambda>(i, n). validateNode n ctx (node_path path i)) (enumerate 0 ns)) (\<lambda>_. Inr ())"
| "validateNode (OrN ns) ctx path =
     sbind (smap (\<lambda>(i, n). validateNode n ctx (node_path path i)) (enumerate 0 ns)) (\<lambda>_. Inr ())"
| "validateNode (NotN n) ctx path = validateNode n ctx (path @ ''.node'')"
| "validateNode (Leaf c l r) ctx path = validateLeaf c l r ctx path"

fun reads_record :: "abac_operand \<Rightarrow> bool" where
  "reads_record (ORef r) = starts_with r ''record.''"
| "reads_record (OLit _) = False"

fun referencesRecord :: "abac_node \<Rightarrow> bool" where
  "referencesRecord (AndN ns) = list_ex referencesRecord ns"
| "referencesRecord (OrN ns) = list_ex referencesRecord ns"
| "referencesRecord (NotN n) = referencesRecord n"
| "referencesRecord (Leaf c l r) = (reads_record l \<or> reads_record r)"

definition validateAbac :: "abac_node \<Rightarrow> abac_vctx \<Rightarrow> abac_err + unit" where
  "validateAbac n ctx =
     sbind (validateNode n ctx ''$'') (\<lambda>_.
     sbind (guard_err (\<not> ((case v_backend ctx of None \<Rightarrow> BMongo | Some b \<Rightarrow> b) \<noteq> BMongo \<and> referencesRecord n))
              (ABAC_BACKEND_UNSUPPORTED, ''$'')) (\<lambda>_.
     sbind (normalizeAbac n) (\<lambda>m.
     sbind (compileMongo m) (\<lambda>_. Inr ()))))"

definition collectAbacErrors :: "abac_node \<Rightarrow> abac_vctx \<Rightarrow> abac_code list" where
  "collectAbacErrors n ctx = (case validateAbac n ctx of Inl (code, _) \<Rightarrow> [code] | Inr _ \<Rightarrow> [])"

definition compilePostgres :: "abac_node \<Rightarrow> abac_err + mfilter" where
  "compilePostgres n = Inl (ABAC_BACKEND_UNSUPPORTED, ''$'')"


subsection \<open>What validation guarantees\<close>

text \<open>A leaf the catalog allows: a listed field with one of its operators.\<close>

fun catalog_leaf :: "abac_vctx \<Rightarrow> abac_op \<Rightarrow> abac_operand \<Rightarrow> abac_operand \<Rightarrow> bool" where
  "catalog_leaf ctx c (ORef r) (OLit v) \<longleftrightarrow>
     (\<exists>d \<in> set (v_operands ctx). od_path d = r \<and> c \<in> set (od_ops d) \<and> od_type d \<noteq> TDate)"
| "catalog_leaf ctx c _ _ = False"

text \<open>The compiler takes a field of the record on the left and a literal on the right.\<close>

fun rec_leaf :: "abac_op \<Rightarrow> abac_operand \<Rightarrow> abac_operand \<Rightarrow> bool" where
  "rec_leaf c (ORef r) (OLit v) = starts_with r ''record.''"
| "rec_leaf c _ _ = False"

lemma rec_leaf_op: "rec_leaf c l r = rec_leaf c' l r"
  by (cases "(c, l, r)" rule: rec_leaf.cases) auto

lemma compiled_leaves: "compileNode n path = Inr F \<Longrightarrow> all_leaves rec_leaf n"
proof (induction n path arbitrary: F rule: compileNode.induct)
  case (1 ns path)
  show ?case
  proof (cases "ns = []")
    case False
    with 1 obtain fs where fs: "smap (\<lambda>(i, n). compileNode n (node_path path i)) (enumerate 0 ns) = Inr fs"
      by (auto simp: sbind_Inr)
    have "list_all2 (\<lambda>n f. all_leaves rec_leaf n) ns fs"
      by (rule smap_enumerate_step [OF fs]) (use 1 False in auto)
    then show ?thesis by (simp add: list_all2_conv_all_nth list_all_length)
  qed simp
next
  case (2 ns path)
  show ?case
  proof (cases "ns = []")
    case False
    with 2 obtain fs where fs: "smap (\<lambda>(i, n). compileNode n (node_path path i)) (enumerate 0 ns) = Inr fs"
      by (auto simp: sbind_Inr)
    have "list_all2 (\<lambda>n f. all_leaves rec_leaf n) ns fs"
      by (rule smap_enumerate_step [OF fs]) (use 2 False in auto)
    then show ?thesis by (simp add: list_all2_conv_all_nth list_all_length)
  qed simp
next
  case (4 c l r path)
  then show ?case
    by (cases "(c, l, r)" rule: rec_leaf.cases) (auto simp: compileLeaf_def sbind_Inr split: if_splits)
qed simp

lemma validateNode_leaves:
  "validateNode n ctx path = Inr () \<Longrightarrow> all_leaves (\<lambda>c l r. \<exists>p. validateLeaf c l r ctx p = Inr ()) n"
proof (induction n ctx path rule: validateNode.induct)
  case (1 ns ctx path)
  then obtain us where us: "smap (\<lambda>(i, n). validateNode n ctx (node_path path i)) (enumerate 0 ns) = Inr us"
    by (auto simp: sbind_Inr)
  have "list_all2 (\<lambda>n u. all_leaves (\<lambda>c l r. \<exists>p. validateLeaf c l r ctx p = Inr ()) n) ns us"
    by (rule smap_enumerate_step [OF us]) (use 1 in auto)
  then show ?case by (simp add: list_all2_conv_all_nth list_all_length)
next
  case (2 ns ctx path)
  then obtain us where us: "smap (\<lambda>(i, n). validateNode n ctx (node_path path i)) (enumerate 0 ns) = Inr us"
    by (auto simp: sbind_Inr)
  have "list_all2 (\<lambda>n u. all_leaves (\<lambda>c l r. \<exists>p. validateLeaf c l r ctx p = Inr ()) n) ns us"
    by (rule smap_enumerate_step [OF us]) (use 2 in auto)
  then show ?case by (simp add: list_all2_conv_all_nth list_all_length)
qed auto

lemma wf_node_leaves: "wf_node n \<Longrightarrow> all_leaves (\<lambda>c l r. wf_operand r) n"
  by (induction n) (auto simp: list_all_iff)

lemma check_elems_lits:
  "check_elems t path i xs = Inr () \<Longrightarrow> list_all is_prim xs \<Longrightarrow> list_all is_lit xs"
proof (induction xs arbitrary: i)
  case (Cons x xs)
  then show ?case by (cases x) (auto split: if_splits)
qed simp

lemma literal_ordlit:
  "literalMatchesType v t \<Longrightarrow> is_prim v \<Longrightarrow> is_lit v \<and> (t \<noteq> TBoolean \<longrightarrow> is_ordlit v)"
  by (cases v; cases t) (auto simp: literalMatchesType_def)

lemma validateLeaf_good:
  assumes v: "validateLeaf c l r ctx p = Inr ()" and rl: "rec_leaf c l r" and wf: "wf_operand r"
  shows "good_leaf c l r \<and> catalog_leaf ctx c l r"
proof -
  obtain f v where lr: "l = ORef f" "r = OLit v" and f: "starts_with f ''record.''"
    using rl by (cases "(c, l, r)" rule: rec_leaf.cases) auto
  then obtain d where d: "find (\<lambda>desc. od_path desc = f) (v_operands ctx) = Some d" "od_type d \<noteq> TDate"
      "c \<in> set (od_ops d)" "\<not> (c \<in> set ORDERED_OPS \<and> (od_type d = TBoolean \<or> od_type d = TId))"
      "check_right c r (od_type d) p = Inr ()"
    using v by (auto simp: validateLeaf_def descriptorFor_def refNamespace_def sbind_Inr split: option.splits if_splits)
  have "catalog_leaf ctx c l r"
    using d lr by (auto simp: find_Some_iff)
  moreover have "good_leaf c l r"
  proof (cases "c = OIn \<or> c = ONin")
    case True
    then show ?thesis
      using d(5) lr f wf check_elems_lits [of "od_type d" p 0]
      by (auto simp: check_right_def split: jsval.splits)
  next
    case False
    then have m: "literalMatchesType v (od_type d)" "is_prim v"
      using d(5) lr wf by (cases v; auto simp: check_right_def split: if_splits)+
    with False d(4) f lr show ?thesis
      using literal_ordlit [OF m] by (cases c) (auto simp: ORDERED_OPS_def)
  qed
  ultimately show ?thesis by simp
qed

lemma all_leaves_mono3:
  "all_leaves A n \<Longrightarrow> all_leaves B n \<Longrightarrow> all_leaves C n \<Longrightarrow>
    (\<And>c l r. A c l r \<Longrightarrow> B c l r \<Longrightarrow> C c l r \<Longrightarrow> D c l r) \<Longrightarrow> all_leaves D n"
  by (induction n) (auto simp: list_all_iff)

lemma validated_leaves:
  assumes v: "validateAbac n ctx = Inr ()" and wf: "wf_node n"
  shows "all_leaves good_leaf n" "all_leaves (catalog_leaf ctx) n" "neg_ok True n"
proof -
  from v obtain m F where vn: "validateNode n ctx ''$'' = Inr ()" and m: "normalize n ''$'' = Inr m"
    and F: "compileNode m ''$'' = Inr F"
    by (auto simp: validateAbac_def normalizeAbac_def compileMongo_def sbind_Inr)
  have rl: "all_leaves rec_leaf n"
    using compiled_leaves [OF F] normalize_leaves(3) [OF _ _ m, of rec_leaf] rec_leaf_op by blast
  show "all_leaves good_leaf n" "all_leaves (catalog_leaf ctx) n"
    by (rule all_leaves_mono3 [OF validateNode_leaves [OF vn] rl wf_node_leaves [OF wf]]; use validateLeaf_good in blast)+
  show "neg_ok True n" using normalize_ok_iff(3) [of n "''$''"] m by simp
qed

lemma good_no_context: "all_leaves good_leaf n \<Longrightarrow> resolveContextRefs ctx n = Inr n"
proof (induction n)
  case (Leaf c l r)
  then obtain f v where "l = ORef f" "r = OLit v" "starts_with f ''record.''"
    by (cases "(c, l, r)" rule: good_leaf.cases) auto
  then show ?case by (simp add: refNamespace_def)
next
  case (AndN ns)
  then show ?case by (simp add: list_all_iff smap_Inr list_all2_same sbind_Inr)
next
  case (OrN ns)
  then show ?case by (simp add: list_all_iff smap_Inr list_all2_same sbind_Inr)
qed simp

text \<open>C3: A rule condition that parses and validates is enforceable as it stands: it compiles, it
  reads only fields of its subject's catalog with the operators listed there, its gate and its
  filter agree on every document that holds no array in the fields the condition reads (on an array
  field \<open>in\<close> and \<open>nin\<close> give opposite answers), and resolving it against any caller changes nothing. In particular no condition that mentions the caller or the project ever validates,
  although the platform operands are listed for it.\<close>

theorem validated_rule_enforceable:
  assumes "parseAbac json = Inr n" "validateAbac n ctx = Inr ()" "mongo_store mt"
  shows "all_leaves (catalog_leaf ctx) n \<and> resolveContextRefs caller n = Inr n
    \<and> (\<exists>F. compileMongoRaw n = Inr F \<and> (scalar_fields d n \<longrightarrow> evalGateRaw n d = Inr (mt F d)))"
proof -
  have "wf_node n" using assms(1) parseNode_wf by (simp add: parseAbac_def)
  note vl = validated_leaves [OF assms(2) this]
  have "\<exists>F. compileMongoRaw n = Inr F"
  proof -
    have "scalar_fields [] n" using vl(1) by (induction n) (auto simp: list_all_iff fld_def operand_fields.simps elim: good_leaf.elims)
    then show ?thesis using gate_filter_agree [OF assms(3) vl(3,1)] by blast
  qed
  then show ?thesis
    using vl good_no_context gate_filter_agree [OF assms(3) vl(3,1), of d] by fastforce
qed

definition deals_ctx :: abac_vctx where
  "deals_ctx = \<lparr>v_operands = [\<lparr>od_path = ''record.amount'', od_type = TNumber, od_ops = [OLt, OLte]\<rparr>], v_backend = None\<rparr>"

theorem validated_rule_enforceable_witness:
  "let n = Leaf OLt (ORef ''record.amount'') (OLit (JNum 1000000)) in
    \<exists>F. compileMongoRaw n = Inr F \<and> evalGateRaw n [(''amount'', JNum 5)] = Inr (mongo_ref F [(''amount'', JNum 5)])"
proof -
  let ?n = "Leaf OLt (ORef ''record.amount'') (OLit (JNum 1000000))"
  have "wf_node ?n"
    by (simp add: refNamespace_def RECORD_FLAT_FIELD_RE_def is_word_start_def is_word_char_def less_eq_char_def)
  then have p: "parseAbac (node_js ?n) = Inr ?n" unfolding parseAbac_def by (rule parse_print)
  have "validateAbac ?n deals_ctx = Inr ()"
    by (simp add: validateAbac_def deals_ctx_def validateLeaf_def descriptorFor_def refNamespace_def ORDERED_OPS_def
        check_right_def literalMatchesType_def normalizeAbac_def compileMongo_def compileLeaf_def guard_err_def)
  moreover have "scalar_fields [(''amount'', JNum 5)] ?n" by (simp add: operand_fields.simps fld_def)
  ultimately show ?thesis
    using validated_rule_enforceable [OF p _ mref.mongo_store_axioms] unfolding Let_def by blast
qed

end
