(* ===== verification/Rbac.thy ===== *)
theory Rbac
  imports Prelude
begin

text \<open>
  The role matrix of \<^verbatim>\<open>shared/src/rbac.ts\<close> (first part): project roles and the actions they
  may perform, the per-role key allow-list and deny-list laid over the matrix, the rank
  of the roles, and the legacy visibility levels with their per-role floor.
  A role argument \<open>string | undefined | null\<close> is a \<open>string option\<close>.
\<close>

subsection \<open>Roles and actions\<close>

datatype project_role = Owner | Admin | Manager | Member | Viewer

fun role_name :: "project_role \<Rightarrow> string" where
  "role_name Owner = ''owner''"
| "role_name Admin = ''admin''"
| "role_name Manager = ''manager''"
| "role_name Member = ''member''"
| "role_name Viewer = ''viewer''"

definition PROJECT_ROLES :: "project_role list" where
  "PROJECT_ROLES = [Owner, Admin, Manager, Member, Viewer]"

definition role_of :: "string \<Rightarrow> project_role option" where
  "role_of s = List.find (\<lambda>r. role_name r = s) PROJECT_ROLES"

definition ORG_ROLES :: "string list" where
  "ORG_ROLES = [''platform_owner'', ''platform_admin'', ''employee'']"

fun isProjectRole :: "jsval \<Rightarrow> bool" where
  "isProjectRole (JStr s) = (role_of s \<noteq> None)"
| "isProjectRole _ = False"

fun isOrgRole :: "jsval \<Rightarrow> bool" where
  "isOrgRole (JStr s) = (s \<in> set ORG_ROLES)"
| "isOrgRole _ = False"

definition ALL_ACTIONS :: "string list" where
  "ALL_ACTIONS = [''read'', ''write'', ''delete'', ''manage'', ''move'', ''export'', ''import'',
     ''execute'', ''invoke'', ''moderate'']"

fun PROJECT_ROLE_ACTIONS :: "project_role \<Rightarrow> string list" where
  "PROJECT_ROLE_ACTIONS Owner = ALL_ACTIONS"
| "PROJECT_ROLE_ACTIONS Admin = ALL_ACTIONS"
| "PROJECT_ROLE_ACTIONS Manager = [''read'', ''write'', ''delete'', ''move'', ''export'', ''import'',
     ''execute'', ''invoke'', ''moderate'']"
| "PROJECT_ROLE_ACTIONS Member = [''read'', ''write'', ''move'', ''export'']"
| "PROJECT_ROLE_ACTIONS Viewer = [''read'']"

text \<open>A role missing from the allow-list or the deny-list has no entry there: \<open>None\<close>.\<close>

fun PROJECT_ROLE_KEY_ALLOWLIST :: "project_role \<Rightarrow> string list option" where
  "PROJECT_ROLE_KEY_ALLOWLIST Member = Some [''documents.generate:execute'']"
| "PROJECT_ROLE_KEY_ALLOWLIST Manager = Some [''documents:manage'']"
| "PROJECT_ROLE_KEY_ALLOWLIST _ = None"

fun PROJECT_ROLE_KEY_DENYLIST :: "project_role \<Rightarrow> string list option" where
  "PROJECT_ROLE_KEY_DENYLIST Member = Some [''products:write'']"
| "PROJECT_ROLE_KEY_DENYLIST Manager =
     Some [''documents:delete'', ''products:delete'', ''project:delete'']"
| "PROJECT_ROLE_KEY_DENYLIST _ = None"

definition in_list_opt :: "string \<Rightarrow> string list option \<Rightarrow> bool" where
  "in_list_opt k xs = (case xs of None \<Rightarrow> False | Some ks \<Rightarrow> k \<in> set ks)"

fun projectRoleCan :: "string option \<Rightarrow> string \<Rightarrow> bool" where
  "projectRoleCan None action = False"
| "projectRoleCan (Some role) action =
     (if role = [] then False
      else case role_of role of
        None \<Rightarrow> False
      | Some r \<Rightarrow> action \<in> set (PROJECT_ROLE_ACTIONS r))"

text \<open>The key \<open>subject:action\<close>.\<close>

definition mk_key :: "string \<Rightarrow> string \<Rightarrow> string" where
  "mk_key subject action = subject @ '':'' @ action"

definition opt_role :: "string option \<Rightarrow> project_role option" where
  "opt_role role = (case role of None \<Rightarrow> None | Some s \<Rightarrow> if s = [] then None else role_of s)"

definition projectRoleCanKey :: "string option \<Rightarrow> string \<Rightarrow> string \<Rightarrow> bool" where
  "projectRoleCanKey role subject action =
     (let key = mk_key subject action in
      if (case opt_role role of None \<Rightarrow> False
          | Some r \<Rightarrow> in_list_opt key (PROJECT_ROLE_KEY_DENYLIST r)) then False
      else if projectRoleCan role action then True
      else case opt_role role of
          None \<Rightarrow> False
        | Some r \<Rightarrow> if subject = [] then False
                   else in_list_opt key (PROJECT_ROLE_KEY_ALLOWLIST r))"

definition orgRoleCanManage :: "string option \<Rightarrow> bool" where
  "orgRoleCanManage role \<longleftrightarrow> role = Some ''platform_owner'' \<or> role = Some ''platform_admin''"

fun PROJECT_ROLE_RANK :: "project_role \<Rightarrow> nat" where
  "PROJECT_ROLE_RANK Viewer = 1"
| "PROJECT_ROLE_RANK Member = 2"
| "PROJECT_ROLE_RANK Manager = 3"
| "PROJECT_ROLE_RANK Admin = 4"
| "PROJECT_ROLE_RANK Owner = 5"

definition projectRoleAtLeast :: "string option \<Rightarrow> project_role \<Rightarrow> bool" where
  "projectRoleAtLeast role mn =
     (case role of None \<Rightarrow> False
      | Some s \<Rightarrow> (case role_of s of None \<Rightarrow> False
                  | Some r \<Rightarrow> PROJECT_ROLE_RANK mn \<le> PROJECT_ROLE_RANK r))"

subsection \<open>Visibility levels\<close>

datatype vis_level = OnlyOwn | OwnAndShared | OwnAndSubordinates | OwnAndDepartment | AllLevel

fun level_name :: "vis_level \<Rightarrow> string" where
  "level_name OnlyOwn = ''only_own''"
| "level_name OwnAndShared = ''own_and_shared''"
| "level_name OwnAndSubordinates = ''own_and_subordinates''"
| "level_name OwnAndDepartment = ''own_and_department''"
| "level_name AllLevel = ''all''"

definition VISIBILITY_LEVELS :: "vis_level list" where
  "VISIBILITY_LEVELS = [OnlyOwn, OwnAndShared, OwnAndSubordinates, OwnAndDepartment, AllLevel]"

definition level_of :: "string \<Rightarrow> vis_level option" where
  "level_of s = List.find (\<lambda>l. level_name l = s) VISIBILITY_LEVELS"

text \<open>\<open>isVisibilityLevel\<close> with the level it recognizes.\<close>

fun as_level :: "jsval \<Rightarrow> vis_level option" where
  "as_level (JStr s) = level_of s"
| "as_level _ = None"

definition isVisibilityLevel :: "jsval \<Rightarrow> bool" where
  "isVisibilityLevel v \<longleftrightarrow> as_level v \<noteq> None"

fun DEFAULT_VISIBILITY_BY_ROLE :: "project_role \<Rightarrow> vis_level" where
  "DEFAULT_VISIBILITY_BY_ROLE Owner = AllLevel"
| "DEFAULT_VISIBILITY_BY_ROLE Admin = AllLevel"
| "DEFAULT_VISIBILITY_BY_ROLE Manager = AllLevel"
| "DEFAULT_VISIBILITY_BY_ROLE Member = OwnAndShared"
| "DEFAULT_VISIBILITY_BY_ROLE Viewer = OwnAndShared"

fun VISIBILITY_LEVEL_RANK :: "vis_level \<Rightarrow> nat" where
  "VISIBILITY_LEVEL_RANK OnlyOwn = 1"
| "VISIBILITY_LEVEL_RANK OwnAndShared = 2"
| "VISIBILITY_LEVEL_RANK OwnAndSubordinates = 3"
| "VISIBILITY_LEVEL_RANK OwnAndDepartment = 4"
| "VISIBILITY_LEVEL_RANK AllLevel = 5"

fun MAX_VISIBILITY_BY_ROLE :: "project_role \<Rightarrow> vis_level" where
  "MAX_VISIBILITY_BY_ROLE Owner = AllLevel"
| "MAX_VISIBILITY_BY_ROLE Admin = AllLevel"
| "MAX_VISIBILITY_BY_ROLE Manager = AllLevel"
| "MAX_VISIBILITY_BY_ROLE Member = OwnAndDepartment"
| "MAX_VISIBILITY_BY_ROLE Viewer = OwnAndDepartment"

definition clampVisibilityLevel :: "project_role \<Rightarrow> vis_level \<Rightarrow> vis_level" where
  "clampVisibilityLevel role level =
     (let mx = MAX_VISIBILITY_BY_ROLE role in
      if VISIBILITY_LEVEL_RANK level > VISIBILITY_LEVEL_RANK mx then mx else level)"

text \<open>A per-project configuration: role to entry, in the order the entries were written.\<close>

type_synonym 'e config = "(project_role \<times> 'e) list"

text \<open>\<open>Object.entries(raw)\<close> where \<open>raw\<close> is an object; anything else has no entry that is a role.\<close>

fun obj_entries :: "jsval \<Rightarrow> (string \<times> jsval) list" where
  "obj_entries (JObj ps) = AList.clearjunk ps"
| "obj_entries _ = []"

fun config_entry :: "vis_level config \<Rightarrow> string \<times> jsval \<Rightarrow> vis_level config" where
  "config_entry out (role, level) =
     (case role_of role of None \<Rightarrow> out
      | Some r \<Rightarrow> (case as_level level of None \<Rightarrow> out
         | Some l \<Rightarrow> AList.update r (clampVisibilityLevel r l) out))"

definition normalizeVisibilityConfig :: "jsval \<Rightarrow> vis_level config" where
  "normalizeVisibilityConfig raw = foldl config_entry [] (obj_entries raw)"

text \<open>The configuration is \<open>undefined\<close>, \<open>null\<close> or a record; a missing one is \<open>[]\<close>.\<close>

definition effectiveVisibilityLevel :: "string option \<Rightarrow> vis_level config \<Rightarrow> vis_level" where
  "effectiveVisibilityLevel role config =
     (case role of None \<Rightarrow> OnlyOwn
      | Some s \<Rightarrow> (case role_of s of None \<Rightarrow> OnlyOwn
         | Some r \<Rightarrow> clampVisibilityLevel r
              (case map_of config r of
                 Some l \<Rightarrow> l
               | None \<Rightarrow> DEFAULT_VISIBILITY_BY_ROLE r)))"

subsection \<open>Lemmas\<close>

lemmas role_tables = ALL_ACTIONS_def in_list_opt_def mk_key_def

lemma role_of_name [simp]: "role_of (role_name r) = Some r"
  by (cases r) (simp_all add: role_of_def PROJECT_ROLES_def)

lemma role_of_Some: "role_of s = Some r \<longleftrightarrow> s = role_name r"
proof
  assume "role_of s = Some r"
  then show "s = role_name r"
    by (auto simp: role_of_def PROJECT_ROLES_def split: if_splits)
qed simp

lemma role_name_nonempty [simp]: "role_name r \<noteq> []" "[] \<noteq> role_name r"
  by (cases r; simp)+

lemma opt_role_name [simp]: "opt_role (Some (role_name r)) = Some r"
  by (simp add: opt_role_def)

lemma opt_role_Some: "opt_role x = Some r \<longleftrightarrow> x = Some (role_name r)"
  by (auto simp: opt_role_def role_of_Some split: option.splits if_splits)

lemma projectRoleCan_name [simp]:
  "projectRoleCan (Some (role_name r)) a \<longleftrightarrow> a \<in> set (PROJECT_ROLE_ACTIONS r)"
  by simp

lemma projectRoleCan_role: "projectRoleCan x a \<Longrightarrow> \<exists>r. opt_role x = Some r"
  by (cases x) (auto simp: opt_role_def split: if_splits option.splits)

lemma level_of_name [simp]: "level_of (level_name l) = Some l"
  by (cases l) (simp_all add: level_of_def VISIBILITY_LEVELS_def)

lemma level_of_Some: "level_of s = Some l \<longleftrightarrow> s = level_name l"
proof
  assume "level_of s = Some l"
  then show "s = level_name l"
    by (auto simp: level_of_def VISIBILITY_LEVELS_def split: if_splits)
qed simp

lemma clamp_le_max:
  "VISIBILITY_LEVEL_RANK (clampVisibilityLevel r l) \<le> VISIBILITY_LEVEL_RANK (MAX_VISIBILITY_BY_ROLE r)"
  by (simp add: clampVisibilityLevel_def Let_def)

lemma clamp_idem [simp]: "clampVisibilityLevel r (clampVisibilityLevel r l) = clampVisibilityLevel r l"
  by (simp add: clampVisibilityLevel_def Let_def)

lemma clamp_all_iff: "clampVisibilityLevel r l = AllLevel \<longleftrightarrow> l = AllLevel \<and> PROJECT_ROLE_RANK r \<ge> 3"
  by (cases r; cases l) (simp_all add: clampVisibilityLevel_def)

text \<open>Every entry a normalized configuration holds is clamped to the floor of its role.\<close>

definition clamped_config :: "vis_level config \<Rightarrow> bool" where
  "clamped_config c \<longleftrightarrow> (\<forall>r l. map_of c r = Some l \<longrightarrow> clampVisibilityLevel r l = l)"

lemma clamped_config_entry: "clamped_config c \<Longrightarrow> clamped_config (config_entry c e)"
  by (cases e) (auto simp: clamped_config_def update_conv' split: option.splits)

lemma clamped_config_foldl: "clamped_config c \<Longrightarrow> clamped_config (foldl config_entry c es)"
  by (induction es arbitrary: c) (auto intro: clamped_config_entry)

lemma normalize_config_clamped: "clamped_config (normalizeVisibilityConfig raw)"
  unfolding normalizeVisibilityConfig_def
  by (rule clamped_config_foldl) (simp add: clamped_config_def)

text \<open>A key splits at its last colon in one way only.\<close>

lemma mk_key_inj:
  assumes "mk_key s a = mk_key s' a'" and "CHR '':'' \<notin> set a" and "CHR '':'' \<notin> set a'"
  shows "s = s' \<and> a = a'"
proof -
  have "takeWhile (\<lambda>c. c \<noteq> CHR '':'') (rev y @ CHR '':'' # rev x) = rev y"
    if "CHR '':'' \<notin> set y" for x y :: string
    using that by (subst takeWhile_tail) (auto simp: takeWhile_eq_all_conv)
  then have len: "length (takeWhile (\<lambda>c. c \<noteq> CHR '':'') (rev (mk_key x y))) = length y"
    if "CHR '':'' \<notin> set y" for x y :: string
    using that by (simp add: mk_key_def)
  from assms have "length a = length a'" using len [of a s] len [of a' s'] by simp
  with assms(1) show ?thesis by (simp add: mk_key_def)
qed

lemma role_actions_no_colon: "a \<in> set (PROJECT_ROLE_ACTIONS r) \<Longrightarrow> CHR '':'' \<notin> set a"
  by (cases r) (auto simp: ALL_ACTIONS_def)

lemma deny_key_delete_or_write:
  assumes "in_list_opt (mk_key s a) (PROJECT_ROLE_KEY_DENYLIST r)" and "CHR '':'' \<notin> set a"
  shows "a \<in> {''write'', ''delete''} \<and> (r = Member \<and> a = ''write'' \<or> r = Manager \<and> a = ''delete'')"
proof -
  have keys: "''products:write'' = mk_key ''products'' ''write''"
    "''documents:delete'' = mk_key ''documents'' ''delete''"
    "''products:delete'' = mk_key ''products'' ''delete''"
    "''project:delete'' = mk_key ''project'' ''delete''"
    by (simp_all add: mk_key_def)
  show ?thesis
    using assms by (cases r) (auto simp: in_list_opt_def keys dest!: mk_key_inj)
qed

lemma allow_key_action:
  assumes "in_list_opt (mk_key s a) (PROJECT_ROLE_KEY_ALLOWLIST r)" and "CHR '':'' \<notin> set a"
  shows "r = Member \<and> s = ''documents.generate'' \<and> a = ''execute'' \<or>
    r = Manager \<and> s = ''documents'' \<and> a = ''manage''"
proof -
  have keys: "''documents.generate:execute'' = mk_key ''documents.generate'' ''execute''"
    "''documents:manage'' = mk_key ''documents'' ''manage''"
    by (simp_all add: mk_key_def)
  show ?thesis
    using assms by (cases r) (auto simp: in_list_opt_def keys dest!: mk_key_inj)
qed

lemma role_actions_mono:
  "PROJECT_ROLE_RANK r \<le> PROJECT_ROLE_RANK r' \<Longrightarrow> set (PROJECT_ROLE_ACTIONS r) \<subseteq> set (PROJECT_ROLE_ACTIONS r')"
  by (cases r; cases r') (simp_all add: ALL_ACTIONS_def subset_insertI)

lemma allow_key_mono:
  assumes "PROJECT_ROLE_RANK r \<le> PROJECT_ROLE_RANK r'" and "CHR '':'' \<notin> set a"
    and "s \<noteq> [] \<and> in_list_opt (mk_key s a) (PROJECT_ROLE_KEY_ALLOWLIST r)"
  shows "a \<in> set (PROJECT_ROLE_ACTIONS r') \<or>
    s \<noteq> [] \<and> in_list_opt (mk_key s a) (PROJECT_ROLE_KEY_ALLOWLIST r')"
proof (cases "r' = r")
  case False
  with assms allow_key_action [OF _ assms(2), of s r] show ?thesis
    by (cases r') (auto simp: ALL_ACTIONS_def)
qed (use assms in simp)

lemma deny_key_mono:
  assumes "PROJECT_ROLE_RANK r \<le> PROJECT_ROLE_RANK r'" and "CHR '':'' \<notin> set a"
    and "a \<in> set (PROJECT_ROLE_ACTIONS r) \<or>
      s \<noteq> [] \<and> in_list_opt (mk_key s a) (PROJECT_ROLE_KEY_ALLOWLIST r)"
    and "in_list_opt (mk_key s a) (PROJECT_ROLE_KEY_DENYLIST r')"
  shows "in_list_opt (mk_key s a) (PROJECT_ROLE_KEY_DENYLIST r)"
proof (cases "r' = r")
  case False
  have a: "r' = Member \<and> a = ''write'' \<or> r' = Manager \<and> a = ''delete''"
    using deny_key_delete_or_write [OF assms(4,2)] by blast
  then have "\<not> in_list_opt (mk_key s a) (PROJECT_ROLE_KEY_ALLOWLIST r)"
    using allow_key_action [OF _ assms(2), of s r] by auto
  with assms(1,3) a False show ?thesis by (cases r) auto
qed (use assms in simp)

lemma projectRoleCanKey_role:
  "projectRoleCanKey (Some (role_name r)) s a \<longleftrightarrow>
    \<not> in_list_opt (mk_key s a) (PROJECT_ROLE_KEY_DENYLIST r) \<and>
    (a \<in> set (PROJECT_ROLE_ACTIONS r) \<or>
     s \<noteq> [] \<and> in_list_opt (mk_key s a) (PROJECT_ROLE_KEY_ALLOWLIST r))"
  by (simp add: projectRoleCanKey_def Let_def)

text \<open>
  A higher project role can do everything a lower one can: whatever key the route guard's
  flat check (matrix, deny-list and allow-list together) admits for a role, it admits for
  every role of at least the same rank. The exceptions carved out of a role never give a
  lower role more than a higher one has.
\<close>

theorem role_checks_monotone:
  assumes "PROJECT_ROLE_RANK r \<le> PROJECT_ROLE_RANK r'" and "CHR '':'' \<notin> set a"
    and "projectRoleCanKey (Some (role_name r)) s a"
  shows "projectRoleCanKey (Some (role_name r')) s a"
proof -
  have not_denied: "\<not> in_list_opt (mk_key s a) (PROJECT_ROLE_KEY_DENYLIST r)"
    and granted: "a \<in> set (PROJECT_ROLE_ACTIONS r) \<or>
      s \<noteq> [] \<and> in_list_opt (mk_key s a) (PROJECT_ROLE_KEY_ALLOWLIST r)"
    using assms(3) by (auto simp: projectRoleCanKey_role)
  have "a \<in> set (PROJECT_ROLE_ACTIONS r') \<or>
      s \<noteq> [] \<and> in_list_opt (mk_key s a) (PROJECT_ROLE_KEY_ALLOWLIST r')"
    using granted role_actions_mono [OF assms(1)] allow_key_mono [OF assms(1,2)] by blast
  moreover have "\<not> in_list_opt (mk_key s a) (PROJECT_ROLE_KEY_DENYLIST r')"
    using not_denied granted deny_key_mono [OF assms(1,2)] by blast
  ultimately show ?thesis by (simp add: projectRoleCanKey_role del: role_name.simps)
qed

theorem role_checks_monotone_witness:
  "projectRoleCanKey (Some (role_name Manager)) ''documents.generate'' ''execute''"
proof -
  have "projectRoleCanKey (Some (role_name Member)) ''documents.generate'' ''execute''"
    by (simp add: projectRoleCanKey_role in_list_opt_def mk_key_def del: role_name.simps)
  then show ?thesis
    by (intro role_checks_monotone [of Member Manager]) simp_all
qed

end
