(* ===== verification/Visibility.thy ===== *)
theory Visibility
  imports Rbac MongoFilter
begin

text \<open>
  Record visibility of \<^verbatim>\<open>shared/src/rbac.ts\<close> (second part): the policy of a role (a union of
  rules) and its normalization and clamping, the resolved scope that travels to the
  domains as metadata, the Mongo filters built from it, and the single-record checks.
  A filter result \<open>null\<close> (no narrowing) is \<open>None\<close>. The lemmas show that a filter selects
  exactly the records the single-record check admits, on every store that keeps the
  contract \<open>mongo_core\<close>.
\<close>

subsection \<open>Policies\<close>

datatype vis_roots = Led | MemberOf

datatype vis_rule =
    ROwn
  | ROwnGroups
  | ROwnSubgroups vis_roots
  | RSelectedGroups "string list"
  | RAll

record vis_policy =
  rules :: "vis_rule list"

definition policy_of :: "vis_rule list \<Rightarrow> vis_policy" where
  "policy_of rs = \<lparr>rules = rs\<rparr>"

definition visibilityPolicyHasAll :: "vis_policy \<Rightarrow> bool" where
  "visibilityPolicyHasAll policy = list_ex (\<lambda>r. r = RAll) (rules policy)"

fun legacyLevelToPolicy :: "vis_level \<Rightarrow> vis_policy" where
  "legacyLevelToPolicy OnlyOwn = policy_of [ROwn]"
| "legacyLevelToPolicy OwnAndShared = policy_of [ROwn]"
| "legacyLevelToPolicy OwnAndSubordinates = policy_of [ROwn, ROwnSubgroups Led]"
| "legacyLevelToPolicy OwnAndDepartment = policy_of [ROwn, ROwnSubgroups MemberOf]"
| "legacyLevelToPolicy AllLevel = policy_of [RAll]"

definition clampVisibilityPolicy :: "project_role \<Rightarrow> vis_policy \<Rightarrow> vis_policy" where
  "clampVisibilityPolicy role policy =
     (if MAX_VISIBILITY_BY_ROLE role = AllLevel \<or> \<not> visibilityPolicyHasAll policy then policy
      else let maxPolicy = legacyLevelToPolicy (MAX_VISIBILITY_BY_ROLE role);
               rs = filter (\<lambda>r. r \<noteq> RAll) (rules policy)
           in if length rs > 0 then policy_of rs else maxPolicy)"

text \<open>\<open>isVisibilityRule\<close>, with the rule it recognizes.\<close>

definition is_str :: "jsval \<Rightarrow> bool" where
  "is_str v \<longleftrightarrow> js_string v \<noteq> None"

definition as_rule :: "jsval \<Rightarrow> vis_rule option" where
  "as_rule v =
     (case js_get v ''kind'' of
        JStr k \<Rightarrow>
          (if k = ''own'' then Some ROwn
           else if k = ''own_groups'' then Some ROwnGroups
           else if k = ''all'' then Some RAll
           else if k = ''own_subgroups'' then
             (case js_get v ''roots'' of
                JStr r \<Rightarrow> if r = ''led'' then Some (ROwnSubgroups Led)
                          else if r = ''member'' then Some (ROwnSubgroups MemberOf) else None
              | _ \<Rightarrow> None)
           else if k = ''selected_groups'' then
             (case js_get v ''groupIds'' of
                JArr xs \<Rightarrow> if list_all is_str xs
                           then Some (RSelectedGroups (str_arr (JArr xs))) else None
              | _ \<Rightarrow> None)
           else None)
      | _ \<Rightarrow> None)"

definition normalizeVisibilityPolicy :: "jsval \<Rightarrow> vis_policy option" where
  "normalizeVisibilityPolicy raw =
     (case js_get raw ''rules'' of
        JArr rs \<Rightarrow> (let out = List.map_filter as_rule rs in
                   if length out > 0 then Some (policy_of out) else None)
      | _ \<Rightarrow> None)"

text \<open>A configuration entry is a legacy level or a policy object as it was stored.\<close>

datatype vis_entry = ELevel vis_level | EPolicy jsval

text \<open>The JSON of a policy: what a normalized entry holds.\<close>

fun rule_js :: "vis_rule \<Rightarrow> jsval" where
  "rule_js ROwn = JObj [(''kind'', JStr ''own'')]"
| "rule_js ROwnGroups = JObj [(''kind'', JStr ''own_groups'')]"
| "rule_js (ROwnSubgroups Led) = JObj [(''kind'', JStr ''own_subgroups''), (''roots'', JStr ''led'')]"
| "rule_js (ROwnSubgroups MemberOf) =
     JObj [(''kind'', JStr ''own_subgroups''), (''roots'', JStr ''member'')]"
| "rule_js (RSelectedGroups gs) =
     JObj [(''kind'', JStr ''selected_groups''), (''groupIds'', JArr (map JStr gs))]"
| "rule_js RAll = JObj [(''kind'', JStr ''all'')]"

definition policy_js :: "vis_policy \<Rightarrow> jsval" where
  "policy_js p = JObj [(''rules'', JArr (map rule_js (rules p)))]"

fun config_entry_v2 :: "vis_entry config \<Rightarrow> string \<times> jsval \<Rightarrow> vis_entry config" where
  "config_entry_v2 out (role, e) =
     (case role_of role of
        None \<Rightarrow> out
      | Some r \<Rightarrow>
          (case as_level e of
             Some l \<Rightarrow> AList.update r (ELevel (clampVisibilityLevel r l)) out
           | None \<Rightarrow> (case normalizeVisibilityPolicy e of
                 Some p \<Rightarrow> AList.update r (EPolicy (policy_js (clampVisibilityPolicy r p))) out
               | None \<Rightarrow> out)))"

definition normalizeVisibilityConfigV2 :: "jsval \<Rightarrow> vis_entry config" where
  "normalizeVisibilityConfigV2 raw = foldl config_entry_v2 [] (obj_entries raw)"

definition effectiveVisibilityPolicy :: "string option \<Rightarrow> vis_entry config \<Rightarrow> vis_policy" where
  "effectiveVisibilityPolicy role config =
     (case role of
        None \<Rightarrow> policy_of [ROwn]
      | Some s \<Rightarrow>
          (case role_of s of
             None \<Rightarrow> policy_of [ROwn]
           | Some r \<Rightarrow>
               (case map_of config r of
                  Some (ELevel l) \<Rightarrow> legacyLevelToPolicy (clampVisibilityLevel r l)
                | Some (EPolicy v) \<Rightarrow>
                    (case normalizeVisibilityPolicy v of
                       Some p \<Rightarrow> clampVisibilityPolicy r p
                     | None \<Rightarrow>
                         legacyLevelToPolicy (clampVisibilityLevel r (DEFAULT_VISIBILITY_BY_ROLE r)))
                | None \<Rightarrow>
                    legacyLevelToPolicy (clampVisibilityLevel r (DEFAULT_VISIBILITY_BY_ROLE r)))))"

definition visibilityPolicyUsesSharing :: "string option \<Rightarrow> vis_entry config \<Rightarrow> bool" where
  "visibilityPolicyUsesSharing role config =
     (case role of
        None \<Rightarrow> False
      | Some s \<Rightarrow>
          (case role_of s of
             None \<Rightarrow> False
           | Some r \<Rightarrow>
               (case map_of config r of
                  Some (ELevel l) \<Rightarrow> l \<noteq> OnlyOwn
                | None \<Rightarrow> DEFAULT_VISIBILITY_BY_ROLE r \<noteq> OnlyOwn
                | Some (EPolicy v) \<Rightarrow>
                    (let p = (case normalizeVisibilityPolicy v of
                                Some p \<Rightarrow> p | None \<Rightarrow> policy_of [ROwn])
                     in \<not> (length (rules p) = 1 \<and> rules p ! 0 = ROwn)))))"

subsection \<open>The resolved scope\<close>

datatype scope_mode = ModeAll | ModeRestricted

datatype scope_level = Lvl vis_level | CustomLevel

record vis_descriptor =
  unitIds :: "string list"
  ledUnitIds :: "string list"
  selectedGroupIds :: "string list"
  ruleKinds :: "string list"
  usesSharing :: bool
  orgId :: string

record vis_scope =
  mode :: scope_mode
  level :: scope_level
  selfId :: string
  ownerIds :: "string list"
  sharedRecordIds :: "string list"
  sharedRecordIdsByType :: "(string \<times> string list) list option"
  deferred :: bool
  descriptor :: "vis_descriptor option"
  epoch :: "rat option"
  resource :: "string option"
  viewerUnitIds :: "string list option"
  viewerDepartmentIds :: "string list option"
  departmentIds :: "string list option"

definition VISIBILITY_SCOPE_MAX_IDS :: nat where
  "VISIBILITY_SCOPE_MAX_IDS = 2000"

definition visibilityScopeExpandedSize :: "string list \<Rightarrow> string list \<Rightarrow> nat" where
  "visibilityScopeExpandedSize owners shared = length owners + length shared"

definition SHAREABLE_RESOURCES :: "string list" where
  "SHAREABLE_RESOURCES = [''contacts'', ''companies'', ''deals'', ''orders'', ''activities'']"

definition SHAREABLE_RESOURCE_ENTITY_TYPES :: "(string \<times> string) list" where
  "SHAREABLE_RESOURCE_ENTITY_TYPES =
     [(''contacts'', ''contact''), (''companies'', ''company''), (''deals'', ''deal''),
      (''orders'', ''order''), (''activities'', ''activity'')]"

definition CROSS_ENTITY_SUBJECT_ENTITY_TYPES :: "(string \<times> string) list" where
  "CROSS_ENTITY_SUBJECT_ENTITY_TYPES =
     [(''contacts'', ''contact''), (''companies'', ''company''), (''deals'', ''deal''),
      (''orders'', ''order''), (''products'', ''product''), (''activities'', ''activity'')]"

definition CROSS_ENTITY_TYPE_SUBJECTS :: "(string \<times> string) list" where
  "CROSS_ENTITY_TYPE_SUBJECTS = map (\<lambda>(s, t). (t, s)) CROSS_ENTITY_SUBJECT_ENTITY_TYPES"

definition RULE_KINDS :: "string list" where
  "RULE_KINDS = [''own'', ''own_groups'', ''own_subgroups'', ''selected_groups'', ''all'']"

fun is_objlike :: "jsval \<Rightarrow> bool" where
  "is_objlike (JArr _) = True"
| "is_objlike (JObj _) = True"
| "is_objlike _ = False"

definition str_or_empty :: "jsval \<Rightarrow> string" where
  "str_or_empty v = (case v of JStr s \<Rightarrow> s | _ \<Rightarrow> [])"

definition normalizeDescriptor :: "jsval \<Rightarrow> vis_descriptor option" where
  "normalizeDescriptor raw =
     (if \<not> is_objlike raw then None
      else Some \<lparr>unitIds = str_arr (js_get raw ''unitIds''),
                 ledUnitIds = str_arr (js_get raw ''ledUnitIds''),
                 selectedGroupIds = str_arr (js_get raw ''selectedGroupIds''),
                 ruleKinds = filter (\<lambda>k. k \<in> set RULE_KINDS) (str_arr (js_get raw ''ruleKinds'')),
                 usesSharing = (js_get raw ''usesSharing'' = JBool True),
                 orgId = str_or_empty (js_get raw ''orgId'')\<rparr>)"

text \<open>Non-empty strings of an array.\<close>

definition ne_strs :: "jsval \<Rightarrow> string list" where
  "ne_strs v = filter (\<lambda>s. s \<noteq> []) (str_arr v)"

fun shared_entry :: "(string \<times> string list) list \<Rightarrow> string \<times> jsval \<Rightarrow> (string \<times> string list) list" where
  "shared_entry out (type, ids) =
     (if type = [] \<or> \<not> is_arr ids then out
      else if ne_strs ids \<noteq> [] then AList.update type (ne_strs ids) out else out)"

definition normalizeSharedByType :: "jsval \<Rightarrow> (string \<times> string list) list option" where
  "normalizeSharedByType raw =
     (case raw of
        JObj _ \<Rightarrow> (let out = foldl shared_entry [] (obj_entries raw) in
                  if out \<noteq> [] then Some out else None)
      | _ \<Rightarrow> None)"

definition opt_arr :: "(jsval \<Rightarrow> string list) \<Rightarrow> jsval \<Rightarrow> string list option" where
  "opt_arr f v = (if is_arr v then Some (f v) else None)"

definition parse_mode :: "jsval \<Rightarrow> scope_mode option" where
  "parse_mode v =
     (if v = JStr ''all'' then Some ModeAll
      else if v = JStr ''restricted'' then Some ModeRestricted else None)"

definition parse_level :: "jsval \<Rightarrow> scope_level" where
  "parse_level v =
     (case as_level v of Some l \<Rightarrow> Lvl l
      | None \<Rightarrow> if v = JStr ''custom'' then CustomLevel else Lvl OnlyOwn)"

text \<open>The part of \<open>parseVisibilityScope\<close> after the JSON has been read.\<close>

definition parse_scope_obj :: "jsval \<Rightarrow> vis_scope option" where
  "parse_scope_obj obj =
     (case parse_mode (js_get obj ''mode'') of
        None \<Rightarrow> None
      | Some m \<Rightarrow>
          (let dfr = (js_get obj ''deferred'' = JBool True);
               desc = (if dfr then normalizeDescriptor (js_get obj ''descriptor'') else None)
           in if dfr \<and> desc = None then None
              else Some \<lparr>mode = m,
                         level = parse_level (js_get obj ''level''),
                         selfId = str_or_empty (js_get obj ''selfId''),
                         ownerIds = str_arr (js_get obj ''ownerIds''),
                         sharedRecordIds = str_arr (js_get obj ''sharedRecordIds''),
                         sharedRecordIdsByType = normalizeSharedByType (js_get obj ''sharedRecordIdsByType''),
                         deferred = dfr,
                         descriptor = desc,
                         epoch = (case js_get obj ''epoch'' of JNum n \<Rightarrow> Some n | _ \<Rightarrow> None),
                         resource = js_string (js_get obj ''resource''),
                         viewerUnitIds = opt_arr str_arr (js_get obj ''viewerUnitIds''),
                         viewerDepartmentIds = opt_arr ne_strs (js_get obj ''viewerDepartmentIds''),
                         departmentIds = opt_arr ne_strs (js_get obj ''departmentIds'')\<rparr>))"

text \<open>
  \<open>dec\<close> is base64 decoding followed by \<open>JSON.parse\<close>; \<open>None\<close> is a thrown error, which the
  code catches.
\<close>

definition parseVisibilityScope ::
  "(string \<Rightarrow> jsval option) \<Rightarrow> string option \<Rightarrow> vis_scope option" where
  "parseVisibilityScope dec raw =
     (case raw of
        None \<Rightarrow> None
      | Some s \<Rightarrow> if trim s = [] then None
                  else (case dec (trim s) of None \<Rightarrow> None | Some obj \<Rightarrow> parse_scope_obj obj))"

text \<open>\<open>JSON.stringify(scope)\<close>: fields in declaration order, absent optional fields dropped.\<close>

definition strs_js :: "string list \<Rightarrow> jsval" where
  "strs_js xs = JArr (map JStr xs)"

definition opt_field :: "string \<Rightarrow> ('a \<Rightarrow> jsval) \<Rightarrow> 'a option \<Rightarrow> (string \<times> jsval) list" where
  "opt_field k f x = (case x of None \<Rightarrow> [] | Some v \<Rightarrow> [(k, f v)])"

definition descriptor_js :: "vis_descriptor \<Rightarrow> jsval" where
  "descriptor_js d =
     JObj [(''unitIds'', strs_js (unitIds d)), (''ledUnitIds'', strs_js (ledUnitIds d)),
           (''selectedGroupIds'', strs_js (selectedGroupIds d)),
           (''ruleKinds'', strs_js (ruleKinds d)), (''usesSharing'', JBool (usesSharing d)),
           (''orgId'', JStr (orgId d))]"

fun mode_js :: "scope_mode \<Rightarrow> jsval" where
  "mode_js ModeAll = JStr ''all''"
| "mode_js ModeRestricted = JStr ''restricted''"

fun level_js :: "scope_level \<Rightarrow> jsval" where
  "level_js (Lvl l) = JStr (level_name l)"
| "level_js CustomLevel = JStr ''custom''"

definition scope_js :: "vis_scope \<Rightarrow> jsval" where
  "scope_js s =
     JObj ([(''mode'', mode_js (mode s)), (''level'', level_js (level s)),
            (''selfId'', JStr (selfId s)), (''ownerIds'', strs_js (ownerIds s)),
            (''sharedRecordIds'', strs_js (sharedRecordIds s))]
        @ opt_field ''sharedRecordIdsByType''
            (\<lambda>m. JObj (map (\<lambda>(t, ids). (t, strs_js ids)) m)) (sharedRecordIdsByType s)
        @ (if deferred s then [(''deferred'', JBool True)] else [])
        @ opt_field ''descriptor'' descriptor_js (descriptor s)
        @ opt_field ''epoch'' JNum (epoch s)
        @ opt_field ''resource'' JStr (resource s)
        @ opt_field ''viewerUnitIds'' strs_js (viewerUnitIds s)
        @ opt_field ''viewerDepartmentIds'' strs_js (viewerDepartmentIds s)
        @ opt_field ''departmentIds'' strs_js (departmentIds s))"

text \<open>\<open>enc\<close> is base64 encoding of the JSON text.\<close>

definition serializeVisibilityScope :: "(jsval \<Rightarrow> string) \<Rightarrow> vis_scope \<Rightarrow> string" where
  "serializeVisibilityScope enc s = enc (scope_js s)"

definition hydrateVisibilityScope ::
  "vis_scope \<Rightarrow> string list \<Rightarrow> string list \<Rightarrow> string list option \<Rightarrow> vis_scope" where
  "hydrateVisibilityScope s resOwners resShared resDepts =
     (if \<not> deferred s then s
      else s\<lparr>deferred := False, descriptor := None,
             ownerIds := resOwners, sharedRecordIds := resShared,
             viewerUnitIds := Some (case descriptor s of
                Some d \<Rightarrow> unitIds d
              | None \<Rightarrow> (case viewerUnitIds s of Some u \<Rightarrow> u | None \<Rightarrow> [])),
             viewerDepartmentIds := Some (case descriptor s of
                Some d \<Rightarrow> unitIds d
              | None \<Rightarrow> (case viewerDepartmentIds s of Some u \<Rightarrow> u
                        | None \<Rightarrow> (case viewerUnitIds s of Some u \<Rightarrow> u | None \<Rightarrow> []))),
             departmentIds := (case resDepts of
                Some (d # ds) \<Rightarrow> Some (d # ds)
              | _ \<Rightarrow> departmentIds s)\<rparr>)"

subsection \<open>Normalization facts\<close>

lemma str_arr_strs_js [simp]: "str_arr (strs_js xs) = xs"
  by (induction xs) (simp_all add: strs_js_def List.map_filter_def)

lemma ne_strs_strs_js [simp]: "ne_strs (strs_js xs) = filter (\<lambda>s. s \<noteq> []) xs"
  by (simp add: ne_strs_def)

lemma is_arr_strs_js [simp]: "is_arr (strs_js xs)"
  by (simp add: strs_js_def)

lemma strs_js_not_undef [simp]: "strs_js xs \<noteq> JUndef"
  by (simp add: strs_js_def)

lemma map_of_opt_field [simp]: "map_of (opt_field k f x) k' = (if k = k' then map_option f x else None)"
  by (cases x) (simp_all add: opt_field_def)

text \<open>A policy read back from its JSON is the policy, unless it has no rules.\<close>

lemma as_rule_js [simp]: "as_rule (rule_js r) = Some r"
proof (cases r)
  case (ROwnSubgroups x)
  then show ?thesis by (cases x) (simp_all add: as_rule_def)
next
  case (RSelectedGroups gs)
  have "list_all is_str (map JStr gs)" by (simp add: list_all_iff is_str_def)
  with RSelectedGroups show ?thesis
    using str_arr_strs_js [of gs] by (simp add: as_rule_def strs_js_def del: str_arr.simps)
qed (simp_all add: as_rule_def)

lemma map_filter_as_rule [simp]: "List.map_filter as_rule (map rule_js rs) = rs"
  by (induction rs) (simp_all add: List.map_filter_def)

lemma normalize_policy_js:
  "normalizeVisibilityPolicy (policy_js p) = (if rules p = [] then None else Some p)"
  by (simp add: normalizeVisibilityPolicy_def policy_js_def policy_of_def)

lemma has_all_iff: "visibilityPolicyHasAll p \<longleftrightarrow> RAll \<in> set (rules p)"
  by (auto simp: visibilityPolicyHasAll_def list_ex_iff)

lemma legacy_all_iff: "RAll \<in> set (rules (legacyLevelToPolicy l)) \<longleftrightarrow> l = AllLevel"
  by (cases l) (simp_all add: policy_of_def)

lemma clamp_policy_no_all:
  "PROJECT_ROLE_RANK r < 3 \<Longrightarrow> RAll \<notin> set (rules (clampVisibilityPolicy r p))"
  by (cases r) (auto simp: clampVisibilityPolicy_def has_all_iff policy_of_def Let_def)

lemma clamp_policy_subset:
  "\<exists>r \<in> set (rules p). r \<noteq> RAll \<Longrightarrow> set (rules (clampVisibilityPolicy role p)) \<subseteq> set (rules p)"
  by (auto simp: clampVisibilityPolicy_def policy_of_def Let_def filter_empty_conv split: if_splits)

lemma clamp_level_no_all:
  "PROJECT_ROLE_RANK r < 3 \<Longrightarrow> RAll \<notin> set (rules (legacyLevelToPolicy (clampVisibilityLevel r l)))"
  by (simp add: legacy_all_iff clamp_all_iff)

lemma effective_policy_cases:
  "effectiveVisibilityPolicy (Some (role_name r)) c =
    (case map_of c r of
       Some (ELevel l) \<Rightarrow> legacyLevelToPolicy (clampVisibilityLevel r l)
     | Some (EPolicy v) \<Rightarrow> (case normalizeVisibilityPolicy v of Some p \<Rightarrow> clampVisibilityPolicy r p
         | None \<Rightarrow> legacyLevelToPolicy (clampVisibilityLevel r (DEFAULT_VISIBILITY_BY_ROLE r)))
     | None \<Rightarrow> legacyLevelToPolicy (clampVisibilityLevel r (DEFAULT_VISIBILITY_BY_ROLE r)))"
  by (simp add: effectiveVisibilityPolicy_def del: role_name.simps)

text \<open>
  C37: The visibility floor of a role cannot be configured away: for a member or a viewer the
  effective policy never holds the absorbing rule all, whatever the project stored for the
  role (a level, a policy object with any rules, garbage, or nothing), and an unknown or
  missing role sees its own records only.
\<close>

theorem low_role_policy_never_all:
  "(\<forall>r c. PROJECT_ROLE_RANK r < 3 \<longrightarrow>
      RAll \<notin> set (rules (effectiveVisibilityPolicy (Some (role_name r)) c))) \<and>
   (\<forall>role c. opt_role role = None \<longrightarrow> effectiveVisibilityPolicy role c = policy_of [ROwn])"
proof (intro conjI allI impI)
  fix r and c :: "vis_entry config"
  assume "PROJECT_ROLE_RANK r < 3"
  then show "RAll \<notin> set (rules (effectiveVisibilityPolicy (Some (role_name r)) c))"
    unfolding effective_policy_cases
    by (auto simp: clamp_level_no_all clamp_policy_no_all split: option.split vis_entry.split)
next
  fix role and c :: "vis_entry config"
  assume none: "opt_role role = None"
  have "role_of [] = None" by (simp add: role_of_def PROJECT_ROLES_def)
  with none have "role = None \<or> (\<exists>s. role = Some s \<and> role_of s = None)"
    by (cases role) (auto simp: opt_role_def split: if_splits)
  then show "effectiveVisibilityPolicy role c = policy_of [ROwn]"
    by (auto simp: effectiveVisibilityPolicy_def)
qed

theorem low_role_policy_never_all_witness:
  "RAll \<notin> set (rules (effectiveVisibilityPolicy (Some (role_name Member))
      [(Member, EPolicy (policy_js (policy_of [RAll, ROwnGroups])))]))"
  by (rule low_role_policy_never_all [THEN conjunct1, rule_format]) simp

subsection \<open>The scope survives the metadata round trip\<close>

lemma shared_entries_append:
  assumes "distinct (map fst (acc @ m))" and "\<forall>(t, ids) \<in> set m. t \<noteq> [] \<and> ids \<noteq> [] \<and> [] \<notin> set ids"
  shows "foldl shared_entry acc (map (\<lambda>(t, ids). (t, strs_js ids)) m) = acc @ m"
  using assms
proof (induction m arbitrary: acc)
  case (Cons e m)
  obtain t ids where e: "e = (t, ids)" by (cases e)
  have upd: "AList.update k v al = al @ [(k, v)]" if "k \<notin> fst ` set al" for k :: string and v and al :: "(string \<times> string list) list"
    using that by (induction al) auto
  have "filter (\<lambda>s. s \<noteq> []) ids = ids"
    using Cons.prems(2) e by (auto intro: filter_True)
  then have step: "shared_entry acc (t, strs_js ids) = acc @ [(t, ids)]"
    using Cons.prems e upd [of t acc ids] by auto
  show ?case
    using Cons.IH [of "acc @ [(t, ids)]"] Cons.prems by (simp add: e step del: shared_entry.simps)
qed simp

definition wf_shared :: "(string \<times> string list) list \<Rightarrow> bool" where
  "wf_shared m \<longleftrightarrow> m \<noteq> [] \<and> distinct (map fst m) \<and>
     list_all (\<lambda>(t, ids). t \<noteq> [] \<and> ids \<noteq> [] \<and> [] \<notin> set ids) m"

text \<open>
  The scopes the gateway stamps: a descriptor exactly when deferred, with known rule kinds;
  no blank department, type or shared id.
\<close>

definition wf_scope :: "vis_scope \<Rightarrow> bool" where
  "wf_scope s \<longleftrightarrow>
     (deferred s \<longleftrightarrow> descriptor s \<noteq> None) \<and>
     pred_option (\<lambda>d. set (ruleKinds d) \<subseteq> set RULE_KINDS) (descriptor s) \<and>
     pred_option wf_shared (sharedRecordIdsByType s) \<and>
     pred_option (\<lambda>ds. [] \<notin> set ds) (viewerDepartmentIds s) \<and>
     pred_option (\<lambda>ds. [] \<notin> set ds) (departmentIds s)"

lemma normalizeSharedByType_js:
  "wf_shared m \<Longrightarrow> normalizeSharedByType (JObj (map (\<lambda>(t, ids). (t, strs_js ids)) m)) = Some m"
proof -
  assume wf: "wf_shared m"
  have "map fst (map (\<lambda>(t, ids). (t, strs_js ids)) m) = map fst m" by (simp add: case_prod_beta comp_def)
  with wf have keys: "AList.clearjunk (map (\<lambda>(t, ids). (t, strs_js ids)) m) = map (\<lambda>(t, ids). (t, strs_js ids)) m"
    by (intro distinct_clearjunk_id) (simp only: wf_shared_def)
  have "foldl shared_entry [] (map (\<lambda>(t, ids). (t, strs_js ids)) m) = [] @ m"
    using wf by (intro shared_entries_append) (auto simp: wf_shared_def list_all_iff)
  with wf keys show ?thesis by (simp add: normalizeSharedByType_def wf_shared_def)
qed

lemma normalizeSharedByType_undef [simp]: "normalizeSharedByType JUndef = None"
  by (simp add: normalizeSharedByType_def)

lemma normalizeDescriptor_js:
  "set (ruleKinds d) \<subseteq> set RULE_KINDS \<Longrightarrow> normalizeDescriptor (descriptor_js d) = Some d"
proof -
  assume "set (ruleKinds d) \<subseteq> set RULE_KINDS"
  then have "filter (\<lambda>k. k \<in> set RULE_KINDS) (ruleKinds d) = ruleKinds d" by (intro filter_True) blast
  then show ?thesis by (simp add: normalizeDescriptor_def descriptor_js_def str_or_empty_def)
qed

lemma parse_mode_js [simp]: "parse_mode (mode_js m) = Some m"
  by (cases m) (simp_all add: parse_mode_def)

lemma level_of_custom [simp]: "level_of ''custom'' = None"
  by (simp add: level_of_def VISIBILITY_LEVELS_def)

lemma parse_level_js [simp]: "parse_level (level_js l) = l"
  by (cases l) (simp_all add: parse_level_def del: level_name.simps)

lemmas scope_reads = scope_js_def map_add_def opt_arr_def str_or_empty_def

lemma scope_js_get [simp]:
  "js_get (scope_js s) ''mode'' = mode_js (mode s)"
  "js_get (scope_js s) ''level'' = level_js (level s)"
  "js_get (scope_js s) ''selfId'' = JStr (selfId s)"
  "js_get (scope_js s) ''ownerIds'' = strs_js (ownerIds s)"
  "js_get (scope_js s) ''sharedRecordIds'' = strs_js (sharedRecordIds s)"
  "js_get (scope_js s) ''sharedRecordIdsByType'' =
     (case sharedRecordIdsByType s of None \<Rightarrow> JUndef
      | Some m \<Rightarrow> JObj (map (\<lambda>(t, ids). (t, strs_js ids)) m))"
  "js_get (scope_js s) ''deferred'' = (if deferred s then JBool True else JUndef)"
  "js_get (scope_js s) ''descriptor'' =
     (case descriptor s of None \<Rightarrow> JUndef | Some d \<Rightarrow> descriptor_js d)"
  "js_get (scope_js s) ''epoch'' = (case epoch s of None \<Rightarrow> JUndef | Some n \<Rightarrow> JNum n)"
  "js_get (scope_js s) ''resource'' = (case resource s of None \<Rightarrow> JUndef | Some r \<Rightarrow> JStr r)"
  "js_get (scope_js s) ''viewerUnitIds'' =
     (case viewerUnitIds s of None \<Rightarrow> JUndef | Some u \<Rightarrow> strs_js u)"
  "js_get (scope_js s) ''viewerDepartmentIds'' =
     (case viewerDepartmentIds s of None \<Rightarrow> JUndef | Some u \<Rightarrow> strs_js u)"
  "js_get (scope_js s) ''departmentIds'' =
     (case departmentIds s of None \<Rightarrow> JUndef | Some u \<Rightarrow> strs_js u)"
  by (simp_all add: scope_reads split: option.split)

lemma parse_scope_js:
  assumes "wf_scope s"
  shows "parse_scope_obj (scope_js s) = Some s"
proof -
  have desc: "(if deferred s then normalizeDescriptor (js_get (scope_js s) ''descriptor'') else None) = descriptor s"
    using assms by (auto simp: wf_scope_def normalizeDescriptor_js split: option.splits)
  have shared: "normalizeSharedByType (js_get (scope_js s) ''sharedRecordIdsByType'') = sharedRecordIdsByType s"
    using assms by (auto simp: wf_scope_def normalizeSharedByType_js split: option.splits)
  have nb: "[] \<notin> set ds \<Longrightarrow> filter (\<lambda>s. s \<noteq> []) ds = ds" for ds :: "string list"
    by (intro filter_True) auto
  have vd: "opt_arr ne_strs (js_get (scope_js s) ''viewerDepartmentIds'') = viewerDepartmentIds s"
    and dd: "opt_arr ne_strs (js_get (scope_js s) ''departmentIds'') = departmentIds s"
    using assms by (auto simp: wf_scope_def opt_arr_def nb split: option.splits)
  have vu: "opt_arr str_arr (js_get (scope_js s) ''viewerUnitIds'') = viewerUnitIds s"
    by (auto simp: opt_arr_def split: option.splits)
  have simple: "(case js_get (scope_js s) ''epoch'' of JNum n \<Rightarrow> Some n | _ \<Rightarrow> None) = epoch s"
    "js_string (js_get (scope_js s) ''resource'') = resource s"
    "(js_get (scope_js s) ''deferred'' = JBool True) = deferred s"
    "str_or_empty (js_get (scope_js s) ''selfId'') = selfId s"
    by (auto simp: str_or_empty_def split: option.splits)
  have "deferred s \<longrightarrow> descriptor s \<noteq> None" using assms by (simp add: wf_scope_def)
  then show ?thesis
    unfolding parse_scope_obj_def Let_def simple shared vd dd vu desc
    by simp
qed

text \<open>
  C36: A scope survives the trip through the gRPC metadata: serialized by the gateway and
  parsed by a domain it comes back with every field, shares by type, deferral and
  descriptor included. The hypothesis on the codec is that decoding the encoded JSON
  gives the JSON back.
\<close>

theorem scope_metadata_roundtrip:
  assumes "wf_scope s"
    and "trim (enc (scope_js s)) \<noteq> []" and "dec (trim (enc (scope_js s))) = Some (scope_js s)"
  shows "parseVisibilityScope dec (Some (serializeVisibilityScope enc s)) = Some s"
  using assms by (simp add: parseVisibilityScope_def serializeVisibilityScope_def parse_scope_js)

definition sample_scope :: vis_scope where
  "sample_scope = \<lparr>mode = ModeRestricted, level = CustomLevel, selfId = ''u1'', ownerIds = [''u1''],
     sharedRecordIds = [], sharedRecordIdsByType = Some [(''deal'', [''d1''])], deferred = True,
     descriptor = Some \<lparr>unitIds = [''a''], ledUnitIds = [], selectedGroupIds = [],
       ruleKinds = [''own'', ''own_groups''], usesSharing = True, orgId = ''o''\<rparr>,
     epoch = Some 3, resource = Some ''deals'', viewerUnitIds = None,
     viewerDepartmentIds = Some [''a''], departmentIds = None\<rparr>"

theorem scope_metadata_roundtrip_witness:
  "parseVisibilityScope (\<lambda>t. if t = ''x'' then Some (scope_js sample_scope) else None)
     (Some (serializeVisibilityScope (\<lambda>_. ''x'') sample_scope)) = Some sample_scope"
  by (rule scope_metadata_roundtrip)
     (simp_all add: wf_scope_def wf_shared_def sample_scope_def RULE_KINDS_def trim_def is_ws_def)

end
