(* ===== verification/VisFilter.thy ===== *)
theory VisFilter
  imports Visibility
begin

text \<open>
  The filters of a resolved scope and the single-record checks (\<^verbatim>\<open>shared/src/rbac.ts\<close>, last
  part). In the filters record ids, owner ids and department ids are strings.
\<close>

subsection \<open>Filters\<close>

definition DENY_ALL_FILTER :: mfilter where
  "DENY_ALL_FILTER = MNor [MFields []]"

definition in_strs :: "string list \<Rightarrow> mop" where
  "in_strs xs = OpIn (map JStr xs)"

definition nonblank :: "string list option \<Rightarrow> string list" where
  "nonblank xs = filter (\<lambda>d. d \<noteq> []) (case xs of None \<Rightarrow> [] | Some ds \<Rightarrow> ds)"

text \<open>A single disjunct stands alone, several become \<open>$or\<close>.\<close>

definition one_or :: "mfilter list \<Rightarrow> mfilter" where
  "one_or fs = (case fs of [f] \<Rightarrow> f | _ \<Rightarrow> MOr fs)"

definition buildVisibilityFilter ::
  "vis_scope option \<Rightarrow> string \<Rightarrow> string list \<Rightarrow> string option \<Rightarrow> mfilter option" where
  "buildVisibilityFilter scope ownerField sharedIds departmentField =
     (case scope of
        None \<Rightarrow> Some DENY_ALL_FILTER
      | Some s \<Rightarrow>
          if mode s = ModeAll then None
          else if deferred s then Some DENY_ALL_FILTER
          else let deptIds = nonblank (departmentIds s) in
            Some (one_or
              ([mfield ownerField (in_strs (ownerIds s))]
               @ (case departmentField of
                    Some f \<Rightarrow> if f \<noteq> [] \<and> deptIds \<noteq> [] then [mfield f (in_strs deptIds)] else []
                  | None \<Rightarrow> [])
               @ (if sharedIds \<noteq> [] then [mfield ''_id'' (in_strs sharedIds)] else []))))"

definition no_owner :: "string \<Rightarrow> mfilter" where
  "no_owner ownerField =
     MOr [mfield ownerField (OpVal JNull), mfield ownerField (OpVal (JStr [])),
          mfield ownerField (OpExists False)]"

definition buildOwnableVisibilityFilter ::
  "vis_scope option \<Rightarrow> string \<Rightarrow> string option \<Rightarrow> string list \<Rightarrow> mfilter option" where
  "buildOwnableVisibilityFilter scope ownerField departmentField sharedIds =
     (case scope of
        None \<Rightarrow> Some DENY_ALL_FILTER
      | Some s \<Rightarrow>
          if mode s = ModeAll then None
          else if deferred s then Some DENY_ALL_FILTER
          else let deptIds = nonblank (viewerDepartmentIds s) in
            Some (one_or
              ([mfield ownerField (in_strs (ownerIds s))]
               @ (if sharedIds \<noteq> [] then [mfield ''_id'' (in_strs sharedIds)] else [])
               @ (case departmentField of
                    Some f \<Rightarrow> if f \<noteq> [] \<and> deptIds \<noteq> []
                              then [MAnd [mfield f (in_strs deptIds), no_owner ownerField]] else []
                  | None \<Rightarrow> []))))"

definition isOwnableRecordVisible ::
  "vis_scope option \<Rightarrow> string option \<Rightarrow> string option \<Rightarrow> bool \<Rightarrow> bool" where
  "isOwnableRecordVisible scope ownerId departmentId isShared =
     (case scope of
        None \<Rightarrow> False
      | Some s \<Rightarrow>
          if mode s = ModeAll then True
          else if deferred s then False
          else if isShared then True
          else if (case ownerId of Some i \<Rightarrow> i \<noteq> [] \<and> i \<in> set (ownerIds s) | None \<Rightarrow> False) then True
          else (let dept = (case departmentId of Some d \<Rightarrow> d | None \<Rightarrow> []) in
            if dept = [] then False
            else if (case ownerId of Some i \<Rightarrow> i \<noteq> [] | None \<Rightarrow> False) then False
            else dept \<in> set (case viewerDepartmentIds s of Some ds \<Rightarrow> ds | None \<Rightarrow> [])))"

text \<open>The two fields that identify a record in a cross-entity store.\<close>

record cross_fields =
  typeField :: string
  idField :: string

fun cross_disjunct :: "cross_fields \<Rightarrow> string \<times> string list \<Rightarrow> mfilter list" where
  "cross_disjunct flds (type, ids) =
     (let unique = js_set_of ids in
      if type = [] \<or> length unique = 0 then []
      else [MFields [(typeField flds, OpVal (JStr type)), (idField flds, in_strs unique)]])"

fun is_nor :: "mfilter \<Rightarrow> bool" where
  "is_nor (MNor _) = True"
| "is_nor _ = False"

definition buildCrossEntityVisibilityFilter ::
  "vis_scope option \<Rightarrow> string \<Rightarrow> cross_fields \<Rightarrow> mfilter option" where
  "buildCrossEntityVisibilityFilter scope ownerField flds =
     (case buildVisibilityFilter scope ownerField [] None of
        None \<Rightarrow> None
      | Some base \<Rightarrow>
          if is_nor base then Some base
          else Some (one_or (base # concat (map (cross_disjunct flds)
                 (case scope of None \<Rightarrow> []
                  | Some s \<Rightarrow> (case sharedRecordIdsByType s of None \<Rightarrow> [] | Some m \<Rightarrow> m))))))"

definition isRecordVisible ::
  "vis_scope option \<Rightarrow> string option \<Rightarrow> bool \<Rightarrow> string option \<Rightarrow> bool" where
  "isRecordVisible scope ownerId isShared departmentId =
     (case scope of
        None \<Rightarrow> False
      | Some s \<Rightarrow>
          if mode s = ModeAll then True
          else if deferred s then False
          else if isShared then True
          else if (case ownerId of Some i \<Rightarrow> i \<in> set (ownerIds s) | None \<Rightarrow> False) then True
          else (case departmentId of
                  None \<Rightarrow> False
                | Some d \<Rightarrow> trim d \<noteq> [] \<and>
                    trim d \<in> set (case departmentIds s of Some ds \<Rightarrow> ds | None \<Rightarrow> [])))"

subsection \<open>What the filters select\<close>

text \<open>The optional filter as a predicate: \<open>None\<close> does not narrow.\<close>

definition selects :: "(mfilter \<Rightarrow> doc \<Rightarrow> bool) \<Rightarrow> mfilter option \<Rightarrow> doc \<Rightarrow> bool" where
  "selects mt f d = (case f of None \<Rightarrow> True | Some g \<Rightarrow> mt g d)"

text \<open>Reading an id field of a document: a string, or absent (missing or null).\<close>

definition str_field :: "doc \<Rightarrow> string \<Rightarrow> string option" where
  "str_field d k = js_string (fld d k)"

definition id_field :: "doc \<Rightarrow> string \<Rightarrow> bool" where
  "id_field d k \<longleftrightarrow> (\<exists>s. fld d k = JStr s) \<or> fld d k = JNull \<or> fld d k = JUndef"

lemma js_get_JObj_None: "map_of d k = None \<Longrightarrow> fld d k = JUndef"
  by (simp add: fld_def)

lemma id_field_scalar: "id_field d k \<Longrightarrow> \<not> is_arr (fld d k)"
  by (auto simp: id_field_def)

lemma prims_map_JStr [simp]: "list_all is_prim (map JStr xs)"
  by (simp add: list_all_iff)

lemma core_in_strs [simp]: "core_op (in_strs xs)"
  by (simp add: in_strs_def)

lemma core_deny [simp]: "core_filter DENY_ALL_FILTER"
  by (simp add: DENY_ALL_FILTER_def)

lemma core_no_owner [simp]: "core_filter (no_owner f)"
  by (simp add: no_owner_def)

lemma ex_guarded [simp]: "(\<exists>x \<in> {x. x = g \<and> P}. Q x) \<longleftrightarrow> P \<and> Q g"
    "(\<exists>x \<in> {x. P \<and> x = g}. Q x) \<longleftrightarrow> P \<and> Q g"
  by auto

lemma ex_in_Un [simp]: "(\<exists>x \<in> A \<union> B. Q x) \<longleftrightarrow> (\<exists>x \<in> A. Q x) \<or> (\<exists>x \<in> B. Q x)"
  by blast

context mongo_core
begin

lemma mt_deny_all [simp]: "mt DENY_ALL_FILTER d = False"
proof -
  have "mt (MFields []) d" using core_fields [of "[]" d] by simp
  then show ?thesis using core_nor [of "[MFields []]" d] by (simp add: DENY_ALL_FILTER_def)
qed

lemma mt_in_strs: "id_field d k \<Longrightarrow> mt (mfield k (in_strs xs)) d \<longleftrightarrow> (\<exists>i \<in> set xs. str_field d k = Some i)"
  using core_in [of "map JStr xs" d k]
  by (auto simp: in_strs_def id_field_def str_field_def image_iff)

lemma mt_one_or: "list_all core_filter fs \<Longrightarrow> fs \<noteq> [] \<Longrightarrow> mt (one_or fs) d \<longleftrightarrow> (\<exists>f \<in> set fs. mt f d)"
  using core_or [of fs d] by (cases fs) (auto simp: one_or_def split: list.splits)

lemma mt_no_owner:
  "id_field d k \<Longrightarrow> mt (no_owner k) d \<longleftrightarrow> (str_field d k = None \<or> str_field d k = Some [])"
  using core_or [of "[mfield k (OpVal JNull), mfield k (OpVal (JStr [])), mfield k (OpExists False)]" d]
    core_val [of JNull d k] core_val [of "JStr []" d k] core_exists [of k False d]
  by (auto simp: no_owner_def id_field_def str_field_def dest: js_get_JObj_None)

lemma mt_and2: "core_filter f \<Longrightarrow> core_filter g \<Longrightarrow> mt (MAnd [f, g]) d \<longleftrightarrow> mt f d \<and> mt g d"
  using core_and [of "[f, g]" d] by simp

lemmas mt_filters = mt_in_strs mt_no_owner mt_and2

text \<open>
  The list filter and the single-record check agree: a document is selected exactly when
  the check admits it with its owner, its department and whether it is shared.
\<close>

lemma visibility_filter_exact:
  assumes owner: "id_field d ownerField" and dept: "id_field d deptField" and rid: "id_field d ''_id''"
    and df: "deptField \<noteq> []"
    and trimmed: "\<And>x. str_field d deptField = Some x \<Longrightarrow> trim x = x"
  shows "selects mt (buildVisibilityFilter scope ownerField shared (Some deptField)) d \<longleftrightarrow>
    isRecordVisible scope (str_field d ownerField)
      (\<exists>i \<in> set shared. str_field d ''_id'' = Some i) (str_field d deptField)"
proof (cases scope)
  case None
  then show ?thesis by (simp add: selects_def buildVisibilityFilter_def isRecordVisible_def)
next
  case (Some s)
  show ?thesis
    using assms
    by (auto simp: Some selects_def buildVisibilityFilter_def isRecordVisible_def mt_one_or mt_filters
        nonblank_def Let_def filter_empty_conv split: option.splits)
qed

lemma ownable_filter_exact:
  assumes owner: "id_field d ownerField" and dept: "id_field d deptField" and rid: "id_field d ''_id''"
    and df: "deptField \<noteq> []"
    and noblank: "\<And>s. scope = Some s \<Longrightarrow> [] \<notin> set (ownerIds s)"
  shows "selects mt (buildOwnableVisibilityFilter scope ownerField (Some deptField) shared) d \<longleftrightarrow>
    isOwnableRecordVisible scope (str_field d ownerField) (str_field d deptField)
      (\<exists>i \<in> set shared. str_field d ''_id'' = Some i)"
proof (cases scope)
  case None
  then show ?thesis by (simp add: selects_def buildOwnableVisibilityFilter_def isOwnableRecordVisible_def)
next
  case (Some s)
  have nb: "[] \<notin> set (ownerIds s)" using noblank Some by blast
  show ?thesis
    using owner dept rid df nb
    by (auto simp: Some selects_def buildOwnableVisibilityFilter_def isOwnableRecordVisible_def
        mt_one_or mt_filters nonblank_def Let_def filter_empty_conv split: option.splits)
qed

text \<open>
  The cross-entity filter: owner, or an explicit share of the row's own entity type.
\<close>

lemma core_cross_disjunct: "list_all core_filter (cross_disjunct flds e)"
  by (cases e) (auto simp: Let_def)

lemma mt_cross_disjunct:
  assumes "id_field d (typeField flds)" and "id_field d (idField flds)"
  shows "(\<exists>f \<in> set (cross_disjunct flds (ty, ids)). mt f d) \<longleftrightarrow>
    ty \<noteq> [] \<and> str_field d (typeField flds) = Some ty \<and>
    (\<exists>i \<in> set ids. str_field d (idField flds) = Some i)"
proof -
  have core: "core_filter (MFields [(typeField flds, OpVal (JStr ty)), (idField flds, in_strs xs)])" for xs
    by simp
  have val: "mt (mfield (typeField flds) (OpVal (JStr ty))) d \<longleftrightarrow> str_field d (typeField flds) = Some ty"
    using core_val [of "JStr ty" d "typeField flds"] assms(1) by (auto simp: id_field_def str_field_def)
  have empty: "js_set_of ids = [] \<longleftrightarrow> ids = []"
    by (metis set_empty set_js_set_of)
  show ?thesis
    using core_fields [OF core, of "js_set_of ids" d] assms
    by (auto simp: Let_def empty val mt_in_strs)
qed

end

text \<open>The records a resolved scope shows in a cross-entity store.\<close>

definition cross_visible :: "vis_scope option \<Rightarrow> string option \<Rightarrow> string option \<Rightarrow> string option \<Rightarrow> bool" where
  "cross_visible scope owner ty rid \<longleftrightarrow>
     (case scope of None \<Rightarrow> False
      | Some s \<Rightarrow> mode s = ModeAll \<or> \<not> deferred s \<and>
          ((\<exists>i \<in> set (ownerIds s). owner = Some i) \<or>
           (\<exists>(t, ids) \<in> set (case sharedRecordIdsByType s of None \<Rightarrow> [] | Some m \<Rightarrow> m).
              t \<noteq> [] \<and> ty = Some t \<and> (\<exists>i \<in> set ids. rid = Some i))))"

context mongo_core
begin

lemma cross_filter_exact:
  assumes "id_field d ownerField" and "id_field d (typeField flds)" and "id_field d (idField flds)"
  shows "selects mt (buildCrossEntityVisibilityFilter scope ownerField flds) d \<longleftrightarrow>
    cross_visible scope (str_field d ownerField) (str_field d (typeField flds)) (str_field d (idField flds))"
proof (cases scope)
  case None
  then show ?thesis
    by (simp add: selects_def buildCrossEntityVisibilityFilter_def buildVisibilityFilter_def
        cross_visible_def DENY_ALL_FILTER_def) (simp add: DENY_ALL_FILTER_def [symmetric])
next
  case (Some s)
  let ?m = "case sharedRecordIdsByType s of None \<Rightarrow> [] | Some m \<Rightarrow> m"
  let ?base = "mfield ownerField (in_strs (ownerIds s))"
  have core: "list_all core_filter (?base # concat (map (cross_disjunct flds) ?m))"
    using core_cross_disjunct by (auto simp: list_all_iff)
  have flat: "(\<exists>f \<in> set (concat (map (cross_disjunct flds) ?m)). mt f d) \<longleftrightarrow>
    (\<exists>e \<in> set ?m. \<exists>f \<in> set (cross_disjunct flds e). mt f d)"
    by simp
  have ex: "(\<exists>f \<in> set (concat (map (cross_disjunct flds) ?m)). mt f d) \<longleftrightarrow>
    (\<exists>(t, ids) \<in> set ?m. t \<noteq> [] \<and> str_field d (typeField flds) = Some t \<and>
       (\<exists>i \<in> set ids. str_field d (idField flds) = Some i))"
    unfolding flat split_beta
    by (intro bex_cong refl) (metis mt_cross_disjunct [OF assms(2,3)] prod.collapse)
  consider "mode s = ModeAll" | "mode s \<noteq> ModeAll" "deferred s" | "mode s \<noteq> ModeAll" "\<not> deferred s"
    by blast
  then show ?thesis
  proof cases
    case 1
    then show ?thesis
      by (simp add: Some selects_def buildCrossEntityVisibilityFilter_def buildVisibilityFilter_def cross_visible_def)
  next
    case 2
    then show ?thesis
      using mt_deny_all [of d]
      by (simp add: Some selects_def buildCrossEntityVisibilityFilter_def buildVisibilityFilter_def
          cross_visible_def DENY_ALL_FILTER_def)
  next
    case 3
    then have "buildCrossEntityVisibilityFilter scope ownerField flds =
        Some (one_or (?base # concat (map (cross_disjunct flds) ?m)))"
      by (simp add: Some buildCrossEntityVisibilityFilter_def buildVisibilityFilter_def one_or_def [of "[_]"])
    then have "selects mt (buildCrossEntityVisibilityFilter scope ownerField flds) d \<longleftrightarrow>
        mt ?base d \<or> (\<exists>f \<in> set (concat (map (cross_disjunct flds) ?m)). mt f d)"
      using mt_one_or [OF core, of d] by (simp add: selects_def del: set_concat)
    then show ?thesis
      unfolding ex using 3 assms(1) by (auto simp: Some cross_visible_def mt_in_strs)
  qed
qed

end

subsection \<open>Properties\<close>

text \<open>
  C1: List and detail agree: on any store that keeps the documented meaning of the filter
  operators, the Mongo filter built from a resolved scope selects exactly the documents
  whose owner, department and share pass the single-record check. The department field of
  a stored document carries no surrounding blanks (the check trims it, the filter does not).
\<close>

theorem visibility_filter_matches_check:
  assumes "mongo_core mt"
    and "id_field d ownerField" and "id_field d deptField" and "id_field d ''_id''" and "deptField \<noteq> []"
    and "\<And>x. str_field d deptField = Some x \<Longrightarrow> trim x = x"
  shows "selects mt (buildVisibilityFilter scope ownerField shared (Some deptField)) d \<longleftrightarrow>
    isRecordVisible scope (str_field d ownerField)
      (\<exists>i \<in> set shared. str_field d ''_id'' = Some i) (str_field d deptField)"
  using assms by (rule mongo_core.visibility_filter_exact)

definition inline_scope :: "string list \<Rightarrow> string list \<Rightarrow> vis_scope" where
  "inline_scope owners depts = \<lparr>mode = ModeRestricted, level = Lvl OwnAndDepartment, selfId = ''u1'',
     ownerIds = owners, sharedRecordIds = [], sharedRecordIdsByType = None, deferred = False,
     descriptor = None, epoch = None, resource = None, viewerUnitIds = None,
     viewerDepartmentIds = Some depts, departmentIds = Some depts\<rparr>"

definition dept_doc :: doc where
  "dept_doc = [(''_id'', JStr ''r1''), (''ownerId'', JNull), (''departmentId'', JStr ''dep'')]"

lemma dept_doc_fields:
  "fld dept_doc ''_id'' = JStr ''r1''" "fld dept_doc ''ownerId'' = JNull"
  "fld dept_doc ''departmentId'' = JStr ''dep''"
  by (simp_all add: dept_doc_def fld_def)

lemmas doc_reads = dept_doc_fields id_field_def str_field_def

theorem visibility_filter_matches_check_witness:
  "selects fake_matches (buildVisibilityFilter (Some (inline_scope [''u1''] [''dep''])) ''ownerId'' []
     (Some ''departmentId'')) dept_doc"
proof -
  have "selects fake_matches (buildVisibilityFilter (Some (inline_scope [''u1''] [''dep''])) ''ownerId'' []
     (Some ''departmentId'')) dept_doc \<longleftrightarrow>
    isRecordVisible (Some (inline_scope [''u1''] [''dep''])) (str_field dept_doc ''ownerId'')
      (\<exists>i \<in> set []. str_field dept_doc ''_id'' = Some i) (str_field dept_doc ''departmentId'')"
    by (rule visibility_filter_matches_check [OF fake.mongo_core_axioms])
       (simp_all add: doc_reads trim_def is_ws_def)
  then show ?thesis
    by (simp add: isRecordVisible_def inline_scope_def doc_reads trim_def is_ws_def)
qed

text \<open>
  The same agreement for records owned by a user or else by a department: a
  department-owned record is selected only when it has no user owner, in the filter as in
  the check. The owner list of the scope holds no blank id; with a blank one the filter
  would select blank-owner records that the check refuses.
\<close>

theorem ownable_filter_matches_check:
  assumes "mongo_core mt"
    and "id_field d ownerField" and "id_field d deptField" and "id_field d ''_id''" and "deptField \<noteq> []"
    and "\<And>s. scope = Some s \<Longrightarrow> [] \<notin> set (ownerIds s)"
  shows "selects mt (buildOwnableVisibilityFilter scope ownerField (Some deptField) shared) d \<longleftrightarrow>
    isOwnableRecordVisible scope (str_field d ownerField) (str_field d deptField)
      (\<exists>i \<in> set shared. str_field d ''_id'' = Some i)"
  using assms by (rule mongo_core.ownable_filter_exact)

theorem ownable_filter_matches_check_witness:
  "selects fake_matches (buildOwnableVisibilityFilter (Some (inline_scope [''u1''] [''dep''])) ''ownerId''
     (Some ''departmentId'') []) dept_doc"
proof -
  have "selects fake_matches (buildOwnableVisibilityFilter (Some (inline_scope [''u1''] [''dep''])) ''ownerId''
     (Some ''departmentId'') []) dept_doc \<longleftrightarrow>
    isOwnableRecordVisible (Some (inline_scope [''u1''] [''dep''])) (str_field dept_doc ''ownerId'')
      (str_field dept_doc ''departmentId'') (\<exists>i \<in> set []. str_field dept_doc ''_id'' = Some i)"
    by (rule ownable_filter_matches_check [OF fake.mongo_core_axioms])
       (auto simp: doc_reads inline_scope_def)
  then show ?thesis
    by (simp add: isOwnableRecordVisible_def inline_scope_def doc_reads)
qed

text \<open>
  In a store that indexes many resources a row is selected by its owner, or by an
  explicit share of a record of the row's own entity type: an id shared for one entity
  type never reveals a row of another.
\<close>

theorem cross_entity_filter_exact:
  assumes "mongo_core mt"
    and "id_field d ownerField" and "id_field d (typeField flds)" and "id_field d (idField flds)"
  shows "selects mt (buildCrossEntityVisibilityFilter scope ownerField flds) d \<longleftrightarrow>
    cross_visible scope (str_field d ownerField) (str_field d (typeField flds)) (str_field d (idField flds))"
  using assms by (rule mongo_core.cross_filter_exact)

theorem cross_entity_filter_exact_witness:
  "\<not> selects fake_matches (buildCrossEntityVisibilityFilter
      (Some ((inline_scope [''u1''] [])\<lparr>sharedRecordIdsByType := Some [(''contact'', [''r1''])]\<rparr>)) ''ownerId''
      \<lparr>typeField = ''departmentId'', idField = ''_id''\<rparr>) dept_doc"
  by (subst cross_entity_filter_exact [OF fake.mongo_core_axioms])
     (simp_all add: doc_reads cross_visible_def inline_scope_def)

text \<open>
  Access fails closed: without a resolved scope, or with a deferred one that has not been
  hydrated, every filter selects nothing and every single-record check refuses, shared
  records included.
\<close>

theorem unresolved_scope_denies:
  assumes "mongo_core mt" and "scope = None \<or> (\<exists>s. scope = Some s \<and> mode s = ModeRestricted \<and> deferred s)"
  shows "\<not> selects mt (buildVisibilityFilter scope ownerField shared deptField) d \<and>
    \<not> selects mt (buildOwnableVisibilityFilter scope ownerField deptField shared) d \<and>
    \<not> selects mt (buildCrossEntityVisibilityFilter scope ownerField flds) d \<and>
    \<not> isRecordVisible scope owner isShared dept \<and> \<not> isOwnableRecordVisible scope owner dept isShared"
proof -
  have "is_nor DENY_ALL_FILTER" by (simp add: DENY_ALL_FILTER_def)
  then show ?thesis
    using assms mongo_core.mt_deny_all [OF assms(1), of d]
    by (elim disjE exE conjE)
       (simp_all add: selects_def buildVisibilityFilter_def buildOwnableVisibilityFilter_def
         buildCrossEntityVisibilityFilter_def isRecordVisible_def isOwnableRecordVisible_def)
qed

theorem unresolved_scope_denies_witness:
  "\<not> isRecordVisible (Some sample_scope) (Some ''u1'') True (Some ''a'')"
  using unresolved_scope_denies [OF fake.mongo_core_axioms, of "Some sample_scope" _ _ _ _ _ "Some ''u1''" True "Some ''a''"]
  by (simp add: sample_scope_def)

end
