(* ===== verification/SettingsSchema.thy ===== *)
theory SettingsSchema
  imports Prelude
begin

text \<open>
  Module settings (\<^verbatim>\<open>shared/src/settings-schema.ts\<close>): the conversion of the registry's
  shorthand to a JSON Schema document and the validator of the supported subset, which
  also cleans the settings it is given. A schema is a JSON value; a path is the list of
  its segments; an error keeps the kind of its message with the operand it prints.
\<close>

subsection \<open>From shorthand to schema\<close>

definition TYPE_KEYWORDS :: "string list" where
  "TYPE_KEYWORDS = [''string'', ''number'', ''integer'', ''boolean'', ''array'']"

fun is_obj :: "jsval \<Rightarrow> bool" where
  "is_obj (JObj _) = True"
| "is_obj _ = False"

fun shorthandFieldToSchema :: "jsval \<Rightarrow> jsval" where
  "shorthandFieldToSchema (JStr s) =
     (if s \<in> set TYPE_KEYWORDS then JObj [(''type'', JStr s)] else JObj [(''const'', JStr s)])"
| "shorthandFieldToSchema (JArr xs) =
     (if xs = [JStr ''array''] then JObj [(''type'', JStr ''array'')]
      else JObj [(''type'', JStr ''string''), (''enum'', JArr (map JStr (str_arr (JArr xs))))])"
| "shorthandFieldToSchema (JObj ps) =
     (if js_has (JObj ps) ''type'' \<or> js_has (JObj ps) ''enum'' \<or> js_has (JObj ps) ''const''
      then JObj ps else JObj [])"
| "shorthandFieldToSchema _ = JObj []"

text \<open>A shorthand map is an object, a list of its entries.\<close>

definition shorthandToJsonSchema :: "(string \<times> jsval) list \<Rightarrow> jsval" where
  "shorthandToJsonSchema shorthand =
     JObj [(''$schema'', JStr ''https://json-schema.org/draft/2020-12/schema''),
           (''type'', JStr ''object''),
           (''properties'', JObj (map (\<lambda>(k, v). (k, shorthandFieldToSchema v)) shorthand)),
           (''additionalProperties'', JBool False)]"

subsection \<open>Type and equality checks\<close>

fun typeMatches :: "jsval \<Rightarrow> string \<Rightarrow> bool" where
  "typeMatches v t =
     (if t = ''object'' then is_obj v
      else if t = ''array'' then (case v of JArr _ \<Rightarrow> True | _ \<Rightarrow> False)
      else if t = ''string'' then (case v of JStr _ \<Rightarrow> True | _ \<Rightarrow> False)
      else if t = ''boolean'' then (case v of JBool _ \<Rightarrow> True | _ \<Rightarrow> False)
      else if t = ''number'' then (case v of JNum _ \<Rightarrow> True | _ \<Rightarrow> False)
      else if t = ''integer'' then (case v of JNum n \<Rightarrow> of_int \<lfloor>n\<rfloor> = n | _ \<Rightarrow> False)
      else False)"

text \<open>Structural equality; the keys of an object are distinct.\<close>

fun jsonEquals :: "jsval \<Rightarrow> jsval \<Rightarrow> bool"
  and jsonEquals_arr :: "jsval list \<Rightarrow> jsval list \<Rightarrow> bool"
  and jsonEquals_obj :: "(string \<times> jsval) list \<Rightarrow> (string \<times> jsval) list \<Rightarrow> bool" where
  "jsonEquals (JArr xs) b = (case b of JArr ys \<Rightarrow> length xs = length ys \<and> jsonEquals_arr xs ys | _ \<Rightarrow> False)"
| "jsonEquals (JObj ps) b = (case b of JObj qs \<Rightarrow> length ps = length qs \<and> jsonEquals_obj ps qs | _ \<Rightarrow> False)"
| "jsonEquals a b = js_seq a b"
| "jsonEquals_arr [] ys = True"
| "jsonEquals_arr (x # xs) ys = (case ys of [] \<Rightarrow> False | y # ys' \<Rightarrow> jsonEquals x y \<and> jsonEquals_arr xs ys')"
| "jsonEquals_obj [] qs = True"
| "jsonEquals_obj ((k, v) # ps) qs =
     ((case map_of qs k of None \<Rightarrow> False | Some w \<Rightarrow> jsonEquals v w) \<and> jsonEquals_obj ps qs)"

subsection \<open>The validator\<close>

datatype settings_msg =
    MustEqual jsval
  | MustBeOneOf "jsval list"
  | MustBeType jsval
  | MinLength rat | MaxLength rat
  | Minimum rat | Maximum rat
  | MinItems rat | MaxItems rat
  | UnknownProperty
  | IsRequired
  | NotAnObject

type_synonym settings_error = "string list \<times> settings_msg"

fun below :: "rat \<Rightarrow> jsval \<Rightarrow> rat option" where
  "below n (JNum m) = (if n < m then Some m else None)"
| "below n _ = None"

fun above :: "rat \<Rightarrow> jsval \<Rightarrow> rat option" where
  "above n (JNum m) = (if m < n then Some m else None)"
| "above n _ = None"

text \<open>Two bounds, tried in order.\<close>

definition bounds_error :: "rat \<Rightarrow> jsval \<Rightarrow> (rat \<Rightarrow> settings_msg) \<Rightarrow> jsval \<Rightarrow> (rat \<Rightarrow> settings_msg) \<Rightarrow> settings_msg option" where
  "bounds_error n lo mlo hi mhi =
     (case below n lo of Some m \<Rightarrow> Some (mlo m)
      | None \<Rightarrow> (case above n hi of Some m \<Rightarrow> Some (mhi m) | None \<Rightarrow> None))"

text \<open>The checks of one node that do not look below it, in the order of the code.\<close>

definition leaf_error :: "jsval \<Rightarrow> jsval \<Rightarrow> settings_msg option" where
  "leaf_error schema v =
     (if js_get schema ''const'' \<noteq> JUndef \<and> \<not> jsonEquals v (js_get schema ''const'')
      then Some (MustEqual (js_get schema ''const''))
      else case (case js_get schema ''enum'' of
             JArr es \<Rightarrow> if list_ex (jsonEquals v) es then None else Some (MustBeOneOf es)
           | _ \<Rightarrow> None) of
        Some m \<Rightarrow> Some m
      | None \<Rightarrow>
        (case (case js_get schema ''type'' of
             JStr t \<Rightarrow> if t = [] \<or> typeMatches v t then None else Some (MustBeType (JStr t))
           | t \<Rightarrow> if js_truthy t then Some (MustBeType t) else None) of
          Some m \<Rightarrow> Some m
        | None \<Rightarrow>
          (case v of
             JStr s \<Rightarrow> bounds_error (of_nat (length s)) (js_get schema ''minLength'') MinLength
                         (js_get schema ''maxLength'') MaxLength
           | JNum n \<Rightarrow> bounds_error n (js_get schema ''minimum'') Minimum (js_get schema ''maximum'') Maximum
           | JArr xs \<Rightarrow> bounds_error (of_nat (length xs)) (js_get schema ''minItems'') MinItems
                          (js_get schema ''maxItems'') MaxItems
           | _ \<Rightarrow> None)))"

definition props_of :: "jsval \<Rightarrow> (string \<times> jsval) list" where
  "props_of schema = (case js_get schema ''properties'' of JObj ps \<Rightarrow> ps | _ \<Rightarrow> [])"

definition required_errors :: "jsval \<Rightarrow> string list \<Rightarrow> (string \<times> jsval) list \<Rightarrow> settings_error list" where
  "required_errors schema path out =
     map (\<lambda>r. (path @ [r], IsRequired))
       (filter (\<lambda>r. r \<notin> fst ` set out) (str_arr (js_get schema ''required'')))"

fun validateNode :: "jsval \<Rightarrow> jsval \<Rightarrow> string list \<Rightarrow> bool \<times> jsval \<times> settings_error list"
  and validate_items :: "jsval \<Rightarrow> jsval list \<Rightarrow> string list \<Rightarrow> nat \<Rightarrow> bool \<times> settings_error list"
  and validate_props ::
    "jsval \<Rightarrow> (string \<times> jsval) list \<Rightarrow> string list \<Rightarrow> bool \<times> (string \<times> jsval) list \<times> settings_error list" where
  "validateNode schema (JArr xs) path =
     (case leaf_error schema (JArr xs) of
        Some m \<Rightarrow> (False, JArr xs, [(path, m)])
      | None \<Rightarrow>
          if is_obj (js_get schema ''items'')
          then (let (ok, es) = validate_items (js_get schema ''items'') xs path 0 in (ok, JArr xs, es))
          else (True, JArr xs, []))"
| "validateNode schema (JObj ps) path =
     (case leaf_error schema (JObj ps) of
        Some m \<Rightarrow> (False, JObj ps, [(path, m)])
      | None \<Rightarrow>
          if js_get schema ''type'' = JStr ''object''
          then (let (ok, out, es) = validate_props schema ps path; req = required_errors schema path out
                in (ok \<and> req = [], JObj out, es @ req))
          else (True, JObj ps, []))"
| "validateNode schema v path =
     (case leaf_error schema v of Some m \<Rightarrow> (False, v, [(path, m)]) | None \<Rightarrow> (True, v, []))"
| "validate_items item [] path i = (True, [])"
| "validate_items item (v # vs) path i =
     (let (ok, _, es) = validateNode item v (path @ [nat_str i]) in
      if ok then (let (ok', es') = validate_items item vs path (Suc i) in (ok', es @ es'))
      else (False, es))"
| "validate_props schema [] path = (True, [], [])"
| "validate_props schema ((k, raw) # ps) path =
     (let (okr, outr, esr) = validate_props schema ps path in
      case map_of (props_of schema) k of
        None \<Rightarrow>
          if js_get schema ''additionalProperties'' \<noteq> JBool False then (okr, (k, raw) # outr, esr)
          else (False, outr, (path @ [k], UnknownProperty) # esr)
      | Some propSchema \<Rightarrow>
          (let (ok, v, es) = validateNode propSchema raw (path @ [k]) in
           if ok then (okr, (k, v) # outr, es @ esr) else (False, outr, es @ esr)))"

definition validateObject ::
  "jsval \<Rightarrow> (string \<times> jsval) list \<Rightarrow> string list \<Rightarrow> bool \<times> (string \<times> jsval) list \<times> settings_error list" where
  "validateObject schema ps path =
     (let (ok, out, es) = validate_props schema ps path; req = required_errors schema path out
      in (ok \<and> req = [], out, es @ req))"

definition isJsonSchemaObject :: "jsval \<Rightarrow> bool" where
  "isJsonSchemaObject v \<longleftrightarrow> is_obj v \<and> js_get v ''type'' = JStr ''object'' \<and>
     (js_has v ''properties'' \<or> js_has v ''additionalProperties'' \<or> js_has v ''$schema'')"

record settings_result =
  s_valid :: bool
  s_value :: "(string \<times> jsval) list"
  s_errors :: "settings_error list"

definition schema_for :: "(string \<times> jsval) list \<Rightarrow> jsval" where
  "schema_for schema =
     (if isJsonSchemaObject (JObj schema) then JObj schema else shorthandToJsonSchema schema)"

definition validateSettings :: "jsval \<Rightarrow> (string \<times> jsval) list \<Rightarrow> settings_result" where
  "validateSettings raw schema =
     (case raw of
        JObj ps \<Rightarrow> (let (ok, v, es) = validateObject (schema_for schema) ps []
                   in \<lparr>s_valid = ok, s_value = v, s_errors = es\<rparr>)
      | _ \<Rightarrow>
          if js_nullish raw
          then (let (ok, v, es) = validateObject (schema_for schema) [] []
                in \<lparr>s_valid = ok, s_value = v, s_errors = es\<rparr>)
          else \<lparr>s_valid = False, s_value = [], s_errors = [([], NotAnObject)]\<rparr>)"

subsection \<open>What the validator computes\<close>

text \<open>A node that passes is returned unchanged and reports nothing; one that fails reports something.\<close>

lemma validate_ok:
  shows "validateNode schema v path = (ok, w, es) \<Longrightarrow> (ok \<longleftrightarrow> es = []) \<and> (ok \<longrightarrow> w = v)"
    and "validate_items item vs path i = (ok, es) \<Longrightarrow> ok \<longleftrightarrow> es = []"
    and "validate_props schema ps path = (ok, out, es) \<Longrightarrow> (ok \<longleftrightarrow> es = []) \<and> (ok \<longrightarrow> out = ps)"
proof (induction schema v path and item vs path i and schema ps path
    arbitrary: ok w es and ok es and ok out es rule: validateNode_validate_items_validate_props.induct)
  case (2 schema ps path)
  then show ?case
    by (auto simp: required_errors_def Let_def split: option.splits if_splits prod.splits)
next
  case (5 item v vs path i)
  then show ?case by (fastforce split: prod.splits if_splits)
next
  case (7 schema k raw ps path)
  then show ?case by (fastforce simp: Let_def split: option.splits if_splits prod.splits)
qed (auto split: option.splits if_splits prod.splits)


text \<open>Whether a value passes does not depend on the path it is reported under.\<close>

lemma validate_ok_path:
  shows "fst (validateNode schema v p) = fst (validateNode schema v q)
         \<and> fst (snd (validateNode schema v p)) = fst (snd (validateNode schema v q))"
    and "fst (validate_items item vs p i) = fst (validate_items item vs q j)"
    and "fst (validate_props schema ps p) = fst (validate_props schema ps q)
         \<and> fst (snd (validate_props schema ps p)) = fst (snd (validate_props schema ps q))"
proof (induction schema v p and item vs p i and schema ps p
    arbitrary: q and q j and q rule: validateNode_validate_items_validate_props.induct)
  case (1 schema xs path)
  show ?case using "1.IH" [of q 0] by (simp add: case_prod_beta split: option.split)
next
  case (2 schema ps path)
  show ?case using "2.IH" [of q] by (simp add: Let_def case_prod_beta required_errors_def split: option.split)
next
  case (5 item v vs path i)
  show ?case
  proof (cases "fst (validateNode item v (path @ [nat_str i]))")
    case True
    then have "fst (validateNode item v (q @ [nat_str j]))"
      using "5.IH"(1) by blast
    moreover obtain w es where v: "validateNode item v (path @ [nat_str i]) = (True, w, es)"
      using True by (cases "validateNode item v (path @ [nat_str i])") simp
    have "fst (validate_items item vs path (Suc i)) = fst (validate_items item vs q (Suc j))"
      by (rule "5.IH"(2) [OF refl v [symmetric] refl TrueI])
    ultimately show ?thesis using True by (simp add: case_prod_beta)
  next
    case False
    then have "\<not> fst (validateNode item v (q @ [nat_str j]))"
      using "5.IH"(1) by blast
    with False show ?thesis by (simp add: case_prod_beta)
  qed
next
  case (7 schema k raw ps path)
  show ?case
  proof (cases "map_of (props_of schema) k")
    case None
    then show ?thesis using "7.IH"(1) [of q] by (simp add: case_prod_beta)
  next
    case (Some s)
    obtain okr outr esr where r: "validate_props schema ps path = (okr, outr, esr)"
      by (cases "validate_props schema ps path") simp
    have "fst (validateNode s raw (path @ [k])) = fst (validateNode s raw (q @ [k]))"
      "fst (snd (validateNode s raw (path @ [k]))) = fst (snd (validateNode s raw (q @ [k])))"
      using "7.IH"(2) [OF refl r [symmetric] refl Some] by simp_all
    with Some show ?thesis using "7.IH"(1) [of q] by (simp add: case_prod_beta)
  qed
qed (auto split: option.splits)

definition node_ok :: "jsval \<Rightarrow> jsval \<Rightarrow> bool" where
  "node_ok schema v = fst (validateNode schema v [])"

text \<open>An entry survives when it is declared and conforms, or undeclared and tolerated.\<close>

definition entry_ok :: "jsval \<Rightarrow> string \<times> jsval \<Rightarrow> bool" where
  "entry_ok schema e =
     (case map_of (props_of schema) (fst e) of
        None \<Rightarrow> js_get schema ''additionalProperties'' \<noteq> JBool False
      | Some s \<Rightarrow> node_ok s (snd e))"

lemma validateNode_value: "fst (validateNode schema v path) \<Longrightarrow> fst (snd (validateNode schema v path)) = v"
  by (metis prod.collapse validate_ok(1))

lemma validate_props_filter:
  "fst (snd (validate_props schema ps path)) = filter (entry_ok schema) ps
   \<and> (fst (validate_props schema ps path) \<longleftrightarrow> list_all (entry_ok schema) ps)"
proof (induction ps arbitrary: path)
  case (Cons e ps)
  obtain k raw where e: "e = (k, raw)" by (cases e)
  have ok: "fst (validateNode s raw (path @ [k])) = node_ok s raw" for s
    by (simp add: node_ok_def validate_ok_path(1) [of s raw "path @ [k]" "[]"])
  show ?case
    using Cons.IH [of path]
    by (auto simp: e entry_ok_def Let_def case_prod_beta ok validateNode_value split: option.splits)
qed simp

lemma required_errors_cong:
  "fst ` set out = fst ` set out' \<Longrightarrow> required_errors schema path out = required_errors schema path out'"
  by (simp add: required_errors_def)

lemma validateObject_spec:
  "fst (snd (validateObject schema ps path)) = filter (entry_ok schema) ps"
  "fst (validateObject schema ps path) \<longleftrightarrow>
     list_all (entry_ok schema) ps \<and> required_errors schema path (filter (entry_ok schema) ps) = []"
  using validate_props_filter [of schema ps path]
  by (simp_all add: validateObject_def Let_def case_prod_beta)

lemma validateObject_errors:
  "fst (validateObject schema ps path) \<longleftrightarrow> snd (snd (validateObject schema ps path)) = []"
proof -
  obtain ok out es where "validate_props schema ps path = (ok, out, es)" by (metis prod.collapse)
  with validate_ok(3) [OF this] show ?thesis by (auto simp: validateObject_def Let_def)
qed

lemma validateSettings_JObj:
  "validateSettings (JObj ps) sch =
     \<lparr>s_valid = fst (validateObject (schema_for sch) ps []),
      s_value = fst (snd (validateObject (schema_for sch) ps [])),
      s_errors = snd (snd (validateObject (schema_for sch) ps []))\<rparr>"
  by (simp add: validateSettings_def Let_def case_prod_beta)

lemma map_of_map_values: "map_of (map (\<lambda>(k, v). (k, f v)) ps) k = map_option f (map_of ps k)"
  by (induction ps) auto

lemma entry_ok_shorthand:
  "entry_ok (shorthandToJsonSchema sh) (k, v) \<longleftrightarrow>
     (\<exists>f. map_of sh k = Some f \<and> node_ok (shorthandFieldToSchema f) v)"
  by (auto simp: entry_ok_def shorthandToJsonSchema_def props_of_def map_of_map_values
      split: option.splits)

lemma required_shorthand [simp]: "required_errors (shorthandToJsonSchema sh) path out = []"
  by (simp add: required_errors_def shorthandToJsonSchema_def)

lemma cleaned_filter:
  assumes "\<not> isJsonSchemaObject (JObj sh)"
  shows "s_value (validateSettings raw sh) =
    filter (entry_ok (shorthandToJsonSchema sh)) (case raw of JObj ps \<Rightarrow> ps | _ \<Rightarrow> [])"
  using assms
  by (cases raw) (auto simp: validateSettings_def schema_for_def Let_def case_prod_beta validateObject_spec)

lemma cleaned_revalidates:
  assumes "\<not> isJsonSchemaObject (JObj sh)"
  shows "validateSettings (JObj (filter (entry_ok (shorthandToJsonSchema sh)) ps)) sh
      = \<lparr>s_valid = True, s_value = filter (entry_ok (shorthandToJsonSchema sh)) ps, s_errors = []\<rparr>"
  using validateObject_errors [of "shorthandToJsonSchema sh" "filter (entry_ok (shorthandToJsonSchema sh)) ps" "[]"] assms
  by (simp add: validateSettings_JObj schema_for_def validateObject_spec list_all_iff)

subsection \<open>Properties\<close>

text \<open>The verdict of the settings validator and its error list agree, whatever the schema:
  settings are valid exactly when no error is reported. Valid settings come back as they were
  given, and the returned value always consists of entries of the input, in their order, each one
  of them declared and conforming (or tolerated by an open schema).\<close>

theorem settings_verdict_matches_errors:
  "s_valid (validateSettings (JObj ps) sch) = (s_errors (validateSettings (JObj ps) sch) = [])
   \<and> s_value (validateSettings (JObj ps) sch) = filter (entry_ok (schema_for sch)) ps
   \<and> (s_valid (validateSettings (JObj ps) sch) \<longrightarrow> s_value (validateSettings (JObj ps) sch) = ps)"
  using validateObject_errors [of "schema_for sch" ps "[]"]
  by (auto simp: validateSettings_JObj validateObject_spec list_all_iff)

theorem settings_verdict_matches_errors_witness:
  "s_value (validateSettings (JObj [(''view'', JStr ''list''), (''x'', JNum 1)])
      [(''view'', JArr [JStr ''list'', JStr ''board''])]) = [(''view'', JStr ''list'')]
   \<and> \<not> s_valid (validateSettings (JObj [(''view'', JStr ''list''), (''x'', JNum 1)])
      [(''view'', JArr [JStr ''list'', JStr ''board''])])"
  using settings_verdict_matches_errors [of "[(''view'', JStr ''list''), (''x'', JNum 1)]"
      "[(''view'', JArr [JStr ''list'', JStr ''board''])]"]
  by (auto simp: entry_ok_def schema_for_def isJsonSchemaObject_def shorthandToJsonSchema_def
      props_of_def node_ok_def leaf_error_def bounds_error_def map_filter_simps)

text \<open>Cleaning is stable under a registry shorthand: whatever settings are given, even invalid
  ones, the cleaned value holds exactly the entries whose key the shorthand declares and whose
  value conforms to its descriptor, and validating the cleaned value again accepts it without
  an error and changes nothing.\<close>

theorem settings_cleaning_stable:
  assumes "\<not> isJsonSchemaObject (JObj sh)"
  shows "let v = s_value (validateSettings raw sh) in
    validateSettings (JObj v) sh = \<lparr>s_valid = True, s_value = v, s_errors = []\<rparr>
    \<and> (\<forall>k x. (k, x) \<in> set v \<longleftrightarrow>
         (\<exists>ps f. raw = JObj ps \<and> (k, x) \<in> set ps \<and> map_of sh k = Some f
               \<and> node_ok (shorthandFieldToSchema f) x))"
proof -
  define ps where "ps = (case raw of JObj ps \<Rightarrow> ps | _ \<Rightarrow> [])"
  have mem: "raw = JObj qs \<longleftrightarrow> is_obj raw \<and> qs = ps" for qs
    by (cases raw) (auto simp: ps_def)
  have "is_obj raw" if "x \<in> set ps" for x
    using that by (cases raw) (auto simp: ps_def)
  then show ?thesis
    unfolding cleaned_filter [OF assms] ps_def [symmetric] Let_def
    using cleaned_revalidates [OF assms] by (auto simp: entry_ok_shorthand mem)
qed

theorem settings_cleaning_stable_witness:
  "\<not> isJsonSchemaObject (JObj [(''limit'', JStr ''integer'')])
   \<and> validateSettings (JObj (s_value (validateSettings (JObj [(''limit'', JStr ''no'')])
        [(''limit'', JStr ''integer'')]))) [(''limit'', JStr ''integer'')]
     = \<lparr>s_valid = True,
        s_value = s_value (validateSettings (JObj [(''limit'', JStr ''no'')]) [(''limit'', JStr ''integer'')]),
        s_errors = []\<rparr>"
  using settings_cleaning_stable [of "[(''limit'', JStr ''integer'')]" "JObj [(''limit'', JStr ''no'')]"]
  by (simp add: isJsonSchemaObject_def Let_def)

end
