(* ===== verification/Catalog.thy ===== *)
theory Catalog
  imports SettingsSchema Rbac
begin

text \<open>
  Module definitions, their manifests (\<^verbatim>\<open>shared/src/module-manifest.ts\<close>) and the permission
  catalog built from them (\<^verbatim>\<open>permission-catalog.ts\<close>): the set of \<open>subject:action\<close> keys that
  roles, grants and policy rules may refer to. Display texts are left out of a definition and of a
  manifest. Subjects are lower-case ASCII, on which the locale order of the code is the order of
  code units.
\<close>

subsection \<open>Definitions and manifests\<close>

record module_definition =
  md_id :: string
  md_locked :: bool
  md_dependencies :: "string list"
  md_softDependencies :: "string list"
  md_integrationMethods :: "string list"    \<comment> \<open>their ids\<close>
  md_personalSettingsSchema :: "(string \<times> jsval) list"
  md_integrationSettingsSchema :: "(string \<times> jsval) list"
  md_requiredBeforeEnable :: "string list"
  md_policyCapabilities :: "(string \<times> string list) list"

record manifest =
  mf_id :: string
  mf_version :: string
  mf_alwaysEnabled :: bool
  mf_dependsOn :: "string list"
  mf_softDependsOn :: "string list"
  mf_permissions :: "(string \<times> string list) list"
  mf_personal :: jsval
  mf_integration :: jsval
  mf_dataSubjects :: "(string \<times> string option) list option"  \<comment> \<open>resource and owner field\<close>

definition ACTION_SYNONYMS :: "(string \<times> string) list" where
  "ACTION_SYNONYMS = [(''create'', ''write''), (''update'', ''write'')]"

definition PLATFORM_EMIT_ALIASES :: "string list" where
  "PLATFORM_EMIT_ALIASES = [''crm'']"

definition isWithinNamespace :: "string \<Rightarrow> string \<Rightarrow> bool" where
  "isWithinNamespace v i \<longleftrightarrow> v = i \<or> starts_with v (i @ ''.'')"

definition isAllowedEmit :: "string \<Rightarrow> string \<Rightarrow> bool" where
  "isAllowedEmit emit i \<longleftrightarrow> isWithinNamespace emit i \<or>
     list_ex (\<lambda>alias. emit = alias \<or> starts_with emit (alias @ ''.'')) PLATFORM_EMIT_ALIASES"

definition normalizeAction :: "string \<Rightarrow> string" where
  "normalizeAction a = (case map_of ACTION_SYNONYMS a of Some b \<Rightarrow> b | None \<Rightarrow> a)"

text \<open>A later capability of the same subject replaces the earlier one, in its place.\<close>

definition moduleDefinitionToManifest :: "module_definition \<Rightarrow> manifest" where
  "moduleDefinitionToManifest d =
     \<lparr>mf_id = md_id d, mf_version = ''1.0.0'', mf_alwaysEnabled = md_locked d,
      mf_dependsOn = md_dependencies d, mf_softDependsOn = md_softDependencies d,
      mf_permissions =
        foldl (\<lambda>m (s, as). AList.update s (map normalizeAction as) m) [] (md_policyCapabilities d),
      mf_personal = shorthandToJsonSchema (md_personalSettingsSchema d),
      mf_integration = shorthandToJsonSchema (md_integrationSettingsSchema d),
      mf_dataSubjects = None\<rparr>"

subsection \<open>Keys\<close>

definition SYSTEM_PERMISSION_MODULE_ID :: string where
  "SYSTEM_PERMISSION_MODULE_ID = ''core''"

definition permissionKey :: "string \<Rightarrow> string \<Rightarrow> string" where
  "permissionKey subject action = mk_key subject action"

text \<open>The last colon separates the action.\<close>

definition parsePermissionKey :: "string \<Rightarrow> (string \<times> string) option" where
  "parsePermissionKey key =
     (if CHR '':'' \<notin> set key then None
      else let action = rev (takeWhile (\<lambda>c. c \<noteq> CHR '':'') (rev key));
               idx = length key - length action - 1
           in if idx = 0 \<or> action = [] then None else Some (take idx key, action))"

subsection \<open>The catalog\<close>

record catalog_entry =
  ce_subject :: string
  ce_actions :: "string list"
  ce_moduleIds :: "string list"

record catalog =
  cat_entries :: "catalog_entry list"
  cat_keys :: "string list"

definition cat_hasKey :: "catalog \<Rightarrow> string \<Rightarrow> bool" where
  "cat_hasKey c k \<longleftrightarrow> k \<in> set (cat_keys c)"

definition cat_has :: "catalog \<Rightarrow> string \<Rightarrow> string \<Rightarrow> bool" where
  "cat_has c subject action = cat_hasKey c (permissionKey subject action)"

type_synonym subject_map = "(string \<times> string list \<times> string list) list"

definition collect_permission :: "string \<Rightarrow> subject_map \<Rightarrow> string \<times> string list \<Rightarrow> subject_map" where
  "collect_permission mid m p =
     (case p of (subject, as) \<Rightarrow>
        if mid \<noteq> SYSTEM_PERMISSION_MODULE_ID \<and> \<not> isWithinNamespace subject mid then m
        else let (acts, ids) = (case map_of m subject of None \<Rightarrow> ([], []) | Some e \<Rightarrow> e)
             in AList.update subject (foldl js_add acts (map normalizeAction as), js_add ids mid) m)"

definition collectFromManifest :: "subject_map \<Rightarrow> manifest \<Rightarrow> subject_map" where
  "collectFromManifest m mf = foldl (collect_permission (mf_id mf)) m (mf_permissions mf)"

definition entry_keys :: "catalog_entry \<Rightarrow> string list" where
  "entry_keys e = map (permissionKey (ce_subject e)) (ce_actions e)"

definition entries_of :: "subject_map \<Rightarrow> catalog_entry list" where
  "entries_of m =
     js_sort_by (\<lambda>a b. ce_subject a \<le> ce_subject b)
       (map (\<lambda>(s, as, ids). \<lparr>ce_subject = s, ce_actions = js_sort as, ce_moduleIds = js_sort ids\<rparr>) m)"

definition buildPermissionCatalog :: "manifest list \<Rightarrow> catalog" where
  "buildPermissionCatalog mfs =
     (let entries = entries_of (foldl collectFromManifest [] mfs)
      in \<lparr>cat_entries = entries, cat_keys = js_sort (js_set_of (concat (map entry_keys entries)))\<rparr>)"

subsection \<open>What a catalog promises\<close>

text \<open>
  The interface the permission engine uses: the entries, the flat key list and the two
  membership tests describe the same set of keys.
\<close>

locale permission_catalog =
  fixes has :: "string \<Rightarrow> string \<Rightarrow> bool" and hasKey :: "string \<Rightarrow> bool"
    and keys :: "string list" and entries :: "catalog_entry list"
  assumes has_key: "has s a \<longleftrightarrow> hasKey (permissionKey s a)"
    and key_listed: "hasKey k \<longleftrightarrow> k \<in> set keys"
    and key_entry: "k \<in> set keys \<longleftrightarrow> (\<exists>e \<in> set entries. \<exists>a \<in> set (ce_actions e). k = permissionKey (ce_subject e) a)"
    and keys_sorted: "sorted keys \<and> distinct keys"
begin

lemma has_entry:
  "hasKey k \<longleftrightarrow> (\<exists>e \<in> set entries. k \<in> set (entry_keys e))"
  by (auto simp: key_listed key_entry entry_keys_def)

lemma entry_has: "e \<in> set entries \<Longrightarrow> a \<in> set (ce_actions e) \<Longrightarrow> has (ce_subject e) a"
  by (auto simp: has_key key_listed key_entry)

end

lemma set_entry_keys: "set (entry_keys e) = {permissionKey (ce_subject e) a | a. a \<in> set (ce_actions e)}"
  by (auto simp: entry_keys_def)

interpretation built: permission_catalog
  "cat_has (buildPermissionCatalog ms)" "cat_hasKey (buildPermissionCatalog ms)"
  "cat_keys (buildPermissionCatalog ms)" "cat_entries (buildPermissionCatalog ms)" for ms
  by unfold_locales (auto simp: cat_has_def cat_hasKey_def buildPermissionCatalog_def Let_def set_entry_keys)

subsection \<open>Which keys are in it\<close>

text \<open>The actions a subject map holds for a subject, and the keys it stands for.\<close>

definition acts_of :: "subject_map \<Rightarrow> string \<Rightarrow> string set" where
  "acts_of m s = (case map_of m s of None \<Rightarrow> {} | Some (as, _) \<Rightarrow> set as)"

definition map_keys :: "subject_map \<Rightarrow> string set" where
  "map_keys m = {permissionKey s a | s a. a \<in> acts_of m s}"

definition manifest_keys :: "manifest \<Rightarrow> string set" where
  "manifest_keys mf =
     {permissionKey s (normalizeAction a) | s a. \<exists>as. (s, as) \<in> set (mf_permissions mf) \<and> a \<in> set as \<and>
        (mf_id mf = SYSTEM_PERMISSION_MODULE_ID \<or> isWithinNamespace s (mf_id mf))}"

lemma collect_permission_acts:
  "acts_of (collect_permission mid m (s, as)) s' =
     acts_of m s' \<union> (if s' = s \<and> (mid = SYSTEM_PERMISSION_MODULE_ID \<or> isWithinNamespace s mid)
                     then normalizeAction ` set as else {})"
  by (auto simp: acts_of_def collect_permission_def update_conv' Let_def split: option.splits prod.splits)

lemma collect_permission_keys:
  "map_keys (collect_permission mid m (s, as)) =
     map_keys m \<union> (if mid = SYSTEM_PERMISSION_MODULE_ID \<or> isWithinNamespace s mid
                    then {permissionKey s (normalizeAction a) | a. a \<in> set as} else {})"
  unfolding map_keys_def collect_permission_acts by (auto split: if_splits)

lemma collect_permissions_keys:
  "map_keys (foldl (collect_permission mid) m ps) =
     map_keys m \<union> {permissionKey s (normalizeAction a) | s a. \<exists>as. (s, as) \<in> set ps \<and> a \<in> set as \<and>
        (mid = SYSTEM_PERMISSION_MODULE_ID \<or> isWithinNamespace s mid)}"
proof (induction ps arbitrary: m)
  case (Cons p ps)
  obtain s as where "p = (s, as)" by (cases p)
  with Cons show ?case by (auto simp: collect_permission_keys split: if_splits)
qed simp

lemma collectFromManifest_keys: "map_keys (collectFromManifest m mf) = map_keys m \<union> manifest_keys mf"
  by (simp add: collectFromManifest_def collect_permissions_keys manifest_keys_def)

lemma foldl_collect_keys: "map_keys (foldl collectFromManifest m mfs) = map_keys m \<union> \<Union> (manifest_keys ` set mfs)"
  by (induction mfs arbitrary: m) (auto simp: collectFromManifest_keys)

lemma collect_permission_distinct:
  "distinct (map fst m) \<Longrightarrow> distinct (map fst (collect_permission mid m p))"
  by (auto simp: collect_permission_def distinct_update split: prod.splits)

lemma foldl_collect_distinct:
  "distinct (map fst m) \<Longrightarrow> distinct (map fst (foldl collectFromManifest m mfs))"
proof (induction mfs arbitrary: m)
  case (Cons mf mfs)
  have "distinct (map fst (foldl (collect_permission mid) m ps))" if "distinct (map fst m)" for mid ps and m :: subject_map
    using that by (induction ps arbitrary: m) (auto simp: collect_permission_distinct)
  with Cons show ?case by (simp add: collectFromManifest_def)
qed simp

lemma set_entries_of:
  "set (entries_of m) =
     {\<lparr>ce_subject = s, ce_actions = js_sort as, ce_moduleIds = js_sort ids\<rparr> | s as ids. (s, as, ids) \<in> set m}"
  by (force simp: entries_of_def image_iff)

lemma acts_of_distinct:
  assumes "distinct (map fst m)"
  shows "a \<in> acts_of m s \<longleftrightarrow> (\<exists>as ids. (s, as, ids) \<in> set m \<and> a \<in> set as)"
proof (cases "map_of m s")
  case None
  then have "s \<notin> fst ` set m" by (simp add: map_of_eq_None_iff)
  then have "(s, e) \<notin> set m" for e by force
  with None show ?thesis by (simp add: acts_of_def)
next
  case (Some e)
  obtain as ids where "e = (as, ids)" by (cases e)
  then have iff: "(s, as', ids') \<in> set m \<longleftrightarrow> as' = as \<and> ids' = ids" for as' ids'
    using Some map_of_eq_Some_iff [OF assms, of s "(as', ids')"] by auto
  show ?thesis using Some \<open>e = (as, ids)\<close> by (simp add: acts_of_def iff)
qed

lemma catalog_keys:
  "cat_hasKey (buildPermissionCatalog mfs) k \<longleftrightarrow> (\<exists>mf \<in> set mfs. k \<in> manifest_keys mf)"
proof -
  let ?m = "foldl collectFromManifest [] mfs"
  have d: "distinct (map fst ?m)" by (rule foldl_collect_distinct) simp
  have "cat_hasKey (buildPermissionCatalog mfs) k \<longleftrightarrow> (\<exists>e \<in> set (entries_of ?m). k \<in> set (entry_keys e))"
    by (auto simp: cat_hasKey_def buildPermissionCatalog_def Let_def)
  also have "\<dots> \<longleftrightarrow> (\<exists>s as ids. (s, as, ids) \<in> set ?m \<and> k \<in> permissionKey s ` set as)"
    unfolding set_entries_of set_entry_keys by fastforce
  also have "\<dots> \<longleftrightarrow> (\<exists>s. k \<in> permissionKey s ` acts_of ?m s)"
    unfolding image_iff Bex_def acts_of_distinct [OF d] by blast
  also have "\<dots> \<longleftrightarrow> k \<in> map_keys ?m"
    by (auto simp: map_keys_def)
  finally show ?thesis by (simp add: foldl_collect_keys) (simp add: map_keys_def acts_of_def)
qed


subsection \<open>Properties\<close>

lemma parse_key_iff:
  "parsePermissionKey key = Some (s, a) \<longleftrightarrow>
     key = permissionKey s a \<and> s \<noteq> [] \<and> a \<noteq> [] \<and> CHR '':'' \<notin> set a"
proof
  assume p: "parsePermissionKey key = Some (s, a)"
  let ?t = "takeWhile (\<lambda>c. c \<noteq> CHR '':'') (rev key)"
  from p have mem: "CHR '':'' \<in> set key" and a: "a = rev ?t"
    and s: "s = take (length key - length ?t - 1) key" and ne: "length key - length ?t - 1 \<noteq> 0" "a \<noteq> []"
    by (auto simp: parsePermissionKey_def Let_def split: if_splits)
  from split_list_last [OF mem] obtain ys zs where key: "key = ys @ CHR '':'' # zs" "CHR '':'' \<notin> set zs"
    by auto
  then have t: "?t = rev zs" by (auto simp: takeWhile_append)
  with s key have "s = ys" by simp
  moreover have "a = zs" using a t by simp
  ultimately show "key = permissionKey s a \<and> s \<noteq> [] \<and> a \<noteq> [] \<and> CHR '':'' \<notin> set a"
    using key ne s t by (auto simp: permissionKey_def mk_key_def)
next
  assume w: "key = permissionKey s a \<and> s \<noteq> [] \<and> a \<noteq> [] \<and> CHR '':'' \<notin> set a"
  then have "takeWhile (\<lambda>c. c \<noteq> CHR '':'') (rev key) = rev a"
    by (auto simp: permissionKey_def mk_key_def takeWhile_append)
  with w show "parsePermissionKey key = Some (s, a)"
    by (auto simp: parsePermissionKey_def Let_def permissionKey_def mk_key_def)
qed

text \<open>Reading a permission key recovers exactly how it was written: a key parses to a subject and
  an action when it is their concatenation, both are non-empty and the action has no colon, and to
  nothing otherwise. A subject may contain colons, the last one separates.\<close>

theorem permission_key_roundtrip:
  "parsePermissionKey key = Some (s, a) \<longleftrightarrow>
     key = permissionKey s a \<and> s \<noteq> [] \<and> a \<noteq> [] \<and> CHR '':'' \<notin> set a"
  by (rule parse_key_iff)

text \<open>The permission catalog is the union of what its manifests declare: a key is in it exactly when
  some manifest lists its subject with an action that normalises to the key's, inside the module's own
  namespace unless the module is the system one, so no business module can add a key to another
  module's subject. The flat key list depends only on the set of manifests, not on their order.\<close>

theorem catalog_is_namespaced_union:
  "(cat_hasKey (buildPermissionCatalog mfs) k \<longleftrightarrow>
     (\<exists>mf s as a. mf \<in> set mfs \<and> (s, as) \<in> set (mf_permissions mf) \<and> a \<in> set as \<and>
        k = permissionKey s (normalizeAction a) \<and>
        (mf_id mf = SYSTEM_PERMISSION_MODULE_ID \<or> isWithinNamespace s (mf_id mf))))
   \<and> (set mfs = set mfs' \<longrightarrow> cat_keys (buildPermissionCatalog mfs) = cat_keys (buildPermissionCatalog mfs'))"
proof (intro conjI impI)
  show "cat_hasKey (buildPermissionCatalog mfs) k \<longleftrightarrow>
     (\<exists>mf s as a. mf \<in> set mfs \<and> (s, as) \<in> set (mf_permissions mf) \<and> a \<in> set as \<and>
        k = permissionKey s (normalizeAction a) \<and>
        (mf_id mf = SYSTEM_PERMISSION_MODULE_ID \<or> isWithinNamespace s (mf_id mf)))"
    by (auto simp: catalog_keys manifest_keys_def)
next
  assume "set mfs = set mfs'"
  then have "set (cat_keys (buildPermissionCatalog mfs)) = set (cat_keys (buildPermissionCatalog mfs'))"
    using catalog_keys [of mfs] catalog_keys [of mfs'] by (auto simp: cat_hasKey_def)
  then show "cat_keys (buildPermissionCatalog mfs) = cat_keys (buildPermissionCatalog mfs')"
    using built.keys_sorted [of mfs] built.keys_sorted [of mfs'] by (metis sorted_distinct_set_unique)
qed

definition deals_manifest :: manifest where
  "deals_manifest = moduleDefinitionToManifest
     \<lparr>md_id = ''deals'', md_locked = True, md_dependencies = [], md_softDependencies = [], md_integrationMethods = [],
      md_personalSettingsSchema = [], md_integrationSettingsSchema = [], md_requiredBeforeEnable = [],
      md_policyCapabilities = [(''deals'', [''create'']), (''contacts'', [''read''])]\<rparr>"

theorem catalog_is_namespaced_union_witness:
  "cat_hasKey (buildPermissionCatalog [deals_manifest]) ''deals:write''
   \<and> \<not> cat_hasKey (buildPermissionCatalog [deals_manifest]) ''contacts:read''"
proof -
  note facts = deals_manifest_def moduleDefinitionToManifest_def normalizeAction_def ACTION_SYNONYMS_def
      permissionKey_def mk_key_def isWithinNamespace_def SYSTEM_PERMISSION_MODULE_ID_def
  have "cat_hasKey (buildPermissionCatalog [deals_manifest]) ''deals:write''"
    unfolding catalog_is_namespaced_union [of "[deals_manifest]" _ "[]", THEN conjunct1]
    by (rule exI [of _ deals_manifest], rule exI [of _ "''deals''"], rule exI [of _ "[''write'']"],
        rule exI [of _ "''write''"]) (simp add: facts)
  moreover have "\<not> cat_hasKey (buildPermissionCatalog [deals_manifest]) ''contacts:read''"
    unfolding catalog_is_namespaced_union [of "[deals_manifest]" _ "[]", THEN conjunct1]
    by (auto simp: facts)
  ultimately show ?thesis by simp
qed

end
