(* ===== verification/Registry.thy ===== *)
theory Registry
  imports Catalog
begin

text \<open>
  The module registry (\<^verbatim>\<open>shared/src/module-registry.ts\<close>): the fourteen module definitions,
  the closure under hard dependencies, the normalisation of a project's stored module
  configuration, and the permission catalogs derived from it. The memoised catalog is its
  value. The loops of the closure and of the cascade run until nothing changes; both stop
  because each turn adds a module or switches one off.
\<close>

subsection \<open>The modules\<close>

definition M_statistics :: module_definition where
  "M_statistics = \<lparr>md_id = ''statistics'', md_locked = True,
     md_dependencies = [], md_softDependencies = [],
     md_integrationMethods = [],
     md_personalSettingsSchema = [],
     md_integrationSettingsSchema = [],
     md_requiredBeforeEnable = [],
     md_policyCapabilities = [(''statistics'', [''read'', ''export'']), (''statistics.widget'', [''read''])]\<rparr>"

definition M_contacts :: module_definition where
  "M_contacts = \<lparr>md_id = ''contacts'', md_locked = False,
     md_dependencies = [], md_softDependencies = [],
     md_integrationMethods = [''contacts.read'', ''contacts.write''],
     md_personalSettingsSchema = [(''defaultView'', str_list [''list'', ''grid'']), (''defaultCountry'', JStr ''string''), (''trashTtlDays'', JStr ''number''), (''shadowTtlDays'', JStr ''number''), (''driftDetectionEnabled'', JStr ''boolean'')],
     md_integrationSettingsSchema = [(''webhookUrl'', JStr ''string''), (''syncIntervalMinutes'', JStr ''number'')],
     md_requiredBeforeEnable = [],
     md_policyCapabilities = [(''contacts'', [''read'', ''write'', ''delete'', ''manage'', ''export'', ''import'']), (''contacts.integration'', [''invoke''])]\<rparr>"

definition M_companies :: module_definition where
  "M_companies = \<lparr>md_id = ''companies'', md_locked = False,
     md_dependencies = [], md_softDependencies = [],
     md_integrationMethods = [''companies.read'', ''companies.write''],
     md_personalSettingsSchema = [(''tableDensity'', str_list [''comfortable'', ''compact''])],
     md_integrationSettingsSchema = [(''outboundTopic'', JStr ''string'')],
     md_requiredBeforeEnable = [],
     md_policyCapabilities = [(''companies'', [''read'', ''write'', ''delete'', ''manage'', ''export'', ''import'']), (''companies.owner'', [''write'']), (''companies.integration'', [''invoke''])]\<rparr>"

definition M_deals :: module_definition where
  "M_deals = \<lparr>md_id = ''deals'', md_locked = True,
     md_dependencies = [], md_softDependencies = [],
     md_integrationMethods = [''deals.read'', ''deals.write''],
     md_personalSettingsSchema = [(''defaultBoard'', str_list [''kanban'', ''list''])],
     md_integrationSettingsSchema = [(''stageSyncEnabled'', JStr ''boolean'')],
     md_requiredBeforeEnable = [],
     md_policyCapabilities = [(''deals'', [''read'', ''write'', ''delete'', ''manage'', ''export'', ''import'']), (''deals.stage'', [''move'']), (''deals.integration'', [''invoke''])]\<rparr>"

definition M_orders :: module_definition where
  "M_orders = \<lparr>md_id = ''orders'', md_locked = False,
     md_dependencies = [''deals''], md_softDependencies = [''products''],
     md_integrationMethods = [''orders.read'', ''orders.write''],
     md_personalSettingsSchema = [(''defaultTypeId'', JStr ''string'')],
     md_integrationSettingsSchema = [(''erpWebhookUrl'', JStr ''string'')],
     md_requiredBeforeEnable = [],
     md_policyCapabilities = [(''orders'', [''read'', ''write'', ''delete'', ''move'', ''manage'', ''export'', ''import'']), (''orders.integration'', [''invoke''])]\<rparr>"

definition M_activities :: module_definition where
  "M_activities = \<lparr>md_id = ''activities'', md_locked = False,
     md_dependencies = [''deals''], md_softDependencies = [],
     md_integrationMethods = [''activities.read'', ''activities.write''],
     md_personalSettingsSchema = [(''defaultCalendarView'', str_list [''week'', ''month'']), (''defaultReminder'', str_list [''none'', ''at_time'', ''15m'', ''1h'', ''1d''])],
     md_integrationSettingsSchema = [(''remindersWebhookUrl'', JStr ''string'')],
     md_requiredBeforeEnable = [],
     md_policyCapabilities = [(''activities'', [''read'', ''write'', ''delete'', ''manage'', ''export'']), (''activities.integration'', [''invoke''])]\<rparr>"

definition M_products :: module_definition where
  "M_products = \<lparr>md_id = ''products'', md_locked = False,
     md_dependencies = [], md_softDependencies = [],
     md_integrationMethods = [''products.read'', ''products.write''],
     md_personalSettingsSchema = [],
     md_integrationSettingsSchema = [(''defaultCurrency'', JStr ''string''), (''syncFromExternalCatalog'', JStr ''boolean'')],
     md_requiredBeforeEnable = [],
     md_policyCapabilities = [(''products'', [''read'', ''write'', ''delete'', ''manage'', ''export'', ''import'']), (''products.integration'', [''invoke''])]\<rparr>"

definition M_reports :: module_definition where
  "M_reports = \<lparr>md_id = ''reports'', md_locked = False,
     md_dependencies = [], md_softDependencies = [],
     md_integrationMethods = [''reports.export''],
     md_personalSettingsSchema = [(''pinnedReports'', str_list [''array''])],
     md_integrationSettingsSchema = [(''exportBucket'', JStr ''string'')],
     md_requiredBeforeEnable = [],
     md_policyCapabilities = [(''reports'', [''read'', ''export'', ''manage'']), (''reports.integration'', [''invoke''])]\<rparr>"

definition M_documents :: module_definition where
  "M_documents = \<lparr>md_id = ''documents'', md_locked = False,
     md_dependencies = [], md_softDependencies = [],
     md_integrationMethods = [''documents.read'', ''documents.write''],
     md_personalSettingsSchema = [(''folderView'', str_list [''tree'', ''list'']), (''downloadTtlSec'', JStr ''number''), (''storageProvider'', str_list [''s3'', ''minio'']), (''maxTemplateSizeBytes'', JStr ''number'')],
     md_integrationSettingsSchema = [],
     md_requiredBeforeEnable = [],
     md_policyCapabilities = [(''documents'', [''read'', ''write'', ''delete'', ''manage'']), (''documents.generate'', [''execute'']), (''documents.integration'', [''invoke''])]\<rparr>"

definition M_automation :: module_definition where
  "M_automation = \<lparr>md_id = ''automation'', md_locked = False,
     md_dependencies = [''deals'', ''activities''], md_softDependencies = [],
     md_integrationMethods = [''automation.trigger.execute'', ''automation.rules.read''],
     md_personalSettingsSchema = [(''notificationsEnabled'', JStr ''boolean'')],
     md_integrationSettingsSchema = [(''defaultWebhookSecret'', JStr ''string'')],
     md_requiredBeforeEnable = [''defaultWebhookSecret''],
     md_policyCapabilities = [(''automation'', [''read'', ''write'', ''delete'', ''manage'', ''execute'']), (''automation.integration'', [''invoke''])]\<rparr>"

definition M_search :: module_definition where
  "M_search = \<lparr>md_id = ''search'', md_locked = False,
     md_dependencies = [''contacts'', ''companies'', ''deals''], md_softDependencies = [],
     md_integrationMethods = [''search.query''],
     md_personalSettingsSchema = [(''defaultScope'', str_list [''all'', ''contacts'', ''companies'', ''deals'']), (''minQueryChars'', JStr ''number''), (''perTypeLimit'', JStr ''number''), (''hotkeyEnabled'', JStr ''boolean''), (''indexableTypes'', str_list [''array'']), (''freshnessSlaMs'', JStr ''number'')],
     md_integrationSettingsSchema = [(''indexRefreshSeconds'', JStr ''number'')],
     md_requiredBeforeEnable = [],
     md_policyCapabilities = [(''search'', [''read'', ''manage'']), (''search.integration'', [''invoke''])]\<rparr>"

definition M_profile :: module_definition where
  "M_profile = \<lparr>md_id = ''profile'', md_locked = True,
     md_dependencies = [], md_softDependencies = [],
     md_integrationMethods = [],
     md_personalSettingsSchema = [],
     md_integrationSettingsSchema = [],
     md_requiredBeforeEnable = [],
     md_policyCapabilities = []\<rparr>"

definition M_notifications :: module_definition where
  "M_notifications = \<lparr>md_id = ''notifications'', md_locked = True,
     md_dependencies = [], md_softDependencies = [],
     md_integrationMethods = [''notifications.send'', ''notifications.read''],
     md_personalSettingsSchema = [(''emailDigest'', str_list [''immediate'', ''hourly'', ''daily'', ''off''])],
     md_integrationSettingsSchema = [(''emailProvider'', str_list [''smtp'', ''ses''])],
     md_requiredBeforeEnable = [],
     md_policyCapabilities = [(''notifications'', [''read'', ''write'', ''manage'']), (''notifications.integration'', [''invoke''])]\<rparr>"

definition M_chat :: module_definition where
  "M_chat = \<lparr>md_id = ''chat'', md_locked = False,
     md_dependencies = [''notifications''], md_softDependencies = [],
     md_integrationMethods = [''chat.message.send'', ''chat.message.read''],
     md_personalSettingsSchema = [(''compactMode'', JStr ''boolean'')],
     md_integrationSettingsSchema = [(''botWebhookUrl'', JStr ''string'')],
     md_requiredBeforeEnable = [],
     md_policyCapabilities = [(''chat'', [''read'', ''write'', ''manage'', ''moderate'']), (''chat.integration'', [''invoke''])]\<rparr>"

definition MODULES :: "module_definition list" where
  "MODULES = [M_statistics, M_contacts, M_companies, M_deals, M_orders, M_activities, M_products, M_reports, M_documents, M_automation, M_search, M_profile, M_notifications, M_chat]"

lemmas module_defs = M_statistics_def M_contacts_def M_companies_def M_deals_def M_orders_def M_activities_def M_products_def M_reports_def M_documents_def M_automation_def M_search_def M_profile_def M_notifications_def M_chat_def

definition MODULE_REGISTRY :: "(string \<times> module_definition) list" where
  "MODULE_REGISTRY = map (\<lambda>m. (md_id m, m)) MODULES"

definition in_registry :: "string \<Rightarrow> bool" where
  "in_registry i \<longleftrightarrow> map_of MODULE_REGISTRY i \<noteq> None"

definition ALL_MODULE_IDS :: "string list" where
  "ALL_MODULE_IDS = map fst MODULE_REGISTRY"

definition LOCKED_MODULE_IDS :: "string list" where
  "LOCKED_MODULE_IDS = map md_id (filter md_locked MODULES)"

text \<open>The hard dependencies of an id; an unknown id has none.\<close>

definition mod_deps :: "string \<Rightarrow> string list" where
  "mod_deps i = (case map_of MODULE_REGISTRY i of None \<Rightarrow> [] | Some d \<Rightarrow> md_dependencies d)"

subsection \<open>Dependency closure\<close>

definition validateModuleIds :: "string list \<Rightarrow> string list" where
  "validateModuleIds ids = filter in_registry ids"

definition ensureLockedModules :: "string list \<Rightarrow> string list" where
  "ensureLockedModules ids = foldl js_add (js_set_of (validateModuleIds ids)) LOCKED_MODULE_IDS"

text \<open>One turn of the loop: the dependencies of every module resolved so far are added.\<close>

definition dep_pass :: "string list \<Rightarrow> string list" where
  "dep_pass resolved = foldl (\<lambda>acc i. foldl js_add acc (mod_deps i)) resolved resolved"

lemma set_dep_foldl: "set (foldl (\<lambda>acc i. foldl js_add acc (mod_deps i)) acc is) = set acc \<union> (\<Union>i \<in> set is. set (mod_deps i))"
  by (induction "is" arbitrary: acc) auto

lemma set_dep_pass: "set (dep_pass xs) = set xs \<union> (\<Union>i \<in> set xs. set (mod_deps i))"
  by (simp add: dep_pass_def set_dep_foldl)

lemma foldl_js_add_same: "set ys \<subseteq> set xs \<Longrightarrow> foldl js_add xs ys = xs"
  by (induction ys) (auto simp: js_add_def)

lemma dep_pass_same: "set (dep_pass xs) = set xs \<Longrightarrow> dep_pass xs = xs"
proof -
  assume "set (dep_pass xs) = set xs"
  then have "set (mod_deps i) \<subseteq> set xs" if "i \<in> set xs" for i
    using that by (auto simp: set_dep_pass)
  then have "set is \<subseteq> set xs \<Longrightarrow> foldl (\<lambda>acc i. foldl js_add acc (mod_deps i)) xs is = xs" for "is"
    by (induction "is") (auto simp: foldl_js_add_same)
  then show ?thesis by (simp add: dep_pass_def)
qed

definition all_deps :: "string set" where
  "all_deps = (\<Union>m \<in> set MODULES. set (md_dependencies m))"

lemma mod_deps_all: "set (mod_deps i) \<subseteq> all_deps"
proof (cases "map_of MODULE_REGISTRY i")
  case (Some d)
  then have "d \<in> set MODULES" using map_of_SomeD [OF Some] by (auto simp: MODULE_REGISTRY_def)
  with Some show ?thesis by (auto simp: mod_deps_def all_deps_def)
qed (simp add: mod_deps_def)

lemma finite_all_deps [simp]: "finite all_deps"
  by (simp add: all_deps_def)

function resolve_loop :: "string list \<Rightarrow> string list" where
  "resolve_loop resolved =
     (let next = dep_pass resolved in if next = resolved then resolved else resolve_loop next)"
  by pat_completeness auto
termination
proof (relation "measure (\<lambda>xs. card (all_deps - set xs))", goal_cases)
  case (2 xs ys)
  then have "set (dep_pass xs) \<noteq> set xs" using dep_pass_same by blast
  then obtain d where "d \<in> all_deps - set xs" "d \<in> set ys"
    using 2(1) mod_deps_all by (fastforce simp: set_dep_pass)
  then have "all_deps - set ys \<subset> all_deps - set xs"
    using 2(1) by (auto simp: set_dep_pass)
  then show ?case by (simp add: psubset_card_mono)
qed simp

declare resolve_loop.simps [simp del]

definition resolveDependencies :: "string list \<Rightarrow> string list" where
  "resolveDependencies ids = resolve_loop (ensureLockedModules (validateModuleIds ids))"

definition previewEnableCascade :: "string \<Rightarrow> string list \<Rightarrow> string list" where
  "previewEnableCascade moduleId currentlyEnabled =
     (if \<not> in_registry moduleId then []
      else let before = resolveDependencies currentlyEnabled;
               after = resolveDependencies (currentlyEnabled @ [moduleId])
           in js_sort (filter (\<lambda>i. i \<notin> set before \<and> i \<noteq> moduleId) after))"

text \<open>The dependency relation, and the closure of a set of modules under it.\<close>

definition dep_rel :: "(string \<times> string) set" where
  "dep_rel = {(i, d). d \<in> set (mod_deps i)}"

lemma closed_rtrancl: "R `` A \<subseteq> A \<Longrightarrow> R\<^sup>* `` A = A"
  by (simp add: Image_closed_trancl)

lemma set_resolve_loop: "set (resolve_loop xs) = dep_rel\<^sup>* `` set xs"
proof (induction xs rule: resolve_loop.induct)
  case (1 xs)
  have pass: "set (dep_pass xs) = set xs \<union> dep_rel `` set xs"
    by (auto simp: set_dep_pass dep_rel_def)
  show ?case
  proof (cases "dep_pass xs = xs")
    case True
    then have "dep_rel `` set xs \<subseteq> set xs" using pass by (metis Un_upper2)
    with True show ?thesis by (simp add: resolve_loop.simps [of xs] closed_rtrancl)
  next
    case False
    then have "set (resolve_loop xs) = dep_rel\<^sup>* `` (set xs \<union> dep_rel `` set xs)"
      using "1.IH" by (simp add: resolve_loop.simps [of xs] Let_def pass)
    also have "\<dots> = dep_rel\<^sup>* `` set xs"
      by (auto intro: converse_rtrancl_into_rtrancl)
    finally show ?thesis .
  qed
qed

lemma distinct_foldl_deps: "distinct acc \<Longrightarrow> distinct (foldl (\<lambda>acc i. foldl js_add acc (mod_deps i)) acc is)"
  by (induction "is" arbitrary: acc) (auto simp: distinct_foldl_js_add)

lemma distinct_resolve_loop: "distinct xs \<Longrightarrow> distinct (resolve_loop xs)"
proof (induction xs rule: resolve_loop.induct)
  case (1 xs)
  then show ?case
    by (simp add: resolve_loop.simps [of xs] Let_def dep_pass_def distinct_foldl_deps)
qed

lemma set_ensureLocked: "set (ensureLockedModules ids) = {i \<in> set ids. in_registry i} \<union> set LOCKED_MODULE_IDS"
  by (auto simp: ensureLockedModules_def validateModuleIds_def)

lemma validate_idem: "validateModuleIds (validateModuleIds ids) = validateModuleIds ids"
  by (simp add: validateModuleIds_def)

lemma set_resolveDependencies:
  "set (resolveDependencies ids) = dep_rel\<^sup>* `` ({i \<in> set ids. in_registry i} \<union> set LOCKED_MODULE_IDS)"
  by (simp add: resolveDependencies_def set_resolve_loop set_ensureLocked validateModuleIds_def)

lemma distinct_resolveDependencies [simp]: "distinct (resolveDependencies ids)"
  by (simp add: resolveDependencies_def ensureLockedModules_def distinct_resolve_loop distinct_foldl_js_add)

lemma resolveDependencies_closed:
  "i \<in> set (resolveDependencies ids) \<Longrightarrow> d \<in> set (mod_deps i) \<Longrightarrow> d \<in> set (resolveDependencies ids)"
  unfolding set_resolveDependencies by (auto simp: dep_rel_def intro: rtrancl_into_rtrancl)

lemma resolveDependencies_locked: "i \<in> set LOCKED_MODULE_IDS \<Longrightarrow> i \<in> set (resolveDependencies ids)"
  unfolding set_resolveDependencies by auto


subsection \<open>Stored configurations\<close>

record module_config =
  mc_moduleId :: string
  mc_enabled :: bool
  mc_personal :: "(string \<times> jsval) list"
  mc_integration :: "(string \<times> jsval) list"
  mc_methods :: "string list"
  mc_version :: "string option"
  mc_installed :: bool
  mc_runtimeStatus :: "string option"
  mc_everSuspended :: "bool option"
  mc_configState :: "string option"

definition fresh_config :: "string \<Rightarrow> module_config" where
  "fresh_config i =
     \<lparr>mc_moduleId = i, mc_enabled = True, mc_personal = [], mc_integration = [], mc_methods = [],
      mc_version = None, mc_installed = True, mc_runtimeStatus = None, mc_everSuspended = None, mc_configState = None\<rparr>"

definition sanitizeSettings :: "(string \<times> jsval) list \<Rightarrow> (string \<times> jsval) list \<Rightarrow> (string \<times> jsval) list" where
  "sanitizeSettings raw schema = s_value (validateSettings (JObj raw) schema)"

fun bool_or :: "jsval \<Rightarrow> 'a \<Rightarrow> (bool \<Rightarrow> 'a) \<Rightarrow> 'a" where
  "bool_or (JBool b) d f = f b"
| "bool_or _ d f = d"

definition settings_or :: "jsval \<Rightarrow> (string \<times> jsval) list \<Rightarrow> (string \<times> jsval) list" where
  "settings_or v d = (case v of JObj ps \<Rightarrow> ps | _ \<Rightarrow> d)"

definition one_of :: "string list \<Rightarrow> jsval \<Rightarrow> string option \<Rightarrow> string option" where
  "one_of allowed v d = (case v of JStr s \<Rightarrow> if s \<in> set allowed then Some s else d | _ \<Rightarrow> d)"

definition js_str_or_empty :: "jsval \<Rightarrow> string" where
  "js_str_or_empty v = (case v of JStr s \<Rightarrow> s | _ \<Rightarrow> [])"

text \<open>One stored item merged over what the map holds for its module.\<close>

definition merge_config :: "module_definition \<Rightarrow> jsval \<Rightarrow> module_config option \<Rightarrow> module_config" where
  "merge_config d r prev =
     (let nextEnabled = bool_or (js_get r ''enabled'') (case prev of None \<Rightarrow> False | Some p \<Rightarrow> mc_enabled p) id;
          personal = settings_or (js_get r ''personalSettings'') (case prev of None \<Rightarrow> [] | Some p \<Rightarrow> mc_personal p);
          integration = settings_or (js_get r ''integrationSettings'') (case prev of None \<Rightarrow> [] | Some p \<Rightarrow> mc_integration p)
      in \<lparr>mc_moduleId = md_id d, mc_enabled = nextEnabled,
          mc_personal = sanitizeSettings personal (md_personalSettingsSchema d),
          mc_integration = sanitizeSettings integration (md_integrationSettingsSchema d),
          mc_methods =
            (case js_get r ''integrationMethodsEnabled'' of
               JArr xs \<Rightarrow> filter (\<lambda>m. m \<in> set (md_integrationMethods d)) (str_arr (JArr xs))
             | _ \<Rightarrow> (case prev of None \<Rightarrow> [] | Some p \<Rightarrow> mc_methods p)),
          mc_version = (case js_get r ''version'' of JStr s \<Rightarrow> Some s
             | _ \<Rightarrow> (case prev of None \<Rightarrow> None | Some p \<Rightarrow> mc_version p)),
          mc_installed = bool_or (js_get r ''installed'') (case prev of None \<Rightarrow> nextEnabled | Some p \<Rightarrow> mc_installed p) id,
          mc_runtimeStatus = one_of [''active'', ''suspended''] (js_get r ''runtimeStatus'')
             (case prev of None \<Rightarrow> None | Some p \<Rightarrow> mc_runtimeStatus p),
          mc_everSuspended = bool_or (js_get r ''everSuspended'')
             (case prev of None \<Rightarrow> None | Some p \<Rightarrow> mc_everSuspended p) Some,
          mc_configState = one_of [''ready'', ''needs_config''] (js_get r ''configState'')
             (case prev of None \<Rightarrow> None | Some p \<Rightarrow> mc_configState p)\<rparr>)"

type_synonym config_map = "(string \<times> module_config) list"

definition merge_item :: "config_map \<Rightarrow> jsval \<Rightarrow> config_map" where
  "merge_item m item =
     (let i = js_str_or_empty (js_get item ''moduleId'')
      in case map_of MODULE_REGISTRY i of
           None \<Rightarrow> m
         | Some d \<Rightarrow> AList.update i (merge_config d item (map_of m i)) m)"

text \<open>A pass over the configurations that switches off every module with a disabled dependency.\<close>

fun cascade_pass :: "module_config list \<Rightarrow> string list \<Rightarrow> module_config list \<times> string list" where
  "cascade_pass [] disabled = ([], disabled)"
| "cascade_pass (c # cs) disabled =
     (if mc_enabled c \<and> list_ex (\<lambda>d. d \<in> set disabled) (mod_deps (mc_moduleId c))
      then (let (cs', disabled') = cascade_pass cs (js_add disabled (mc_moduleId c))
            in (c\<lparr>mc_enabled := False\<rparr> # cs', disabled'))
      else (let (cs', disabled') = cascade_pass cs disabled in (c # cs', disabled')))"

definition n_enabled :: "module_config list \<Rightarrow> nat" where
  "n_enabled cs = length (filter mc_enabled cs)"

lemma cascade_pass_count:
  "n_enabled (fst (cascade_pass cs dis)) \<le> n_enabled cs"
  "n_enabled (fst (cascade_pass cs dis)) = n_enabled cs \<Longrightarrow> fst (cascade_pass cs dis) = cs"
proof (induction cs dis rule: cascade_pass.induct)
  case (2 c cs dis)
  { case 1 with 2 show ?case by (auto simp: n_enabled_def case_prod_beta Let_def) }
  { case 2
    with "2.IH" show ?case
      by (auto simp: n_enabled_def case_prod_beta Let_def split: if_splits) }
qed (simp_all add: n_enabled_def)

function cascade_loop :: "module_config list \<Rightarrow> string list \<Rightarrow> module_config list" where
  "cascade_loop cs disabled =
     (let (cs', disabled') = cascade_pass cs disabled
      in if cs' = cs then cs else cascade_loop cs' disabled')"
  by pat_completeness auto
termination
proof (relation "measure (\<lambda>(cs, _). n_enabled cs)", goal_cases)
  case (2 cs dis p cs' dis')
  then have "cs' = fst (cascade_pass cs dis)" by (metis fst_conv)
  moreover from this have "n_enabled cs' \<noteq> n_enabled cs" using 2 cascade_pass_count(2) [of cs dis] by auto
  ultimately show ?case using cascade_pass_count(1) [of cs dis] by simp
qed simp

declare cascade_loop.simps [simp del]

definition finish_config :: "string list \<Rightarrow> module_config \<Rightarrow> module_config" where
  "finish_config mustEnable c =
     (let e = (mc_moduleId c \<in> set mustEnable \<or> mc_moduleId c \<in> set LOCKED_MODULE_IDS)
      in c\<lparr>mc_enabled := e, mc_installed := e \<or> mc_installed c\<rparr>)"

definition initial_map :: "string list \<Rightarrow> config_map" where
  "initial_map ids = map (\<lambda>i. (i, fresh_config i)) (resolveDependencies ids)"

definition merged_map :: "string list \<Rightarrow> jsval \<Rightarrow> config_map" where
  "merged_map ids rawConfigs =
     (case rawConfigs of JArr items \<Rightarrow> foldl merge_item (initial_map ids) items | _ \<Rightarrow> initial_map ids)"

definition normalizeModuleConfigs :: "string list option \<Rightarrow> jsval \<Rightarrow> module_config list" where
  "normalizeModuleConfigs enabledModuleIds rawConfigs =
     (let output = map snd (merged_map (case enabledModuleIds of None \<Rightarrow> [] | Some ids \<Rightarrow> ids) rawConfigs);
          disabled = js_set_of (map mc_moduleId (filter (\<lambda>c. \<not> mc_enabled c) output));
          (cs, disabled') = cascade_pass output disabled;
          cs' = cascade_loop cs disabled';
          mustEnable = resolveDependencies (map mc_moduleId (filter mc_enabled cs'))
      in map (finish_config mustEnable) cs')"

definition extractEnabledModulesFromConfigs :: "module_config list \<Rightarrow> string list" where
  "extractEnabledModulesFromConfigs cs = resolveDependencies (map mc_moduleId (filter mc_enabled cs))"

subsection \<open>Catalogs and rules\<close>

definition getRegistryPermissionCatalog :: catalog where
  "getRegistryPermissionCatalog = buildPermissionCatalog (map moduleDefinitionToManifest MODULES)"

definition buildProjectPermissionCatalog :: "string list \<Rightarrow> catalog" where
  "buildProjectPermissionCatalog enabled =
     buildPermissionCatalog
       (map moduleDefinitionToManifest (filter (\<lambda>d. md_id d \<in> set (resolveDependencies enabled)) MODULES))"

record policy_rule =
  pr_id :: string
  pr_moduleId :: string
  pr_effect :: string
  pr_subject :: string
  pr_action :: string
  pr_resource :: string
  pr_condition :: jsval

definition rule_ok :: "policy_rule \<Rightarrow> bool" where
  "rule_ok r \<longleftrightarrow> in_registry (pr_moduleId r) \<and> isWithinNamespace (pr_subject r) (pr_moduleId r) \<and>
     cat_has getRegistryPermissionCatalog (pr_subject r) (normalizeAction (pr_action r))"

definition validatePolicyRules :: "policy_rule list \<Rightarrow> policy_rule list \<times> policy_rule list" where
  "validatePolicyRules rules = (filter rule_ok rules, filter (\<lambda>r. \<not> rule_ok r) rules)"

text \<open>The loop over manifests and their data subjects, with its early return.\<close>

fun owner_field_in :: "(string \<times> string option) list \<Rightarrow> string \<Rightarrow> string option" where
  "owner_field_in [] subject = None"
| "owner_field_in ((res, f) # ds) subject =
     (if res = subject then Some (case f of None \<Rightarrow> ''ownerId'' | Some g \<Rightarrow> g) else owner_field_in ds subject)"

fun owner_field_loop :: "module_definition list \<Rightarrow> string \<Rightarrow> string" where
  "owner_field_loop [] subject = ''ownerId''"
| "owner_field_loop (d # ds) subject =
     (case owner_field_in (case mf_dataSubjects (moduleDefinitionToManifest d) of None \<Rightarrow> [] | Some xs \<Rightarrow> xs) subject of
        Some f \<Rightarrow> f
      | None \<Rightarrow> owner_field_loop ds subject)"

definition dataSubjectOwnerField :: "string \<Rightarrow> string" where
  "dataSubjectOwnerField subject = owner_field_loop (map snd MODULE_REGISTRY) subject"


subsection \<open>Facts on the registry data\<close>

lemma registry_locked: "LOCKED_MODULE_IDS = [''statistics'', ''deals'', ''profile'', ''notifications'']"
  by (simp add: LOCKED_MODULE_IDS_def MODULES_def module_defs)

lemma registry_ids: "ALL_MODULE_IDS =
    [''statistics'', ''contacts'', ''companies'', ''deals'', ''orders'', ''activities'', ''products'', ''reports'',
     ''documents'', ''automation'', ''search'', ''profile'', ''notifications'', ''chat'']"
  by (simp add: ALL_MODULE_IDS_def MODULE_REGISTRY_def MODULES_def module_defs)

lemma registry_distinct: "distinct ALL_MODULE_IDS"
  by (simp add: registry_ids)

lemma registry_lookup: "map_of MODULE_REGISTRY i = Some d \<longleftrightarrow> d \<in> set MODULES \<and> md_id d = i"
proof -
  have "distinct (map fst MODULE_REGISTRY)" using registry_distinct by (simp add: ALL_MODULE_IDS_def)
  then show ?thesis by (auto simp: map_of_eq_Some_iff MODULE_REGISTRY_def)
qed

lemma all_modules:
  "(\<forall>d \<in> set MODULES. P d) \<longleftrightarrow> P M_statistics \<and> P M_contacts \<and> P M_companies \<and> P M_deals \<and> P M_orders \<and>
     P M_activities \<and> P M_products \<and> P M_reports \<and> P M_documents \<and> P M_automation \<and> P M_search \<and>
     P M_profile \<and> P M_notifications \<and> P M_chat"
  by (simp add: MODULES_def)

lemma registry_schemas:
  "d \<in> set MODULES \<Longrightarrow> \<not> isJsonSchemaObject (JObj (md_personalSettingsSchema d))
     \<and> \<not> isJsonSchemaObject (JObj (md_integrationSettingsSchema d))"
proof -
  have "\<forall>d \<in> set MODULES. \<not> isJsonSchemaObject (JObj (md_personalSettingsSchema d))
     \<and> \<not> isJsonSchemaObject (JObj (md_integrationSettingsSchema d))"
    unfolding all_modules by (simp add: isJsonSchemaObject_def module_defs)
  then show "d \<in> set MODULES \<Longrightarrow> \<not> isJsonSchemaObject (JObj (md_personalSettingsSchema d))
     \<and> \<not> isJsonSchemaObject (JObj (md_integrationSettingsSchema d))" by blast
qed

lemma registry_deps_known: "d \<in> set (mod_deps i) \<Longrightarrow> in_registry d"
proof -
  have "\<forall>m \<in> set MODULES. \<forall>d \<in> set (md_dependencies m). d \<in> set ALL_MODULE_IDS"
    unfolding all_modules registry_ids by (simp add: module_defs)
  moreover have "x \<in> set ALL_MODULE_IDS \<Longrightarrow> in_registry x" for x
    by (auto simp: ALL_MODULE_IDS_def in_registry_def map_of_eq_None_iff)
  ultimately show "d \<in> set (mod_deps i) \<Longrightarrow> in_registry d"
    by (cases "map_of MODULE_REGISTRY i") (auto simp: mod_deps_def registry_lookup)
qed

lemma locked_known: "i \<in> set LOCKED_MODULE_IDS \<Longrightarrow> in_registry i"
  by (auto simp: registry_locked in_registry_def MODULE_REGISTRY_def MODULES_def module_defs)

lemma resolveDependencies_known: "i \<in> set (resolveDependencies ids) \<Longrightarrow> in_registry i"
proof -
  have "(j, i) \<in> dep_rel\<^sup>* \<Longrightarrow> in_registry j \<Longrightarrow> in_registry i" for j
    by (induction rule: rtrancl_induct) (auto simp: dep_rel_def registry_deps_known)
  then show "i \<in> set (resolveDependencies ids) \<Longrightarrow> in_registry i"
    unfolding set_resolveDependencies using locked_known by auto
qed

subsection \<open>Dependencies: properties\<close>

text \<open>C30: Resolving a set of module ids is the least dependency-closed set that holds the known ones
  among them and the locked modules: the loop stops, lists no module twice, and contains exactly
  what is reachable along hard dependencies. Resolving again adds nothing.\<close>

theorem resolve_is_least_closure:
  "set (resolveDependencies ids) = dep_rel\<^sup>* `` ({i \<in> set ids. in_registry i} \<union> set LOCKED_MODULE_IDS)
   \<and> distinct (resolveDependencies ids)
   \<and> set (resolveDependencies (resolveDependencies ids)) = set (resolveDependencies ids)"
proof -
  let ?R = "set (resolveDependencies ids)"
  have "{i \<in> ?R. in_registry i} \<union> set LOCKED_MODULE_IDS = ?R"
    using resolveDependencies_known resolveDependencies_locked by auto
  moreover have "dep_rel\<^sup>* `` ?R = ?R"
    by (rule closed_rtrancl) (auto simp: dep_rel_def intro: resolveDependencies_closed)
  ultimately show ?thesis by (simp add: set_resolveDependencies [of ids] set_resolveDependencies [of "resolveDependencies ids"])
qed

subsection \<open>Configurations: invariant\<close>

text \<open>What every configuration of the map satisfies while items are merged.\<close>

definition config_ok :: "string \<Rightarrow> module_config \<Rightarrow> bool" where
  "config_ok i c \<longleftrightarrow> mc_moduleId c = i \<and>
     (\<exists>d. map_of MODULE_REGISTRY i = Some d \<and>
        s_valid (validateSettings (JObj (mc_personal c)) (md_personalSettingsSchema d)) \<and>
        s_valid (validateSettings (JObj (mc_integration c)) (md_integrationSettingsSchema d)) \<and>
        set (mc_methods c) \<subseteq> set (md_integrationMethods d))"

lemma sanitized_valid:
  "\<not> isJsonSchemaObject (JObj sh) \<Longrightarrow> s_valid (validateSettings (JObj (sanitizeSettings raw sh)) sh)"
  by (simp add: sanitizeSettings_def cleaned_filter cleaned_revalidates)

lemma empty_settings_valid: "\<not> isJsonSchemaObject (JObj sh) \<Longrightarrow> s_valid (validateSettings (JObj []) sh)"
  using cleaned_revalidates [of sh "[]"] by simp

lemma merge_config_ok:
  assumes "map_of MODULE_REGISTRY i = Some d" "\<And>p. prev = Some p \<Longrightarrow> config_ok i p"
  shows "config_ok i (merge_config d item prev)"
proof -
  have d: "d \<in> set MODULES" "md_id d = i" using assms(1) registry_lookup by auto
  have "set (mc_methods (merge_config d item prev)) \<subseteq> set (md_integrationMethods d)"
    using assms by (auto simp: merge_config_def Let_def config_ok_def split: jsval.splits option.splits)
  with d registry_schemas [OF d(1)] assms(1) show ?thesis
    by (auto simp: config_ok_def merge_config_def Let_def sanitized_valid)
qed

definition map_ok :: "config_map \<Rightarrow> bool" where
  "map_ok m \<longleftrightarrow> distinct (map fst m) \<and> (\<forall>i c. map_of m i = Some c \<longrightarrow> config_ok i c)"

lemma initial_map_ok: "map_ok (initial_map ids)"
proof -
  have "config_ok i (fresh_config i)" if mem: "i \<in> set (resolveDependencies ids)" for i
  proof -
    obtain d where d: "map_of MODULE_REGISTRY i = Some d"
      using resolveDependencies_known [OF mem] by (auto simp: in_registry_def)
    then have "d \<in> set MODULES" by (simp add: registry_lookup)
    with d registry_schemas show ?thesis by (simp add: config_ok_def fresh_config_def empty_settings_valid)
  qed
  then show ?thesis by (auto simp: map_ok_def initial_map_def comp_def dest!: map_of_SomeD)
qed

lemma merge_item_ok: "map_ok m \<Longrightarrow> map_ok (merge_item m item)"
proof (cases "map_of MODULE_REGISTRY (js_str_or_empty (js_get item ''moduleId''))")
  case (Some d)
  let ?i = "js_str_or_empty (js_get item ''moduleId'')"
  assume m: "map_ok m"
  have "config_ok ?i (merge_config d item (map_of m ?i))"
    by (rule merge_config_ok [OF Some]) (use m in \<open>simp add: map_ok_def\<close>)
  with m Some show ?thesis
    by (simp add: merge_item_def Let_def map_ok_def distinct_update update_conv')
qed (simp add: merge_item_def Let_def)


lemma merged_map_ok: "map_ok (merged_map ids raw)"
proof -
  have "map_ok (foldl merge_item m items)" if "map_ok m" for m items
    using that by (induction items arbitrary: m) (auto simp: merge_item_ok)
  then show ?thesis by (auto simp: merged_map_def initial_map_ok split: jsval.split)
qed

lemma merge_item_keys: "fst ` set m \<subseteq> fst ` set (merge_item m item)"
  by (auto simp: merge_item_def Let_def dom_update split: option.splits)

lemma merged_map_keys: "set (resolveDependencies ids) \<subseteq> fst ` set (merged_map ids raw)"
proof -
  have "fst ` set m \<subseteq> fst ` set (foldl merge_item m items)" for m items
  proof (induction items arbitrary: m)
    case (Cons x items)
    show ?case using order_trans [OF merge_item_keys Cons.IH] by simp
  qed simp
  moreover have "fst ` set (initial_map ids) = set (resolveDependencies ids)"
    by (force simp: initial_map_def)
  ultimately show ?thesis by (cases raw) (simp_all add: merged_map_def, metis)
qed

lemma map_ok_ids: "map_ok m \<Longrightarrow> map mc_moduleId (map snd m) = map fst m"
proof -
  assume m: "map_ok m"
  have "mc_moduleId (snd p) = fst p" if "p \<in> set m" for p
  proof -
    obtain i c where p: "p = (i, c)" by (cases p)
    then have "map_of m i = Some c" using m that by (simp add: map_ok_def)
    with m p show ?thesis by (auto simp: map_ok_def config_ok_def)
  qed
  then show ?thesis by simp
qed

text \<open>The cascade changes nothing but the enabled flags.\<close>

definition same_but_enabled :: "module_config \<Rightarrow> module_config \<Rightarrow> bool" where
  "same_but_enabled c c' \<longleftrightarrow> (\<exists>e. c' = c\<lparr>mc_enabled := e\<rparr>)"

lemma same_refl: "same_but_enabled c c"
  unfolding same_but_enabled_def by (rule exI [of _ "mc_enabled c"]) simp

lemma same_trans: "same_but_enabled a b \<Longrightarrow> same_but_enabled b c \<Longrightarrow> same_but_enabled a c"
  by (auto simp: same_but_enabled_def)

lemma same_list_trans:
  "list_all2 same_but_enabled a b \<Longrightarrow> list_all2 same_but_enabled b c \<Longrightarrow> list_all2 same_but_enabled a c"
  by (rule list_all2_trans [of same_but_enabled same_but_enabled same_but_enabled]) (rule same_trans)

lemma cascade_pass_same: "list_all2 same_but_enabled cs (fst (cascade_pass cs dis))"
  by (induction cs dis rule: cascade_pass.induct)
     (auto simp: Let_def case_prod_beta same_refl, auto simp: same_but_enabled_def)

lemma cascade_loop_same: "list_all2 same_but_enabled cs (cascade_loop cs dis)"
proof (induction cs dis rule: cascade_loop.induct)
  case (1 cs dis)
  obtain cs' dis' where p: "cascade_pass cs dis = (cs', dis')" by (cases "cascade_pass cs dis")
  show ?case
  proof (cases "cs' = cs")
    case True
    then show ?thesis by (simp add: cascade_loop.simps [of cs] p list_all2_same same_refl)
  next
    case False
    have "list_all2 same_but_enabled cs' (cascade_loop cs' dis')"
      by (rule "1.IH" [OF p [symmetric] refl False])
    moreover have "list_all2 same_but_enabled cs cs'" using cascade_pass_same [of cs dis] p by simp
    ultimately show ?thesis
      using False same_list_trans by (auto simp: cascade_loop.simps [of cs] p)
  qed
qed

lemma config_ok_same: "same_but_enabled c c' \<Longrightarrow> config_ok i c \<Longrightarrow> config_ok i c'"
  by (auto simp: same_but_enabled_def config_ok_def)

lemma config_ok_finish: "config_ok i (finish_config must c) = config_ok i c"
  by (simp add: finish_config_def config_ok_def Let_def)

text \<open>What normalisation returns: the merged entries with new flags.\<close>

lemma normalize_shape:
  assumes "m = merged_map (case ids of None \<Rightarrow> [] | Some is \<Rightarrow> is) raw"
  obtains cs must where "normalizeModuleConfigs ids raw = map (finish_config must) cs"
    "must = resolveDependencies (map mc_moduleId (filter mc_enabled cs))"
    "list_all2 same_but_enabled (map snd m) cs"
proof -
  define dis where "dis = js_set_of (map mc_moduleId (filter (\<lambda>c. \<not> mc_enabled c) (map snd m)))"
  obtain cs1 dis1 where p: "cascade_pass (map snd m) dis = (cs1, dis1)" by (cases "cascade_pass (map snd m) dis")
  have "list_all2 same_but_enabled (map snd m) cs1" using cascade_pass_same [of "map snd m" dis] p by simp
  then have "list_all2 same_but_enabled (map snd m) (cascade_loop cs1 dis1)"
    using cascade_loop_same [of cs1 dis1] same_list_trans by blast
  moreover have "normalizeModuleConfigs ids raw =
      map (finish_config (resolveDependencies (map mc_moduleId (filter mc_enabled (cascade_loop cs1 dis1))))) (cascade_loop cs1 dis1)"
    using p by (simp add: normalizeModuleConfigs_def Let_def assms dis_def)
  ultimately show ?thesis using that by blast
qed

text \<open>C31: A normalised project configuration is consistent, whatever was stored: each known module has
  at most one entry and every locked module has one and is enabled, an enabled module is installed,
  every hard dependency of an enabled module that has an entry is enabled too, and the settings and
  integration methods of every entry are those its module declares. A dependency without an entry is
  not given one, so with no list of ids an enabled module may come out with its dependency absent.\<close>

theorem normalized_configs_consistent:
  "let out = normalizeModuleConfigs ids raw in
     distinct (map mc_moduleId out) \<and> set LOCKED_MODULE_IDS \<subseteq> mc_moduleId ` set out
     \<and> (\<forall>c \<in> set out. config_ok (mc_moduleId c) c
          \<and> (mc_moduleId c \<in> set LOCKED_MODULE_IDS \<longrightarrow> mc_enabled c) \<and> (mc_enabled c \<longrightarrow> mc_installed c)
          \<and> (\<forall>c' \<in> set out. mc_enabled c \<and> mc_moduleId c' \<in> set (mod_deps (mc_moduleId c)) \<longrightarrow> mc_enabled c'))"
proof -
  define m where "m = merged_map (case ids of None \<Rightarrow> [] | Some is \<Rightarrow> is) raw"
  obtain cs must where out: "normalizeModuleConfigs ids raw = map (finish_config must) cs"
    and must: "must = resolveDependencies (map mc_moduleId (filter mc_enabled cs))"
    and same: "list_all2 same_but_enabled (map snd m) cs"
    using normalize_shape [OF m_def] by blast
  have ok: "map_ok m" by (simp add: m_def merged_map_ok)
  have "map mc_moduleId cs = map mc_moduleId (map snd m)"
    using same by (induction rule: list_all2_induct) (auto simp: same_but_enabled_def)
  then have ids: "map mc_moduleId (map (finish_config must) cs) = map fst m"
    using map_ok_ids [OF ok] by (simp add: finish_config_def Let_def comp_def)
  have cok: "config_ok (mc_moduleId c) c" if c: "c \<in> set cs" for c
  proof -
    obtain k where k: "k < length cs" "cs ! k = c" using c by (auto simp: in_set_conv_nth)
    then have "same_but_enabled (map snd m ! k) c" "k < length m"
      using list_all2_nthD2 [OF same k(1)] list_all2_lengthD [OF same] by simp_all
    then obtain p where p: "p \<in> set m" "same_but_enabled (snd p) c"
      using nth_mem [of k m] by (metis nth_map)
    then have "config_ok (fst p) (snd p)" using ok map_of_is_SomeI [of m "fst p" "snd p"] by (simp add: map_ok_def)
    then have "config_ok (fst p) c" using p(2) config_ok_same by blast
    then show ?thesis by (simp add: config_ok_def)
  qed
  have "set LOCKED_MODULE_IDS \<subseteq> fst ` set m"
    using merged_map_keys resolveDependencies_locked unfolding m_def by blast
  then have locked: "set LOCKED_MODULE_IDS \<subseteq> mc_moduleId ` set (map (finish_config must) cs)"
    using arg_cong [OF ids, of set] by (simp add: image_image)
  have enabled: "mc_enabled (finish_config must c) \<longleftrightarrow> mc_moduleId c \<in> set must" for c
    using resolveDependencies_locked by (auto simp: finish_config_def Let_def must)
  have deps: "mc_moduleId c' \<in> set must" if "mc_moduleId c \<in> set must" "mc_moduleId c' \<in> set (mod_deps (mc_moduleId c))" for c c'
    using that resolveDependencies_closed unfolding must by blast
  have mid: "mc_moduleId (finish_config must c) = mc_moduleId c" for c
    by (simp add: finish_config_def Let_def)
  have inst: "mc_enabled (finish_config must c) \<Longrightarrow> mc_installed (finish_config must c)" for c
    by (simp add: finish_config_def Let_def)
  have lck: "i \<in> set LOCKED_MODULE_IDS \<Longrightarrow> i \<in> set must" for i
    unfolding must by (rule resolveDependencies_locked)
  have "distinct (map mc_moduleId (map (finish_config must) cs))"
    using ids ok by (simp only: map_ok_def)
  with locked show ?thesis
    unfolding out Let_def using cok deps inst lck by (auto simp: enabled mid config_ok_finish)
qed


theorem normalized_configs_consistent_witness:
  "distinct (map mc_moduleId (normalizeModuleConfigs (Some [''orders'']) (JArr [JObj [(''moduleId'', JStr ''orders'')]])))
   \<and> ''deals'' \<in> mc_moduleId ` set (normalizeModuleConfigs (Some [''orders'']) (JArr [JObj [(''moduleId'', JStr ''orders'')]]))"
  using normalized_configs_consistent [of "Some [''orders'']" "JArr [JObj [(''moduleId'', JStr ''orders'')]]"]
  by (auto simp: Let_def registry_locked)

text \<open>A stored \<open>enabled: false\<close> for a locked module still takes effect on others: the module
  itself comes back enabled, but its dependents are switched off on the way, because the cascade
  runs before the locked modules are restored. With the orders module on, the entry
  \<open>{moduleId: deals, enabled: false}\<close> leaves deals enabled and orders disabled.\<close>

theorem locked_off_disables_dependents:
  "let out = normalizeModuleConfigs (Some [''orders''])
        (JArr [JObj [(''moduleId'', JStr ''deals''), (''enabled'', JBool False)]])
   in map (\<lambda>c. (mc_moduleId c, mc_enabled c)) out =
      [(''orders'', False), (''statistics'', True), (''deals'', True), (''profile'', True), (''notifications'', True)]"
  by code_simp


lemma owner_field_default: "dataSubjectOwnerField subject = ''ownerId''"
proof -
  have "owner_field_loop ds subject = ''ownerId''" for ds
    by (induction ds) (simp_all add: moduleDefinitionToManifest_def)
  then show ?thesis by (simp add: dataSubjectOwnerField_def)
qed

text \<open>The owner field of every data subject is \<open>ownerId\<close>: the registry's manifests carry no data
  subjects, so the lookup never finds one, also for deals and activities, whose records keep
  their owner in \<open>assigneeId\<close>.\<close>

theorem owner_field_is_always_default:
  "dataSubjectOwnerField subject = ''ownerId''"
  by (rule owner_field_default)

subsection \<open>Policy rules\<close>

lemma foldl_update_set:
  "(s, as) \<in> set (foldl (\<lambda>m (s, as). AList.update s (f as) m) m caps) \<Longrightarrow>
     (s, as) \<in> set m \<or> (\<exists>as0. (s, as0) \<in> set caps \<and> as = f as0)"
proof (induction caps arbitrary: m)
  case (Cons c caps)
  obtain s' as' where c: "c = (s', as')" by (cases c)
  have "(s, as) \<in> set (AList.update s' (f as') m) \<Longrightarrow> (s, as) \<in> set m \<or> (s = s' \<and> as = f as')"
    by (induction m) (auto split: if_splits)
  with Cons c show ?case by fastforce
qed simp

lemma manifest_capabilities:
  assumes "(s, as) \<in> set (mf_permissions (moduleDefinitionToManifest d))" "a \<in> set as"
  shows "\<exists>as0 a0. (s, as0) \<in> set (md_policyCapabilities d) \<and> a0 \<in> set as0 \<and> a = normalizeAction a0"
proof -
  obtain as0 where "(s, as0) \<in> set (md_policyCapabilities d)" "as = map normalizeAction as0"
    using foldl_update_set [of s as "map normalizeAction" "[]" "md_policyCapabilities d"] assms(1)
    by (auto simp: moduleDefinitionToManifest_def)
  with assms(2) show ?thesis by (metis (no_types) image_iff set_map)
qed

text \<open>The ids of the registry have no dot and are pairwise apart, so a subject lies in at most one namespace.\<close>

lemma registry_namespaces:
  assumes "d \<in> set MODULES" "d' \<in> set MODULES" "isWithinNamespace s (md_id d)" "isWithinNamespace s (md_id d')"
  shows "md_id d = md_id d'"
proof -
  have nodot: "\<forall>d \<in> set MODULES. CHR ''.'' \<notin> set (md_id d)"
    unfolding all_modules by (simp add: module_defs)
  have "takeWhile (\<lambda>c. c \<noteq> CHR ''.'') s = md_id d"
    if "d \<in> set MODULES" "isWithinNamespace s (md_id d)" for d
    using that nodot by (auto simp: isWithinNamespace_def starts_with_iff takeWhile_append takeWhile_eq_all_conv) 
  with assms show ?thesis by metis
qed

definition has_colon :: "string \<Rightarrow> bool" where
  "has_colon s \<longleftrightarrow> CHR '':'' \<in> set s"

lemma registry_no_colon:
  "d \<in> set MODULES \<Longrightarrow> (s, as) \<in> set (md_policyCapabilities d) \<Longrightarrow> \<not> has_colon s \<and> (\<forall>a \<in> set as. \<not> has_colon (normalizeAction a))"
proof -
  have "\<forall>d \<in> set MODULES. \<forall>c \<in> set (md_policyCapabilities d).
      \<not> has_colon (fst c) \<and> (\<forall>a \<in> set (snd c). \<not> has_colon (normalizeAction a))"
    unfolding all_modules by (simp add: module_defs has_colon_def normalizeAction_def ACTION_SYNONYMS_def)
  then show "d \<in> set MODULES \<Longrightarrow> (s, as) \<in> set (md_policyCapabilities d) \<Longrightarrow>
      \<not> has_colon s \<and> (\<forall>a \<in> set as. \<not> has_colon (normalizeAction a))" by fastforce
qed

lemma key_no_colon_inj:
  assumes "permissionKey s a = permissionKey s' a'" "\<not> has_colon s'" "\<not> has_colon a'"
  shows "s = s' \<and> a = a'"
proof -
  have "count_list (s @ '':'' @ a) (CHR '':'') = count_list (s' @ '':'' @ a') (CHR '':'')"
    using assms(1) by (simp add: permissionKey_def mk_key_def)
  then have "count_list s (CHR '':'') = 0 \<and> count_list a (CHR '':'') = 0"
    using assms(2,3) by (simp add: has_colon_def count_list_0_iff)
  then have "CHR '':'' \<notin> set a" by (simp add: count_list_0_iff)
  then show ?thesis using mk_key_inj [of s a s' a'] assms by (simp add: permissionKey_def has_colon_def)
qed

text \<open>Validation splits a rule set without losing or reordering a rule, and a rule it keeps names a
  known module, a subject that this very module declares, and an action the module declares on that
  subject (up to the create and update synonyms): no rule can borrow another module's permission.\<close>

theorem valid_rule_is_declared:
  assumes "r \<in> set (fst (validatePolicyRules rules))"
  shows "\<exists>d as a. map_of MODULE_REGISTRY (pr_moduleId r) = Some d \<and> (pr_subject r, as) \<in> set (md_policyCapabilities d)
    \<and> a \<in> set as \<and> normalizeAction a = normalizeAction (pr_action r)"
proof -
  from assms have ok: "rule_ok r" by (simp add: validatePolicyRules_def)
  then obtain d where d: "map_of MODULE_REGISTRY (pr_moduleId r) = Some d"
    by (auto simp: rule_ok_def in_registry_def)
  then have dm: "d \<in> set MODULES" "md_id d = pr_moduleId r" by (auto simp: registry_lookup)
  from ok obtain d' s as a where k: "d' \<in> set MODULES" "(s, as) \<in> set (mf_permissions (moduleDefinitionToManifest d'))"
      "a \<in> set as" "permissionKey (pr_subject r) (normalizeAction (pr_action r)) = permissionKey s (normalizeAction a)"
      "mf_id (moduleDefinitionToManifest d') = SYSTEM_PERMISSION_MODULE_ID \<or> isWithinNamespace s (md_id d')"
    by (auto simp: rule_ok_def cat_has_def getRegistryPermissionCatalog_def catalog_keys manifest_keys_def moduleDefinitionToManifest_def)
  obtain as0 a0 where c: "(s, as0) \<in> set (md_policyCapabilities d')" "a0 \<in> set as0" "a = normalizeAction a0"
    using manifest_capabilities [OF k(2,3)] by blast
  have norm: "normalizeAction a = a"
    using c(3) by (auto simp: normalizeAction_def ACTION_SYNONYMS_def)
  have key: "pr_subject r = s" "normalizeAction (pr_action r) = a"
    using key_no_colon_inj [OF k(4)] registry_no_colon [OF k(1) c(1)] c norm by auto
  have "md_id d' \<noteq> SYSTEM_PERMISSION_MODULE_ID"
    using k(1) registry_ids by (auto simp: SYSTEM_PERMISSION_MODULE_ID_def MODULES_def module_defs)
  then have "isWithinNamespace s (md_id d')" using k(5) by (simp add: moduleDefinitionToManifest_def)
  then have "md_id d' = md_id d"
    using registry_namespaces [OF k(1) dm(1)] ok key dm by (simp add: rule_ok_def)
  then have "d' = d" using k(1) dm registry_lookup [of "md_id d"] by (metis option.inject)
  with d c key norm show ?thesis by auto
qed

definition deals_rule :: policy_rule where
  "deals_rule = \<lparr>pr_id = ''r1'', pr_moduleId = ''deals'', pr_effect = ''deny'', pr_subject = ''deals'',
     pr_action = ''update'', pr_resource = ''*'', pr_condition = JObj []\<rparr>"

theorem valid_rule_is_declared_witness:
  "deals_rule \<in> set (fst (validatePolicyRules [deals_rule])) \<and>
   (\<exists>d as a. map_of MODULE_REGISTRY ''deals'' = Some d \<and> (''deals'', as) \<in> set (md_policyCapabilities d)
    \<and> a \<in> set as \<and> normalizeAction a = normalizeAction ''update'')"
proof -
  have "permissionKey ''deals'' ''write'' \<in> manifest_keys (moduleDefinitionToManifest M_deals)"
    unfolding manifest_keys_def mem_Collect_eq
    by (rule exI [of _ "''deals''"], rule exI [of _ "''write''"], rule conjI, simp add: normalizeAction_def ACTION_SYNONYMS_def,
        rule exI [of _ "[''read'', ''write'', ''delete'', ''manage'', ''export'', ''import'']"])
       (simp add: moduleDefinitionToManifest_def M_deals_def normalizeAction_def ACTION_SYNONYMS_def isWithinNamespace_def)
  then have "cat_has getRegistryPermissionCatalog ''deals'' ''write''"
    by (simp add: cat_has_def getRegistryPermissionCatalog_def catalog_keys MODULES_def)
  then have "rule_ok deals_rule"
    by (simp add: rule_ok_def deals_rule_def isWithinNamespace_def normalizeAction_def ACTION_SYNONYMS_def
        in_registry_def MODULE_REGISTRY_def MODULES_def module_defs)
  then have "deals_rule \<in> set (fst (validatePolicyRules [deals_rule]))" by (simp add: validatePolicyRules_def)
  with valid_rule_is_declared [OF this] show ?thesis by (simp add: deals_rule_def)
qed

end
