(* ===== verification/AccessPredicate.thy ===== *)
theory AccessPredicate
  imports AbacValidate VisFilter Registry
begin

text \<open>
  The gateway's compilation of conditional policy rules to read filters
  (\<^verbatim>\<open>gateway/src/guards/access-predicate.ts\<close>, \<^verbatim>\<open>access-predicate.aggregate.ts\<close>), the
  composition with project and visibility (\<^verbatim>\<open>shared/src/abac/compose.ts\<close>,
  \<^verbatim>\<open>owner-short-circuit.ts\<close>) and the attribute layer of the decision point
  (\<^verbatim>\<open>control/src/roles/pdp.service.ts\<close>). A rule is the wire form, every field optional; a set
  of actions is a list. The predicate travels as base64 of JSON; the model keeps the filter
  inside.
\<close>

subsection \<open>Rules and their targets\<close>

record abac_rule =
  ar_effect :: "string option"
  ar_subject :: "string option"
  ar_action :: "string option"
  ar_resource :: "string option"
  ar_condition :: jsval

fun has_keys :: "jsval \<Rightarrow> bool" where
  "has_keys (JObj ps) \<longleftrightarrow> ps \<noteq> []"
| "has_keys (JArr xs) \<longleftrightarrow> xs \<noteq> []"
| "has_keys _ = False"

definition hasCondition :: "abac_rule \<Rightarrow> bool" where
  "hasCondition r = has_keys (ar_condition r)"

definition READ_SHAPED_ACTIONS :: "string list" where
  "READ_SHAPED_ACTIONS = [''export'']"

definition predicateActionsForRoute :: "string \<Rightarrow> string list" where
  "predicateActionsForRoute action =
     (if action \<in> set READ_SHAPED_ACTIONS then js_set_of [action, ''read''] else [action])"

definition ruleTargets :: "abac_rule \<Rightarrow> string \<Rightarrow> string list \<Rightarrow> bool" where
  "ruleTargets r subject actions \<longleftrightarrow>
     ar_subject r = Some subject \<and>
     ((\<exists>a \<in> set actions. ar_action r = Some a) \<or> ar_action r = Some ''*'') \<and>
     (ar_resource r = None \<or> ar_resource r = Some [] \<or> ar_resource r = Some ''*'' \<or> ar_resource r = Some subject)"

definition ruleApplies :: "abac_rule \<Rightarrow> string \<Rightarrow> string list \<Rightarrow> bool" where
  "ruleApplies r subject actions \<longleftrightarrow> hasCondition r \<and> ruleTargets r subject actions"

definition is_deny :: "abac_rule \<Rightarrow> bool" where
  "is_deny r \<longleftrightarrow> ar_effect r = Some ''deny''"

definition hasConditionalDenyForAction :: "abac_rule list \<Rightarrow> string \<Rightarrow> string \<Rightarrow> bool" where
  "hasConditionalDenyForAction rl subject action =
     list_ex (\<lambda>r. is_deny r \<and> hasCondition r \<and> ruleTargets r subject [action]) rl"

subsection \<open>One rule\<close>

fun operand_refs :: "abac_operand \<Rightarrow> string list" where
  "operand_refs (ORef r) = [r]"
| "operand_refs (OLit _) = []"

fun collectRefs :: "abac_node \<Rightarrow> string list" where
  "collectRefs (AndN ns) = concat (map collectRefs ns)"
| "collectRefs (OrN ns) = concat (map collectRefs ns)"
| "collectRefs (NotN n) = collectRefs n"
| "collectRefs (Leaf c l r) = operand_refs l @ operand_refs r"

definition UNRESOLVABLE_CONTEXT_REFS :: "string list" where
  "UNRESOLVABLE_CONTEXT_REFS =
     [''user.departmentId'', ''user.departmentChain'', ''user.leaderOfDepartmentIds'',
      ''project.ownerType'', ''project.ownerId'']"

text \<open>\<open>refNamespace\<close> raises on an unknown namespace; on parsed trees it never does.\<close>

definition isResolvableOnGateway :: "abac_node \<Rightarrow> bool" where
  "isResolvableOnGateway n =
     list_all (\<lambda>r. r \<notin> set UNRESOLVABLE_CONTEXT_REFS \<and> is_ok (refNamespace r ''$'')) (js_set_of (collectRefs n))"

datatype fragment = FragFailed | FragVacuous | Frag mfilter

fun empty_filter :: "mfilter \<Rightarrow> bool" where
  "empty_filter (MFields ps) \<longleftrightarrow> ps = []"
| "empty_filter _ = False"

text \<open>The condition of a rule as a filter, before its effect is applied.\<close>

definition rule_filter :: "abac_rule \<Rightarrow> abac_ctx \<Rightarrow> abac_err + mfilter" where
  "rule_filter r ctx =
     sbind (parseAbac (ar_condition r)) (\<lambda>n.
       if \<not> isResolvableOnGateway n then Inl (UNKNOWN_CONTEXT_REF, ''$'')
       else sbind (resolveContextRefs ctx n) (\<lambda>m. sbind (normalizeAbac m) compileMongo))"

definition compileRuleFragment :: "abac_rule \<Rightarrow> abac_ctx \<Rightarrow> fragment" where
  "compileRuleFragment r ctx =
     (case rule_filter r ctx of
        Inl _ \<Rightarrow> FragFailed
      | Inr f \<Rightarrow> if empty_filter f then FragVacuous else Frag (if is_deny r then MNor [f] else f))"

subsection \<open>The rules of a route\<close>

text \<open>
  \<open>own\<close> rules name the action of the route; a read-shaped route borrows the rules of
  \<open>read\<close>. The two loops below are the bodies of \<open>compileAccessPredicateMongo\<close> (an own rule that
  fails makes the whole undecidable) and \<open>compileAccessPredicateResult\<close>.
\<close>

definition own_rule :: "string \<Rightarrow> string \<Rightarrow> abac_rule \<Rightarrow> bool" where
  "own_rule subject action r = ruleApplies r subject [action]"

definition borrowed_actions :: "string \<Rightarrow> string list" where
  "borrowed_actions action = filter (\<lambda>a. a \<noteq> action) (predicateActionsForRoute action)"

definition applicable_rules :: "abac_rule list \<Rightarrow> string \<Rightarrow> string \<Rightarrow> abac_rule list" where
  "applicable_rules rl subject action =
     filter (\<lambda>r. own_rule subject action r
       \<or> borrowed_actions action \<noteq> [] \<and> ruleApplies r subject (borrowed_actions action)) rl"

fun one_and :: "mfilter list \<Rightarrow> mfilter" where
  "one_and [f] = f"
| "one_and fs = MAnd fs"

datatype compilation = CNone | COk mfilter | CUndecidable

fun mongo_loop :: "abac_ctx \<Rightarrow> (abac_rule \<Rightarrow> bool) \<Rightarrow> abac_rule list \<Rightarrow> (bool \<times> mfilter) list \<Rightarrow> bool
    \<Rightarrow> ((bool \<times> mfilter) list \<times> bool) option" where
  "mongo_loop ctx own [] acc usable = Some (acc, usable)"
| "mongo_loop ctx own (r # rs) acc usable =
     (case compileRuleFragment r ctx of
        FragFailed \<Rightarrow> if own r then None else mongo_loop ctx own rs acc False
      | FragVacuous \<Rightarrow> mongo_loop ctx own rs acc usable
      | Frag f \<Rightarrow> mongo_loop ctx own rs (acc @ [(own r, f)]) usable)"

definition compileAccessPredicateMongo ::
    "abac_rule list \<Rightarrow> string \<Rightarrow> string \<Rightarrow> abac_ctx \<Rightarrow> compilation" where
  "compileAccessPredicateMongo rl subject action ctx =
     (if subject = [] \<or> rl = [] then CNone
      else let rs = applicable_rules rl subject action in
        if rs = [] then CNone
        else case mongo_loop ctx (own_rule subject action) rs [] True of
            None \<Rightarrow> CUndecidable
          | Some (acc, usable) \<Rightarrow>
              let fs = map snd (filter (\<lambda>(o', f). o' \<or> usable) acc)
              in if fs = [] then CNone else COk (one_and fs))"

subsection \<open>The owner of a record\<close>

definition withRecordOwnerAbacShortCircuit :: "mfilter option \<Rightarrow> string \<Rightarrow> string option \<Rightarrow> mfilter option" where
  "withRecordOwnerAbacShortCircuit abac ownerField selfUser =
     (case abac of None \<Rightarrow> None
      | Some f \<Rightarrow> if ownerField = [] \<or> selfUser = None \<or> selfUser = Some [] then Some f
                 else Some (MOr [f, mfield ownerField (OpVal (JStr (the selfUser)))]))"

definition composeAccessFilter :: "string \<Rightarrow> string option \<Rightarrow> mfilter option \<Rightarrow> mfilter option
    \<Rightarrow> string option \<Rightarrow> string option \<Rightarrow> mfilter" where
  "composeAccessFilter pid projectField vis abac ownerField selfUser =
     (let field = (case projectField of None \<Rightarrow> ''projectId'' | Some f \<Rightarrow> f);
          owner = (case ownerField of None \<Rightarrow> ''ownerId'' | Some f \<Rightarrow> f);
          opt = (\<lambda>x. case x of None \<Rightarrow> [] | Some f \<Rightarrow> [f])
      in one_and (mfield field (OpVal (JStr pid)) # opt vis
           @ opt (withRecordOwnerAbacShortCircuit abac owner selfUser)))"

subsection \<open>The predicate of a route\<close>

record predicate_result =
  prd_predicate :: "mfilter option"
  prd_failClosed :: bool
  prd_denyCompiled :: bool

definition no_predicate :: predicate_result where
  "no_predicate = \<lparr>prd_predicate = None, prd_failClosed = False, prd_denyCompiled = False\<rparr>"

record loop_state =
  ls_compiled :: "(bool \<times> mfilter \<times> bool) list"
  ls_usable :: bool
  ls_failClosed :: bool

text \<open>\<open>None\<close> is the early return of a read-shaped route.\<close>

fun result_loop :: "abac_ctx \<Rightarrow> (abac_rule \<Rightarrow> bool) \<Rightarrow> bool \<Rightarrow> abac_rule list \<Rightarrow> loop_state \<Rightarrow> loop_state option" where
  "result_loop ctx own borrows [] st = Some st"
| "result_loop ctx own borrows (r # rs) st =
     (case compileRuleFragment r ctx of
        FragFailed \<Rightarrow>
          if own r then
            if is_deny r then result_loop ctx own borrows rs (st\<lparr>ls_failClosed := True\<rparr>)
            else if borrows then None
            else result_loop ctx own borrows rs st
          else result_loop ctx own borrows rs (st\<lparr>ls_usable := False\<rparr>)
      | FragVacuous \<Rightarrow> result_loop ctx own borrows rs st
      | Frag f \<Rightarrow> result_loop ctx own borrows rs (st\<lparr>ls_compiled := ls_compiled st @ [(own r, f, is_deny r)]\<rparr>))"

definition finish_result :: "string \<Rightarrow> abac_ctx \<Rightarrow> loop_state \<Rightarrow> predicate_result" where
  "finish_result subject ctx st =
     (if ls_failClosed st then no_predicate\<lparr>prd_failClosed := True\<rparr>
      else let fs = filter (\<lambda>(o', f, deny). o' \<or> ls_usable st) (ls_compiled st) in
        if fs = [] then no_predicate
        else let denyCompiled = list_ex (\<lambda>(o', f, deny). deny) fs;
                 base = one_and (map (\<lambda>(o', f, deny). f) fs);
                 user = u_id (c_user ctx)
          in \<lparr>prd_predicate = (if denyCompiled \<and> user \<noteq> []
                 then withRecordOwnerAbacShortCircuit (Some base) (dataSubjectOwnerField subject) (Some user)
                 else Some base),
              prd_failClosed = False, prd_denyCompiled = denyCompiled\<rparr>)"

definition compileAccessPredicateResult ::
    "abac_rule list \<Rightarrow> string \<Rightarrow> string \<Rightarrow> abac_ctx \<Rightarrow> predicate_result" where
  "compileAccessPredicateResult rl subject action ctx =
     (if subject = [] \<or> rl = [] then no_predicate
      else let rs = applicable_rules rl subject action in
        if rs = [] then no_predicate
        else case result_loop ctx (own_rule subject action) (borrowed_actions action \<noteq> []) rs
               \<lparr>ls_compiled = [], ls_usable = True, ls_failClosed = False\<rparr> of
            None \<Rightarrow> no_predicate
          | Some st \<Rightarrow> finish_result subject ctx st)"

definition compileAccessPredicate :: "abac_rule list \<Rightarrow> string \<Rightarrow> string \<Rightarrow> abac_ctx \<Rightarrow> mfilter option" where
  "compileAccessPredicate rl subject action ctx =
     prd_predicate (compileAccessPredicateResult rl subject action ctx)"

subsection \<open>Routes over several entities\<close>

fun cross_branches :: "abac_rule list \<Rightarrow> string \<Rightarrow> abac_ctx \<Rightarrow> (string \<Rightarrow> bool) \<Rightarrow> string
    \<Rightarrow> (string \<times> string) list \<Rightarrow> mfilter list \<times> bool" where
  "cross_branches rl action ctx denied tf [] = ([], False)"
| "cross_branches rl action ctx denied tf ((s, e) # ps) =
     (let (bs, narrows) = cross_branches rl action ctx denied tf ps in
      if denied s then (bs, True)
      else case compileAccessPredicateMongo rl s action ctx of
          CUndecidable \<Rightarrow> (bs, True)
        | COk f \<Rightarrow> (MAnd [mfield tf (OpVal (JStr e)), f] # bs, True)
        | CNone \<Rightarrow> (mfield tf (OpVal (JStr e)) # bs, narrows))"

definition compileCrossEntityAccessPredicate :: "abac_rule list \<Rightarrow> string \<Rightarrow> abac_ctx
    \<Rightarrow> (string \<times> string) list \<Rightarrow> (string \<Rightarrow> bool) \<Rightarrow> string option \<Rightarrow> mfilter option" where
  "compileCrossEntityAccessPredicate rl action ctx pairs denied tfName =
     (let tf = (case tfName of None \<Rightarrow> ''entityType'' | Some f \<Rightarrow> f);
          (bs, narrows) = cross_branches rl action ctx denied tf pairs
      in if \<not> narrows then None
         else Some (case bs of [] \<Rightarrow> mfield tf (OpIn []) | [b] \<Rightarrow> b | _ \<Rightarrow> MOr bs))"

subsection \<open>Aggregate routes\<close>

definition AGGREGATE_SOURCE_SUBJECTS :: "string list" where
  "AGGREGATE_SOURCE_SUBJECTS = [''deals'', ''orders'', ''contacts'', ''companies'', ''activities'']"

definition AGGREGATE_ROUTE_SUBJECTS :: "string list" where
  "AGGREGATE_ROUTE_SUBJECTS = [''statistics'', ''statistics.widget'', ''reports'']"

definition isAggregateRouteSubject :: "string \<Rightarrow> bool" where
  "isAggregateRouteSubject s \<longleftrightarrow> s \<in> set AGGREGATE_ROUTE_SUBJECTS"

definition DENY_ALL_MONGO :: mfilter where
  "DENY_ALL_MONGO = mfield ''_id'' (OpIn [])"

definition hasBlanketReadDeny :: "abac_rule list \<Rightarrow> string \<Rightarrow> bool" where
  "hasBlanketReadDeny rl source =
     list_ex (\<lambda>r. is_deny r \<and> \<not> hasCondition r \<and> ruleTargets r source (predicateActionsForRoute ''read'')) rl"

record aggregate_predicate =
  ag_mongo :: "mfilter option"
  ag_bySubject :: "(string \<times> mfilter) list"

definition source_predicate :: "abac_rule list \<Rightarrow> abac_ctx \<Rightarrow> string \<Rightarrow> mfilter option" where
  "source_predicate rl ctx source =
     (if hasBlanketReadDeny rl source then Some DENY_ALL_MONGO
      else compileAccessPredicate rl source ''read'' ctx)"

definition compileAggregateAccessPredicate ::
    "abac_rule list \<Rightarrow> string \<Rightarrow> string \<Rightarrow> abac_ctx \<Rightarrow> aggregate_predicate option" where
  "compileAggregateAccessPredicate rl subject action ctx =
     (let route = compileAccessPredicate rl subject action ctx;
          by_subject = concat (map (\<lambda>s. case source_predicate rl ctx s of None \<Rightarrow> [] | Some f \<Rightarrow> [(s, f)])
                          AGGREGATE_SOURCE_SUBJECTS)
      in if route = None \<and> by_subject = [] then None
         else Some \<lparr>ag_mongo = route, ag_bySubject = by_subject\<rparr>)"

subsection \<open>The attribute layer of the decision point\<close>

definition recordOwnerId :: "doc \<Rightarrow> string option" where
  "recordOwnerId d =
     (let nn = (\<lambda>v w. if js_nullish v then w else v)
      in case nn (fld d ''ownerId'') (nn (fld d ''assigneeId'') (nn (fld d ''owner_id'') (fld d ''assignee_id''))) of
           JStr s \<Rightarrow> Some s | _ \<Rightarrow> None)"

datatype pdp_verdict = PdpDeny | PdpPass

text \<open>Without a record a rule that resolves and normalises is only reported.\<close>

fun pdp_rules :: "abac_ctx \<Rightarrow> doc option \<Rightarrow> abac_rule list \<Rightarrow> pdp_verdict" where
  "pdp_rules ctx rcd [] = PdpPass"
| "pdp_rules ctx rcd (r # rs) =
     (case sbind (parseAbac (ar_condition r)) (\<lambda>n. sbind (resolveContextRefs ctx n) normalizeAbac) of
        Inl _ \<Rightarrow> PdpDeny
      | Inr m \<Rightarrow> (case rcd of
            None \<Rightarrow> pdp_rules ctx rcd rs
          | Some d \<Rightarrow> (case evalGate m d of
                Inl _ \<Rightarrow> PdpDeny
              | Inr b \<Rightarrow> if is_deny r \<and> b then PdpDeny else pdp_rules ctx rcd rs)))"

definition pdp_applicable :: "abac_rule list \<Rightarrow> string \<Rightarrow> string \<Rightarrow> string \<Rightarrow> abac_rule list" where
  "pdp_applicable rl subject action res =
     filter (\<lambda>r. hasCondition r \<and> ar_subject r = Some subject
       \<and> (ar_action r = Some action \<or> ar_action r = Some ''*'')
       \<and> (ar_resource r = None \<or> ar_resource r = Some [] \<or> ar_resource r = Some ''*'' \<or> ar_resource r = Some res)) rl"

definition evalAbacLayer :: "abac_rule list \<Rightarrow> abac_ctx \<Rightarrow> string \<Rightarrow> string \<Rightarrow> string \<Rightarrow> string
    \<Rightarrow> doc option \<Rightarrow> pdp_verdict" where
  "evalAbacLayer rl ctx userId subject action res rcd =
     (let rs = pdp_applicable rl subject action res in
      if rs = [] then PdpPass
      else case rcd of
          None \<Rightarrow> pdp_rules ctx rcd rs
        | Some d \<Rightarrow> (case recordOwnerId d of
              None \<Rightarrow> pdp_rules ctx rcd rs
            | Some owner \<Rightarrow> if owner \<noteq> [] \<and> owner = userId then PdpPass else pdp_rules ctx rcd rs))"


subsection \<open>What the loops compute\<close>

abbreviation fails :: "abac_ctx \<Rightarrow> abac_rule \<Rightarrow> bool" where
  "fails ctx r \<equiv> compileRuleFragment r ctx = FragFailed"

definition own_entry :: "abac_ctx \<Rightarrow> (abac_rule \<Rightarrow> bool) \<Rightarrow> abac_rule \<Rightarrow> (bool \<times> mfilter) list" where
  "own_entry ctx own r = (case compileRuleFragment r ctx of Frag f \<Rightarrow> [(own r, f)] | _ \<Rightarrow> [])"

definition eff_entry :: "abac_ctx \<Rightarrow> (abac_rule \<Rightarrow> bool) \<Rightarrow> abac_rule \<Rightarrow> (bool \<times> mfilter \<times> bool) list" where
  "eff_entry ctx own r = (case compileRuleFragment r ctx of Frag f \<Rightarrow> [(own r, f, is_deny r)] | _ \<Rightarrow> [])"

lemma mongo_loop_eq:
  "mongo_loop ctx own rs acc u =
     (if \<exists>r \<in> set rs. own r \<and> fails ctx r then None
      else Some (acc @ concat (map (own_entry ctx own) rs), u \<and> (\<forall>r \<in> set rs. \<not> fails ctx r)))"
  by (induction rs arbitrary: acc u) (auto simp: own_entry_def split: fragment.splits)

lemma result_loop_eq:
  "result_loop ctx own borrows rs st =
     (if borrows \<and> (\<exists>r \<in> set rs. own r \<and> fails ctx r \<and> \<not> is_deny r) then None
      else Some (st\<lparr>ls_compiled := ls_compiled st @ concat (map (eff_entry ctx own) rs),
                    ls_usable := (ls_usable st \<and> (\<forall>r \<in> set rs. fails ctx r \<longrightarrow> own r)),
                    ls_failClosed := (ls_failClosed st \<or> (\<exists>r \<in> set rs. own r \<and> fails ctx r \<and> is_deny r))\<rparr>))"
  by (induction rs arbitrary: st) (auto simp: eff_entry_def split: fragment.splits)

lemma borrowed_none: "action \<noteq> ''export'' \<Longrightarrow> borrowed_actions action = []"
  by (simp add: borrowed_actions_def predicateActionsForRoute_def READ_SHAPED_ACTIONS_def)

lemma borrowed_export: "borrowed_actions ''export'' = [''read'']"
  by (simp add: borrowed_actions_def predicateActionsForRoute_def READ_SHAPED_ACTIONS_def js_set_of_def js_add_def)

text \<open>The rules that count for a route: those of its own action, and on export those of \<open>read\<close>.\<close>

abbreviation counts :: "abac_rule list \<Rightarrow> string \<Rightarrow> string \<Rightarrow> abac_rule \<Rightarrow> bool" where
  "counts rl subject action r \<equiv> r \<in> set rl \<and> ruleApplies r subject (predicateActionsForRoute action)"

lemma ruleApplies_split:
  "ruleApplies r subject (predicateActionsForRoute action) \<longleftrightarrow>
     own_rule subject action r \<or> borrowed_actions action \<noteq> [] \<and> ruleApplies r subject (borrowed_actions action)"
  by (auto simp: own_rule_def ruleApplies_def ruleTargets_def borrowed_actions_def predicateActionsForRoute_def
      READ_SHAPED_ACTIONS_def js_set_of_def js_add_def)

lemma applicable_counts: "r \<in> set (applicable_rules rl subject action) \<longleftrightarrow> counts rl subject action r"
  by (auto simp: applicable_rules_def ruleApplies_split)

text \<open>What one rule demands of a record: nothing if its condition does not compile.\<close>

definition rule_holds :: "(mfilter \<Rightarrow> doc \<Rightarrow> bool) \<Rightarrow> abac_ctx \<Rightarrow> doc \<Rightarrow> abac_rule \<Rightarrow> bool" where
  "rule_holds mt ctx d r =
     (case compileRuleFragment r ctx of Frag f \<Rightarrow> mt f d | _ \<Rightarrow> True)"

context mongo_store
begin

lemma mt_one_and: "fs \<noteq> [] \<Longrightarrow> mt (one_and fs) d \<longleftrightarrow> (\<forall>f \<in> set fs. mt f d)"
  by (cases fs rule: one_and.cases) (simp_all add: all_and)

lemma mt_str: "\<not> is_arr (fld d k) \<Longrightarrow> mt (mfield k (OpVal (JStr s))) d \<longleftrightarrow> fld d k = JStr s"
  by (auto simp: core_val nul_def)

lemma mt_in_none: "\<not> is_arr (fld d k) \<Longrightarrow> \<not> mt (mfield k (OpIn [])) d"
  using in_lit [of "[]" k d] by simp

lemma rule_holds_filter:
  "rule_holds mt ctx d r \<longleftrightarrow>
     (\<forall>f. rule_filter r ctx = Inr f \<longrightarrow> \<not> empty_filter f \<longrightarrow> (if is_deny r then \<not> mt f d else mt f d))"
  by (auto simp: rule_holds_def compileRuleFragment_def all_nor split: sum.splits)

lemma entries_hold:
  "(\<forall>f \<in> snd ` set (concat (map (own_entry ctx own) rs)). mt f d) \<longleftrightarrow> (\<forall>r \<in> set rs. rule_holds mt ctx d r)"
  "(\<forall>x \<in> set (concat (map (eff_entry ctx own) rs)). mt (fst (snd x)) d) \<longleftrightarrow> (\<forall>r \<in> set rs. rule_holds mt ctx d r)"
  by (auto simp: own_entry_def eff_entry_def rule_holds_def split: fragment.splits)

text \<open>The owner of the record, when a deny fragment is part of the predicate.\<close>

lemma finish_selects:
  assumes "\<not> is_arr (fld d ''ownerId'')" "u_id (c_user ctx) \<noteq> []" "\<not> ls_failClosed st" "ls_usable st"
  shows "selects mt (prd_predicate (finish_result subject ctx st)) d \<longleftrightarrow>
     (\<forall>x \<in> set (ls_compiled st). mt (fst (snd x)) d)
     \<or> list_ex (\<lambda>(o', f, deny). deny) (ls_compiled st) \<and> fld d ''ownerId'' = JStr (u_id (c_user ctx))"
proof -
  let ?fs = "ls_compiled st"
  have "filter (\<lambda>(o', f, deny). o' \<or> ls_usable st) ?fs = ?fs" using assms(4) by simp
  moreover have "mt (one_and (map (\<lambda>(o', f, deny). f) ?fs)) d \<longleftrightarrow> (\<forall>x \<in> set ?fs. mt (fst (snd x)) d)" if "?fs \<noteq> []"
    using that mt_one_and [of "map (\<lambda>(o', f, deny). f) ?fs" d] by (auto simp: case_prod_beta)
  ultimately show ?thesis using assms
    by (auto simp: finish_result_def Let_def no_predicate_def selects_def withRecordOwnerAbacShortCircuit_def
        owner_field_default all_or mt_str list_ex_iff)
qed

lemma result_selects:
  assumes res: "compileAccessPredicateResult rl subject action ctx = res" "\<not> prd_failClosed res"
    and ok: "action = ''export'' \<Longrightarrow> \<forall>r. counts rl subject action r \<longrightarrow> \<not> fails ctx r"
    and ne: "subject \<noteq> []" and d: "\<not> is_arr (fld d ''ownerId'')" "u_id (c_user ctx) \<noteq> []"
  shows "selects mt (prd_predicate res) d \<longleftrightarrow>
      (\<forall>r. counts rl subject action r \<longrightarrow> rule_holds mt ctx d r)
      \<or> prd_denyCompiled res \<and> fld d ''ownerId'' = JStr (u_id (c_user ctx))"
proof (cases "applicable_rules rl subject action = []")
  case True
  then have "res = no_predicate" using res by (auto simp: compileAccessPredicateResult_def Let_def)
  moreover have "\<not> counts rl subject action r" for r using True applicable_counts [of r rl subject action] by simp
  ultimately show ?thesis unfolding no_predicate_def selects_def by auto
next
  case False
  let ?rs = "applicable_rules rl subject action" and ?own = "own_rule subject action"
  define st where "st = \<lparr>ls_compiled = concat (map (eff_entry ctx ?own) ?rs),
    ls_usable = (\<forall>r \<in> set ?rs. fails ctx r \<longrightarrow> ?own r),
    ls_failClosed = (\<exists>r \<in> set ?rs. ?own r \<and> fails ctx r \<and> is_deny r)\<rparr>"
  have b: "borrowed_actions action = [] \<or> (\<forall>r \<in> set ?rs. \<not> fails ctx r)"
  proof (cases "action = ''export''")
    case True
    then show ?thesis using ok [OF True] by (simp add: applicable_counts)
  qed (simp add: borrowed_none)
  have "rl \<noteq> []" using False by (auto simp: applicable_rules_def)
  then have r: "res = finish_result subject ctx st"
    using res(1) False ne b by (auto simp: compileAccessPredicateResult_def Let_def result_loop_eq st_def)
  have u: "ls_usable st"
    using b by (auto simp: st_def applicable_counts ruleApplies_split)
  have f: "\<not> ls_failClosed st" using res(2) r by (auto simp: finish_result_def no_predicate_def)
  have "prd_denyCompiled res \<longleftrightarrow> list_ex (\<lambda>(o', f, deny). deny) (ls_compiled st)"
    using u f by (auto simp: r finish_result_def no_predicate_def Let_def)
  moreover have "(\<forall>r. counts rl subject action r \<longrightarrow> rule_holds mt ctx d r) \<longleftrightarrow> (\<forall>r \<in> set ?rs. rule_holds mt ctx d r)"
    unfolding Ball_def applicable_counts ..
  moreover have "(\<forall>x \<in> set (ls_compiled st). mt (fst (snd x)) d) \<longleftrightarrow> (\<forall>r \<in> set ?rs. rule_holds mt ctx d r)"
    using entries_hold(2) [of ctx ?own ?rs d] by (simp add: st_def)
  ultimately show ?thesis using finish_selects [OF d f u, of subject] by (simp only: r)
qed

end

lemma fail_closed_iff:
  assumes "action \<noteq> ''export''" "subject \<noteq> []"
  shows "prd_failClosed (compileAccessPredicateResult rl subject action ctx) \<longleftrightarrow>
    (\<exists>r. counts rl subject action r \<and> is_deny r \<and> fails ctx r)"
proof (cases "applicable_rules rl subject action = []")
  case True
  then show ?thesis
    using applicable_counts [of _ rl subject action] by (auto simp: compileAccessPredicateResult_def no_predicate_def)
next
  case False
  have own: "own_rule subject action r" if "r \<in> set (applicable_rules rl subject action)" for r
    using that borrowed_none [OF assms(1)] by (simp add: applicable_rules_def)
  have "rl \<noteq> []" using False by (auto simp: applicable_rules_def)
  then show ?thesis
    using False assms own
    by (auto simp: compileAccessPredicateResult_def Let_def result_loop_eq borrowed_none finish_result_def
        no_predicate_def applicable_counts)
qed

lemma deny_compiled_iff:
  assumes "action \<noteq> ''export''" "subject \<noteq> []"
    and "\<not> prd_failClosed (compileAccessPredicateResult rl subject action ctx)"
  shows "prd_denyCompiled (compileAccessPredicateResult rl subject action ctx) \<longleftrightarrow>
    (\<exists>r f. counts rl subject action r \<and> is_deny r \<and> compileRuleFragment r ctx = Frag f)"
proof (cases "applicable_rules rl subject action = []")
  case True
  then show ?thesis
    using applicable_counts [of _ rl subject action] by (auto simp: compileAccessPredicateResult_def no_predicate_def)
next
  case False
  have own: "own_rule subject action r" if "r \<in> set (applicable_rules rl subject action)" for r
    using that borrowed_none [OF assms(1)] by (simp add: applicable_rules_def)
  have "rl \<noteq> []" using False by (auto simp: applicable_rules_def)
  then have "prd_denyCompiled (compileAccessPredicateResult rl subject action ctx) \<longleftrightarrow>
      list_ex (\<lambda>(o', f, deny). deny) (concat (map (eff_entry ctx (own_rule subject action)) (applicable_rules rl subject action)))"
    using False assms own
    by (auto simp: compileAccessPredicateResult_def Let_def result_loop_eq borrowed_none finish_result_def
        no_predicate_def list_ex_iff split: if_splits)
  also have "\<dots> \<longleftrightarrow> (\<exists>r \<in> set (applicable_rules rl subject action). is_deny r \<and> (\<exists>f. compileRuleFragment r ctx = Frag f))"
    by (auto simp: eff_entry_def list_ex_iff split: fragment.splits) metis+
  finally show ?thesis by (auto simp: applicable_counts)
qed

subsection \<open>The two contexts\<close>

text \<open>
  The gateway resolves conditions with placeholders for the department and the owner of the
  project; the decision point has the real values. On a condition the gateway accepts, only
  the attributes both have are read.
\<close>

definition ctx_agree :: "abac_ctx \<Rightarrow> abac_ctx \<Rightarrow> bool" where
  "ctx_agree c c' \<longleftrightarrow> u_id (c_user c) = u_id (c_user c') \<and> u_role (c_user c) = u_role (c_user c')
     \<and> p_id (c_project c) = p_id (c_project c')"

lemma prefixed_ref: "starts_with r (p @ ''.'') \<Longrightarrow> CHR ''.'' \<notin> set p \<Longrightarrow> r = p @ ''.'' @ refField r"
proof -
  assume "starts_with r (p @ ''.'')" "CHR ''.'' \<notin> set p"
  then obtain s where "r = p @ CHR ''.'' # s" by (auto simp: starts_with_iff)
  moreover have "dropWhile (\<lambda>c. c \<noteq> CHR ''.'') (p @ CHR ''.'' # s) = CHR ''.'' # s"
    using \<open>CHR ''.'' \<notin> set p\<close> by (subst dropWhile_append2) auto
  ultimately show ?thesis by (simp add: refField_def)
qed

lemma user_ref_split: "starts_with r ''user.'' \<Longrightarrow> r = ''user.'' @ refField r"
  using prefixed_ref [of r "''user''"] by simp

lemma project_ref_split: "starts_with r ''project.'' \<Longrightarrow> r = ''project.'' @ refField r"
  using prefixed_ref [of r "''project''"] by simp

lemma resolveOperand_agree:
  assumes "ctx_agree c c'" "set (operand_refs x) \<inter> set UNRESOLVABLE_CONTEXT_REFS = {}"
  shows "resolveOperand c x = resolveOperand c' x"
proof (cases x)
  case (ORef r)
  have u: "refField r \<notin> {''departmentId'', ''departmentChain'', ''leaderOfDepartmentIds''}" if "starts_with r ''user.''"
    using user_ref_split [OF that] assms(2) ORef by (auto simp: UNRESOLVABLE_CONTEXT_REFS_def)
  have p: "refField r \<notin> {''ownerType'', ''ownerId''}" if "starts_with r ''project.''"
    using project_ref_split [OF that] assms(2) ORef by (auto simp: UNRESOLVABLE_CONTEXT_REFS_def)
  show ?thesis using assms(1) u p ORef
    by (auto simp: refNamespace_def resolveUserAttr_def resolveProjectAttr_def ctx_agree_def)
qed simp

lemma smap_same: "(\<And>x. x \<in> set xs \<Longrightarrow> f x = g x) \<Longrightarrow> smap f xs = smap g xs"
  by (rule smap_cong) simp_all

lemma resolve_agree:
  assumes "ctx_agree c c'" "set (collectRefs n) \<inter> set UNRESOLVABLE_CONTEXT_REFS = {}"
  shows "resolveContextRefs c n = resolveContextRefs c' n"
  using assms(2)
proof (induction n)
  case (Leaf op l r)
  then show ?case using resolveOperand_agree [OF assms(1), of l] resolveOperand_agree [OF assms(1), of r]
    by (simp add: Int_Un_distrib2)
next
  case (AndN ns)
  then have "smap (resolveContextRefs c) ns = smap (resolveContextRefs c') ns"
    by (intro smap_same) (auto simp: Int_UN_distrib2)
  then show ?case by simp
next
  case (OrN ns)
  then have "smap (resolveContextRefs c) ns = smap (resolveContextRefs c') ns"
    by (intro smap_same) (auto simp: Int_UN_distrib2)
  then show ?case by simp
qed simp

text \<open>The condition as the decision point evaluates it.\<close>

definition resolved :: "abac_rule \<Rightarrow> abac_ctx \<Rightarrow> abac_err + abac_node" where
  "resolved r ctx = sbind (parseAbac (ar_condition r)) (\<lambda>n. sbind (resolveContextRefs ctx n) normalizeAbac)"

lemma rule_filter_resolved:
  assumes "rule_filter r c = Inr f" "ctx_agree c c'"
  shows "\<exists>m. resolved r c' = Inr m \<and> compileMongo m = Inr f"
proof -
  from assms(1) obtain n where n: "parseAbac (ar_condition r) = Inr n" "isResolvableOnGateway n"
      "sbind (resolveContextRefs c n) (\<lambda>m. sbind (normalizeAbac m) compileMongo) = Inr f"
    by (auto simp: rule_filter_def sbind_Inr split: if_splits)
  then have "set (collectRefs n) \<inter> set UNRESOLVABLE_CONTEXT_REFS = {}"
    by (auto simp: isResolvableOnGateway_def list_all_iff)
  from resolve_agree [OF assms(2) this] n show ?thesis
    by (auto simp: resolved_def sbind_Inr)
qed

lemma resolved_residual: "resolved r ctx = Inr m \<Longrightarrow> residual m"
proof -
  assume "resolved r ctx = Inr m"
  then obtain k where k: "residual k" "normalize k ''$'' = Inr m"
    by (auto simp: resolved_def sbind_Inr normalizeAbac_def dest: resolve_residual)
  then show "residual m"
    using normalize_leaves(3) [of "\<lambda>c l r. rec_operand l \<and> rec_operand r" k "''$''" m] by simp
qed

lemma pdp_rules_pass:
  "pdp_rules ctx (Some d) rs = PdpPass \<longleftrightarrow>
     (\<forall>r \<in> set rs. \<exists>m. resolved r ctx = Inr m \<and> \<not> (is_deny r \<and> gate m d))"
proof (induction rs)
  case (Cons r rs)
  show ?case
  proof (cases "resolved r ctx")
    case (Inr m)
    then have "evalGate m d = Inr (gate m d)"
      using resolved_residual by (simp add: evalGate_def eval_residual)
    with Cons Inr show ?thesis by (simp add: resolved_def)
  qed (simp add: resolved_def)
qed simp

subsection \<open>Rules with a stored tree\<close>

definition tree_rule :: "string \<Rightarrow> string \<Rightarrow> string \<Rightarrow> abac_node \<Rightarrow> abac_rule" where
  "tree_rule eff subject action n =
     \<lparr>ar_effect = Some eff, ar_subject = Some subject, ar_action = Some action, ar_resource = None,
      ar_condition = node_js n\<rparr>"

lemma tree_rule_simps [simp]:
  "hasCondition (tree_rule e s a n)"
  "ruleTargets (tree_rule e s a n) s' as \<longleftrightarrow> s = s' \<and> (a \<in> set as \<or> a = ''*'')"
  "is_deny (tree_rule e s a n) \<longleftrightarrow> e = ''deny''"
  by (cases n; simp add: hasCondition_def tree_rule_def) (auto simp: ruleTargets_def is_deny_def tree_rule_def)

lemma tree_rule_filter:
  assumes "wf_node n"
  shows "rule_filter (tree_rule e s a n) ctx =
      (if isResolvableOnGateway n then sbind (resolveContextRefs ctx n) (\<lambda>m. sbind (normalizeAbac m) compileMongo)
       else Inl (UNKNOWN_CONTEXT_REF, ''$''))"
    "resolved (tree_rule e s a n) ctx = sbind (resolveContextRefs ctx n) normalizeAbac"
  using parse_print [OF assms, of "''$''"] by (simp_all add: rule_filter_def resolved_def tree_rule_def parseAbac_def)

text \<open>Two conditions for examples: a region, and one on the department of the caller.\<close>

definition region_is :: "string \<Rightarrow> abac_node" where
  "region_is v = Leaf OEq (ORef ''record.region'') (OLit (JStr v))"

definition own_department :: abac_node where
  "own_department = Leaf OEq (ORef ''record.departmentId'') (ORef ''user.departmentId'')"

lemma example_nodes [simp]: "wf_node (region_is v)" "wf_node own_department"
  by (simp_all add: region_is_def own_department_def refNamespace_def RECORD_FLAT_FIELD_RE_def is_word_start_def
      is_word_char_def less_eq_char_def)

lemma region_filter [simp]:
  "rule_filter (tree_rule e s a (region_is v)) ctx = Inr (mfield ''region'' (OpEq (JStr v)))"
  "resolved (tree_rule e s a (region_is v)) ctx = Inr (region_is v)"
  by (simp_all add: tree_rule_filter)
     (simp_all add: region_is_def isResolvableOnGateway_def js_set_of_def js_add_def UNRESOLVABLE_CONTEXT_REFS_def
        refNamespace_def normalizeAbac_def compileMongo_def compileLeaf_def refField_def)

lemma region_fragment [simp]:
  "compileRuleFragment (tree_rule e s a (region_is v)) ctx =
     Frag (if e = ''deny'' then MNor [mfield ''region'' (OpEq (JStr v))] else mfield ''region'' (OpEq (JStr v)))"
  by (simp add: compileRuleFragment_def)

lemma department_fails [simp]: "compileRuleFragment (tree_rule e s a own_department) ctx = FragFailed"
  by (simp add: compileRuleFragment_def tree_rule_filter)
     (simp add: own_department_def isResolvableOnGateway_def js_set_of_def js_add_def UNRESOLVABLE_CONTEXT_REFS_def)

subsection \<open>Properties\<close>




text \<open>On every action but export the result asks to fail closed exactly when a conditional deny
  that counts for the route does not compile (a broken condition, or one on a department or
  the owner of the project); no predicate is sent then.\<close>

theorem uncompilable_deny_fails_closed:
  assumes "action \<noteq> ''export''" "subject \<noteq> []"
  shows "let res = compileAccessPredicateResult rl subject action ctx in
    (prd_failClosed res \<longleftrightarrow> (\<exists>r. counts rl subject action r \<and> is_deny r \<and> fails ctx r))
    \<and> (prd_failClosed res \<longrightarrow> prd_predicate res = None)"
  using fail_closed_iff [OF assms, of rl ctx]
  by (auto simp: Let_def compileAccessPredicateResult_def finish_result_def no_predicate_def
      split: option.splits if_splits)

theorem uncompilable_deny_fails_closed_witness:
  "prd_failClosed (compileAccessPredicateResult
     [tree_rule ''deny'' ''deals'' ''*'' own_department, tree_rule ''allow'' ''deals'' ''read'' (region_is ''EU'')]
     ''deals'' ''read'' sample_ctx)"
proof -
  let ?rl = "[tree_rule ''deny'' ''deals'' ''*'' own_department, tree_rule ''allow'' ''deals'' ''read'' (region_is ''EU'')]"
  have "counts ?rl ''deals'' ''read'' (hd ?rl) \<and> is_deny (hd ?rl) \<and> fails sample_ctx (hd ?rl)"
    by (simp add: ruleApplies_def predicateActionsForRoute_def READ_SHAPED_ACTIONS_def)
  with uncompilable_deny_fails_closed [of "''read''" "''deals''" ?rl sample_ctx] show ?thesis
    unfolding Let_def by auto
qed

text \<open>
  A rule both sides can evaluate on a record: it compiles to something, and its leaves fit the
  record, as validation ensures.
\<close>

definition evaluable :: "abac_ctx \<Rightarrow> doc \<Rightarrow> abac_rule \<Rightarrow> bool" where
  "evaluable ctx d r \<longleftrightarrow>
     (case (rule_filter r ctx, resolved r ctx) of
        (Inr f, Inr m) \<Rightarrow> \<not> empty_filter f \<and> all_leaves good_leaf m \<and> scalar_fields d m
      | _ \<Rightarrow> False)"

lemma evaluable_gate:
  assumes "mongo_store mt" "evaluable c d r" "ctx_agree c c'"
  shows "\<exists>f m. rule_filter r c = Inr f \<and> \<not> empty_filter f \<and> resolved r c' = Inr m \<and> gate m d = mt f d"
proof -
  from assms(2) obtain f m where f: "rule_filter r c = Inr f" "\<not> empty_filter f"
      and m: "resolved r c = Inr m" "all_leaves good_leaf m" "scalar_fields d m"
    by (auto simp: evaluable_def split: sum.splits)
  have self: "ctx_agree c c" by (simp add: ctx_agree_def)
  have cm: "compileMongo m = Inr f" using rule_filter_resolved [OF f(1) self] m(1) by auto
  have "resolved r c' = Inr m"
    using rule_filter_resolved [OF f(1) assms(3)] m(1) f(1) assms(3)
      resolve_agree [OF assms(3)] by (auto simp: resolved_def rule_filter_def sbind_Inr isResolvableOnGateway_def
        list_all_iff disjoint_iff split: if_splits)
  moreover have "gate m d = mt f d"
    using mongo_store.compile_agrees [OF assms(1) cm [unfolded compileMongo_def] m(2,3)] .
  ultimately show ?thesis using f by blast
qed

lemma pdp_applicable_counts:
  "action \<noteq> ''export'' \<Longrightarrow> r \<in> set (pdp_applicable rl subject action subject) \<longleftrightarrow> counts rl subject action r"
  by (auto simp: pdp_applicable_def ruleApplies_def ruleTargets_def predicateActionsForRoute_def READ_SHAPED_ACTIONS_def)

text \<open>C28: The gateway and the decision point agree. Let every conditional rule that counts for the
  route be evaluable on the record. Then a record the predicate selects passes the attribute
  layer of the decision point, although the gateway has only placeholders for the department
  of the caller and the owner of the project; and where all these rules deny and the owner field
  holds an id, the two decide alike.\<close>

theorem pep_selection_passes_pdp:
  assumes st: "mongo_store mt" and ne: "subject \<noteq> []" "action \<noteq> ''export''" "user \<noteq> []"
    and ctx: "u_id (c_user ctx) = user" "ctx_agree ctx full"
    and own: "fld d ''ownerId'' = JStr owner"
    and ev: "\<forall>r. counts rl subject action r \<longrightarrow> evaluable ctx d r"
  shows "(selects mt (compileAccessPredicate rl subject action ctx) d \<longrightarrow>
           evalAbacLayer rl full user subject action subject (Some d) = PdpPass)
    \<and> ((\<forall>r. counts rl subject action r \<longrightarrow> is_deny r) \<longrightarrow>
         selects mt (compileAccessPredicate rl subject action ctx) d \<longleftrightarrow>
           evalAbacLayer rl full user subject action subject (Some d) = PdpPass)"
  (is "(?sel \<longrightarrow> ?pass) \<and> (?denies \<longrightarrow> ?sel \<longleftrightarrow> ?pass)")
proof -
  let ?C = "counts rl subject action"
  let ?res = "compileAccessPredicateResult rl subject action ctx"
  have g: "\<exists>f m. rule_filter r ctx = Inr f \<and> \<not> empty_filter f \<and> resolved r full = Inr m \<and> gate m d = mt f d"
    if "?C r" for r
    using evaluable_gate [OF st _ ctx(2)] ev that by blast
  have nf: "\<not> fails ctx r" if "?C r" for r
    using g [OF that] by (auto simp: compileRuleFragment_def)
  then have fc: "\<not> prd_failClosed ?res" using fail_closed_iff [OF ne(2,1)] by blast
  have scal: "\<not> is_arr (fld d ''ownerId'')" using own by simp
  have sel: "?sel \<longleftrightarrow> (\<forall>r. ?C r \<longrightarrow> rule_holds mt ctx d r) \<or> prd_denyCompiled ?res \<and> owner = user"
    using mongo_store.result_selects [OF st refl fc _ ne(1) scal] ne ctx(1) own
    by (simp add: compileAccessPredicate_def)
  have rh: "rule_holds mt ctx d r \<longleftrightarrow> (\<forall>m. resolved r full = Inr m \<longrightarrow> (gate m d \<longleftrightarrow> \<not> is_deny r))" if "?C r" for r
    using g [OF that] by (auto simp: mongo_store.rule_holds_filter [OF st])
  have oid: "recordOwnerId d = Some owner" by (simp add: recordOwnerId_def own)
  have none: "pdp_applicable rl subject action subject = [] \<longleftrightarrow> (\<forall>r. \<not> ?C r)"
    using pdp_applicable_counts [OF ne(2)] by (metis list.set_intros(1) list.exhaust empty_iff empty_set)
  have pass: "?pass \<longleftrightarrow> owner = user \<or> (\<forall>r. ?C r \<longrightarrow> (\<forall>m. resolved r full = Inr m \<longrightarrow> \<not> (is_deny r \<and> gate m d)))"
  proof (cases "pdp_applicable rl subject action subject = []")
    case True
    then show ?thesis using none by (auto simp: evalAbacLayer_def)
  next
    case False
    have "pdp_rules full (Some d) (pdp_applicable rl subject action subject) = PdpPass \<longleftrightarrow>
        (\<forall>r. ?C r \<longrightarrow> (\<exists>m. resolved r full = Inr m \<and> \<not> (is_deny r \<and> gate m d)))"
      unfolding pdp_rules_pass Ball_def pdp_applicable_counts [OF ne(2)] ..
    also have "\<dots> \<longleftrightarrow> (\<forall>r. ?C r \<longrightarrow> (\<forall>m. resolved r full = Inr m \<longrightarrow> \<not> (is_deny r \<and> gate m d)))"
      using g by fastforce
    finally show ?thesis using False ne(3) by (simp add: evalAbacLayer_def oid Let_def)
  qed
  have "?pass" if "?sel" using that sel pass rh by blast
  moreover have "?sel" if d: "?denies" and p: "?pass"
  proof (cases "owner = user \<and> (\<exists>r. ?C r)")
    case True
    then obtain r where r: "?C r" by blast
    with g [OF r] d have "\<exists>f. compileRuleFragment r ctx = Frag f" by (auto simp: compileRuleFragment_def)
    with r d have "prd_denyCompiled ?res" using deny_compiled_iff [OF ne(2,1) fc] by blast
    with True sel show ?thesis by blast
  next
    case False
    with p d rh pass sel show ?thesis by blast
  qed
  ultimately show ?thesis by blast
qed

theorem pep_selection_passes_pdp_witness:
  "evalAbacLayer [tree_rule ''deny'' ''deals'' ''read'' (region_is ''EU'')] sample_ctx ''u1'' ''deals'' ''read'' ''deals''
     (Some [(''ownerId'', JStr ''u2''), (''region'', JStr ''US'')]) = PdpPass"
proof -
  let ?r = "tree_rule ''deny'' ''deals'' ''read'' (region_is ''EU'')"
  let ?d = "[(''ownerId'', JStr ''u2''), (''region'', JStr ''US'')]"
  have c: "counts [?r] ''deals'' ''read'' r \<longleftrightarrow> r = ?r" for r
    by (auto simp: ruleApplies_def predicateActionsForRoute_def READ_SHAPED_ACTIONS_def)
  have ev: "evaluable sample_ctx ?d ?r"
    by (simp add: evaluable_def) (simp add: region_is_def refField_def fld_def)
  have reg: "fld ?d ''region'' = JStr ''US''" by (simp add: fld_def)
  have "selects mongo_ref (compileAccessPredicate [?r] ''deals'' ''read'' sample_ctx) ?d"
    by (subst mref.result_selects [OF refl, folded compileAccessPredicate_def])
       (simp_all add: fail_closed_iff fld_def sample_ctx_def c reg mref.rule_holds_filter)
  then show ?thesis
    using pep_selection_passes_pdp [OF mref.mongo_store_axioms, of "''deals''" "''read''" "''u1''" sample_ctx
        sample_ctx ?d "''u2''" "[?r]"] ev
    by (simp add: sample_ctx_def ctx_agree_def fld_def c)
qed

text \<open>Branches of a cross-entity route.\<close>

definition pair_narrows :: "abac_rule list \<Rightarrow> string \<Rightarrow> abac_ctx \<Rightarrow> (string \<Rightarrow> bool) \<Rightarrow> string \<Rightarrow> bool" where
  "pair_narrows rl action ctx denied s \<longleftrightarrow> denied s \<or> compileAccessPredicateMongo rl s action ctx \<noteq> CNone"

definition pair_shows :: "(mfilter \<Rightarrow> doc \<Rightarrow> bool) \<Rightarrow> abac_rule list \<Rightarrow> string \<Rightarrow> abac_ctx \<Rightarrow> (string \<Rightarrow> bool)
    \<Rightarrow> doc \<Rightarrow> string \<Rightarrow> bool" where
  "pair_shows mt rl action ctx denied d s \<longleftrightarrow> \<not> denied s \<and>
     (case compileAccessPredicateMongo rl s action ctx of CNone \<Rightarrow> True | COk f \<Rightarrow> mt f d | CUndecidable \<Rightarrow> False)"

lemma cross_branches_narrows:
  "snd (cross_branches rl action ctx denied tf ps) \<longleftrightarrow> (\<exists>(s, e) \<in> set ps. pair_narrows rl action ctx denied s)"
  by (induction ps) (auto simp: pair_narrows_def Let_def case_prod_beta split: compilation.splits)

lemma cross_entity_None:
  "compileCrossEntityAccessPredicate rl action ctx pairs denied None = None \<longleftrightarrow>
     (\<forall>(s, e) \<in> set pairs. \<not> pair_narrows rl action ctx denied s)"
  using cross_branches_narrows [of rl action ctx denied "''entityType''" pairs]
  by (auto simp: compileCrossEntityAccessPredicate_def case_prod_beta Let_def)

context mongo_store
begin

lemma mt_cross_branches:
  assumes "\<not> is_arr (fld d tf)"
  shows "(\<exists>b \<in> set (fst (cross_branches rl action ctx denied tf ps)). mt b d) \<longleftrightarrow>
    (\<exists>(s, e) \<in> set ps. fld d tf = JStr e \<and> pair_shows mt rl action ctx denied d s)"
  using assms
  by (induction ps)
     (auto simp: pair_shows_def Let_def case_prod_beta all_and mt_str split: compilation.splits if_splits)

lemma cross_entity_selects:
  assumes "\<not> is_arr (fld d ''entityType'')"
  shows "selects mt (compileCrossEntityAccessPredicate rl action ctx pairs denied None) d \<longleftrightarrow>
    (\<forall>(s, e) \<in> set pairs. \<not> pair_narrows rl action ctx denied s)
    \<or> (\<exists>(s, e) \<in> set pairs. fld d ''entityType'' = JStr e \<and> pair_shows mt rl action ctx denied d s)"
proof -
  obtain bs nar where b: "cross_branches rl action ctx denied ''entityType'' pairs = (bs, nar)" by fastforce
  have "mt (case bs of [] \<Rightarrow> mfield ''entityType'' (OpIn []) | [b] \<Rightarrow> b | _ \<Rightarrow> MOr bs) d \<longleftrightarrow> (\<exists>b \<in> set bs. mt b d)"
    using mt_in_none [OF assms] by (auto simp: all_or split: list.splits)
  then show ?thesis
    using mt_cross_branches [OF assms, of rl action ctx denied pairs]
      cross_branches_narrows [of rl action ctx denied "''entityType''" pairs]
    by (auto simp: compileCrossEntityAccessPredicate_def b selects_def)
qed

end

text \<open>C29: The predicate of a cross-entity route (global search) is exact. When nothing narrows, no
  predicate is sent. Otherwise a row is selected exactly when its type belongs to a subject that
  is not denied outright, whose rules are decidable at the gateway, and whose own rules accept the
  row: a denied or undecidable subject disappears, whatever the other subjects allow.\<close>

theorem cross_entity_predicate_exact:
  assumes "mongo_store mt" "\<not> is_arr (fld d ''entityType'')"
  shows "(compileCrossEntityAccessPredicate rl action ctx pairs denied None = None \<longleftrightarrow>
        (\<forall>(s, e) \<in> set pairs. \<not> pair_narrows rl action ctx denied s))
    \<and> ((\<exists>(s, e) \<in> set pairs. pair_narrows rl action ctx denied s) \<longrightarrow>
        selects mt (compileCrossEntityAccessPredicate rl action ctx pairs denied None) d =
        (\<exists>(s, e) \<in> set pairs. fld d ''entityType'' = JStr e \<and> pair_shows mt rl action ctx denied d s))"
  using mongo_store.cross_entity_selects [OF assms, of rl action ctx pairs denied]
    cross_entity_None [of rl action ctx pairs denied] by blast

theorem cross_entity_predicate_exact_witness:
  "\<not> selects mongo_ref (compileCrossEntityAccessPredicate [] ''read'' sample_ctx
        [(''deals'', ''deal''), (''contacts'', ''contact'')] (\<lambda>s. s = ''deals'') None) [(''entityType'', JStr ''deal'')]
   \<and> selects mongo_ref (compileCrossEntityAccessPredicate [] ''read'' sample_ctx
        [(''deals'', ''deal''), (''contacts'', ''contact'')] (\<lambda>s. s = ''deals'') None) [(''entityType'', JStr ''contact'')]"
proof -
  let ?ps = "[(''deals'', ''deal''), (''contacts'', ''contact'')]" and ?den = "\<lambda>s. s = ''deals''"
  have *: "selects mongo_ref (compileCrossEntityAccessPredicate [] ''read'' sample_ctx ?ps ?den None) [(''entityType'', JStr t)] =
     (\<exists>(s, e) \<in> set ?ps. fld [(''entityType'', JStr t)] ''entityType'' = JStr e
        \<and> pair_shows mongo_ref [] ''read'' sample_ctx ?den [(''entityType'', JStr t)] s)" for t
  proof -
    have "\<exists>(s, e) \<in> set ?ps. pair_narrows [] ''read'' sample_ctx ?den s" by (simp add: pair_narrows_def)
    moreover have "\<not> is_arr (fld [(''entityType'', JStr t)] ''entityType'')" by (simp add: fld_def)
    ultimately show ?thesis
      using cross_entity_predicate_exact [OF mref.mongo_store_axioms,
          of "[(''entityType'', JStr t)]" "[]" "''read''" sample_ctx ?ps ?den] by blast
  qed
  show ?thesis unfolding *
    by (simp add: pair_shows_def fld_def compileAccessPredicateMongo_def)
qed

text \<open>The composed read filter never leaves the project: whatever the visibility and the
  attribute parts are, missing ones included, it selects only documents of the project that both
  parts accept, the attribute part with the exception of the caller's own records.\<close>

theorem composed_filter_isolates:
  assumes "mongo_store mt" "\<not> is_arr (fld d ''projectId'')" "\<not> is_arr (fld d ''ownerId'')" "user \<noteq> []"
  shows "mt (composeAccessFilter pid None vis abac None (Some user)) d \<longleftrightarrow>
     fld d ''projectId'' = JStr pid \<and> selects mt vis d \<and> (selects mt abac d \<or> fld d ''ownerId'' = JStr user)"
proof -
  note mt = mongo_store.mt_one_and [OF assms(1)] mongo_store.mt_str [OF assms(1)] mongo_store.all_or [OF assms(1)]
    mongo_store.all_and [OF assms(1)]
  show ?thesis using assms(2,3,4)
    by (auto simp: composeAccessFilter_def withRecordOwnerAbacShortCircuit_def mt selects_def split: option.splits)
qed

theorem composed_filter_isolates_witness:
  "\<not> mongo_ref (composeAccessFilter ''p1'' None None None None (Some ''u1'')) [(''projectId'', JStr ''p2''), (''ownerId'', JStr ''u1'')]"
  using composed_filter_isolates [OF mref.mongo_store_axioms,
      of "[(''projectId'', JStr ''p2''), (''ownerId'', JStr ''u1'')]" "''u1''" "''p1''" None None]
  by (simp add: fld_def)

lemma map_of_optional:
  "distinct ss \<Longrightarrow> map_of (concat (map (\<lambda>s. case f s of None \<Rightarrow> [] | Some v \<Rightarrow> [(s, v)]) ss)) k =
     (if k \<in> set ss then f k else None)"
  by (induction ss) (auto split: option.splits)

text \<open>An aggregate route (statistics, reports) shows no row of a source that the project denies
  outright for reading: the predicate of that source selects nothing, whatever other rules say.
  A source without such a deny gets the predicate of its own read route, and no source beyond the
  five is named.\<close>

theorem aggregate_blanket_deny:
  assumes "mongo_store mt" "\<not> is_arr (fld d ''_id'')" "s \<in> set AGGREGATE_SOURCE_SUBJECTS"
    and "hasBlanketReadDeny rl s"
  shows "\<exists>p f. compileAggregateAccessPredicate rl subject action ctx = Some p \<and>
      map_of (ag_bySubject p) s = Some f \<and> \<not> mt f d
      \<and> (\<forall>s' f'. map_of (ag_bySubject p) s' = Some f' \<longrightarrow> s' \<in> set AGGREGATE_SOURCE_SUBJECTS
          \<and> (\<not> hasBlanketReadDeny rl s' \<longrightarrow> compileAccessPredicate rl s' ''read'' ctx = Some f'))"
proof -
  define by_s where "by_s = concat (map (\<lambda>s. case source_predicate rl ctx s of None \<Rightarrow> [] | Some f \<Rightarrow> [(s, f)]) AGGREGATE_SOURCE_SUBJECTS)"
  have lk: "map_of by_s k = (if k \<in> set AGGREGATE_SOURCE_SUBJECTS then source_predicate rl ctx k else None)" for k
    unfolding by_s_def by (rule map_of_optional) (simp add: AGGREGATE_SOURCE_SUBJECTS_def)
  have s: "map_of by_s s = Some DENY_ALL_MONGO" using assms(3,4) by (simp add: lk source_predicate_def)
  then have "by_s \<noteq> []" by (cases by_s) simp_all
  then have p: "compileAggregateAccessPredicate rl subject action ctx =
      Some \<lparr>ag_mongo = compileAccessPredicate rl subject action ctx, ag_bySubject = by_s\<rparr>"
    by (simp add: compileAggregateAccessPredicate_def Let_def by_s_def)
  have "\<not> mt DENY_ALL_MONGO d"
    using mongo_store.mt_in_none [OF assms(1,2)] by (simp add: DENY_ALL_MONGO_def)
  with p s show ?thesis
    by (intro exI [of _ "\<lparr>ag_mongo = compileAccessPredicate rl subject action ctx, ag_bySubject = by_s\<rparr>"]
          exI [of _ DENY_ALL_MONGO])
       (simp add: lk source_predicate_def)
qed

definition blanket :: "string \<Rightarrow> abac_rule" where
  "blanket s = \<lparr>ar_effect = Some ''deny'', ar_subject = Some s, ar_action = Some ''read'', ar_resource = None, ar_condition = JUndef\<rparr>"

theorem aggregate_blanket_deny_witness:
  "\<exists>p f. compileAggregateAccessPredicate [blanket ''activities''] ''statistics'' ''read'' sample_ctx = Some p \<and>
      map_of (ag_bySubject p) ''activities'' = Some f \<and> \<not> mongo_ref f [(''_id'', JStr ''a1'')]"
  using aggregate_blanket_deny [OF mref.mongo_store_axioms, of "[(''_id'', JStr ''a1'')]" "''activities''"
      "[blanket ''activities'']" "''statistics''" "''read''" sample_ctx]
  by (fastforce simp: fld_def AGGREGATE_SOURCE_SUBJECTS_def hasBlanketReadDeny_def blanket_def hasCondition_def
      ruleTargets_def is_deny_def predicateActionsForRoute_def READ_SHAPED_ACTIONS_def)

text \<open>On export a single own allow rule that does not compile makes the route forget every
  other rule: no predicate is sent and the result does not ask to fail closed, even when deny rules of
  the export itself compile, or do not compile, which on any other action restricts or blocks.\<close>

theorem export_allow_failure_drops_denies:
  assumes "r \<in> set rl" "own_rule subject ''export'' r" "\<not> is_deny r" "fails ctx r"
  shows "compileAccessPredicateResult rl subject ''export'' ctx = no_predicate"
proof -
  have "r \<in> set (applicable_rules rl subject ''export'')" using assms by (simp add: applicable_rules_def)
  with assms(2-4) show ?thesis
    by (auto simp: compileAccessPredicateResult_def Let_def result_loop_eq borrowed_export)
qed

theorem export_allow_failure_drops_denies_witness:
  "let rl = [tree_rule ''deny'' ''deals'' ''export'' (region_is ''EU''), tree_rule ''deny'' ''deals'' ''export'' own_department,
             tree_rule ''allow'' ''deals'' ''export'' own_department]
   in \<not> prd_failClosed (compileAccessPredicateResult rl ''deals'' ''export'' sample_ctx)
      \<and> prd_predicate (compileAccessPredicateResult rl ''deals'' ''export'' sample_ctx) = None"
proof -
  have "own_rule ''deals'' ''export'' (tree_rule ''allow'' ''deals'' ''export'' own_department)"
    by (simp add: own_rule_def ruleApplies_def)
  from export_allow_failure_drops_denies [OF _ this, of _ sample_ctx] show ?thesis
    by (simp add: Let_def no_predicate_def)
qed

text \<open>Adding a deny rule can widen what the owner of a record reads. With one allow rule that a
  record of the caller does not satisfy, the record is not selected; with any further deny rule
  that compiles to a filter it is, because the exception for own records wraps the whole predicate, allow
  conditions included.\<close>

theorem added_deny_widens_owner:
  assumes "mongo_store mt" "\<not> mt f d" "rule_filter a ctx = Inr f" "\<not> empty_filter f"
    and "own_rule subject action a" "\<not> is_deny a" "rule_filter b ctx = Inr g" "\<not> empty_filter g"
    and "own_rule subject action b" "is_deny b"
    and "subject \<noteq> []" "action \<noteq> ''export''" "u_id (c_user ctx) \<noteq> []" "fld d ''ownerId'' = JStr (u_id (c_user ctx))"
  shows "\<not> selects mt (compileAccessPredicate [a] subject action ctx) d
    \<and> selects mt (compileAccessPredicate [a, b] subject action ctx) d"
proof -
  have c: "counts [a] subject action r \<longleftrightarrow> r = a" "counts [a, b] subject action r \<longleftrightarrow> r = a \<or> r = b" for r
    using assms(5,9) by (auto simp: ruleApplies_split)
  have fr: "compileRuleFragment a ctx = Frag f" "compileRuleFragment b ctx = Frag (MNor [g])"
    using assms by (simp_all add: compileRuleFragment_def)
  have fc: "\<not> prd_failClosed (compileAccessPredicateResult rs subject action ctx)" if "rs = [a] \<or> rs = [a, b]" for rs
    using that c fr fail_closed_iff [OF assms(12,11)] by auto
  have dc: "\<not> prd_denyCompiled (compileAccessPredicateResult [a] subject action ctx)"
    "prd_denyCompiled (compileAccessPredicateResult [a, b] subject action ctx)"
    using deny_compiled_iff [OF assms(12,11) fc, of "[a]"] deny_compiled_iff [OF assms(12,11) fc, of "[a, b]"] c fr assms(6,10)
    by auto
  have scal: "\<not> is_arr (fld d ''ownerId'')" using assms(14) by simp
  have ex: "action = ''export'' \<Longrightarrow> P" for P using assms(12) by simp
  note sel = mongo_store.result_selects [OF assms(1) refl fc ex assms(11) scal assms(13), folded compileAccessPredicate_def]
  have "\<not> rule_holds mt ctx d a" using assms(2) fr by (simp add: rule_holds_def)
  with sel [of "[a]"] sel [of "[a, b]"] dc assms(14) c show ?thesis by auto
qed

theorem added_deny_widens_owner_witness:
  "let d = [(''ownerId'', JStr ''u1''), (''region'', JStr ''US'')];
       a = tree_rule ''allow'' ''deals'' ''read'' (region_is ''EU'');
       b = tree_rule ''deny'' ''deals'' ''read'' (region_is ''US'')
   in \<not> selects mongo_ref (compileAccessPredicate [a] ''deals'' ''read'' sample_ctx) d
      \<and> selects mongo_ref (compileAccessPredicate [a, b] ''deals'' ''read'' sample_ctx) d"
  unfolding Let_def
  by (rule added_deny_widens_owner [OF mref.mongo_store_axioms, where f = "mfield ''region'' (OpEq (JStr ''EU''))"
        and g = "mfield ''region'' (OpEq (JStr ''US''))"])
     (simp_all add: own_rule_def ruleApplies_def sample_ctx_def fld_def)

end
