(* ===== verification/GrpcStruct.thy ===== *)
theory GrpcStruct
  imports AbacIr Registry
begin

text \<open>
  The codec between JSON maps and the wire form of \<open>google.protobuf.Struct\<close>
  (\<^verbatim>\<open>gateway/src/bff/grpc-struct.ts\<close>, the same code as \<^verbatim>\<open>control/src/grpc/struct-codec.ts\<close>) and the decoding
  of policy rules (\<^verbatim>\<open>project-grpc.codec.ts\<close>). Absence (\<open>undefined\<close> as a result) is \<open>None\<close>. An object
  is its list of entries; where a rebuilt object assigns keys, the keys are taken to be distinct.
\<close>

subsection \<open>The codec\<close>

lemma map_filter_cong [fundef_cong]:
  "xs = ys \<Longrightarrow> (\<And>x. x \<in> set ys \<Longrightarrow> f x = g x) \<Longrightarrow> List.map_filter f xs = List.map_filter g ys"
  by (induction ys arbitrary: xs) (auto split: option.splits)

fun toWireValue :: "jsval \<Rightarrow> jsval option" and jsonToStruct :: "jsval \<Rightarrow> jsval" where
  "toWireValue JNull = Some (JObj [(''nullValue'', JNum 0)])"
| "toWireValue (JStr s) = Some (JObj [(''stringValue'', JStr s)])"
| "toWireValue (JNum n) = Some (JObj [(''numberValue'', JNum n)])"
| "toWireValue (JBool b) = Some (JObj [(''boolValue'', JBool b)])"
| "toWireValue (JArr vs) = Some (JObj [(''listValue'', JObj [(''values'', JArr (List.map_filter toWireValue vs))])])"
| "toWireValue (JObj ps) = Some (JObj [(''structValue'', jsonToStruct (JObj ps))])"
| "toWireValue JUndef = None"
| "jsonToStruct (JObj ps) =
     JObj [(''fields'', JObj (List.map_filter (\<lambda>(k, v). map_option (Pair k) (toWireValue v)) ps))]"
| "jsonToStruct _ = JObj [(''fields'', JObj [])]"


text \<open>The kind of a wire value, in the order the code tests it.\<close>

datatype wire_kind = WScalar jsval | WList "jsval list" | WStruct jsval | WPlain

fun js_typeof :: "jsval \<Rightarrow> string" where
  "js_typeof JUndef = ''undefined''"
| "js_typeof (JBool _) = ''boolean''"
| "js_typeof (JNum _) = ''number''"
| "js_typeof (JStr _) = ''string''"
| "js_typeof _ = ''object''"

definition wire_kind :: "(string \<times> jsval) list \<Rightarrow> wire_kind" where
  "wire_kind ps =
     (if js_typeof (js_get (JObj ps) ''stringValue'') = ''string'' then WScalar (js_get (JObj ps) ''stringValue'')
      else if js_typeof (js_get (JObj ps) ''numberValue'') = ''number'' then WScalar (js_get (JObj ps) ''numberValue'')
      else if js_typeof (js_get (JObj ps) ''boolValue'') = ''boolean'' then WScalar (js_get (JObj ps) ''boolValue'')
      else if js_has (JObj ps) ''nullValue'' then WScalar JNull
      else if js_has (JObj ps) ''listValue'' then
        WList (case js_get (js_get (JObj ps) ''listValue'') ''values'' of JArr vs \<Rightarrow> vs | _ \<Rightarrow> [])
      else if js_has (JObj ps) ''structValue'' then WStruct (js_get (JObj ps) ''structValue'')
      else WPlain)"

text \<open>The entries \<open>structToJson\<close> walks: those of \<open>fields\<close>, or of the map itself (an older peer).\<close>

fun struct_entries :: "jsval \<Rightarrow> (string \<times> jsval) list" where
  "struct_entries (JObj ps) = (case js_get (JObj ps) ''fields'' of JObj fs \<Rightarrow> fs | _ \<Rightarrow> ps)"
| "struct_entries _ = []"

lemma size_member: "v \<in> set vs \<Longrightarrow> size v < size (JArr vs)"
  by (induction vs) auto

lemma size_entry: "(k, v) \<in> set ps \<Longrightarrow> size v < size (JObj ps)"
  by (induction ps) auto

lemma js_get_le: "size (js_get v k) \<le> size v"
proof (cases v)
  case (JObj ps)
  then show ?thesis using js_get_size [of ps k "js_get v k"] by (cases "js_get v k = JUndef") auto
qed auto

lemma js_get_has_less: "js_has (JObj ps) k \<Longrightarrow> size (js_get (JObj ps) k) < size (JObj ps)"
  by (auto split: option.splits dest!: map_of_SomeD size_entry)

lemma wire_list_size: "wire_kind ps = WList vs \<Longrightarrow> v \<in> set vs \<Longrightarrow> size v < size (JObj ps)"
proof -
  assume w: "wire_kind ps = WList vs" and v: "v \<in> set vs"
  then have h: "js_has (JObj ps) ''listValue''" "js_get (js_get (JObj ps) ''listValue'') ''values'' = JArr vs"
    by (auto simp: wire_kind_def split: if_splits jsval.splits)
  show ?thesis
    using size_member [OF v] js_get_has_less [OF h(1)] js_get_le [of "js_get (JObj ps) ''listValue''" "''values''"] h(2)
    by simp
qed

lemma wire_struct_size: "wire_kind ps = WStruct w \<Longrightarrow> size w < size (JObj ps)"
  by (auto simp: wire_kind_def simp del: js_get.simps js_has.simps split: if_splits dest: js_get_has_less)

lemma struct_entries_size: "(k, w) \<in> set (struct_entries v) \<Longrightarrow> size w < size v"
proof (cases v)
  case (JObj ps)
  assume kw: "(k, w) \<in> set (struct_entries v)"
  show ?thesis
  proof (cases "js_get (JObj ps) ''fields''")
    case (JObj fs)
    then show ?thesis using kw \<open>v = JObj ps\<close> size_entry [of k w fs] js_get_le [of "JObj ps" "''fields''"] by simp
  qed (use kw JObj size_entry [of k w ps] in simp_all)
qed simp_all

function fromWireValue :: "jsval \<Rightarrow> jsval option" and structToJson :: "jsval \<Rightarrow> jsval" where
  "fromWireValue JNull = Some JNull"
| "fromWireValue (JStr s) = Some (JStr s)"
| "fromWireValue (JBool b) = Some (JBool b)"
| "fromWireValue (JNum n) = Some (JNum n)"
| "fromWireValue (JArr vs) = Some (JArr (List.map_filter fromWireValue vs))"
| "fromWireValue JUndef = None"
| "fromWireValue (JObj ps) =
     Some (case wire_kind ps of
        WScalar v \<Rightarrow> v
      | WList vs \<Rightarrow> JArr (List.map_filter fromWireValue vs)
      | WStruct w \<Rightarrow> structToJson w
      | WPlain \<Rightarrow> structToJson (JObj ps))"
| "structToJson v = JObj (List.map_filter (\<lambda>(k, w). map_option (Pair k) (fromWireValue w)) (struct_entries v))"
  by pat_completeness auto
termination
proof (relation "measure (\<lambda>x. case x of Inl v \<Rightarrow> 2 * size v + 1 | Inr v \<Rightarrow> 2 * size v)", goal_cases)
  case (2 vs v)
  then show ?case using size_member [of v vs] by simp
next
  case (3 ps vs v)
  then show ?case using wire_list_size [of ps vs v] by simp
next
  case (4 ps w)
  then show ?case using wire_struct_size [of ps w] by simp
next
  case (6 v x k w)
  then show ?case using struct_entries_size [of k w v] by simp
qed (auto)


subsection \<open>Policies and configurations on the wire\<close>

definition decodeStructField :: "jsval \<Rightarrow> jsval" where
  "decodeStructField v = (case v of JObj ps \<Rightarrow> structToJson (JObj ps) | _ \<Rightarrow> JObj [])"

text \<open>\<open>{...r, k: v}\<close>\<close>

fun js_set :: "jsval \<Rightarrow> string \<Rightarrow> jsval \<Rightarrow> jsval" where
  "js_set (JObj ps) k v = JObj (AList.update k v ps)"
| "js_set w k v = w"

text \<open>Rows that are no objects (null, scalars) are passed on as they are.\<close>

fun is_row :: "jsval \<Rightarrow> bool" where
  "is_row (JObj _) = True"
| "is_row _ = False"

definition decodeGrpcModulePolicies :: "jsval \<Rightarrow> jsval list" where
  "decodeGrpcModulePolicies policies =
     (case policies of
        JArr rs \<Rightarrow> map (\<lambda>r. if is_row r then js_set r ''condition'' (decodeStructField (js_get r ''condition'')) else r) rs
      | _ \<Rightarrow> [])"

abbreviation js_coalesce :: "jsval \<Rightarrow> jsval \<Rightarrow> jsval" where
  "js_coalesce v w \<equiv> (if js_nullish v then w else v)"

definition decodeGrpcModuleConfigs :: "jsval \<Rightarrow> jsval list" where
  "decodeGrpcModuleConfigs configs =
     (case configs of
        JArr cs \<Rightarrow> map (\<lambda>c. if is_row c then
            js_set (js_set c ''personal_settings''
                     (decodeStructField (js_coalesce (js_get c ''personal_settings'') (js_get c ''personalSettings''))))
              ''integration_settings''
              (decodeStructField (js_coalesce (js_get c ''integration_settings'') (js_get c ''integrationSettings'')))
          else c) cs
      | _ \<Rightarrow> [])"

definition decode_in :: "string \<Rightarrow> (jsval \<Rightarrow> jsval list) \<Rightarrow> jsval \<Rightarrow> jsval" where
  "decode_in k f v = (if js_has v k then js_set v k (JArr (f (js_get v k))) else v)"

definition decodeGrpcProject :: "jsval \<Rightarrow> jsval" where
  "decodeGrpcProject v =
     (if is_row v then
        decode_in ''modulePolicies'' decodeGrpcModulePolicies (decode_in ''module_policies'' decodeGrpcModulePolicies
          (decode_in ''moduleConfigs'' decodeGrpcModuleConfigs (decode_in ''module_configs'' decodeGrpcModuleConfigs v)))
      else v)"

definition encodeGrpcModulePolicyCondition :: "jsval \<Rightarrow> jsval" where
  "encodeGrpcModulePolicyCondition c = jsonToStruct (case c of JObj ps \<Rightarrow> JObj ps | _ \<Rightarrow> JObj [])"

text \<open>\<open>String(v ?? d)\<close> on the optional text fields of a row.\<close>

fun text_or :: "jsval \<Rightarrow> string \<Rightarrow> string" where
  "text_or (JStr s) d = s"
| "text_or v d = d"

definition encode_policy :: "jsval \<Rightarrow> jsval" where
  "encode_policy r =
     JObj [(''id'', JStr (text_or (js_get r ''id'') [])),
           (''module_id'', JStr (text_or (js_coalesce (js_get r ''module_id'') (js_get r ''moduleId'')) [])),
           (''effect'', JStr (text_or (js_get r ''effect'') ''allow'')),
           (''subject'', JStr (text_or (js_get r ''subject'') [])),
           (''action'', JStr (text_or (js_get r ''action'') [])),
           (''resource'', JStr (text_or (js_get r ''resource'') ''*'')),
           (''condition'', encodeGrpcModulePolicyCondition (js_get r ''condition''))]"

definition encodeGrpcModulePolicies :: "jsval list \<Rightarrow> jsval list" where
  "encodeGrpcModulePolicies rs =
     filter (\<lambda>r. js_get r ''id'' \<noteq> JStr [] \<and> js_get r ''module_id'' \<noteq> JStr [])
       (map encode_policy (filter is_row rs))"

subsection \<open>Round trips\<close>

text \<open>JSON proper: no \<open>undefined\<close> inside.\<close>

fun plain_json :: "jsval \<Rightarrow> bool" where
  "plain_json JUndef = False"
| "plain_json (JArr vs) = list_all plain_json vs"
| "plain_json (JObj ps) = list_all (\<lambda>(k, v). plain_json v) ps"
| "plain_json _ = True"

lemma map_filter_back:
  "(\<And>x. x \<in> set xs \<Longrightarrow> \<exists>y. f x = Some y \<and> g y = Some x) \<Longrightarrow> List.map_filter g (List.map_filter f xs) = xs"
proof (induction xs)
  case (Cons x xs)
  from Cons.prems [of x] obtain y where "f x = Some y" "g y = Some x" by auto
  with Cons show ?case by simp
qed simp

lemma wire_kinds:
  "wire_kind [(''nullValue'', v)] = WScalar JNull"
  "wire_kind [(''stringValue'', JStr s)] = WScalar (JStr s)"
  "wire_kind [(''numberValue'', JNum n)] = WScalar (JNum n)"
  "wire_kind [(''boolValue'', JBool b)] = WScalar (JBool b)"
  "wire_kind [(''listValue'', JObj [(''values'', JArr vs)])] = WList vs"
  "wire_kind [(''structValue'', w)] = WStruct w"
  by (simp_all add: wire_kind_def)

lemma struct_back:
  shows "plain_json v \<Longrightarrow> \<exists>w. toWireValue v = Some w \<and> fromWireValue w = Some v"
    and "plain_json u \<Longrightarrow> is_row u \<Longrightarrow> structToJson (jsonToStruct u) = u"
proof (induction v and u rule: toWireValue_jsonToStruct.induct)
  case (5 vs)
  then have "List.map_filter fromWireValue (List.map_filter toWireValue vs) = vs"
    by (intro map_filter_back) (auto simp: list_all_iff)
  then show ?case by (simp add: wire_kinds)
next
  case (8 ps)
  then have "List.map_filter (\<lambda>(k, w). map_option (Pair k) (fromWireValue w))
      (List.map_filter (\<lambda>(k, v). map_option (Pair k) (toWireValue v)) ps) = ps"
    by (intro map_filter_back) (fastforce simp: list_all_iff)
  then show ?case by simp
qed (simp_all add: wire_kinds)

text \<open>The wire row of a policy rule, its fields in the order of the encoder.\<close>

definition policy_row :: "policy_rule \<Rightarrow> jsval" where
  "policy_row r =
     JObj [(''id'', JStr (pr_id r)), (''module_id'', JStr (pr_moduleId r)), (''effect'', JStr (pr_effect r)),
           (''subject'', JStr (pr_subject r)), (''action'', JStr (pr_action r)), (''resource'', JStr (pr_resource r)),
           (''condition'', pr_condition r)]"

definition storable_rule :: "policy_rule \<Rightarrow> bool" where
  "storable_rule r \<longleftrightarrow> pr_id r \<noteq> [] \<and> pr_moduleId r \<noteq> [] \<and> is_row (pr_condition r) \<and> plain_json (pr_condition r)"

lemma policy_row_back:
  assumes "storable_rule r"
  shows "js_set (encode_policy (policy_row r)) ''condition''
           (decodeStructField (js_get (encode_policy (policy_row r)) ''condition'')) = policy_row r"
  using assms struct_back(2) [of "pr_condition r"]
  by (cases "pr_condition r")
     (simp_all add: storable_rule_def encode_policy_def policy_row_def encodeGrpcModulePolicyCondition_def
      decodeStructField_def del: structToJson.simps)

lemma encode_rows:
  "list_all storable_rule rl \<Longrightarrow> encodeGrpcModulePolicies (map policy_row rl) = map (\<lambda>r. encode_policy (policy_row r)) rl"
  by (induction rl) (auto simp: encodeGrpcModulePolicies_def storable_rule_def policy_row_def encode_policy_def)

text \<open>The wire codec loses nothing: policy rules with ids and a JSON map as condition, nested to any
  depth, come back row by row and unchanged from what the gateway encodes for the control
  service; and so does every JSON map on its own.\<close>

theorem policy_wire_roundtrip:
  assumes "list_all storable_rule rl" "plain_json (JObj ps)"
  shows "decodeGrpcModulePolicies (JArr (encodeGrpcModulePolicies (map policy_row rl))) = map policy_row rl
    \<and> structToJson (jsonToStruct (JObj ps)) = JObj ps"
proof -
  have "js_set e ''condition'' (decodeStructField (js_get e ''condition'')) = policy_row r"
    if "r \<in> set rl" "e = encode_policy (policy_row r)" for r e
    using assms(1) policy_row_back that by (simp add: list_all_iff)
  moreover have "is_row (encode_policy (policy_row r))" for r by (simp add: encode_policy_def)
  ultimately show ?thesis
    using struct_back(2) [of "JObj ps"] assms(2)
    by (simp add: decodeGrpcModulePolicies_def encode_rows [OF assms(1)] del: structToJson.simps)
qed

theorem policy_wire_roundtrip_witness:
  "structToJson (jsonToStruct (JObj [(''op'', JStr ''in''), (''xs'', JArr [JNull, JNum 1, JObj []])]))
     = JObj [(''op'', JStr ''in''), (''xs'', JArr [JNull, JNum 1, JObj []])]"
  using policy_wire_roundtrip [of "[]" "[(''op'', JStr ''in''), (''xs'', JArr [JNull, JNum 1, JObj []])]"] by simp

subsection \<open>What the client of the channel receives\<close>

text \<open>
  The proto loader is a library; the gateway sets its options \<open>keepCase\<close>, \<open>arrays\<close> and \<open>longs\<close>, and neither
  \<open>defaults\<close> nor \<open>objects\<close> (\<^verbatim>\<open>grpc-bff.module.ts\<close>). So it is documented to leave out of a received message an
  empty map and an unset (empty) text field, and to keep repeated fields and the members of a oneof. In
  particular a Struct without entries arrives as \<open>{}\<close>. \<open>over_wire\<close> leaves out the empty maps of a Struct;
  \<open>channel_delivers\<close> is what is relied on of the channel \<open>recv\<close> for the row of a rule.
\<close>

fun over_wire :: "jsval \<Rightarrow> jsval" where
  "over_wire (JObj ps) =
     JObj (map (\<lambda>(k, v). (k, over_wire v)) (filter (\<lambda>(k, v). \<not> (k = ''fields'' \<and> v = JObj [])) ps))"
| "over_wire (JArr vs) = JArr (map over_wire vs)"
| "over_wire v = v"

text \<open>A stored rule as control sends it.\<close>

definition sent_policy :: "policy_rule \<Rightarrow> jsval" where
  "sent_policy r =
     JObj [(''id'', JStr (pr_id r)), (''module_id'', JStr (pr_moduleId r)), (''effect'', JStr (pr_effect r)),
           (''subject'', JStr (pr_subject r)), (''action'', JStr (pr_action r)), (''resource'', JStr (pr_resource r)),
           (''condition'', jsonToStruct (pr_condition r))]"

definition channel_delivers :: "(jsval \<Rightarrow> jsval) \<Rightarrow> policy_rule \<Rightarrow> bool" where
  "channel_delivers recv r \<longleftrightarrow>
     (let row = recv (sent_policy r) in
      is_row row
      \<and> js_get row ''condition'' = over_wire (jsonToStruct (pr_condition r))
      \<and> (\<forall>k \<in> {''effect'', ''subject'', ''action'', ''resource''}.
           js_get row k = (if js_get (sent_policy r) k = JStr [] then JUndef else js_get (sent_policy r) k)))"

lemma channel_deliversD:
  assumes "channel_delivers recv r"
  shows "is_row (recv (sent_policy r))"
    "js_get (recv (sent_policy r)) ''condition'' = over_wire (jsonToStruct (pr_condition r))"
    "k \<in> {''effect'', ''subject'', ''action'', ''resource''} \<Longrightarrow> js_get (recv (sent_policy r)) k =
       (if js_get (policy_row r) k = JStr [] then JUndef else js_get (policy_row r) k)"
proof -
  note all = assms [unfolded channel_delivers_def Let_def]
  show "is_row (recv (sent_policy r))" "js_get (recv (sent_policy r)) ''condition'' = over_wire (jsonToStruct (pr_condition r))"
    using all by blast+
  assume k: "k \<in> {''effect'', ''subject'', ''action'', ''resource''}"
  then have "js_get (sent_policy r) k = js_get (policy_row r) k"
    by (elim insertE emptyE) (simp_all add: sent_policy_def policy_row_def)
  with all k show "js_get (recv (sent_policy r)) k =
      (if js_get (policy_row r) k = JStr [] then JUndef else js_get (policy_row r) k)" by metis
qed

text \<open>A channel that does so.\<close>

definition received_row :: "jsval \<Rightarrow> jsval" where
  "received_row row =
     (case row of
        JObj ps \<Rightarrow> JObj (map (\<lambda>(k, v). (k, over_wire v)) (filter (\<lambda>(_, v). v \<noteq> JStr []) ps))
      | _ \<Rightarrow> row)"

lemma received_get:
  "distinct (map fst ps) \<Longrightarrow> js_get (received_row (JObj ps)) k =
     (case map_of ps k of None \<Rightarrow> JUndef | Some v \<Rightarrow> if v = JStr [] then JUndef else over_wire v)"
proof (induction ps)
  case (Cons p ps)
  obtain l v where p: "p = (l, v)" by (cases p)
  have "map_of ps l = None" using Cons.prems by (simp add: p map_of_eq_None_iff)
  with Cons p show ?case by (auto simp: received_row_def)
qed (simp add: received_row_def)

lemma received_row_delivers: "channel_delivers received_row r"
proof -
  have "jsonToStruct (pr_condition r) \<noteq> JStr []" by (cases "pr_condition r") simp_all
  then have c: "js_get (received_row (sent_policy r)) ''condition'' = over_wire (jsonToStruct (pr_condition r))"
    unfolding sent_policy_def by (subst received_get) simp_all
  have "js_get (received_row (sent_policy r)) k = (if js_get (sent_policy r) k = JStr [] then JUndef else js_get (sent_policy r) k)"
    if "k \<in> {''effect'', ''subject'', ''action'', ''resource''}" for k
    unfolding sent_policy_def using that by (subst received_get) auto
  moreover have "is_row (received_row (sent_policy r))" by (simp add: received_row_def sent_policy_def)
  ultimately show ?thesis using c unfolding channel_delivers_def Let_def by blast
qed

lemma map_filter_map: "List.map_filter g (map h xs) = List.map_filter (g \<circ> h) xs"
  by (induction xs) (auto split: option.splits)

lemma wire_not_empty: "toWireValue v = Some w \<Longrightarrow> w \<noteq> JObj []"
  by (cases v) auto

lemma over_wire_fields:
  "over_wire (JObj (List.map_filter (\<lambda>(k, v). map_option (Pair k) (toWireValue v)) ps)) =
     JObj (map (\<lambda>(k, v). (k, over_wire v)) (List.map_filter (\<lambda>(k, v). map_option (Pair k) (toWireValue v)) ps))"
proof -
  have "filter (\<lambda>(k, v). \<not> (k = ''fields'' \<and> v = JObj [])) (List.map_filter (\<lambda>(k, v). map_option (Pair k) (toWireValue v)) ps)
      = List.map_filter (\<lambda>(k, v). map_option (Pair k) (toWireValue v)) ps"
    by (induction ps) (auto dest: wire_not_empty split: option.splits)
  then show ?thesis by simp
qed

text \<open>Nothing that the transport leaves out matters to the decoder.\<close>

lemma received_back:
  shows "plain_json v \<Longrightarrow> \<exists>w. toWireValue v = Some w \<and> fromWireValue (over_wire w) = Some v"
    and "plain_json u \<Longrightarrow> is_row u \<Longrightarrow> structToJson (over_wire (jsonToStruct u)) = u"
proof (induction v and u rule: toWireValue_jsonToStruct.induct)
  case (5 vs)
  then have "List.map_filter (fromWireValue \<circ> over_wire) (List.map_filter toWireValue vs) = vs"
    by (intro map_filter_back) (auto simp: list_all_iff)
  then show ?case by (simp add: wire_kinds map_filter_map)
next
  case (8 ps)
  let ?fs = "List.map_filter (\<lambda>(k, v). map_option (Pair k) (toWireValue v)) ps"
  have inv: "List.map_filter ((\<lambda>(k, w). map_option (Pair k) (fromWireValue w)) \<circ> (\<lambda>(k, v). (k, over_wire v))) ?fs = ps"
    using 8 by (intro map_filter_back) (fastforce simp: list_all_iff)
  show ?case
  proof (cases "?fs = []")
    case True
    with inv show ?thesis by simp
  next
    case False
    then have "over_wire (jsonToStruct (JObj ps)) = JObj [(''fields'', JObj (map (\<lambda>(k, v). (k, over_wire v)) ?fs))]"
      using over_wire_fields [of ps] by simp
    with inv show ?thesis by (simp add: map_filter_map)
  qed
qed (simp_all add: wire_kinds)

text \<open>A condition that is read in its wire form is never understood, and not empty unless it was.\<close>

lemma wire_condition_rejected: "plain_json c \<Longrightarrow> is_row c \<Longrightarrow> c \<noteq> JObj [] \<Longrightarrow>
    \<exists>fs. over_wire (jsonToStruct c) = JObj [(''fields'', JObj fs)]"
proof (cases c)
  case (JObj ps)
  assume "plain_json c" "c \<noteq> JObj []"
  with JObj obtain p qs where ps: "ps = p # qs" "plain_json (snd p)" by (cases ps) auto
  then obtain w where "toWireValue (snd p) = Some w" using received_back(1) by blast
  then have "List.map_filter (\<lambda>(k, v). map_option (Pair k) (toWireValue v)) ps \<noteq> []"
    using ps by (simp add: case_prod_beta)
  then show ?thesis using over_wire_fields [of ps] by (simp add: JObj)
qed simp_all

lemma fields_rejected: "\<not> is_ok (parseAbac (JObj [(''fields'', v)]))"
  by (simp add: parseAbac_def parseNode.simps)

end
