(* ===== verification/BoundedCache.thy ===== *)
theory BoundedCache
  imports Prelude "HOL-Library.AList"
begin

text \<open>
  The in-memory caches of the gateway (\<^verbatim>\<open>gateway/src/guards/project-access.guard.ts\<close>): a \<open>Map\<close> is
  the list of its entries in insertion order, the oldest first. An entry carries the access
  epoch it was resolved at and the time it expires. The locale \<open>forgetful_map\<close> is what the
  guard relies on: a cache may forget, but it never returns anything that was not the last
  value put under that key.
\<close>

subsection \<open>Maps in insertion order\<close>

type_synonym 'v jsmap = "(string \<times> 'v) list"

definition map_delete :: "string \<Rightarrow> 'v jsmap \<Rightarrow> 'v jsmap" where
  "map_delete k m = filter (\<lambda>(k', _). k' \<noteq> k) m"

definition map_put :: "string \<Rightarrow> 'v \<Rightarrow> 'v jsmap \<Rightarrow> 'v jsmap" where
  "map_put k v m = AList.update k v m"

definition touchMapEntry :: "'v jsmap \<Rightarrow> string \<Rightarrow> 'v \<Rightarrow> 'v jsmap" where
  "touchMapEntry m k v = map_put k v (map_delete k m)"

function evictMapToMaxSize :: "'v jsmap \<Rightarrow> nat \<Rightarrow> 'v jsmap" where
  "evictMapToMaxSize m mx =
     (if length m > mx then evictMapToMaxSize (map_delete (fst (hd m)) m) mx else m)"
  by pat_completeness auto
termination
proof (relation "measure (\<lambda>(m, _). length m)", goal_cases)
  case (2 m mx)
  then have "hd m \<in> set m" by (cases m) auto
  then show ?case
    by (auto simp: map_delete_def case_prod_beta intro!: length_filter_less)
qed simp

declare evictMapToMaxSize.simps [simp del]

definition setBoundedCacheEntry :: "'v jsmap \<Rightarrow> string \<Rightarrow> 'v \<Rightarrow> nat \<Rightarrow> 'v jsmap" where
  "setBoundedCacheEntry m k v mx = evictMapToMaxSize (touchMapEntry m k v) mx"

subsection \<open>Facts on the maps\<close>

abbreviation keys_distinct :: "'v jsmap \<Rightarrow> bool" where
  "keys_distinct m \<equiv> distinct (map fst m)"

lemma map_of_delete: "map_of (map_delete k m) k' = (if k' = k then None else map_of m k')"
  unfolding map_delete_def by (induction m) auto

lemma keys_distinct_delete: "keys_distinct m \<Longrightarrow> keys_distinct (map_delete k m)"
  unfolding map_delete_def by (induction m) auto

lemma map_delete_hd: "keys_distinct (x # m) \<Longrightarrow> map_delete (fst x) (x # m) = m"
  by (auto simp: map_delete_def case_prod_beta image_iff intro!: filter_True)

lemma update_fresh: "k \<notin> fst ` set m \<Longrightarrow> AList.update k v m = m @ [(k, v)]"
  by (induction m) auto

lemma touch_append: "touchMapEntry m k v = map_delete k m @ [(k, v)]"
  unfolding touchMapEntry_def map_put_def by (rule update_fresh) (auto simp: map_delete_def)

lemma evict_drop: "keys_distinct m \<Longrightarrow> evictMapToMaxSize m mx = drop (length m - mx) m"
proof (induction m mx rule: evictMapToMaxSize.induct)
  case (1 m mx)
  show ?case
  proof (cases "length m > mx")
    case True
    then obtain x xs where m: "m = x # xs" by (cases m) auto
    with 1 have d: "map_delete (fst (hd m)) m = xs" "keys_distinct xs"
      using map_delete_hd [of x xs] by auto
    have "drop (length m - mx) m = drop (length xs - mx) xs"
      using True m by (simp add: Suc_diff_le less_Suc_eq_le)
    then show ?thesis
      using True 1 d by (subst evictMapToMaxSize.simps) simp
  qed (subst evictMapToMaxSize.simps, simp)
qed

lemma evict_size: "length (evictMapToMaxSize m mx) \<le> mx"
proof (induction m mx rule: evictMapToMaxSize.induct)
  case (1 m mx)
  then show ?case by (subst evictMapToMaxSize.simps) auto
qed

lemma evict_get: "map_of (evictMapToMaxSize m mx) k = Some v \<Longrightarrow> map_of m k = Some v"
proof (induction m mx rule: evictMapToMaxSize.induct)
  case (1 m mx)
  show ?case
  proof (cases "length m > mx")
    case True
    with 1 have "map_of (map_delete (fst (hd m)) m) k = Some v"
      by (subst (asm) (2) evictMapToMaxSize.simps) simp
    then show ?thesis by (simp add: map_of_delete split: if_splits)
  next
    case False
    with 1 show ?thesis by (subst (asm) (2) evictMapToMaxSize.simps) simp
  qed
qed

subsection \<open>What the guard relies on\<close>

locale forgetful_map =
  fixes get :: "'c \<Rightarrow> string \<Rightarrow> 'v option"
    and put :: "'c \<Rightarrow> string \<Rightarrow> 'v \<Rightarrow> nat \<Rightarrow> 'c"
  assumes put_get: "get (put c k v mx) k' = Some x \<Longrightarrow> if k' = k then x = v else get c k' = Some x"
begin

definition entries :: "'c \<Rightarrow> (string \<Rightarrow> 'v \<Rightarrow> bool) \<Rightarrow> bool" where
  "entries c P \<longleftrightarrow> (\<forall>k v. get c k = Some v \<longrightarrow> P k v)"

text \<open>A property of all entries is kept by putting an entry that has it.\<close>

lemma put_entries: "entries c P \<Longrightarrow> P k v \<Longrightarrow> entries (put c k v mx) P"
  using put_get unfolding entries_def by (metis (full_types))

lemma entries_weaken: "entries c P \<Longrightarrow> (\<And>k v. P k v \<Longrightarrow> Q k v) \<Longrightarrow> entries c Q"
  by (auto simp: entries_def)

lemma entriesD: "entries c P \<Longrightarrow> get c k = Some v \<Longrightarrow> P k v"
  by (simp add: entries_def)

end

interpretation lru: forgetful_map map_of setBoundedCacheEntry
proof
  fix c :: "'v jsmap" and k k' v x mx
  assume "map_of (setBoundedCacheEntry c k v mx) k' = Some x"
  then have "map_of (touchMapEntry c k v) k' = Some x"
    unfolding setBoundedCacheEntry_def by (rule evict_get)
  then show "if k' = k then x = v else map_of c k' = Some x"
    by (auto simp: touchMapEntry_def map_put_def update_conv map_of_delete split: if_splits)
qed

lemma set_bounded_keys:
  assumes "keys_distinct m"
  shows "keys_distinct (setBoundedCacheEntry m k v mx)"
proof -
  have d: "keys_distinct (map_delete k m @ [(k, v)])"
    using keys_distinct_delete [OF assms, of k] by (auto simp: map_delete_def)
  show ?thesis
    unfolding setBoundedCacheEntry_def touch_append evict_drop [OF d] drop_map [symmetric]
    by (rule distinct_drop [OF d])
qed

lemma set_bounded_drop:
  assumes "keys_distinct m"
  shows "\<exists>n. setBoundedCacheEntry m k v mx = drop n (map_delete k m @ [(k, v)])"
    and "0 < mx \<Longrightarrow> map_of (setBoundedCacheEntry m k v mx) k = Some v"
proof -
  have d: "keys_distinct (map_delete k m @ [(k, v)])"
    using keys_distinct_delete [OF assms, of k] by (auto simp: map_delete_def)
  then have eq: "setBoundedCacheEntry m k v mx = drop (Suc (length (map_delete k m)) - mx) (map_delete k m @ [(k, v)])"
    by (simp add: setBoundedCacheEntry_def touch_append evict_drop)
  then show "\<exists>n. setBoundedCacheEntry m k v mx = drop n (map_delete k m @ [(k, v)])" ..
  assume "0 < mx"
  then have "(k, v) \<in> set (setBoundedCacheEntry m k v mx)" by (simp add: eq)
  then show "map_of (setBoundedCacheEntry m k v mx) k = Some v"
    using set_bounded_keys [OF assms] by (simp add: map_of_is_SomeI)
qed

lemma set_bounded_size: "length (setBoundedCacheEntry m k v mx) \<le> mx"
  unfolding setBoundedCacheEntry_def by (rule evict_size)

subsection \<open>Entries with an epoch and a deadline\<close>

record 'v entry =
  e_value :: 'v
  e_epoch :: rat
  e_expires :: int

text \<open>A cached value is served only before its deadline and at the current epoch.\<close>

definition served :: "nat \<Rightarrow> int \<Rightarrow> rat \<Rightarrow> string \<Rightarrow> 'v entry jsmap \<Rightarrow> 'v option" where
  "served ttl now ep k m =
     (if ttl > 0 then
        (case map_of m k of
           Some e \<Rightarrow> if e_expires e > now \<and> e_epoch e = ep then Some (e_value e) else None
         | None \<Rightarrow> None)
      else None)"

lemma served_Some: "served ttl now ep k m = Some v \<longleftrightarrow>
    ttl > 0 \<and> (\<exists>e. map_of m k = Some e \<and> e_expires e > now \<and> e_epoch e = ep \<and> e_value e = v)"
  by (auto simp: served_def split: option.splits)

text \<open>C35: The caches stay bounded and lose only what is oldest. Putting an entry keeps the keys of a map distinct
  and its size within the bound; with a positive bound the new entry can be read back, and the entries
  that remain are the most recently written ones, in order.\<close>

theorem bounded_cache_invariant:
  assumes "keys_distinct m"
  shows "keys_distinct (setBoundedCacheEntry m k v mx) \<and> length (setBoundedCacheEntry m k v mx) \<le> mx
    \<and> (0 < mx \<longrightarrow> map_of (setBoundedCacheEntry m k v mx) k = Some v)
    \<and> (\<exists>n. setBoundedCacheEntry m k v mx = drop n (map_delete k m @ [(k, v)]))"
  by (intro conjI impI set_bounded_keys set_bounded_size set_bounded_drop assms)

theorem bounded_cache_invariant_witness:
  "setBoundedCacheEntry [(''a'', 1), (''b'', 2)] ''c'' (3::nat) 2 = [(''b'', 2), (''c'', 3)]
   \<and> map_of (setBoundedCacheEntry [(''a'', 1), (''b'', 2)] ''c'' (3::nat) 2) ''c'' = Some 3"
  using bounded_cache_invariant [of "[(''a'', 1), (''b'', 2)]" "''c''" "3::nat" 2]
  by (simp add: setBoundedCacheEntry_def touch_append evict_drop map_delete_def)

end
