(* ===== verification/GatewayGuard.thy ===== *)
theory GatewayGuard
  imports AccessPredicate GrpcStruct BoundedCache
begin

text \<open>
  The two request guards of the gateway: \<open>GatewayModuleGuard\<close> (\<^verbatim>\<open>gateway/src/guards/gateway-module.guard.ts\<close>)
  and \<open>ProjectAccessGuard\<close> (\<^verbatim>\<open>project-access.guard.ts\<close>). The control service is a record of its replies,
  \<open>None\<close> for a call that fails or times out; a reply is the decoded JSON value. The caches are the
  state, threaded through every step; \<open>now\<close> is the clock in milliseconds, one reading per request.
  Header values are kept as the values they encode.
\<close>

subsection \<open>Replies, configuration, state\<close>

datatype guard_error =
    PROJECT_ID_REQUIRED | PROJECT_ACCESS_DENIED | PROJECT_ACCESS_CHECK_FAILED | ROUTE_PERMISSION_MARKER_REQUIRED
  | PROJECT_READ_ONLY string | PROJECT_PHASE_CHECK_FAILED | PERMISSION_DENIED | PERMISSION_CHECK_FAILED
  | MODULE_POLICY_DENIED | MODULE_DISABLED

record control =
  ct_epoch :: "string \<Rightarrow> jsval option"
  ct_visibility :: "string \<Rightarrow> string \<Rightarrow> string \<Rightarrow> jsval option"
  ct_check :: "string \<Rightarrow> string \<Rightarrow> string \<Rightarrow> string \<Rightarrow> jsval option"
  ct_perms :: "string \<Rightarrow> string \<Rightarrow> jsval option"
  ct_project :: "string \<Rightarrow> jsval option"

record guard_config =
  gc_enforce :: bool
  gc_accessTtl :: nat
  gc_policyTtl :: nat
  gc_epochTtl :: nat
  gc_pdpTtl :: nat
  gc_lkgTtl :: nat
  gc_moduleTtl :: nat
  gc_max :: nat

record access =
  ac_allowed :: bool
  ac_role :: string
  ac_visibility :: "vis_scope option"

record verdict =
  vd_applicable :: bool
  vd_allowed :: bool
  vd_reason :: string

type_synonym overlay = "abac_rule list \<times> string list"

record guard_state =
  gs_access :: "access entry jsmap"
  gs_policy :: "overlay entry jsmap"
  gs_lkg :: "overlay entry jsmap"
  gs_epoch :: "unit entry jsmap"
  gs_pdp :: "verdict entry jsmap"
  gs_perms :: "string entry jsmap"
  gs_module :: "((string list \<times> jsval) \<times> int) jsmap"

subsection \<open>Steps that may be refused\<close>

type_synonym 'a guard_step = "guard_state \<Rightarrow> (guard_error + 'a) \<times> guard_state"

definition gret :: "'a \<Rightarrow> 'a guard_step" where
  "gret x st = (Inr x, st)"

definition gfail :: "guard_error \<Rightarrow> 'a guard_step" where
  "gfail e st = (Inl e, st)"

definition gbind :: "'a guard_step \<Rightarrow> ('a \<Rightarrow> 'b guard_step) \<Rightarrow> 'b guard_step" where
  "gbind m f st = (case m st of (Inl e, st') \<Rightarrow> (Inl e, st') | (Inr x, st') \<Rightarrow> f x st')"

definition grefuse :: "bool \<Rightarrow> guard_error \<Rightarrow> unit guard_step" where
  "grefuse bad e = (if bad then gfail e else gret ())"

definition gdo :: "(guard_state \<Rightarrow> 'a \<times> guard_state) \<Rightarrow> 'a guard_step" where
  "gdo f st = (let (x, st') = f st in (Inr x, st'))"

subsection \<open>Reading replies\<close>

text \<open>\<open>Number(v) || 0\<close> on a number, a decimal text, or nothing.\<close>

fun js_number :: "jsval \<Rightarrow> rat" where
  "js_number (JNum n) = n"
| "js_number (JStr s) = (if s \<noteq> [] \<and> list_all is_digit s then of_nat (str_nat s) else 0)"
| "js_number (JBool b) = (if b then 1 else 0)"
| "js_number _ = 0"

definition either_key :: "jsval \<Rightarrow> string \<Rightarrow> string \<Rightarrow> jsval" where
  "either_key v a b = js_coalesce (js_get v a) (js_get v b)"

definition reply_epoch :: "jsval \<Rightarrow> rat \<Rightarrow> rat" where
  "reply_epoch res ep = (if js_get res ''epoch'' = JUndef then ep else js_number (js_get res ''epoch''))"

definition text_field :: "jsval \<Rightarrow> string \<Rightarrow> string" where
  "text_field v k = text_or (js_get v k) []"

definition parseDescriptor :: "jsval \<Rightarrow> vis_descriptor option" where
  "parseDescriptor w =
     (if js_truthy w \<and> js_typeof w = ''object'' then
        Some \<lparr>unitIds = str_arr (either_key w ''unit_ids'' ''unitIds''),
              ledUnitIds = str_arr (either_key w ''led_unit_ids'' ''ledUnitIds''),
              selectedGroupIds = str_arr (either_key w ''selected_group_ids'' ''selectedGroupIds''),
              ruleKinds = str_arr (either_key w ''rule_kinds'' ''ruleKinds''),
              usesSharing = (either_key w ''uses_sharing'' ''usesSharing'' = JBool True),
              orgId = text_or (either_key w ''org_id'' ''orgId'') []\<rparr>
      else None)"

text \<open>The level name of a reply; control sends one of the known names or \<open>custom\<close>.\<close>

definition wire_level :: "jsval \<Rightarrow> scope_level" where
  "wire_level v =
     (if v = JStr ''custom'' then CustomLevel
      else case as_level v of Some l \<Rightarrow> Lvl l | None \<Rightarrow> Lvl OnlyOwn)"

definition parseScope :: "jsval \<Rightarrow> string \<Rightarrow> string \<Rightarrow> rat \<Rightarrow> vis_scope" where
  "parseScope res self res_name ep =
     (let defer = (js_get res ''deferred'' = JBool True);
          units = str_arr (either_key res ''viewer_unit_ids'' ''viewerUnitIds'')
      in \<lparr>mode = (if js_get res ''mode'' = JStr ''all'' then ModeAll else ModeRestricted),
          level = wire_level (js_get res ''level''),
          selfId = self,
          ownerIds = str_arr (either_key res ''owner_ids'' ''ownerIds''),
          sharedRecordIds = str_arr (either_key res ''shared_record_ids'' ''sharedRecordIds''),
          sharedRecordIdsByType = None,
          deferred = defer,
          descriptor = (if defer then parseDescriptor (js_get res ''descriptor'') else None),
          epoch = Some ep,
          resource = Some res_name,
          viewerUnitIds = (if units = [] then None else Some units),
          viewerDepartmentIds = Some (str_arr (either_key res ''viewer_department_ids'' ''viewerDepartmentIds'')),
          departmentIds = Some (str_arr (either_key res ''department_ids'' ''departmentIds''))\<rparr>)"

definition rule_of_js :: "jsval \<Rightarrow> abac_rule" where
  "rule_of_js v =
     \<lparr>ar_effect = js_string (js_get v ''effect''), ar_subject = js_string (js_get v ''subject''),
      ar_action = js_string (js_get v ''action''), ar_resource = js_string (js_get v ''resource''),
      ar_condition = js_get v ''condition''\<rparr>"

subsection \<open>Modules and policies of a project\<close>

text \<open>The ids of the configuration rows whose \<open>enabled\<close> passes the test of the caller.\<close>

definition config_ids :: "(jsval \<Rightarrow> bool) \<Rightarrow> jsval \<Rightarrow> string list" where
  "config_ids on cfgs =
     List.map_filter (\<lambda>c. if on (js_get c ''enabled'') then js_string (js_get c ''module_id'') else None) (arr_of cfgs)"

definition effective_modules :: "(jsval \<Rightarrow> bool) \<Rightarrow> jsval \<Rightarrow> string list" where
  "effective_modules on project =
     (if arr_of (js_get project ''effective_modules'') \<noteq> [] then
        ensureLockedModules (str_arr (js_get project ''effective_modules''))
      else if arr_of (js_get project ''module_configs'') \<noteq> [] then
        resolveDependencies (config_ids on (js_get project ''module_configs''))
      else resolveDependencies (str_arr (js_get project ''modules'')))"

text \<open>The access guard takes a row without the flag as enabled, the module guard does not.\<close>

definition extractEffectiveModules :: "jsval \<Rightarrow> string list" where
  "extractEffectiveModules project = effective_modules (\<lambda>e. e \<noteq> JBool False) project"

definition extractEnabledModules :: "jsval \<Rightarrow> string list" where
  "extractEnabledModules project = effective_modules (\<lambda>e. e = JBool True) project"

definition isDeniedByPolicy :: "abac_rule list \<Rightarrow> string \<Rightarrow> string \<Rightarrow> string \<Rightarrow> bool" where
  "isDeniedByPolicy rl subject action role =
     (role \<noteq> ''owner'' \<and>
      list_ex (\<lambda>r. is_deny r \<and> ar_subject r = Some subject
        \<and> (ar_action r = Some action \<or> ar_action r = Some ''*'')
        \<and> (ar_resource r = None \<or> ar_resource r = Some [] \<or> ar_resource r = Some ''*'')
        \<and> \<not> hasCondition r) rl)"

definition storePolicyLkg :: "guard_config \<Rightarrow> int \<Rightarrow> string \<Rightarrow> abac_rule list \<Rightarrow> string list \<Rightarrow> rat
    \<Rightarrow> guard_state \<Rightarrow> guard_state" where
  "storePolicyLkg cfg now pid rl ms ep st =
     (if gc_lkgTtl cfg = 0 then st
      else st\<lparr>gs_lkg := setBoundedCacheEntry (gs_lkg st) pid
             \<lparr>e_value = (rl, ms), e_epoch = ep, e_expires = now + int (gc_lkgTtl cfg)\<rparr> (gc_max cfg)\<rparr>)"

text \<open>
  The rules of the project, and \<open>__enabledModules\<close> afterwards. A snapshot left by the module guard is
  used as it is: its rows are not decoded.
\<close>

definition resolvePolicies :: "control \<Rightarrow> guard_config \<Rightarrow> int \<Rightarrow> string \<Rightarrow> rat \<Rightarrow> jsval option
    \<Rightarrow> string list option \<Rightarrow> guard_state \<Rightarrow> (abac_rule list \<times> string list option) \<times> guard_state" where
  "resolvePolicies ct cfg now pid ep snapshot ms st =
     (case snapshot of
        Some (JArr rows) \<Rightarrow>
          (let rl = map rule_of_js rows;
               known = (case ms of Some m \<Rightarrow> m
                        | None \<Rightarrow> (case map_of (gs_lkg st) pid of Some e \<Rightarrow> snd (e_value e) | None \<Rightarrow> []))
           in ((rl, ms), storePolicyLkg cfg now pid rl known ep st))
      | Some _ \<Rightarrow> (([], ms), st)
      | None \<Rightarrow>
          (case served (gc_policyTtl cfg) now ep pid (gs_policy st) of
             Some (rl, known) \<Rightarrow> ((rl, Some (case ms of Some m \<Rightarrow> m | None \<Rightarrow> known)), st)
           | None \<Rightarrow>
               (case ct_project ct pid of
                  Some project \<Rightarrow>
                    (let rl = map rule_of_js (decodeGrpcModulePolicies (js_get project ''module_policies''));
                         mods = extractEffectiveModules project;
                         st' = (if gc_policyTtl cfg > 0 then
                                  st\<lparr>gs_policy := setBoundedCacheEntry (gs_policy st) pid
                                     \<lparr>e_value = (rl, mods), e_epoch = ep, e_expires = now + int (gc_policyTtl cfg)\<rparr>
                                     (gc_max cfg)\<rparr>
                                else st)
                     in ((rl, Some (case ms of Some m \<Rightarrow> m | None \<Rightarrow> mods)), storePolicyLkg cfg now pid rl mods ep st'))
                | None \<Rightarrow>
                    (case map_of (gs_lkg st) pid of
                       Some e \<Rightarrow>
                         if e_expires e > now \<and> (ep < 0 \<or> e_epoch e = ep)
                         then ((filter is_deny (fst (e_value e)),
                                Some (case ms of Some m \<Rightarrow> m | None \<Rightarrow> snd (e_value e))), st)
                         else (([], ms), st)
                     | None \<Rightarrow> (([], ms), st)))))"

subsection \<open>The module guard\<close>

text \<open>The snapshot is the list of policy rows as they came over the wire.\<close>

definition resolveModules :: "control \<Rightarrow> guard_config \<Rightarrow> int \<Rightarrow> string \<Rightarrow> guard_state
    \<Rightarrow> (string list \<times> jsval) \<times> guard_state" where
  "resolveModules ct cfg now pid st =
     (case (case map_of (gs_module st) pid of
              Some (v, expires) \<Rightarrow> if expires > now then Some v else None | None \<Rightarrow> None) of
        Some v \<Rightarrow> (v, st)
      | None \<Rightarrow>
          (case ct_project ct pid of
             Some project \<Rightarrow>
               (let v = (extractEnabledModules project, js_coalesce (js_get project ''module_policies'') (JArr []))
                in (v, st\<lparr>gs_module := map_put pid (v, now + int (gc_moduleTtl cfg)) (gs_module st)\<rparr>))
           | None \<Rightarrow> ((ensureLockedModules [], JArr []), st)))"

text \<open>What the module guard leaves on the request: the enabled modules and the snapshot.\<close>

definition moduleGuard :: "control \<Rightarrow> guard_config \<Rightarrow> int \<Rightarrow> string option \<Rightarrow> string option
    \<Rightarrow> (string list \<times> jsval) option guard_step" where
  "moduleGuard ct cfg now requiredModule projectId =
     (case requiredModule of
        None \<Rightarrow> gret None
      | Some m \<Rightarrow>
          if m = [] then gret None
          else (case projectId of
              None \<Rightarrow> gfail PROJECT_ID_REQUIRED
            | Some pid \<Rightarrow>
                if pid = [] then gfail PROJECT_ID_REQUIRED
                else gbind (gdo (resolveModules ct cfg now pid)) (\<lambda>(mods, snap).
                  gbind (grefuse (m \<notin> set mods) MODULE_DISABLED) (\<lambda>_. gret (Some (mods, snap))))))"

subsection \<open>Epoch, membership, granular verdict\<close>

definition cached_epoch :: "guard_config \<Rightarrow> int \<Rightarrow> string \<Rightarrow> guard_state \<Rightarrow> rat option" where
  "cached_epoch cfg now pid st =
     (if gc_epochTtl cfg > 0 then
        (case map_of (gs_epoch st) pid of
           Some e \<Rightarrow> if e_expires e > now then Some (e_epoch e) else None
         | None \<Rightarrow> None)
      else None)"

definition currentEpoch :: "control \<Rightarrow> guard_config \<Rightarrow> int \<Rightarrow> string \<Rightarrow> guard_state \<Rightarrow> rat \<times> guard_state" where
  "currentEpoch ct cfg now pid st =
     (case cached_epoch cfg now pid st of
        Some ep \<Rightarrow> (ep, st)
      | None \<Rightarrow>
          (case ct_epoch ct pid of
             Some r \<Rightarrow>
               (let ep = js_number (js_get r ''epoch'')
                in (ep, if gc_epochTtl cfg > 0 then
                          st\<lparr>gs_epoch := setBoundedCacheEntry (gs_epoch st) pid
                              \<lparr>e_value = (), e_epoch = ep, e_expires = now + int (gc_epochTtl cfg)\<rparr> (gc_max cfg)\<rparr>
                        else st))
           | None \<Rightarrow> (- 1, st)))"

definition access_key :: "string \<Rightarrow> string \<Rightarrow> string \<Rightarrow> string" where
  "access_key pid uid res = pid @ '':'' @ uid @ '':'' @ res"

definition resolveAccess :: "control \<Rightarrow> guard_config \<Rightarrow> int \<Rightarrow> string \<Rightarrow> string \<Rightarrow> string \<Rightarrow> rat \<Rightarrow> access guard_step" where
  "resolveAccess ct cfg now pid uid res ep st =
     (case served (gc_accessTtl cfg) now ep (access_key pid uid res) (gs_access st) of
        Some a \<Rightarrow> (Inr a, st)
      | None \<Rightarrow>
          (case ct_visibility ct pid uid res of
             Some r \<Rightarrow>
               (let rep = reply_epoch r ep;
                    a = \<lparr>ac_allowed = (js_get r ''allowed'' = JBool True), ac_role = text_field r ''role'',
                         ac_visibility = Some (parseScope r uid res rep)\<rparr>
                in (Inr a,
                    if gc_accessTtl cfg > 0 \<and> rep \<ge> 0 then
                      st\<lparr>gs_access := setBoundedCacheEntry (gs_access st) (access_key pid uid res)
                          \<lparr>e_value = a, e_epoch = rep, e_expires = now + int (gc_accessTtl cfg)\<rparr> (gc_max cfg)\<rparr>
                    else st))
           | None \<Rightarrow>
               if gc_enforce cfg then (Inl PROJECT_ACCESS_CHECK_FAILED, st)
               else (Inr \<lparr>ac_allowed = False, ac_role = [], ac_visibility = None\<rparr>, st)))"

definition parseVerdict :: "jsval \<Rightarrow> string \<Rightarrow> string \<Rightarrow> verdict" where
  "parseVerdict decisions subject action =
     (case List.find (\<lambda>d. js_get d ''subject'' = JStr subject \<and> js_get d ''action'' = JStr action) (arr_of decisions) of
        None \<Rightarrow> \<lparr>vd_applicable = True, vd_allowed = False, vd_reason = ''PDP_NO_DECISION''\<rparr>
      | Some d \<Rightarrow>
          \<lparr>vd_applicable = (either_key d ''not_applicable'' ''notApplicable'' \<noteq> JBool True),
           vd_allowed = (js_get d ''decision'' = JStr ''allow''),
           vd_reason = (if text_field d ''reason'' = [] then ''PDP_DENY'' else text_field d ''reason'')\<rparr>)"

definition decideGranular :: "control \<Rightarrow> guard_config \<Rightarrow> int \<Rightarrow> string \<Rightarrow> string \<Rightarrow> string \<times> string \<Rightarrow> rat
    \<Rightarrow> verdict guard_step" where
  "decideGranular ct cfg now pid uid sa ep st =
     (let key = pid @ '':'' @ uid @ '':'' @ fst sa @ '':'' @ snd sa in
      case served (gc_pdpTtl cfg) now ep key (gs_pdp st) of
        Some v \<Rightarrow> (Inr v, st)
      | None \<Rightarrow>
          (case ct_check ct pid uid (fst sa) (snd sa) of
             None \<Rightarrow> (Inl PERMISSION_CHECK_FAILED, st)
           | Some r \<Rightarrow>
               (let v = parseVerdict (js_get r ''decisions'') (fst sa) (snd sa);
                    rep = reply_epoch r ep
                in (Inr v,
                    if gc_pdpTtl cfg > 0 \<and> ep \<ge> 0 \<and> rep \<ge> 0 then
                      st\<lparr>gs_pdp := setBoundedCacheEntry (gs_pdp st) key
                          \<lparr>e_value = v, e_epoch = rep, e_expires = now + int (gc_pdpTtl cfg)\<rparr> (gc_max cfg)\<rparr>
                    else st))))"

definition resolveEffectivePermissions :: "control \<Rightarrow> guard_config \<Rightarrow> int \<Rightarrow> string \<Rightarrow> string \<Rightarrow> rat
    \<Rightarrow> guard_state \<Rightarrow> string \<times> guard_state" where
  "resolveEffectivePermissions ct cfg now pid uid ep st =
     (let key = pid @ '':'' @ uid in
      case served (gc_accessTtl cfg) now ep key (gs_perms st) of
        Some p \<Rightarrow> (p, st)
      | None \<Rightarrow>
          (case ct_perms ct pid uid of
             None \<Rightarrow> ([], st)
           | Some r \<Rightarrow>
               (let p = join '','' (filter (\<lambda>k. k \<noteq> []) (str_arr (js_get r ''allow'')));
                    rep = reply_epoch r ep
                in (p, if gc_accessTtl cfg > 0 \<and> rep \<ge> 0 then
                         st\<lparr>gs_perms := setBoundedCacheEntry (gs_perms st) key
                             \<lparr>e_value = p, e_epoch = rep, e_expires = now + int (gc_accessTtl cfg)\<rparr> (gc_max cfg)\<rparr>
                       else st))))"

subsection \<open>Predicates and shares\<close>

definition ELEVATED_ANALYTIC_EXPORT_SUBJECTS :: "string list" where
  "ELEVATED_ANALYTIC_EXPORT_SUBJECTS = [''reports'', ''statistics'']"

definition isElevatedAnalyticExport :: "string \<Rightarrow> string \<Rightarrow> bool" where
  "isElevatedAnalyticExport subject action \<longleftrightarrow> action = ''export'' \<and> subject \<in> set ELEVATED_ANALYTIC_EXPORT_SUBJECTS"

definition CROSS_ENTITY_SUBJECTS :: "string list" where
  "CROSS_ENTITY_SUBJECTS = [''search'']"

definition RECORD_RETURNING_ACTIONS :: "string list" where
  "RECORD_RETURNING_ACTIONS = [''read'', ''export'']"

definition PREDICATE_READ_ENFORCING_SUBJECTS :: "string list" where
  "PREDICATE_READ_ENFORCING_SUBJECTS = [''contacts'', ''companies'', ''deals'', ''products'', ''documents'']"

definition PREDICATE_DOMAIN_WRITE_ACTIONS :: "string list" where
  "PREDICATE_DOMAIN_WRITE_ACTIONS = [''write'', ''delete'', ''move'']"

definition isAccessPredicateEnforcedInDomain :: "string \<Rightarrow> string \<Rightarrow> bool" where
  "isAccessPredicateEnforcedInDomain subject action =
     (subject \<in> set PREDICATE_READ_ENFORCING_SUBJECTS \<and>
      (action = ''read'' \<or> action \<in> set PREDICATE_DOMAIN_WRITE_ACTIONS))"

definition abacContext :: "string \<Rightarrow> string \<Rightarrow> string \<Rightarrow> abac_ctx" where
  "abacContext pid uid role =
     \<lparr>c_user = \<lparr>u_id = uid, u_departmentId = None, u_departmentChain = [], u_leaderOfDepartmentIds = [], u_role = role\<rparr>,
      c_project = \<lparr>p_id = pid, p_ownerType = [], p_ownerId = []\<rparr>\<rparr>"

datatype route_predicate = NoPredicate | RowPredicate mfilter | SourcePredicates aggregate_predicate

definition row_predicate :: "mfilter option \<Rightarrow> route_predicate" where
  "row_predicate f = (case f of None \<Rightarrow> NoPredicate | Some g \<Rightarrow> RowPredicate g)"

text \<open>The predicate with the two flags \<open>failClosed\<close> and \<open>denyCompiled\<close>.\<close>

definition resolveAccessPredicate :: "abac_rule list \<Rightarrow> string \<Rightarrow> string \<Rightarrow> string \<Rightarrow> string \<Rightarrow> string
    \<Rightarrow> route_predicate \<times> bool \<times> bool" where
  "resolveAccessPredicate rl subject action pid uid role =
     (if subject = [] \<or> uid = [] then (NoPredicate, False, False)
      else if isAggregateRouteSubject subject then
        (case compileAggregateAccessPredicate rl subject action (abacContext pid uid role) of
           None \<Rightarrow> NoPredicate | Some p \<Rightarrow> SourcePredicates p, False, False)
      else let res = compileAccessPredicateResult rl subject action (abacContext pid uid role)
           in (row_predicate (prd_predicate res), prd_failClosed res, prd_denyCompiled res))"

definition resolveCrossEntityAccessPredicate :: "abac_rule list \<Rightarrow> string \<Rightarrow> string \<Rightarrow> string \<Rightarrow> string
    \<Rightarrow> route_predicate" where
  "resolveCrossEntityAccessPredicate rl action pid uid role =
     (if uid = [] then NoPredicate
      else row_predicate (compileCrossEntityAccessPredicate rl action (abacContext pid uid role)
             CROSS_ENTITY_SUBJECT_ENTITY_TYPES (\<lambda>s. isDeniedByPolicy rl s action role) None))"

definition sharedRecordIdsFor :: "control \<Rightarrow> guard_config \<Rightarrow> int \<Rightarrow> string \<Rightarrow> string \<Rightarrow> rat \<Rightarrow> string
    \<Rightarrow> guard_state \<Rightarrow> string list \<times> guard_state" where
  "sharedRecordIdsFor ct cfg now pid uid ep res st =
     (case resolveAccess ct cfg now pid uid res ep st of
        (Inl _, st') \<Rightarrow> ([], st')
      | (Inr a, st') \<Rightarrow>
          (case ac_visibility a of
             None \<Rightarrow> ([], st')
           | Some v \<Rightarrow> (if deferred v then [] else sharedRecordIds v, st')))"

fun shares_by_type :: "control \<Rightarrow> guard_config \<Rightarrow> int \<Rightarrow> string \<Rightarrow> string \<Rightarrow> rat \<Rightarrow> string list
    \<Rightarrow> guard_state \<Rightarrow> (string \<times> string list) list \<times> guard_state" where
  "shares_by_type ct cfg now pid uid ep [] st = ([], st)"
| "shares_by_type ct cfg now pid uid ep (res # rest) st =
     (let (ids, st') = sharedRecordIdsFor ct cfg now pid uid ep res st;
          (bt, st'') = shares_by_type ct cfg now pid uid ep rest st'
      in (if ids = [] then bt else (the (map_of SHAREABLE_RESOURCE_ENTITY_TYPES res), ids) # bt, st''))"

definition withCrossResourceShares :: "control \<Rightarrow> guard_config \<Rightarrow> int \<Rightarrow> string \<Rightarrow> string \<Rightarrow> rat
    \<Rightarrow> string \<Rightarrow> string \<Rightarrow> access \<Rightarrow> guard_state \<Rightarrow> vis_scope option \<times> guard_state" where
  "withCrossResourceShares ct cfg now pid uid ep subject action a st =
     (case ac_visibility a of
        None \<Rightarrow> (None, st)
      | Some base \<Rightarrow>
          if subject \<notin> set CROSS_ENTITY_SUBJECTS \<or> action \<notin> set RECORD_RETURNING_ACTIONS
             \<or> \<not> ac_allowed a \<or> mode base \<noteq> ModeRestricted \<or> deferred base
          then (Some base, st)
          else let (by_type, st') = shares_by_type ct cfg now pid uid ep SHAREABLE_RESOURCES st in
            if by_type = [] \<or> sum_list (map (length \<circ> snd) by_type) > VISIBILITY_SCOPE_MAX_IDS
            then (Some base, st')
            else (Some (base\<lparr>sharedRecordIdsByType := Some by_type\<rparr>), st'))"

subsection \<open>Donors of composite routes\<close>

type_synonym donor = "(vis_scope option \<times> route_predicate) option"

text \<open>One donor; whatever is refused or fails is an empty block.\<close>

definition donor_step :: "control \<Rightarrow> guard_config \<Rightarrow> int \<Rightarrow> string \<Rightarrow> string \<Rightarrow> rat \<Rightarrow> abac_rule list
    \<Rightarrow> string list \<Rightarrow> string \<Rightarrow> (vis_scope option \<times> route_predicate) guard_step" where
  "donor_step ct cfg now pid uid ep rl ms s =
     gbind (grefuse (s \<notin> set ms) MODULE_DISABLED) (\<lambda>_.
     gbind (resolveAccess ct cfg now pid uid (if s \<in> set SHAREABLE_RESOURCES then s else []) ep) (\<lambda>a.
     gbind (grefuse (gc_enforce cfg \<and> \<not> ac_allowed a) PROJECT_ACCESS_DENIED) (\<lambda>_.
     gbind (grefuse (\<not> projectRoleCanKey (Some (ac_role a)) s ''read'' \<or> isDeniedByPolicy rl s ''read'' (ac_role a))
              PERMISSION_DENIED) (\<lambda>_.
     gbind (decideGranular ct cfg now pid uid (s, ''read'') ep) (\<lambda>v.
     gbind (grefuse (vd_applicable v \<and> \<not> vd_allowed v) PERMISSION_DENIED) (\<lambda>_.
       let (p, failClosed, denyCompiled) = resolveAccessPredicate rl s ''read'' pid uid (ac_role a) in
     gbind (grefuse failClosed MODULE_POLICY_DENIED) (\<lambda>_.
     gbind (grefuse (denyCompiled \<and> s \<notin> set PREDICATE_READ_ENFORCING_SUBJECTS) MODULE_POLICY_DENIED) (\<lambda>_.
       gret (ac_visibility a, p)))))))))"

fun resolveDonors :: "control \<Rightarrow> guard_config \<Rightarrow> int \<Rightarrow> string \<Rightarrow> string \<Rightarrow> rat \<Rightarrow> abac_rule list
    \<Rightarrow> string list \<Rightarrow> string list \<Rightarrow> guard_state \<Rightarrow> (string \<times> donor) list \<times> guard_state" where
  "resolveDonors ct cfg now pid uid ep rl ms [] st = ([], st)"
| "resolveDonors ct cfg now pid uid ep rl ms (s # ss) st =
     (let (r, st') = donor_step ct cfg now pid uid ep rl ms s st;
          (out, st'') = resolveDonors ct cfg now pid uid ep rl ms ss st'
      in ((s, case r of Inl _ \<Rightarrow> None | Inr x \<Rightarrow> Some x) # out, st''))"

definition resolveDonorAccess :: "control \<Rightarrow> guard_config \<Rightarrow> int \<Rightarrow> string \<Rightarrow> string \<Rightarrow> rat \<Rightarrow> abac_rule list
    \<Rightarrow> string list \<Rightarrow> string list \<Rightarrow> guard_state \<Rightarrow> (string \<times> donor) list \<times> guard_state" where
  "resolveDonorAccess ct cfg now pid uid ep rl ms subjects st =
     resolveDonors ct cfg now pid uid ep rl ms (js_set_of subjects) st"

subsection \<open>The lifecycle phase\<close>

definition ascii_shift :: "char \<Rightarrow> char \<Rightarrow> nat \<Rightarrow> nat \<Rightarrow> char \<Rightarrow> char" where
  "ascii_shift lo hi add sub c = (if lo \<le> c \<and> c \<le> hi then char_of (of_char c + add - sub :: nat) else c)"

definition toUpperCase :: "string \<Rightarrow> string" where
  "toUpperCase s = map (ascii_shift (CHR ''a'') (CHR ''z'') 0 32) s"

definition toLowerCase :: "string \<Rightarrow> string" where
  "toLowerCase s = map (ascii_shift (CHR ''A'') (CHR ''Z'') 32 0) s"

fun split_on :: "char \<Rightarrow> string \<Rightarrow> string list" where
  "split_on c [] = [[]]"
| "split_on c (x # xs) =
     (if x = c then [] # split_on c xs
      else case split_on c xs of [] \<Rightarrow> [[x]] | w # ws \<Rightarrow> (x # w) # ws)"

definition isMutatingHttpMethod :: "string \<Rightarrow> bool" where
  "isMutatingHttpMethod m \<longleftrightarrow> toUpperCase m \<notin> {''GET'', ''HEAD'', ''OPTIONS''}"

text \<open>The path ends in \<open>/projects/\<close>, one non-empty segment, and one of the three transitions.\<close>

definition PROJECT_LIFECYCLE_ROUTE_RE :: "string \<Rightarrow> bool" where
  "PROJECT_LIFECYCLE_ROUTE_RE path =
     (case rev (split_on (CHR ''/'') path) of
        verb # seg # coll # before # _ \<Rightarrow>
          coll = ''projects'' \<and> seg \<noteq> [] \<and> verb \<in> {''restore'', ''unarchive'', ''request-deletion''}
      | _ \<Rightarrow> False)"

definition isLifecycleWriteExempt :: "string \<Rightarrow> string \<Rightarrow> bool" where
  "isLifecycleWriteExempt url m =
     (\<not> isMutatingHttpMethod m \<or> PROJECT_LIFECYCLE_ROUTE_RE (hd (split_on (CHR ''?'') url)))"

definition enforceProjectWritablePhase :: "control \<Rightarrow> string \<Rightarrow> string \<Rightarrow> string \<Rightarrow> unit guard_step" where
  "enforceProjectWritablePhase ct pid m url =
     (if isLifecycleWriteExempt url m then gret ()
      else case ct_project ct pid of
          None \<Rightarrow> gfail PROJECT_PHASE_CHECK_FAILED
        | Some project \<Rightarrow>
            let status = toLowerCase (text_or (js_get project ''status'') ''active'')
            in grefuse (status \<noteq> ''active'') (PROJECT_READ_ONLY status))"

subsection \<open>The access guard\<close>

record route_meta =
  rt_skipProjectScope :: bool
  rt_required :: "(string \<times> string) option"
  rt_membershipOnly :: bool
  rt_systemRole :: bool
  rt_donors :: "string list"

record guard_request =
  rq_paramProject :: "string option"
  rq_queryProject :: "string option"
  rq_headerProject :: "string option"
  rq_user :: "string option"
  rq_method :: string
  rq_url :: string
  rq_params :: "(string \<times> string) list"
  rq_snapshot :: "jsval option"
  rq_modules :: "string list option"

record admitted =
  ad_project :: string
  ad_role :: string
  ad_scope :: "vis_scope option"
  ad_permissions :: string
  ad_modules :: "string list"
  ad_predicate :: route_predicate
  ad_donors :: "(string \<times> donor) list"

text \<open>Without a project nothing is enforced; without a user only the kill-switch lets pass.\<close>

datatype guard_outcome = PassThrough | Bypassed string | Admitted admitted

definition request_project :: "route_meta \<Rightarrow> guard_request \<Rightarrow> string" where
  "request_project rt rq =
     (case rq_paramProject rq of Some p \<Rightarrow> p
      | None \<Rightarrow> (case rq_queryProject rq of Some p \<Rightarrow> p
          | None \<Rightarrow> (case (if rt_skipProjectScope rt then None else rq_headerProject rq) of Some p \<Rightarrow> p | None \<Rightarrow> [])))"

definition route_subject :: "route_meta \<Rightarrow> string" where
  "route_subject rt = (case rt_required rt of Some (s, a) \<Rightarrow> s | None \<Rightarrow> [])"

definition needs_project :: "route_meta \<Rightarrow> bool" where
  "needs_project rt \<longleftrightarrow> \<not> rt_skipProjectScope rt \<and> (rt_required rt \<noteq> None \<or> rt_membershipOnly rt \<or> rt_systemRole rt)"

definition isCollectionCreate :: "route_meta \<Rightarrow> guard_request \<Rightarrow> bool" where
  "isCollectionCreate rt rq \<longleftrightarrow>
     map_option snd (rt_required rt) = Some ''write'' \<and> toUpperCase (rq_method rq) = ''POST'' \<and>
     list_all (\<lambda>k. map_of (rq_params rq) k = None \<or> map_of (rq_params rq) k = Some [])
       [''id'', ''groupId'', ''versionId'', ''ruleId'', ''roleId'']"

text \<open>The flat matrix, the elevated exports and the granular verdict, for a route that requires a permission.\<close>

definition gate_permission :: "control \<Rightarrow> guard_config \<Rightarrow> int \<Rightarrow> string \<Rightarrow> string \<Rightarrow> string \<Rightarrow> rat
    \<Rightarrow> (string \<times> string) option \<Rightarrow> unit guard_step" where
  "gate_permission ct cfg now pid uid role ep required =
     (case required of
        None \<Rightarrow> gret ()
      | Some (s, a) \<Rightarrow>
          gbind (grefuse (\<not> projectRoleCanKey (Some role) s a) PERMISSION_DENIED) (\<lambda>_.
          gbind (grefuse (isElevatedAnalyticExport s a \<and> \<not> projectRoleAtLeast (Some role) Manager) PERMISSION_DENIED) (\<lambda>_.
          gbind (decideGranular ct cfg now pid uid (s, a) ep) (\<lambda>v.
            grefuse (vd_applicable v \<and> \<not> vd_allowed v) PERMISSION_DENIED))))"

text \<open>The overlay of project policies: conditional denies on creation, blanket denies.\<close>

definition gate_policy :: "route_meta \<Rightarrow> guard_request \<Rightarrow> string \<Rightarrow> abac_rule list \<Rightarrow> unit guard_step" where
  "gate_policy rt rq role rl =
     gbind (grefuse (role \<noteq> ''owner'' \<and> isCollectionCreate rt rq
              \<and> hasConditionalDenyForAction rl (route_subject rt) ''write'') MODULE_POLICY_DENIED) (\<lambda>_.
       case rt_required rt of
         None \<Rightarrow> gret ()
       | Some (s, a) \<Rightarrow> grefuse (isDeniedByPolicy rl s a role) MODULE_POLICY_DENIED)"

definition gate_predicate :: "route_meta \<Rightarrow> string \<Rightarrow> string \<Rightarrow> string \<Rightarrow> abac_rule list \<Rightarrow> route_predicate guard_step" where
  "gate_predicate rt pid uid role rl =
     (let subject = route_subject rt;
          action = (case rt_required rt of Some (s, a) \<Rightarrow> a | None \<Rightarrow> ''read'')
      in if subject \<in> set CROSS_ENTITY_SUBJECTS \<and> action \<in> set RECORD_RETURNING_ACTIONS
         then gret (resolveCrossEntityAccessPredicate rl action pid uid role)
         else let (p, failClosed, denyCompiled) = resolveAccessPredicate rl subject action pid uid role in
           gbind (grefuse failClosed MODULE_POLICY_DENIED) (\<lambda>_.
           gbind (grefuse (denyCompiled \<and> \<not> isAccessPredicateEnforcedInDomain subject action) MODULE_POLICY_DENIED) (\<lambda>_.
             gret p)))"

text \<open>Everything after the project and the user are known.\<close>

definition guard_project :: "control \<Rightarrow> guard_config \<Rightarrow> int \<Rightarrow> route_meta \<Rightarrow> guard_request \<Rightarrow> string \<Rightarrow> string
    \<Rightarrow> guard_outcome guard_step" where
  "guard_project ct cfg now rt rq pid uid =
     (let required = rt_required rt; subject = route_subject rt in
      gbind (gdo (currentEpoch ct cfg now pid)) (\<lambda>ep.
      gbind (resolveAccess ct cfg now pid uid (if subject \<in> set SHAREABLE_RESOURCES then subject else []) ep) (\<lambda>a.
      gbind (gdo (withCrossResourceShares ct cfg now pid uid ep subject
               (case required of Some (s, act) \<Rightarrow> act | None \<Rightarrow> []) a)) (\<lambda>scope.
      gbind (gdo (resolveEffectivePermissions ct cfg now pid uid ep)) (\<lambda>perms.
      gbind (grefuse (gc_enforce cfg \<and> \<not> ac_allowed a) PROJECT_ACCESS_DENIED) (\<lambda>_.
      gbind (grefuse (gc_enforce cfg \<and> required = None \<and> \<not> rt_membershipOnly rt \<and> \<not> rt_systemRole rt
               \<and> \<not> rt_skipProjectScope rt) ROUTE_PERMISSION_MARKER_REQUIRED) (\<lambda>_.
      gbind (enforceProjectWritablePhase ct pid (rq_method rq) (rq_url rq)) (\<lambda>_.
      gbind (gate_permission ct cfg now pid uid (ac_role a) ep required) (\<lambda>_.
      gbind (gdo (resolvePolicies ct cfg now pid ep (rq_snapshot rq) (rq_modules rq))) (\<lambda>ov.
      gbind (gate_policy rt rq (ac_role a) (fst ov)) (\<lambda>_.
      gbind (gate_predicate rt pid uid (ac_role a) (fst ov)) (\<lambda>p.
        let ms = (case snd ov of Some m \<Rightarrow> m | None \<Rightarrow> ensureLockedModules []) in
      gbind (gdo (resolveDonorAccess ct cfg now pid uid ep (fst ov) ms (rt_donors rt))) (\<lambda>donors.
        gret (Admitted \<lparr>ad_project = pid, ad_role = ac_role a, ad_scope = scope, ad_permissions = perms,
                ad_modules = ms, ad_predicate = p, ad_donors = donors\<rparr>))))))))))))))"

definition canActivate :: "control \<Rightarrow> guard_config \<Rightarrow> int \<Rightarrow> route_meta \<Rightarrow> guard_request \<Rightarrow> guard_outcome guard_step" where
  "canActivate ct cfg now rt rq =
     (let pid = request_project rt rq; uid = (case rq_user rq of None \<Rightarrow> [] | Some u \<Rightarrow> u) in
      if pid = [] then (if needs_project rt then gfail PROJECT_ID_REQUIRED else gret PassThrough)
      else if uid = [] then (if gc_enforce cfg then gfail PROJECT_ACCESS_DENIED else gret (Bypassed pid))
      else guard_project ct cfg now rt rq pid uid)"

subsection \<open>What control says now\<close>

text \<open>
  The values a guard without caches would use, and the hypothesis on the control service: every call
  succeeds, epochs are not negative, and a reply that carries an epoch carries the current one.
\<close>

definition ctl_epoch :: "control \<Rightarrow> string \<Rightarrow> rat" where
  "ctl_epoch ct pid = js_number (js_get (the (ct_epoch ct pid)) ''epoch'')"

definition fresh_access :: "control \<Rightarrow> string \<Rightarrow> string \<Rightarrow> string \<Rightarrow> access" where
  "fresh_access ct pid uid res =
     (let r = the (ct_visibility ct pid uid res)
      in \<lparr>ac_allowed = (js_get r ''allowed'' = JBool True), ac_role = text_field r ''role'',
          ac_visibility = Some (parseScope r uid res (ctl_epoch ct pid))\<rparr>)"

definition fresh_verdict :: "control \<Rightarrow> string \<Rightarrow> string \<Rightarrow> string \<times> string \<Rightarrow> verdict" where
  "fresh_verdict ct pid uid sa =
     parseVerdict (js_get (the (ct_check ct pid uid (fst sa) (snd sa))) ''decisions'') (fst sa) (snd sa)"

definition fresh_permissions :: "control \<Rightarrow> string \<Rightarrow> string \<Rightarrow> string" where
  "fresh_permissions ct pid uid = join '','' (filter (\<lambda>k. k \<noteq> []) (str_arr (js_get (the (ct_perms ct pid uid)) ''allow'')))"

definition fresh_overlay :: "control \<Rightarrow> string \<Rightarrow> overlay" where
  "fresh_overlay ct pid =
     (map rule_of_js (decodeGrpcModulePolicies (js_get (the (ct_project ct pid)) ''module_policies'')),
      extractEffectiveModules (the (ct_project ct pid)))"

definition stamped :: "control \<Rightarrow> string \<Rightarrow> jsval option \<Rightarrow> bool" where
  "stamped ct pid reply \<longleftrightarrow>
     (\<exists>r. reply = Some r \<and> (js_get r ''epoch'' = JUndef \<or> js_number (js_get r ''epoch'') = ctl_epoch ct pid))"

definition consistent_control :: "control \<Rightarrow> bool" where
  "consistent_control ct \<longleftrightarrow>
     (\<forall>pid. ct_epoch ct pid \<noteq> None \<and> 0 \<le> ctl_epoch ct pid \<and> ct_project ct pid \<noteq> None \<and>
       (\<forall>uid. stamped ct pid (ct_perms ct pid uid) \<and>
         (\<forall>res. stamped ct pid (ct_visibility ct pid uid res)) \<and>
         (\<forall>s a. stamped ct pid (ct_check ct pid uid s a))))"

text \<open>Ids without a colon keep the cache keys apart.\<close>

definition plain_id :: "string \<Rightarrow> bool" where
  "plain_id s \<longleftrightarrow> CHR '':'' \<notin> set s"

definition coherent :: "control \<Rightarrow> int \<Rightarrow> guard_state \<Rightarrow> bool" where
  "coherent ct now st \<longleftrightarrow>
     lru.entries (gs_epoch st) (\<lambda>pid e. e_expires e > now \<longrightarrow> e_epoch e = ctl_epoch ct pid) \<and>
     lru.entries (gs_access st) (\<lambda>k e. \<forall>pid uid res. k = access_key pid uid res \<and> plain_id pid \<and> plain_id uid
        \<and> e_epoch e = ctl_epoch ct pid \<longrightarrow> e_value e = fresh_access ct pid uid res) \<and>
     lru.entries (gs_pdp st) (\<lambda>k e. \<forall>pid uid s a. k = access_key pid uid (s @ '':'' @ a) \<and> plain_id pid \<and> plain_id uid
        \<and> plain_id s \<and> e_epoch e = ctl_epoch ct pid \<longrightarrow> e_value e = fresh_verdict ct pid uid (s, a)) \<and>
     lru.entries (gs_perms st) (\<lambda>k e. \<forall>pid uid. k = pid @ '':'' @ uid \<and> plain_id pid
        \<and> e_epoch e = ctl_epoch ct pid \<longrightarrow> e_value e = fresh_permissions ct pid uid) \<and>
     lru.entries (gs_policy st) (\<lambda>pid e. e_epoch e = ctl_epoch ct pid \<longrightarrow> e_value e = fresh_overlay ct pid)"

lemma colon_split: "plain_id p \<Longrightarrow> plain_id q \<Longrightarrow> p @ CHR '':'' # u = q @ CHR '':'' # v \<longleftrightarrow> p = q \<and> u = v"
proof (induction p arbitrary: q)
  case Nil
  then show ?case by (cases q) (auto simp: plain_id_def)
next
  case (Cons c p)
  then show ?case by (cases q) (auto simp: plain_id_def)
qed

lemma access_key_inj:
  "plain_id p \<Longrightarrow> plain_id q \<Longrightarrow> plain_id u \<Longrightarrow> plain_id v \<Longrightarrow>
     access_key p u r = access_key q v s \<longleftrightarrow> p = q \<and> u = v \<and> r = s"
  by (simp add: access_key_def colon_split)

lemma pdp_key: "pid @ '':'' @ uid @ '':'' @ s @ '':'' @ a = access_key pid uid (s @ '':'' @ a)"
  by (simp add: access_key_def)

subsection \<open>Steps that do not feel the caches\<close>

definition steady :: "control \<Rightarrow> int \<Rightarrow> ('a \<Rightarrow> bool) \<Rightarrow> (guard_state \<Rightarrow> 'a \<times> guard_state) \<Rightarrow> bool" where
  "steady ct now Q f \<longleftrightarrow>
     (\<forall>st st'. coherent ct now st \<longrightarrow> coherent ct now st' \<longrightarrow>
        fst (f st) = fst (f st') \<and> Q (fst (f st)) \<and> coherent ct now (snd (f st)))"

abbreviation steady_any :: "control \<Rightarrow> int \<Rightarrow> (guard_state \<Rightarrow> 'a \<times> guard_state) \<Rightarrow> bool" where
  "steady_any ct now f \<equiv> steady ct now (\<lambda>_. True) f"

text \<open>It is enough that a step gives one value on all coherent states.\<close>

lemma steadyI:
  assumes "\<And>st. coherent ct now st \<Longrightarrow> fst (f st) = v \<and> coherent ct now (snd (f st))" "Q v"
  shows "steady ct now Q f"
  using assms unfolding steady_def by metis

lemma steady_weaken: "steady ct now Q f \<Longrightarrow> (\<And>x. Q x \<Longrightarrow> R x) \<Longrightarrow> steady ct now R f"
  unfolding steady_def by blast

lemma steady_gret: "steady_any ct now (gret x)"
  by (simp add: steady_def gret_def)

lemma steady_gfail: "steady_any ct now (gfail e)"
  by (simp add: steady_def gfail_def)

lemma steady_grefuse: "steady_any ct now (grefuse b e)"
  by (simp add: grefuse_def steady_gret steady_gfail)

lemma steady_gdo: "steady ct now Q f \<Longrightarrow> steady ct now (\<lambda>r. \<exists>x. r = Inr x \<and> Q x) (gdo f)"
proof -
  have "gdo f st = (Inr (fst (f st)), snd (f st))" for st by (simp add: gdo_def case_prod_beta Let_def)
  then show "steady ct now Q f \<Longrightarrow> ?thesis" unfolding steady_def by (metis fst_conv snd_conv)
qed

text \<open>The rule for a bind: a postcondition of the whole that a refusal of the first step meets.\<close>

lemma steady_gbind_post:
  assumes m: "steady ct now Q m" and f: "\<And>x. Q (Inr x) \<Longrightarrow> steady ct now R (f x)"
    and R: "\<And>e. Q (Inl e) \<Longrightarrow> R (Inl e)"
  shows "steady ct now R (gbind m f)"
  unfolding steady_def
proof (intro allI impI)
  fix st st' assume c: "coherent ct now st" "coherent ct now st'"
  have 1: "fst (m st) = fst (m st')" "Q (fst (m st))" "coherent ct now (snd (m st))" "coherent ct now (snd (m st'))"
    using m c unfolding steady_def by blast+
  show "fst (gbind m f st) = fst (gbind m f st') \<and> R (fst (gbind m f st)) \<and> coherent ct now (snd (gbind m f st))"
  proof (cases "fst (m st)")
    case (Inl e)
    then have "gbind m f st = (Inl e, snd (m st))" "gbind m f st' = (Inl e, snd (m st'))"
      using 1(1) by (simp_all add: gbind_def case_prod_beta)
    with 1 R [of e] Inl show ?thesis by simp
  next
    case (Inr x)
    then have "gbind m f st = f x (snd (m st))" "gbind m f st' = f x (snd (m st'))"
      using 1(1) by (simp_all add: gbind_def case_prod_beta)
    moreover have "steady ct now R (f x)" using 1(2) Inr by (intro f) simp
    ultimately show ?thesis using 1(3,4) unfolding steady_def by metis
  qed
qed

lemma steady_gbind:
  assumes "steady ct now Q m" "\<And>x. Q (Inr x) \<Longrightarrow> steady_any ct now (f x)"
  shows "steady_any ct now (gbind m f)"
  by (rule steady_gbind_post [OF assms]) simp_all

lemma steady_grefuse_post: "steady ct now (\<lambda>r. r = Inr () \<longleftrightarrow> \<not> b) (grefuse b e)"
  by (simp add: steady_def grefuse_def gret_def gfail_def)

lemma steady_gret_post: "Q (Inr x) \<Longrightarrow> steady ct now Q (gret x)"
  by (simp add: steady_def gret_def)

lemma steady_any_gbind:
  "steady_any ct now m \<Longrightarrow> (\<And>x. steady_any ct now (f x)) \<Longrightarrow> steady_any ct now (gbind m f)"
  by (rule steady_gbind)

lemma steady_any_gdo: "steady_any ct now f \<Longrightarrow> steady_any ct now (gdo f)"
  by (rule steady_weaken [OF steady_gdo]) simp_all

lemma steady_to_any: "steady ct now Q f \<Longrightarrow> steady_any ct now f"
  by (rule steady_weaken) simp_all

subsection \<open>Coherence is kept\<close>

lemma coherent_puts:
  assumes "coherent ct now st"
  shows "coherent ct now (st\<lparr>gs_epoch := setBoundedCacheEntry (gs_epoch st) pid
            \<lparr>e_value = (), e_epoch = ctl_epoch ct pid, e_expires = t\<rparr> mx\<rparr>)"
    and "plain_id pid \<Longrightarrow> plain_id uid \<Longrightarrow> coherent ct now (st\<lparr>gs_access := setBoundedCacheEntry (gs_access st) (access_key pid uid res)
            \<lparr>e_value = fresh_access ct pid uid res, e_epoch = ep, e_expires = t\<rparr> mx\<rparr>)"
    and "plain_id pid \<Longrightarrow> plain_id uid \<Longrightarrow> plain_id s \<Longrightarrow> coherent ct now (st\<lparr>gs_pdp := setBoundedCacheEntry (gs_pdp st)
            (access_key pid uid (s @ '':'' @ a)) \<lparr>e_value = fresh_verdict ct pid uid (s, a), e_epoch = ep, e_expires = t\<rparr> mx\<rparr>)"
    and "plain_id pid \<Longrightarrow> coherent ct now (st\<lparr>gs_perms := setBoundedCacheEntry (gs_perms st) (pid @ '':'' @ uid)
            \<lparr>e_value = fresh_permissions ct pid uid, e_epoch = ep, e_expires = t\<rparr> mx\<rparr>)"
    and "coherent ct now (st\<lparr>gs_policy := setBoundedCacheEntry (gs_policy st) pid
            \<lparr>e_value = fresh_overlay ct pid, e_epoch = ep, e_expires = t\<rparr> mx\<rparr>)"
    and "coherent ct now (st\<lparr>gs_lkg := m\<rparr>)"
proof -
  note c = assms [unfolded coherent_def]
  show "coherent ct now (st\<lparr>gs_epoch := setBoundedCacheEntry (gs_epoch st) pid
            \<lparr>e_value = (), e_epoch = ctl_epoch ct pid, e_expires = t\<rparr> mx\<rparr>)"
    unfolding coherent_def using c by (auto intro!: lru.put_entries)
  show "coherent ct now (st\<lparr>gs_access := setBoundedCacheEntry (gs_access st) (access_key pid uid res)
            \<lparr>e_value = fresh_access ct pid uid res, e_epoch = ep, e_expires = t\<rparr> mx\<rparr>)" if "plain_id pid" "plain_id uid"
    unfolding coherent_def using c that by (auto intro!: lru.put_entries simp: access_key_inj)
  show "coherent ct now (st\<lparr>gs_pdp := setBoundedCacheEntry (gs_pdp st)
            (access_key pid uid (s @ '':'' @ a)) \<lparr>e_value = fresh_verdict ct pid uid (s, a), e_epoch = ep, e_expires = t\<rparr> mx\<rparr>)"
    if "plain_id pid" "plain_id uid" "plain_id s"
    unfolding coherent_def using c that by (auto intro!: lru.put_entries simp: access_key_inj colon_split)
  show "coherent ct now (st\<lparr>gs_perms := setBoundedCacheEntry (gs_perms st) (pid @ '':'' @ uid)
            \<lparr>e_value = fresh_permissions ct pid uid, e_epoch = ep, e_expires = t\<rparr> mx\<rparr>)" if "plain_id pid"
    unfolding coherent_def using c that by (auto intro!: lru.put_entries simp: colon_split)
  show "coherent ct now (st\<lparr>gs_policy := setBoundedCacheEntry (gs_policy st) pid
            \<lparr>e_value = fresh_overlay ct pid, e_epoch = ep, e_expires = t\<rparr> mx\<rparr>)"
    unfolding coherent_def using c by (auto intro!: lru.put_entries)
  show "coherent ct now (st\<lparr>gs_lkg := m\<rparr>)"
    unfolding coherent_def using c by simp
qed

lemma coherent_served:
  assumes "coherent ct now st"
  shows "cached_epoch cfg now pid st = Some ep \<Longrightarrow> ep = ctl_epoch ct pid"
    and "served ttl now (ctl_epoch ct pid) (access_key pid uid res) (gs_access st) = Some a \<Longrightarrow>
           plain_id pid \<Longrightarrow> plain_id uid \<Longrightarrow> a = fresh_access ct pid uid res"
    and "served ttl now (ctl_epoch ct pid) (access_key pid uid (s @ '':'' @ act)) (gs_pdp st) = Some v \<Longrightarrow>
           plain_id pid \<Longrightarrow> plain_id uid \<Longrightarrow> plain_id s \<Longrightarrow> v = fresh_verdict ct pid uid (s, act)"
    and "served ttl now (ctl_epoch ct pid) (pid @ '':'' @ uid) (gs_perms st) = Some q \<Longrightarrow>
           plain_id pid \<Longrightarrow> q = fresh_permissions ct pid uid"
    and "served ttl now (ctl_epoch ct pid) pid (gs_policy st) = Some w \<Longrightarrow> w = fresh_overlay ct pid"
  using assms unfolding coherent_def served_Some lru.entries_def cached_epoch_def
  by (auto split: option.splits if_splits)

lemma reply_epoch_stamped:
  "stamped ct pid reply \<Longrightarrow> \<exists>r. reply = Some r \<and> reply_epoch r (ctl_epoch ct pid) = ctl_epoch ct pid"
  by (auto simp: stamped_def reply_epoch_def)

lemma consistentD:
  assumes "consistent_control ct"
  shows "\<exists>r. ct_epoch ct pid = Some r" "\<exists>r. ct_project ct pid = Some r" "0 \<le> ctl_epoch ct pid"
  using spec [OF assms [unfolded consistent_control_def], of pid] by auto

lemma steady_currentEpoch:
  assumes "consistent_control ct"
  shows "steady ct now (\<lambda>ep. ep = ctl_epoch ct pid) (currentEpoch ct cfg now pid)"
proof (rule steadyI)
  fix st assume c: "coherent ct now st"
  obtain r where "ct_epoch ct pid = Some r" using consistentD(1) [OF assms] by blast
  then have "js_number (js_get r ''epoch'') = ctl_epoch ct pid" by (simp add: ctl_epoch_def)
  with \<open>ct_epoch ct pid = Some r\<close> c
  show "fst (currentEpoch ct cfg now pid st) = ctl_epoch ct pid \<and> coherent ct now (snd (currentEpoch ct cfg now pid st))"
    using coherent_served(1) [OF c, of cfg pid] coherent_puts(1) [OF c]
    by (auto simp: currentEpoch_def Let_def split: option.splits)
qed simp

lemma steady_resolveAccess:
  assumes "consistent_control ct" "plain_id pid" "plain_id uid" "ep = ctl_epoch ct pid"
  shows "steady ct now (\<lambda>r. r = Inr (fresh_access ct pid uid res)) (resolveAccess ct cfg now pid uid res ep)"
proof (rule steadyI)
  fix st assume c: "coherent ct now st"
  obtain r where r: "ct_visibility ct pid uid res = Some r" "reply_epoch r (ctl_epoch ct pid) = ctl_epoch ct pid"
    using assms(1) reply_epoch_stamped unfolding consistent_control_def by blast
  then have a: "\<lparr>ac_allowed = (js_get r ''allowed'' = JBool True), ac_role = text_field r ''role'',
      ac_visibility = Some (parseScope r uid res (ctl_epoch ct pid))\<rparr> = fresh_access ct pid uid res"
    by (simp add: fresh_access_def)
  show "fst (resolveAccess ct cfg now pid uid res ep st) = Inr (fresh_access ct pid uid res)
      \<and> coherent ct now (snd (resolveAccess ct cfg now pid uid res ep st))"
    using coherent_served(2) [OF c, of "gc_accessTtl cfg" pid uid res] coherent_puts(2) [OF c assms(2,3)] c assms
    by (auto simp: resolveAccess_def Let_def r a split: option.splits)
qed simp

lemma steady_granular:
  assumes "consistent_control ct" "plain_id pid" "plain_id uid" "plain_id (fst sa)" "ep = ctl_epoch ct pid"
  shows "steady ct now (\<lambda>r. r = Inr (fresh_verdict ct pid uid sa)) (decideGranular ct cfg now pid uid sa ep)"
proof (rule steadyI)
  fix st assume c: "coherent ct now st"
  obtain s a where sa: "sa = (s, a)" by (cases sa)
  obtain r where r: "ct_check ct pid uid s a = Some r" "reply_epoch r (ctl_epoch ct pid) = ctl_epoch ct pid"
    using assms(1) reply_epoch_stamped unfolding consistent_control_def by blast
  then have v: "parseVerdict (js_get r ''decisions'') s a = fresh_verdict ct pid uid (s, a)"
    by (simp add: fresh_verdict_def)
  show "fst (decideGranular ct cfg now pid uid sa ep st) = Inr (fresh_verdict ct pid uid sa)
      \<and> coherent ct now (snd (decideGranular ct cfg now pid uid sa ep st))"
    using coherent_served(3) [OF c, of "gc_pdpTtl cfg" pid uid s a] coherent_puts(3) [OF c assms(2,3)] c assms sa
    by (auto simp: decideGranular_def Let_def r v pdp_key simp del: append.simps split: option.splits)
qed simp

lemma steady_permissions:
  assumes "consistent_control ct" "plain_id pid" "ep = ctl_epoch ct pid"
  shows "steady ct now (\<lambda>q. q = fresh_permissions ct pid uid) (resolveEffectivePermissions ct cfg now pid uid ep)"
proof (rule steadyI)
  fix st assume c: "coherent ct now st"
  obtain r where r: "ct_perms ct pid uid = Some r" "reply_epoch r (ctl_epoch ct pid) = ctl_epoch ct pid"
    using assms(1) reply_epoch_stamped unfolding consistent_control_def by blast
  then have v: "join '','' (filter (\<lambda>k. k \<noteq> []) (str_arr (js_get r ''allow''))) = fresh_permissions ct pid uid"
    by (simp add: fresh_permissions_def)
  show "fst (resolveEffectivePermissions ct cfg now pid uid ep st) = fresh_permissions ct pid uid
      \<and> coherent ct now (snd (resolveEffectivePermissions ct cfg now pid uid ep st))"
    using coherent_served(4) [OF c, of "gc_accessTtl cfg" pid uid] coherent_puts(4) [OF c assms(2)] c assms
    by (auto simp: resolveEffectivePermissions_def Let_def r v simp del: append.simps split: option.splits)
qed simp

text \<open>The rules and the modules a request works with.\<close>

definition request_overlay :: "control \<Rightarrow> string \<Rightarrow> jsval option \<Rightarrow> string list option \<Rightarrow> abac_rule list \<times> string list option" where
  "request_overlay ct pid snapshot ms =
     (case snapshot of
        Some (JArr rows) \<Rightarrow> (map rule_of_js rows, ms)
      | Some _ \<Rightarrow> ([], ms)
      | None \<Rightarrow> (fst (fresh_overlay ct pid),
                 Some (case ms of Some m \<Rightarrow> m | None \<Rightarrow> snd (fresh_overlay ct pid))))"

lemma coherent_storeLkg: "coherent ct now st \<Longrightarrow> coherent ct now (storePolicyLkg cfg now pid rl ms ep st)"
  by (simp add: storePolicyLkg_def coherent_puts(6))

lemma steady_policies:
  assumes "consistent_control ct" "ep = ctl_epoch ct pid"
  shows "steady ct now (\<lambda>x. x = request_overlay ct pid snapshot ms) (resolvePolicies ct cfg now pid ep snapshot ms)"
proof (rule steadyI)
  fix st assume c: "coherent ct now st"
  obtain project where pr: "ct_project ct pid = Some project"
    using consistentD(2) [OF assms(1)] by blast
  show "fst (resolvePolicies ct cfg now pid ep snapshot ms st) = request_overlay ct pid snapshot ms
      \<and> coherent ct now (snd (resolvePolicies ct cfg now pid ep snapshot ms st))"
  proof (cases snapshot)
    case (Some v)
    then show ?thesis using c by (cases v) (simp_all add: resolvePolicies_def request_overlay_def Let_def coherent_storeLkg)
  next
    case None
    have put: "coherent ct now (st\<lparr>gs_policy := setBoundedCacheEntry (gs_policy st) pid
            \<lparr>e_value = (map rule_of_js (decodeGrpcModulePolicies (js_get project ''module_policies'')), extractEffectiveModules project),
             e_epoch = ep, e_expires = t\<rparr> mx\<rparr>)" for t mx
      using coherent_puts(5) [OF c, of pid ep t mx] by (simp add: fresh_overlay_def pr)
    show ?thesis
    proof (cases "served (gc_policyTtl cfg) now ep pid (gs_policy st)")
      case (Some w)
      moreover have "w = fresh_overlay ct pid" using coherent_served(5) [OF c] Some assms(2) by blast
      ultimately show ?thesis using None c
        by (simp add: resolvePolicies_def request_overlay_def case_prod_beta)
    next
      case miss: None
      show ?thesis using c put
        by (cases ms) (auto simp: resolvePolicies_def request_overlay_def None miss pr Let_def fresh_overlay_def intro!: coherent_storeLkg)
    qed
  qed
qed simp

text \<open>Two steps in a row.\<close>

lemma steady_seq:
  assumes f: "steady_any ct now f" and g: "\<And>x. steady_any ct now (g x)"
  shows "steady_any ct now (\<lambda>st. case f st of (x, st') \<Rightarrow> g x st')"
  unfolding steady_def
proof (intro allI impI)
  fix st st' assume "coherent ct now st" "coherent ct now st'"
  with f have 1: "fst (f st) = fst (f st')" "coherent ct now (snd (f st))" "coherent ct now (snd (f st'))"
    unfolding steady_def by blast+
  moreover have "fst (g (fst (f st)) (snd (f st))) = fst (g (fst (f st)) (snd (f st')))"
      "coherent ct now (snd (g (fst (f st)) (snd (f st))))"
    using g [of "fst (f st)"] 1(2,3) unfolding steady_def by blast+
  ultimately show "fst (case f st of (x, st') \<Rightarrow> g x st') = fst (case f st' of (x, st') \<Rightarrow> g x st') \<and> True
      \<and> coherent ct now (snd (case f st of (x, st') \<Rightarrow> g x st'))"
    by (simp add: case_prod_beta)
qed

lemma steady_shared:
  assumes "consistent_control ct" "plain_id pid" "plain_id uid" "ep = ctl_epoch ct pid"
  shows "steady_any ct now (sharedRecordIdsFor ct cfg now pid uid ep res)"
proof (rule steadyI)
  fix st assume c: "coherent ct now st"
  have "fst (resolveAccess ct cfg now pid uid res ep st) = Inr (fresh_access ct pid uid res)"
      "coherent ct now (snd (resolveAccess ct cfg now pid uid res ep st))"
    using steady_resolveAccess [OF assms, where res = res and cfg = cfg and now = now] c unfolding steady_def by blast+
  then show "fst (sharedRecordIdsFor ct cfg now pid uid ep res st) =
      (case ac_visibility (fresh_access ct pid uid res) of None \<Rightarrow> [] | Some v \<Rightarrow> if deferred v then [] else sharedRecordIds v)
      \<and> coherent ct now (snd (sharedRecordIdsFor ct cfg now pid uid ep res st))"
    by (auto simp: sharedRecordIdsFor_def case_prod_beta split: option.splits)
qed simp

lemma steady_shares:
  assumes "consistent_control ct" "plain_id pid" "plain_id uid" "ep = ctl_epoch ct pid"
  shows "steady_any ct now (shares_by_type ct cfg now pid uid ep rs)"
proof (induction rs)
  case Nil
  then show ?case by (simp add: steady_def)
next
  case (Cons r rs)
  have "shares_by_type ct cfg now pid uid ep (r # rs) =
      (\<lambda>st. case sharedRecordIdsFor ct cfg now pid uid ep r st of (ids, st') \<Rightarrow>
         (case shares_by_type ct cfg now pid uid ep rs st' of (bt, st'') \<Rightarrow>
           (if ids = [] then bt else (the (map_of SHAREABLE_RESOURCE_ENTITY_TYPES r), ids) # bt, st'')))"
    by (rule ext) (simp add: Let_def case_prod_beta)
  then show ?case
    by (simp only:) (intro steady_seq steady_shared assms Cons.IH, simp add: steady_def)
qed

lemma steady_cross:
  assumes "consistent_control ct" "plain_id pid" "plain_id uid" "ep = ctl_epoch ct pid"
  shows "steady_any ct now (withCrossResourceShares ct cfg now pid uid ep subject action a)"
proof (cases "ac_visibility a")
  case None
  then show ?thesis by (simp add: steady_def withCrossResourceShares_def)
next
  case (Some base)
  show ?thesis
  proof (cases "subject \<notin> set CROSS_ENTITY_SUBJECTS \<or> action \<notin> set RECORD_RETURNING_ACTIONS
             \<or> \<not> ac_allowed a \<or> mode base \<noteq> ModeRestricted \<or> deferred base")
    case True
    then show ?thesis using Some by (simp add: steady_def withCrossResourceShares_def)
  next
    case False
    then have "withCrossResourceShares ct cfg now pid uid ep subject action a =
      (\<lambda>st. case shares_by_type ct cfg now pid uid ep SHAREABLE_RESOURCES st of (bt, st') \<Rightarrow>
         (if bt = [] \<or> sum_list (map (length \<circ> snd) bt) > VISIBILITY_SCOPE_MAX_IDS then Some base
          else Some (base\<lparr>sharedRecordIdsByType := Some bt\<rparr>), st'))"
      by (intro ext) (auto simp: withCrossResourceShares_def Some Let_def case_prod_beta)
    then show ?thesis
      by (simp only:) (intro steady_seq steady_shares assms, simp add: steady_def)
  qed
qed

lemma steady_donor:
  assumes "consistent_control ct" "plain_id pid" "plain_id uid" "ep = ctl_epoch ct pid" "plain_id s"
  shows "steady_any ct now (donor_step ct cfg now pid uid ep rl ms s)"
  unfolding donor_step_def
  by (intro steady_gbind [OF steady_grefuse] steady_gbind [OF steady_resolveAccess [OF assms(1-4)]]
        steady_gbind [OF steady_granular [OF assms(1-3) _ assms(4)]] steady_gret)
     (auto simp: assms(5) intro!: steady_gbind [OF steady_grefuse] steady_gret split: prod.splits)

lemma steady_donors:
  assumes "consistent_control ct" "plain_id pid" "plain_id uid" "ep = ctl_epoch ct pid"
  shows "list_all plain_id ss \<Longrightarrow> steady_any ct now (resolveDonors ct cfg now pid uid ep rl ms ss)"
proof (induction ss)
  case Nil
  then show ?case by (simp add: steady_def)
next
  case (Cons s ss)
  have "resolveDonors ct cfg now pid uid ep rl ms (s # ss) =
      (\<lambda>st. case donor_step ct cfg now pid uid ep rl ms s st of (r, st') \<Rightarrow>
         (case resolveDonors ct cfg now pid uid ep rl ms ss st' of (out, st'') \<Rightarrow>
           ((s, case r of Inl _ \<Rightarrow> None | Inr x \<Rightarrow> Some x) # out, st'')))"
    by (rule ext) (simp add: Let_def case_prod_beta)
  moreover have "steady_any ct now (resolveDonors ct cfg now pid uid ep rl ms ss)" using Cons by simp
  moreover have "steady_any ct now (donor_step ct cfg now pid uid ep rl ms s)"
    using Cons.prems by (intro steady_donor assms) simp
  ultimately show ?case
    by (simp only:) (intro steady_seq, assumption+, simp add: steady_def)
qed

lemma steady_phase: "steady_any ct now (enforceProjectWritablePhase ct pid m url)"
  by (auto simp: enforceProjectWritablePhase_def Let_def steady_gret steady_gfail steady_grefuse split: option.splits)

lemma steady_gate_permission:
  assumes "consistent_control ct" "plain_id pid" "plain_id uid" "ep = ctl_epoch ct pid"
    and "\<And>s a. required = Some (s, a) \<Longrightarrow> plain_id s"
  shows "steady_any ct now (gate_permission ct cfg now pid uid role ep required)"
proof (cases required)
  case (Some sa)
  then have "plain_id (fst (fst sa, snd sa))" using assms(5) by (cases sa) simp
  from steady_granular [OF assms(1-3) this assms(4)] Some show ?thesis
    by (auto simp: gate_permission_def case_prod_beta intro!: steady_gbind [OF steady_grefuse] steady_gbind steady_grefuse)
qed (simp add: gate_permission_def steady_gret)

lemma steady_gate_policy: "steady_any ct now (gate_policy rt rq role rl)"
  by (auto simp: gate_policy_def intro!: steady_gbind [OF steady_grefuse] steady_gret steady_grefuse split: option.splits)

lemma steady_gate_predicate: "steady_any ct now (gate_predicate rt pid uid role rl)"
  by (auto simp: gate_predicate_def Let_def case_prod_beta intro!: steady_gbind [OF steady_grefuse] steady_gret)

text \<open>The texts that make up cache keys hold no colon: the ids of the project and the caller, the subjects.\<close>

definition plain_request :: "route_meta \<Rightarrow> guard_request \<Rightarrow> bool" where
  "plain_request rt rq \<longleftrightarrow>
     plain_id (request_project rt rq) \<and> plain_id (case rq_user rq of None \<Rightarrow> [] | Some u \<Rightarrow> u) \<and>
     plain_id (route_subject rt) \<and> list_all plain_id (rt_donors rt)"

lemma steady_guard_project:
  assumes ct: "consistent_control ct" and p: "plain_id pid" "plain_id uid"
    and sub: "\<And>s a. rt_required rt = Some (s, a) \<Longrightarrow> plain_id s" and don: "list_all plain_id (rt_donors rt)"
  shows "steady_any ct now (guard_project ct cfg now rt rq pid uid)"
  unfolding guard_project_def Let_def
proof (rule steady_gbind [OF steady_gdo [OF steady_currentEpoch [OF ct]]], goal_cases)
  case (1 ep)
  then have ep: "ep = ctl_epoch ct pid" by simp
  have "list_all plain_id (js_set_of (rt_donors rt))" using don by (simp add: list_all_iff)
  then have donors: "steady_any ct now (resolveDonorAccess ct cfg now pid uid ep rl ms (rt_donors rt))" for rl ms
    using steady_donors [OF ct p ep] by (simp add: resolveDonorAccess_def [abs_def])
  show ?case
    by (intro steady_any_gbind steady_any_gdo steady_grefuse steady_gret steady_phase steady_gate_policy
          steady_gate_predicate steady_cross steady_gate_permission donors
          steady_to_any [OF steady_resolveAccess] steady_to_any [OF steady_permissions] steady_to_any [OF steady_policies]
          ct p ep sub)
qed

lemma steady_canActivate:
  assumes ct: "consistent_control ct" and pl: "plain_request rt rq"
  shows "steady_any ct now (canActivate ct cfg now rt rq)"
proof -
  have sub: "plain_id s" if "rt_required rt = Some (s, a)" for s a
    using pl that by (simp add: plain_request_def route_subject_def)
  show ?thesis
    using pl steady_guard_project [OF ct _ _ sub]
    by (simp add: canActivate_def Let_def plain_request_def steady_gret steady_gfail)
qed

subsection \<open>What an admitted request has passed\<close>

definition permission_ok :: "control \<Rightarrow> string \<Rightarrow> string \<Rightarrow> string \<Rightarrow> (string \<times> string) option \<Rightarrow> bool" where
  "permission_ok ct pid uid role required \<longleftrightarrow>
     (\<forall>s a. required = Some (s, a) \<longrightarrow>
        projectRoleCanKey (Some role) s a \<and>
        (isElevatedAnalyticExport s a \<longrightarrow> projectRoleAtLeast (Some role) Manager) \<and>
        (vd_applicable (fresh_verdict ct pid uid (s, a)) \<longrightarrow> vd_allowed (fresh_verdict ct pid uid (s, a))))"

definition policy_ok :: "route_meta \<Rightarrow> guard_request \<Rightarrow> string \<Rightarrow> abac_rule list \<Rightarrow> bool" where
  "policy_ok rt rq role rl \<longleftrightarrow>
     (\<forall>s a. rt_required rt = Some (s, a) \<longrightarrow> \<not> isDeniedByPolicy rl s a role) \<and>
     (role = ''owner'' \<or> \<not> isCollectionCreate rt rq \<or> \<not> hasConditionalDenyForAction rl (route_subject rt) ''write'')"

definition predicate_ok :: "route_meta \<Rightarrow> string \<Rightarrow> string \<Rightarrow> string \<Rightarrow> abac_rule list \<Rightarrow> route_predicate \<Rightarrow> bool" where
  "predicate_ok rt pid uid role rl p \<longleftrightarrow>
     (let subject = route_subject rt;
          action = (case rt_required rt of Some (s, a) \<Rightarrow> a | None \<Rightarrow> ''read'')
      in if subject \<in> set CROSS_ENTITY_SUBJECTS \<and> action \<in> set RECORD_RETURNING_ACTIONS
         then p = resolveCrossEntityAccessPredicate rl action pid uid role
         else \<exists>deny. resolveAccessPredicate rl subject action pid uid role = (p, False, deny)
                \<and> (deny \<longrightarrow> isAccessPredicateEnforcedInDomain subject action))"

definition writable_ok :: "control \<Rightarrow> guard_request \<Rightarrow> string \<Rightarrow> bool" where
  "writable_ok ct rq pid \<longleftrightarrow>
     isLifecycleWriteExempt (rq_url rq) (rq_method rq)
     \<or> toLowerCase (text_or (js_get (the (ct_project ct pid)) ''status'') ''active'') = ''active''"

definition marked :: "route_meta \<Rightarrow> bool" where
  "marked rt \<longleftrightarrow> rt_required rt \<noteq> None \<or> rt_membershipOnly rt \<or> rt_systemRole rt \<or> rt_skipProjectScope rt"

text \<open>When a request is admitted, and what is put on it then.\<close>

definition route_access :: "control \<Rightarrow> route_meta \<Rightarrow> string \<Rightarrow> string \<Rightarrow> access" where
  "route_access ct rt pid uid =
     fresh_access ct pid uid (if route_subject rt \<in> set SHAREABLE_RESOURCES then route_subject rt else [])"

definition admissible :: "control \<Rightarrow> guard_config \<Rightarrow> route_meta \<Rightarrow> guard_request \<Rightarrow> string \<Rightarrow> string \<Rightarrow> bool" where
  "admissible ct cfg rt rq pid uid \<longleftrightarrow>
     (let a = route_access ct rt pid uid; rl = fst (request_overlay ct pid (rq_snapshot rq) (rq_modules rq))
      in (gc_enforce cfg \<longrightarrow> ac_allowed a \<and> marked rt) \<and> writable_ok ct rq pid
       \<and> permission_ok ct pid uid (ac_role a) (rt_required rt)
       \<and> policy_ok rt rq (ac_role a) rl
       \<and> (\<exists>p. predicate_ok rt pid uid (ac_role a) rl p))"

definition admission_ok :: "control \<Rightarrow> route_meta \<Rightarrow> guard_request \<Rightarrow> string \<Rightarrow> string \<Rightarrow> admitted \<Rightarrow> bool" where
  "admission_ok ct rt rq pid uid out \<longleftrightarrow>
     (let a = route_access ct rt pid uid; ov = request_overlay ct pid (rq_snapshot rq) (rq_modules rq)
      in ad_project out = pid \<and> ad_role out = ac_role a \<and> ad_permissions out = fresh_permissions ct pid uid
       \<and> predicate_ok rt pid uid (ac_role a) (fst ov) (ad_predicate out)
       \<and> ad_modules out = (case snd ov of Some m \<Rightarrow> m | None \<Rightarrow> ensureLockedModules []))"

lemma post_permission:
  assumes "consistent_control ct" "plain_id pid" "plain_id uid" "ep = ctl_epoch ct pid"
    and "\<And>s a. required = Some (s, a) \<Longrightarrow> plain_id s"
  shows "steady ct now (\<lambda>r. r = Inr () \<longleftrightarrow> permission_ok ct pid uid role required)
    (gate_permission ct cfg now pid uid role ep required)"
proof (cases required)
  case None
  then show ?thesis by (simp add: gate_permission_def permission_ok_def steady_gret_post)
next
  case (Some sa)
  obtain s a where sa: "sa = (s, a)" by (cases sa)
  then have "plain_id (fst (s, a))" using assms(5) Some by simp
  note g = steady_granular [OF assms(1-3) this assms(4)]
  show ?thesis
    unfolding gate_permission_def Some option.case sa prod.case
    by (rule steady_gbind_post [OF steady_grefuse_post], rule steady_gbind_post [OF steady_grefuse_post],
        rule steady_gbind_post [OF g], rule steady_weaken [OF steady_grefuse_post])
       (auto simp: permission_ok_def)
qed

lemma post_policy: "steady ct now (\<lambda>r. r = Inr () \<longleftrightarrow> policy_ok rt rq role rl) (gate_policy rt rq role rl)"
  unfolding gate_policy_def
proof (rule steady_gbind_post [OF steady_grefuse_post], goal_cases)
  case (1 x)
  show ?case
  proof (cases "rt_required rt")
    case None
    with 1 show ?thesis by (auto simp: policy_ok_def intro!: steady_gret_post)
  next
    case (Some sa)
    with 1 show ?thesis
      by (cases sa) (auto simp: policy_ok_def intro!: steady_weaken [OF steady_grefuse_post])
  qed
qed (auto simp: policy_ok_def)

lemma post_predicate:
  "steady ct now (\<lambda>r. case r of Inl _ \<Rightarrow> \<forall>p. \<not> predicate_ok rt pid uid role rl p | Inr p \<Rightarrow> predicate_ok rt pid uid role rl p)
    (gate_predicate rt pid uid role rl)"
proof (cases "route_subject rt \<in> set CROSS_ENTITY_SUBJECTS
    \<and> (case rt_required rt of Some (s, a) \<Rightarrow> a | None \<Rightarrow> ''read'') \<in> set RECORD_RETURNING_ACTIONS")
  case True
  then show ?thesis by (simp add: gate_predicate_def predicate_ok_def Let_def steady_gret_post)
next
  case False
  obtain p fc dc where r: "resolveAccessPredicate rl (route_subject rt)
      (case rt_required rt of Some (s, a) \<Rightarrow> a | None \<Rightarrow> ''read'') pid uid role = (p, fc, dc)"
    by (metis prod_cases3)
  show ?thesis
    using False unfolding gate_predicate_def Let_def r prod.case
    by (simp only: if_False)
       (rule steady_gbind_post [OF steady_grefuse_post], rule steady_gbind_post [OF steady_grefuse_post],
        auto simp: predicate_ok_def r Let_def intro!: steady_gret_post)
qed

lemma post_phase:
  assumes "consistent_control ct"
  shows "steady ct now (\<lambda>r. r = Inr () \<longleftrightarrow> writable_ok ct rq pid)
    (enforceProjectWritablePhase ct pid (rq_method rq) (rq_url rq))"
proof -
  obtain project where "ct_project ct pid = Some project" using consistentD(2) [OF assms] by blast
  then show ?thesis
    by (auto simp: enforceProjectWritablePhase_def writable_ok_def Let_def steady_def grefuse_def gret_def gfail_def)
qed

text \<open>A result that admits exactly when it should, and annotates as it should.\<close>

fun verdict_right :: "bool \<Rightarrow> (admitted \<Rightarrow> bool) \<Rightarrow> guard_error + guard_outcome \<Rightarrow> bool" where
  "verdict_right C P (Inl _) \<longleftrightarrow> \<not> C"
| "verdict_right C P (Inr (Admitted out)) \<longleftrightarrow> C \<and> P out"
| "verdict_right C P (Inr _) \<longleftrightarrow> False"

lemma post_guard_project:
  assumes ct: "consistent_control ct" and p: "plain_id pid" "plain_id uid"
    and sub: "\<And>s a. rt_required rt = Some (s, a) \<Longrightarrow> plain_id s" and don: "list_all plain_id (rt_donors rt)"
  shows "steady ct now (verdict_right (admissible ct cfg rt rq pid uid) (admission_ok ct rt rq pid uid))
    (guard_project ct cfg now rt rq pid uid)" (is "steady ct now ?R _")
  unfolding guard_project_def Let_def
proof (rule steady_gbind_post [OF steady_gdo [OF steady_currentEpoch [OF ct]]], goal_cases)
  case (1 ep)
  then have ep: "ep = ctl_epoch ct pid" by simp
  have "list_all plain_id (js_set_of (rt_donors rt))" using don by (simp add: list_all_iff)
  then have donors: "steady_any ct now (resolveDonorAccess ct cfg now pid uid ep rl ms (rt_donors rt))" for rl ms
    using steady_donors [OF ct p ep] by (simp add: resolveDonorAccess_def [abs_def])
  note access = steady_resolveAccess [OF ct p ep, where res = "if route_subject rt \<in> set SHAREABLE_RESOURCES then route_subject rt else []",
      folded route_access_def]
  note steps = steady_gbind_post [OF access, where R = ?R]
    steady_gbind_post [OF steady_gdo [OF steady_cross [OF ct p ep]], where R = ?R]
    steady_gbind_post [OF steady_gdo [OF steady_permissions [OF ct p(1) ep]], where R = ?R]
    steady_gbind_post [OF steady_gdo [OF steady_policies [OF ct ep]], where R = ?R]
    steady_gbind_post [OF post_permission [OF ct p ep sub], where R = ?R]
    steady_gbind_post [OF post_policy, where R = ?R] steady_gbind_post [OF post_predicate, where R = ?R]
    steady_gbind_post [OF post_phase [OF ct], where R = ?R] steady_gbind_post [OF steady_gdo [OF donors], where R = ?R]
    steady_gbind_post [OF steady_grefuse_post, where R = ?R]
  show ?case
    by (rule steps, rule steps, rule steps, rule steps, rule steps, rule steps, rule steps, assumption, rule steps,
        rule steps, rule steps, rule steps, rule steady_gret_post)
       (auto simp: admission_ok_def admissible_def Let_def marked_def)
qed simp

subsection \<open>Properties\<close>

definition empty_state :: guard_state where
  "empty_state = \<lparr>gs_access = [], gs_policy = [], gs_lkg = [], gs_epoch = [], gs_pdp = [], gs_perms = [], gs_module = []\<rparr>"

lemma coherent_empty: "coherent ct now empty_state"
  by (simp add: coherent_def empty_state_def lru.entries_def)

text \<open>C25: The caches of the guard are transparent. While the control service answers, and the caches hold no
  entry of the current epoch that differs from its answers, the guard takes for every route and request
  the very decision, error code and annotations included, that it takes with empty caches; and the
  caches it leaves behind are such again.\<close>

theorem caching_is_transparent:
  assumes "consistent_control ct" "plain_request rt rq" "coherent ct now st"
  shows "fst (canActivate ct cfg now rt rq st) = fst (canActivate ct cfg now rt rq empty_state)
    \<and> coherent ct now (snd (canActivate ct cfg now rt rq st))"
  using steady_canActivate [OF assms(1,2), of now cfg] assms(3) coherent_empty unfolding steady_def by blast

definition sample_control :: control where
  "sample_control = \<lparr>
     ct_epoch = (\<lambda>_. Some (JObj [(''epoch'', JNum 3)])),
     ct_visibility = (\<lambda>_ _ _. Some (JObj [(''allowed'', JBool True), (''role'', JStr ''member''), (''mode'', JStr ''restricted''),
        (''owner_ids'', JArr [JStr ''u1'']), (''epoch'', JNum 3)])),
     ct_check = (\<lambda>_ _ s a. Some (JObj [(''decisions'', JArr [JObj [(''subject'', JStr s), (''action'', JStr a),
        (''decision'', JStr ''allow'')]]), (''epoch'', JNum 3)])),
     ct_perms = (\<lambda>_ _. Some (JObj [(''allow'', JArr [JStr ''deals:read'']), (''epoch'', JNum 3)])),
     ct_project = (\<lambda>_. Some (JObj [(''status'', JStr ''active'')]))\<rparr>"

definition sample_config :: guard_config where
  "sample_config = \<lparr>gc_enforce = True, gc_accessTtl = 30000, gc_policyTtl = 30000, gc_epochTtl = 2000, gc_pdpTtl = 30000,
     gc_lkgTtl = 300000, gc_moduleTtl = 5000, gc_max = 5000\<rparr>"

definition read_deals :: route_meta where
  "read_deals = \<lparr>rt_skipProjectScope = False, rt_required = Some (''deals'', ''read''), rt_membershipOnly = False,
     rt_systemRole = False, rt_donors = []\<rparr>"

definition get_p1 :: guard_request where
  "get_p1 = \<lparr>rq_paramProject = None, rq_queryProject = None, rq_headerProject = Some ''p1'', rq_user = Some ''u1'',
     rq_method = ''GET'', rq_url = ''/v1/deals'', rq_params = [], rq_snapshot = None, rq_modules = None\<rparr>"

lemma sample_consistent: "consistent_control sample_control"
  by (simp add: consistent_control_def sample_control_def ctl_epoch_def stamped_def)

lemma sample_plain: "plain_request read_deals get_p1"
  by (simp add: plain_request_def plain_id_def read_deals_def get_p1_def request_project_def route_subject_def)

text \<open>A cached epoch of the control service, as the first request leaves it.\<close>

definition warm_state :: guard_state where
  "warm_state = empty_state\<lparr>gs_epoch := [(''p1'', \<lparr>e_value = (), e_epoch = 3, e_expires = 1500\<rparr>)]\<rparr>"

lemma warm_coherent: "coherent sample_control 1000 warm_state"
  by (simp add: coherent_def warm_state_def empty_state_def lru.entries_def ctl_epoch_def sample_control_def)

theorem caching_is_transparent_witness:
  "fst (canActivate sample_control sample_config 1000 read_deals get_p1 warm_state)
     = fst (canActivate sample_control sample_config 1000 read_deals get_p1 empty_state)"
  using caching_is_transparent [OF sample_consistent sample_plain warm_coherent] by blast

text \<open>C5: The guard admits exactly what is permitted. On the current answers of the control service a request of
  a user on a project is admitted if and only if the caller is a member and the route is marked, the
  project is writable or the route exempt, the role holds the key in the flat matrix (an elevated
  export needs a manager) and the granular verdict does not refuse, no blanket or creation deny applies,
  and the predicate compiles to something the target enforces. The project, role,
  permissions, modules and predicate handed on are the ones all this was decided for.\<close>

theorem guard_admits_exactly_permitted:
  assumes "consistent_control ct" "plain_request rt rq" "coherent ct now st"
    and "request_project rt rq = pid" "pid \<noteq> []" "rq_user rq = Some uid" "uid \<noteq> []"
  shows "((\<exists>out. fst (canActivate ct cfg now rt rq st) = Inr (Admitted out)) \<longleftrightarrow> admissible ct cfg rt rq pid uid)
    \<and> (\<forall>out. fst (canActivate ct cfg now rt rq st) = Inr (Admitted out) \<longrightarrow> admission_ok ct rt rq pid uid out)"
proof -
  have sub: "plain_id s" if "rt_required rt = Some (s, a)" for s a
    using assms(2) that by (simp add: plain_request_def route_subject_def)
  have pl: "plain_id pid" "plain_id uid" "list_all plain_id (rt_donors rt)"
    using assms(2,4,6) by (simp_all add: plain_request_def)
  have "steady ct now (verdict_right (admissible ct cfg rt rq pid uid) (admission_ok ct rt rq pid uid))
      (guard_project ct cfg now rt rq pid uid)"
    by (rule post_guard_project [OF assms(1) pl(1,2) _ pl(3)]) (rule sub)
  then have "verdict_right (admissible ct cfg rt rq pid uid) (admission_ok ct rt rq pid uid)
      (fst (guard_project ct cfg now rt rq pid uid st))"
    using assms(3) unfolding steady_def by blast
  moreover have "canActivate ct cfg now rt rq st = guard_project ct cfg now rt rq pid uid st"
    using assms(4-7) by (simp add: canActivate_def Let_def)
  ultimately show ?thesis by (auto elim!: verdict_right.elims)
qed

lemma sample_access: "ac_allowed (route_access sample_control read_deals ''p1'' ''u1'')"
    "ac_role (route_access sample_control read_deals ''p1'' ''u1'') = ''member''"
  by (simp_all add: route_access_def fresh_access_def sample_control_def text_field_def Let_def)

lemma sample_overlay: "fst (request_overlay sample_control ''p1'' (rq_snapshot get_p1) (rq_modules get_p1)) = []"
  by (simp add: request_overlay_def get_p1_def fresh_overlay_def sample_control_def decodeGrpcModulePolicies_def)

lemma sample_admissible: "admissible sample_control sample_config read_deals get_p1 ''p1'' ''u1''"
proof -
  have "projectRoleCanKey (Some ''member'') ''deals'' ''read''" by code_simp
  moreover have "vd_allowed (fresh_verdict sample_control ''p1'' ''u1'' (''deals'', ''read''))"
    by (simp add: fresh_verdict_def parseVerdict_def sample_control_def arr_of_def)
  ultimately have "permission_ok sample_control ''p1'' ''u1'' ''member'' (rt_required read_deals)"
    by (simp add: permission_ok_def read_deals_def isElevatedAnalyticExport_def)
  moreover have "policy_ok read_deals get_p1 ''member'' []"
    by (simp add: policy_ok_def isDeniedByPolicy_def hasConditionalDenyForAction_def)
  moreover have "predicate_ok read_deals ''p1'' ''u1'' ''member'' [] NoPredicate"
    by (simp add: predicate_ok_def read_deals_def route_subject_def CROSS_ENTITY_SUBJECTS_def resolveAccessPredicate_def
        isAggregateRouteSubject_def AGGREGATE_ROUTE_SUBJECTS_def compileAccessPredicateResult_def no_predicate_def row_predicate_def)
      blast
  moreover have "writable_ok sample_control get_p1 ''p1''"
    by (simp add: writable_ok_def sample_control_def toLowerCase_def ascii_shift_def less_eq_char_def)
  moreover have "marked read_deals" by (simp add: marked_def read_deals_def)
  ultimately show ?thesis
    unfolding admissible_def Let_def sample_access sample_overlay by (auto simp: sample_access)
qed

theorem guard_admits_exactly_permitted_witness:
  "\<exists>out. fst (canActivate sample_control sample_config 1000 read_deals get_p1 warm_state) = Inr (Admitted out)
     \<and> ad_role out = ''member''"
proof -
  have g: "request_project read_deals get_p1 = ''p1''" "rq_user get_p1 = Some ''u1''"
    by (simp_all add: request_project_def read_deals_def get_p1_def)
  have "(\<exists>out. fst (canActivate sample_control sample_config 1000 read_deals get_p1 warm_state) = Inr (Admitted out))
      \<and> (\<forall>out. fst (canActivate sample_control sample_config 1000 read_deals get_p1 warm_state) = Inr (Admitted out)
          \<longrightarrow> admission_ok sample_control read_deals get_p1 ''p1'' ''u1'' out)"
    using guard_admits_exactly_permitted [OF sample_consistent sample_plain warm_coherent g(1) _ g(2), of sample_config]
      sample_admissible by simp
  then obtain out where "fst (canActivate sample_control sample_config 1000 read_deals get_p1 warm_state) = Inr (Admitted out)"
      "admission_ok sample_control read_deals get_p1 ''p1'' ''u1'' out"
    by blast
  then show ?thesis by (auto simp: admission_ok_def Let_def sample_access)
qed



text \<open>C33: The module guard forgets denies. When the read of the project fails in it, it leaves an empty
  snapshot; the access guard takes that for the rules of the project, so no deny applies to a
  route of a locked module, and it overwrites the rules kept for an outage with none.\<close>

theorem module_guard_outage_forgets_denies:
  assumes "ct_project ct pid = None" "map_of (gs_module st) pid = None" "m \<in> set (ensureLockedModules [])" "m \<noteq> []" "pid \<noteq> []"
    and "0 < gc_lkgTtl cfg" "0 < gc_max cfg" "keys_distinct (gs_lkg st)"
  shows "\<exists>mods snap st1 st2. moduleGuard ct cfg now (Some m) (Some pid) st = (Inr (Some (mods, snap)), st1)
    \<and> resolvePolicies ct cfg now pid ep (Some snap) (Some mods) st1 = (([], Some mods), st2)
    \<and> (\<exists>e. map_of (gs_lkg st2) pid = Some e \<and> fst (e_value e) = [])"
proof -
  have "moduleGuard ct cfg now (Some m) (Some pid) st = (Inr (Some (ensureLockedModules [], JArr [])), st)"
    using assms(1-5) by (simp add: moduleGuard_def resolveModules_def gbind_def gdo_def grefuse_def gret_def)
  moreover have "map_of (setBoundedCacheEntry (gs_lkg st) pid e (gc_max cfg)) pid = Some e" for e
    by (rule set_bounded_drop(2) [OF assms(8,7)])
  ultimately show ?thesis
    using assms(6) by (simp add: resolvePolicies_def storePolicyLkg_def)
qed

theorem module_guard_outage_forgets_denies_witness:
  "\<exists>mods snap st1 st2.
     moduleGuard (sample_control\<lparr>ct_project := (\<lambda>_. None)\<rparr>) sample_config 0 (Some ''deals'') (Some ''p1'')
       (empty_state\<lparr>gs_lkg := [(''p1'', \<lparr>e_value = ([blanket ''deals''], []), e_epoch = 3, e_expires = 9\<rparr>)]\<rparr>)
       = (Inr (Some (mods, snap)), st1)
     \<and> resolvePolicies (sample_control\<lparr>ct_project := (\<lambda>_. None)\<rparr>) sample_config 0 ''p1'' 3 (Some snap) (Some mods) st1
       = (([], Some mods), st2)"
proof -
  have "''deals'' \<in> set (ensureLockedModules [])"
    by (simp add: ensureLockedModules_def registry_locked validateModuleIds_def js_set_of_def)
  from module_guard_outage_forgets_denies [OF _ _ this, of "sample_control\<lparr>ct_project := (\<lambda>_. None)\<rparr>" "''p1''"
      "empty_state\<lparr>gs_lkg := [(''p1'', \<lparr>e_value = ([blanket ''deals''], []), e_epoch = 3, e_expires = 9\<rparr>)]\<rparr>" sample_config 0 3]
  show ?thesis by (simp add: sample_config_def empty_state_def) blast
qed

text \<open>C34: Behind the module guard no conditional rule works. Its snapshot keeps the rows as they were received, in
  wire form, so whatever condition a stored rule has, the access guard finds one it cannot compile (an
  allow is skipped, a deny blocks every record) and the rule is no blanket deny. A rule without a
  condition is not affected: its empty Struct arrives as \<open>{}\<close>, and it is a blanket deny exactly when the
  stored rule is one. The rows the access guard fetches itself are decoded to the stored condition in
  both cases. Of the channel \<open>recv\<close> it is assumed that it leaves out empty maps and empty text fields.\<close>

theorem snapshot_rules_never_compile:
  assumes "storable_rule r" "s \<noteq> []" "a \<noteq> []" "channel_delivers recv r"
  defines "row \<equiv> recv (sent_policy r)"
  shows "(pr_condition r \<noteq> JObj [] \<longrightarrow>
        compileRuleFragment (rule_of_js row) ctx = FragFailed \<and> \<not> isDeniedByPolicy [rule_of_js row] s a role)
    \<and> (pr_condition r = JObj [] \<longrightarrow>
        isDeniedByPolicy [rule_of_js row] s a role = isDeniedByPolicy [rule_of_js (policy_row r)] s a role)
    \<and> map (ar_condition \<circ> rule_of_js) (decodeGrpcModulePolicies (JArr [row])) = [pr_condition r]"
proof -
  have stored: "is_row (pr_condition r)" "plain_json (pr_condition r)" "pr_id r \<noteq> []" "pr_moduleId r \<noteq> []"
    using assms(1) by (simp_all add: storable_rule_def)
  let ?rule = "rule_of_js row"
  have c: "ar_condition ?rule = over_wire (jsonToStruct (pr_condition r))"
    by (simp add: rule_of_js_def row_def channel_deliversD(2) [OF assms(4)])
  have "compileRuleFragment ?rule ctx = FragFailed \<and> hasCondition ?rule" if some: "pr_condition r \<noteq> JObj []"
  proof -
    obtain fs where "over_wire (jsonToStruct (pr_condition r)) = JObj [(''fields'', JObj fs)]"
      using wire_condition_rejected [OF stored(2,1) some] by blast
    with fields_rejected [of "JObj fs"] show ?thesis
      by (cases "parseAbac (JObj [(''fields'', JObj fs)])")
         (simp_all add: compileRuleFragment_def rule_filter_def hasCondition_def c)
  qed
  moreover have "isDeniedByPolicy [?rule] s a role = isDeniedByPolicy [rule_of_js (policy_row r)] s a role"
    if none: "pr_condition r = JObj []"
  proof -
    have texts: "js_string (js_get row k) =
        (if js_string (js_get (policy_row r) k) = Some [] then None else js_string (js_get (policy_row r) k))"
      if "k \<in> {''effect'', ''subject'', ''action'', ''resource''}" for k
      using that by (auto simp: row_def channel_deliversD(3) [OF assms(4)] policy_row_def)
    have "ar_condition ?rule = JObj []" "ar_condition (rule_of_js (policy_row r)) = JObj []"
      using c none by (simp, simp add: rule_of_js_def policy_row_def)
    then have "hasCondition ?rule = hasCondition (rule_of_js (policy_row r))"
      by (simp only: hasCondition_def)
    with assms(2,3) show ?thesis
      by (auto simp: isDeniedByPolicy_def is_deny_def rule_of_js_def texts split: if_splits)
  qed
  moreover have "map (ar_condition \<circ> rule_of_js) (decodeGrpcModulePolicies (JArr [row])) = [pr_condition r]"
  proof -
    have "decodeStructField (over_wire (jsonToStruct (pr_condition r))) = pr_condition r"
      using received_back(2) [OF stored(2,1)] stored(1)
      by (cases "pr_condition r") (simp_all add: decodeStructField_def del: structToJson.simps)
    moreover have "js_get (js_set v k w) k = w" if "is_row v" for v k w
      using that by (cases v) (simp_all add: update_conv')
    ultimately show ?thesis
      using channel_deliversD(1,2) [OF assms(4)] by (simp add: row_def decodeGrpcModulePolicies_def rule_of_js_def)
  qed
  ultimately show ?thesis by (simp add: isDeniedByPolicy_def)
qed

theorem snapshot_rules_never_compile_witness:
  "compileRuleFragment (rule_of_js (received_row (sent_policy (deals_rule\<lparr>pr_condition := node_js (region_is ''EU'')\<rparr>)))) sample_ctx
     = FragFailed
   \<and> isDeniedByPolicy [rule_of_js (received_row (sent_policy deals_rule))] ''deals'' ''update'' ''member''
     = isDeniedByPolicy [rule_of_js (policy_row deals_rule)] ''deals'' ''update'' ''member''"
  using snapshot_rules_never_compile [OF _ _ _ received_row_delivers, of "deals_rule\<lparr>pr_condition := node_js (region_is ''EU'')\<rparr>"
      "''deals''" "''update''" sample_ctx]
    snapshot_rules_never_compile [OF _ _ _ received_row_delivers, of deals_rule "''deals''" "''update''" sample_ctx "''member''"]
  by (simp add: storable_rule_def deals_rule_def region_is_def)

end
