(* ===== verification/CacheFreshness.thy ===== *)
theory CacheFreshness
  imports GatewayGuard
begin

text \<open>
  How stale an access decision of the gateway can be. The control service changes over time; the
  requests of the gateway interleave: a request reads the epoch of its project, and some time
  later resolves its access with that epoch, through the shared caches
  (\<^verbatim>\<open>project-access.guard.ts\<close>, \<open>currentEpoch\<close>, \<open>resolveAccess\<close>, \<open>invalidateProjectAccessCache\<close>). A step
  relation describes all schedules; an invariant over its reachable states says of every cached
  decision when control gave it, with which epoch, and until when it is kept.

  Nothing is assumed of control: its epochs may stand still when access changes (the bump is best
  effort, a share expires without one) and an answer may carry an epoch younger than its decision
  (control reads the epoch after it resolved).
\<close>

subsection \<open>Eviction by hand\<close>

definition drop_prefix :: "string \<Rightarrow> 'v jsmap \<Rightarrow> 'v jsmap" where
  "drop_prefix p m = filter (\<lambda>(k, _). \<not> starts_with k p) m"

definition invalidateProjectAccessCache :: "string \<Rightarrow> string option \<Rightarrow> guard_state \<Rightarrow> guard_state" where
  "invalidateProjectAccessCache pid uid st =
     (let named = (case uid of Some u \<Rightarrow> if u = [] then None else Some u | None \<Rightarrow> None);
          prefix = (case named of Some u \<Rightarrow> pid @ '':'' @ u @ '':'' | None \<Rightarrow> pid @ '':'')
      in st\<lparr>gs_access := drop_prefix prefix (gs_access st),
            gs_pdp := drop_prefix prefix (gs_pdp st),
            gs_perms := (case named of Some u \<Rightarrow> map_delete (pid @ '':'' @ u) (gs_perms st)
                         | None \<Rightarrow> drop_prefix prefix (gs_perms st)),
            gs_policy := map_delete pid (gs_policy st),
            gs_lkg := map_delete pid (gs_lkg st),
            gs_epoch := map_delete pid (gs_epoch st)\<rparr>)"

lemma drop_prefix_get: "map_of (drop_prefix p m) k = Some v \<Longrightarrow> map_of m k = Some v"
  unfolding drop_prefix_def by (induction m) (auto split: if_splits dest: map_of_SomeD)

subsection \<open>Answers of control\<close>

text \<open>What \<open>resolveAccess\<close> makes of an answer, with the epoch it is stamped with.\<close>

definition access_of :: "jsval \<Rightarrow> string \<Rightarrow> string \<Rightarrow> rat \<Rightarrow> access" where
  "access_of r uid res E = \<lparr>ac_allowed = (js_get r ''allowed'' = JBool True), ac_role = text_field r ''role'',
     ac_visibility = Some (parseScope r uid res E)\<rparr>"

text \<open>No answer up to \<open>T\<close> that allows the user is stamped, by control or by the request that asked, with an
  epoch that control still reports from \<open>T\<close> on: the revocation at \<open>T\<close> moved the epoch past all of them.\<close>

definition epoch_moved :: "(int \<Rightarrow> control) \<Rightarrow> string \<Rightarrow> string \<Rightarrow> string \<Rightarrow> int \<Rightarrow> bool" where
  "epoch_moved ctl pid uid res T \<longleftrightarrow>
     (\<forall>u r t' t0. ct_visibility (ctl u) pid uid res = Some r \<longrightarrow> js_get r ''allowed'' = JBool True \<longrightarrow> t' \<le> u \<longrightarrow> T \<le> t0
        \<longrightarrow> reply_epoch r (ctl_epoch (ctl t') pid) \<noteq> ctl_epoch (ctl t0) pid)"

text \<open>From \<open>T\<close> on no answer allows the user.\<close>

definition revoked_from :: "(int \<Rightarrow> control) \<Rightarrow> string \<Rightarrow> string \<Rightarrow> string \<Rightarrow> int \<Rightarrow> bool" where
  "revoked_from ctl pid uid res T \<longleftrightarrow>
     (\<forall>u \<ge> T. \<forall>r. ct_visibility (ctl u) pid uid res = Some r \<longrightarrow> js_get r ''allowed'' \<noteq> JBool True)"

lemma allowed_access_of [simp]: "ac_allowed (access_of r uid res E) \<longleftrightarrow> js_get r ''allowed'' = JBool True"
  by (simp add: access_of_def)

subsection \<open>Interleaved requests\<close>

text \<open>
  A run: the clock, the caches, the requests that have read their epoch (with the time they did), and
  the decisions handed out (with that time and the time of handing out).
\<close>

record gw_run =
  rn_now :: int
  rn_state :: guard_state
  rn_pending :: "(string \<times> rat \<times> int) list"
  rn_log :: "(string \<times> string \<times> string \<times> access \<times> int \<times> int) list"

inductive gw_step :: "(int \<Rightarrow> control) \<Rightarrow> guard_config \<Rightarrow> gw_run \<Rightarrow> gw_run \<Rightarrow> bool" for ctl cfg where
  Tick: "rn_now s \<le> t \<Longrightarrow> gw_step ctl cfg s (s\<lparr>rn_now := t\<rparr>)"
| ReadEpoch: "currentEpoch (ctl (rn_now s)) cfg (rn_now s) pid (rn_state s) = (ep, st) \<Longrightarrow>
    gw_step ctl cfg s (s\<lparr>rn_state := st, rn_pending := (pid, ep, rn_now s) # rn_pending s\<rparr>)"
| Resolve: "(pid, ep, t) \<in> set (rn_pending s) \<Longrightarrow> plain_id pid \<Longrightarrow> plain_id uid \<Longrightarrow>
    resolveAccess (ctl (rn_now s)) cfg (rn_now s) pid uid res ep (rn_state s) = (Inr a, st) \<Longrightarrow>
    gw_step ctl cfg s (s\<lparr>rn_state := st, rn_log := (pid, uid, res, a, t, rn_now s) # rn_log s\<rparr>)"
| Evict: "gw_step ctl cfg s (s\<lparr>rn_state := invalidateProjectAccessCache pid uid (rn_state s)\<rparr>)"

inductive gw_reach :: "(int \<Rightarrow> control) \<Rightarrow> guard_config \<Rightarrow> gw_run \<Rightarrow> bool" for ctl cfg where
  Start: "gw_reach ctl cfg \<lparr>rn_now = t, rn_state = empty_state, rn_pending = [], rn_log = []\<rparr>"
| Next: "gw_reach ctl cfg s \<Longrightarrow> gw_step ctl cfg s s' \<Longrightarrow> gw_reach ctl cfg s'"

inductive_cases gw_stepE: "gw_step ctl cfg s s'"

subsection \<open>The invariant\<close>

text \<open>A time no longer ago than the epoch cache keeps its entries, seen from \<open>t\<close>.\<close>

abbreviation recent :: "guard_config \<Rightarrow> int \<Rightarrow> int \<Rightarrow> bool" where
  "recent cfg t t0 \<equiv> t - int (gc_epochTtl cfg) \<le> t0"

definition epoch_entry :: "(int \<Rightarrow> control) \<Rightarrow> guard_config \<Rightarrow> int \<Rightarrow> string \<Rightarrow> unit entry \<Rightarrow> bool" where
  "epoch_entry ctl cfg n pid e \<longleftrightarrow>
     (\<exists>t0 \<le> n. e_epoch e = ctl_epoch (ctl t0) pid \<and> e_expires e = t0 + int (gc_epochTtl cfg))"

text \<open>Control gave the answer \<open>r\<close> at \<open>t1\<close>, and the request that got it stamped it \<open>E\<close>.\<close>

definition answered :: "(int \<Rightarrow> control) \<Rightarrow> string \<Rightarrow> string \<Rightarrow> string \<Rightarrow> int \<Rightarrow> jsval \<Rightarrow> rat \<Rightarrow> bool" where
  "answered ctl pid uid res t1 r E \<longleftrightarrow> ct_visibility (ctl t1) pid uid res = Some r \<and>
     (\<exists>ep. E = reply_epoch r ep \<and> (ep = - 1 \<or> (\<exists>t' \<le> t1. ep = ctl_epoch (ctl t') pid)))"

definition access_entry :: "(int \<Rightarrow> control) \<Rightarrow> guard_config \<Rightarrow> int \<Rightarrow> string \<Rightarrow> access entry \<Rightarrow> bool" where
  "access_entry ctl cfg n k e \<longleftrightarrow>
     (\<forall>pid uid res. k = access_key pid uid res \<and> plain_id pid \<and> plain_id uid \<longrightarrow>
        (\<exists>t1 \<le> n. \<exists>r. answered ctl pid uid res t1 r (e_epoch e) \<and> 0 \<le> e_epoch e
           \<and> e_value e = access_of r uid res (e_epoch e) \<and> e_expires e = t1 + int (gc_accessTtl cfg)))"

definition recent_epoch :: "(int \<Rightarrow> control) \<Rightarrow> guard_config \<Rightarrow> string \<Rightarrow> rat \<Rightarrow> int \<Rightarrow> bool" where
  "recent_epoch ctl cfg pid ep t \<longleftrightarrow> ep = - 1 \<or> (\<exists>t0 \<le> t. recent cfg t t0 \<and> ep = ctl_epoch (ctl t0) pid)"

text \<open>What is known of a decision handed out at \<open>n\<close> to a request that read its epoch at \<open>t\<close>: it is the answer
  of \<open>n\<close> itself, or a cached answer that is not expired and carries an epoch control reported no longer
  before \<open>t\<close> than the epoch cache keeps it.\<close>

definition sound_decision ::
  "(int \<Rightarrow> control) \<Rightarrow> guard_config \<Rightarrow> string \<Rightarrow> string \<Rightarrow> string \<Rightarrow> access \<Rightarrow> int \<Rightarrow> int \<Rightarrow> bool"
where
  "sound_decision ctl cfg pid uid res a t n \<longleftrightarrow>
     (\<exists>t1 r E. t1 \<le> n \<and> answered ctl pid uid res t1 r E \<and> a = access_of r uid res E \<and>
        (t1 = n \<or> n < t1 + int (gc_accessTtl cfg) \<and> 0 \<le> E \<and>
           (\<exists>t0 \<le> t. recent cfg t t0 \<and> E = ctl_epoch (ctl t0) pid)))"

definition gw_inv :: "(int \<Rightarrow> control) \<Rightarrow> guard_config \<Rightarrow> gw_run \<Rightarrow> bool" where
  "gw_inv ctl cfg s \<longleftrightarrow>
     lru.entries (gs_epoch (rn_state s)) (epoch_entry ctl cfg (rn_now s)) \<and>
     lru.entries (gs_access (rn_state s)) (access_entry ctl cfg (rn_now s)) \<and>
     (\<forall>(pid, ep, t) \<in> set (rn_pending s). t \<le> rn_now s \<and> recent_epoch ctl cfg pid ep t) \<and>
     (\<forall>(pid, uid, res, a, t, n) \<in> set (rn_log s). t \<le> n \<and> sound_decision ctl cfg pid uid res a t n)"

text \<open>Time may pass: every bound by the clock is an upper one.\<close>

lemma later_ok:
  assumes "n \<le> n'"
  shows "epoch_entry ctl cfg n pid e \<Longrightarrow> epoch_entry ctl cfg n' pid e"
    "access_entry ctl cfg n k x \<Longrightarrow> access_entry ctl cfg n' k x"
  unfolding epoch_entry_def access_entry_def using assms order_trans by blast+

lemma gw_inv_start: "gw_inv ctl cfg \<lparr>rn_now = t, rn_state = empty_state, rn_pending = [], rn_log = []\<rparr>"
  by (simp add: gw_inv_def empty_state_def lru.entries_def)

lemma gw_inv_tick:
  assumes "gw_inv ctl cfg s" "rn_now s \<le> t"
  shows "gw_inv ctl cfg (s\<lparr>rn_now := t\<rparr>)"
  using assms(1) later_ok [OF assms(2)] order_trans [OF _ assms(2)]
  unfolding gw_inv_def by (auto simp: lru.entries_def)

lemma evicted_entries:
  "map_of (gs_epoch (invalidateProjectAccessCache pid uid st)) k = Some e \<Longrightarrow> map_of (gs_epoch st) k = Some e"
  "map_of (gs_access (invalidateProjectAccessCache pid uid st)) k = Some a \<Longrightarrow> map_of (gs_access st) k = Some a"
  by (auto simp: invalidateProjectAccessCache_def Let_def map_of_delete dest: drop_prefix_get split: if_splits)

lemma gw_inv_evict: "gw_inv ctl cfg s \<Longrightarrow> gw_inv ctl cfg (s\<lparr>rn_state := invalidateProjectAccessCache pid uid (rn_state s)\<rparr>)"
  unfolding gw_inv_def lru.entries_def by (auto dest!: evicted_entries)

text \<open>The epoch a request reads was current no longer ago than the epoch cache keeps it.\<close>

lemma currentEpoch_recent:
  assumes "gw_inv ctl cfg s" "currentEpoch (ctl (rn_now s)) cfg (rn_now s) pid (rn_state s) = (ep, st)"
  shows "recent_epoch ctl cfg pid ep (rn_now s)"
proof (cases "cached_epoch cfg (rn_now s) pid (rn_state s)")
  case (Some e)
  then obtain x where x: "map_of (gs_epoch (rn_state s)) pid = Some x" "e_expires x > rn_now s" "e_epoch x = e"
    by (auto simp: cached_epoch_def split: if_splits option.splits)
  with assms(1) have "epoch_entry ctl cfg (rn_now s) pid x"
    unfolding gw_inv_def by (blast dest: lru.entriesD)
  with Some x assms(2) show ?thesis by (auto simp: currentEpoch_def epoch_entry_def recent_epoch_def)
next
  case None
  with assms(2) show ?thesis
    by (auto simp: currentEpoch_def Let_def ctl_epoch_def recent_epoch_def split: option.splits intro!: exI [of _ "rn_now s"])
qed

lemma gw_inv_read:
  assumes inv: "gw_inv ctl cfg s" and read: "currentEpoch (ctl (rn_now s)) cfg (rn_now s) pid (rn_state s) = (ep, st)"
  shows "gw_inv ctl cfg (s\<lparr>rn_state := st, rn_pending := (pid, ep, rn_now s) # rn_pending s\<rparr>)"
proof -
  have st: "st = rn_state s \<or> (\<exists>mx. st = (rn_state s)\<lparr>gs_epoch := setBoundedCacheEntry (gs_epoch (rn_state s)) pid
      \<lparr>e_value = (), e_epoch = ctl_epoch (ctl (rn_now s)) pid, e_expires = rn_now s + int (gc_epochTtl cfg)\<rparr> mx\<rparr>)"
    using read by (auto simp: currentEpoch_def Let_def ctl_epoch_def split: option.splits if_splits)
  have "epoch_entry ctl cfg (rn_now s) pid
      \<lparr>e_value = (), e_epoch = ctl_epoch (ctl (rn_now s)) pid, e_expires = rn_now s + int (gc_epochTtl cfg)\<rparr>"
    by (auto simp: epoch_entry_def)
  then have "lru.entries (gs_epoch st) (epoch_entry ctl cfg (rn_now s))"
    using st inv unfolding gw_inv_def by (auto intro: lru.put_entries)
  moreover have "gs_access st = gs_access (rn_state s)" using st by auto
  ultimately show ?thesis
    using inv currentEpoch_recent [OF inv read] unfolding gw_inv_def by simp
qed

text \<open>An answer of control as the request with epoch \<open>ep\<close> stamps it.\<close>

lemma pending_answered:
  assumes "gw_inv ctl cfg s" "(pid, ep, t) \<in> set (rn_pending s)"
    and "ct_visibility (ctl (rn_now s)) pid uid res = Some r"
  shows "answered ctl pid uid res (rn_now s) r (reply_epoch r ep)"
proof -
  have "t \<le> rn_now s" "recent_epoch ctl cfg pid ep t" using assms(1,2) unfolding gw_inv_def by auto
  then have "ep = - 1 \<or> (\<exists>t' \<le> rn_now s. ep = ctl_epoch (ctl t') pid)"
    unfolding recent_epoch_def using order_trans by blast
  then show ?thesis using assms(3) unfolding answered_def by blast
qed

lemma resolved_sound:
  assumes inv: "gw_inv ctl cfg s" and enf: "gc_enforce cfg"
    and pend: "(pid, ep, t) \<in> set (rn_pending s)" and p: "plain_id pid" "plain_id uid"
    and res: "resolveAccess (ctl (rn_now s)) cfg (rn_now s) pid uid res ep (rn_state s) = (Inr a, st)"
  shows "sound_decision ctl cfg pid uid res a t (rn_now s)"
proof (cases "served (gc_accessTtl cfg) (rn_now s) ep (access_key pid uid res) (gs_access (rn_state s))")
  case (Some b)
  have t: "recent_epoch ctl cfg pid ep t" using inv pend unfolding gw_inv_def by auto
  from Some obtain e where e: "map_of (gs_access (rn_state s)) (access_key pid uid res) = Some e" "e_epoch e = ep"
      "e_value e = b" "e_expires e > rn_now s"
    by (auto simp: served_Some)
  then have "access_entry ctl cfg (rn_now s) (access_key pid uid res) e"
    using inv unfolding gw_inv_def by (blast dest: lru.entriesD)
  with e p obtain t1 r where r: "t1 \<le> rn_now s" "answered ctl pid uid res t1 r ep" "0 \<le> ep"
      "b = access_of r uid res ep" "rn_now s < t1 + int (gc_accessTtl cfg)"
    unfolding access_entry_def by metis
  moreover have "a = b" using res Some by (simp add: resolveAccess_def)
  moreover have "\<exists>t0 \<le> t. recent cfg t t0 \<and> ep = ctl_epoch (ctl t0) pid"
    using t r(3) unfolding recent_epoch_def by auto
  ultimately show ?thesis unfolding sound_decision_def by blast
next
  case None
  then obtain r where r: "ct_visibility (ctl (rn_now s)) pid uid res = Some r"
    using res enf by (auto simp: resolveAccess_def split: option.splits)
  with res None have "a = access_of r uid res (reply_epoch r ep)"
    by (simp add: resolveAccess_def Let_def access_of_def)
  with pending_answered [OF inv pend r] show ?thesis unfolding sound_decision_def by blast
qed

lemma gw_inv_resolve:
  assumes inv: "gw_inv ctl cfg s" and enf: "gc_enforce cfg"
    and pend: "(pid, ep, t) \<in> set (rn_pending s)" and p: "plain_id pid" "plain_id uid"
    and res: "resolveAccess (ctl (rn_now s)) cfg (rn_now s) pid uid res ep (rn_state s) = (Inr a, st)"
  shows "gw_inv ctl cfg (s\<lparr>rn_state := st, rn_log := (pid, uid, res, a, t, rn_now s) # rn_log s\<rparr>)"
proof -
  have put: "access_entry ctl cfg (rn_now s) (access_key pid uid res) \<lparr>e_value = access_of r uid res (reply_epoch r ep),
      e_epoch = reply_epoch r ep, e_expires = rn_now s + int (gc_accessTtl cfg)\<rparr>"
    if "ct_visibility (ctl (rn_now s)) pid uid res = Some r" "0 \<le> reply_epoch r ep" for r
    using p that pending_answered [OF inv pend that(1)]
    by (auto simp: access_entry_def access_key_inj intro!: exI [of _ "rn_now s"] exI [of _ r])
  have "st = rn_state s \<or> (\<exists>r mx. ct_visibility (ctl (rn_now s)) pid uid res = Some r \<and> 0 \<le> reply_epoch r ep
      \<and> st = (rn_state s)\<lparr>gs_access := setBoundedCacheEntry (gs_access (rn_state s)) (access_key pid uid res)
      \<lparr>e_value = access_of r uid res (reply_epoch r ep), e_epoch = reply_epoch r ep,
       e_expires = rn_now s + int (gc_accessTtl cfg)\<rparr> mx\<rparr>)"
    using res by (auto simp: resolveAccess_def Let_def access_of_def split: option.splits if_splits)
  with inv have "lru.entries (gs_access st) (access_entry ctl cfg (rn_now s))" "gs_epoch st = gs_epoch (rn_state s)"
    unfolding gw_inv_def by (auto intro!: lru.put_entries put)
  moreover have "t \<le> rn_now s" using inv pend unfolding gw_inv_def by auto
  ultimately show ?thesis using inv resolved_sound [OF assms] unfolding gw_inv_def by simp
qed

lemma gw_inv_reach: "gw_reach ctl cfg s \<Longrightarrow> gc_enforce cfg \<Longrightarrow> gw_inv ctl cfg s"
proof (induction rule: gw_reach.induct)
  case (Next s s')
  then have "gw_inv ctl cfg s" by simp
  with Next show ?case
    by (auto elim!: gw_stepE intro: gw_inv_tick gw_inv_evict gw_inv_read gw_inv_resolve)
qed (rule gw_inv_start)

lemma sound_decision_revoked:
  assumes "sound_decision ctl cfg pid uid res a t n" "t \<le> n" "revoked_from ctl pid uid res T"
    and "T + int (gc_accessTtl cfg) \<le> n \<or> T + int (gc_epochTtl cfg) \<le> t \<and> epoch_moved ctl pid uid res T"
  shows "\<not> ac_allowed a"
proof
  assume "ac_allowed a"
  with assms(1) obtain t1 r E where r: "answered ctl pid uid res t1 r E" "js_get r ''allowed'' = JBool True"
    and age: "t1 = n \<or> n < t1 + int (gc_accessTtl cfg) \<and> 0 \<le> E \<and> (\<exists>t0 \<le> t. recent cfg t t0 \<and> E = ctl_epoch (ctl t0) pid)"
    unfolding sound_decision_def by (metis allowed_access_of)
  have early: "t1 < T"
    using r assms(3) unfolding answered_def revoked_from_def by (meson not_le)
  then have cached: "t1 \<noteq> n" using assms(2,4) by auto
  with age early assms(4) have moved: "epoch_moved ctl pid uid res T" "T + int (gc_epochTtl cfg) \<le> t" by auto
  from age cached obtain t0 where t0: "recent cfg t t0" "E = ctl_epoch (ctl t0) pid" "0 \<le> E" by blast
  from r(1) obtain ep where ep: "E = reply_epoch r ep" "ep = - 1 \<or> (\<exists>t' \<le> t1. ep = ctl_epoch (ctl t') pid)"
      "ct_visibility (ctl t1) pid uid res = Some r"
    unfolding answered_def by blast
  have "\<exists>t' \<le> t1. E = reply_epoch r (ctl_epoch (ctl t') pid)"
    using ep(1,2) t0(3) by (auto simp: reply_epoch_def split: if_splits)
  then obtain t' where "t' \<le> t1" "E = reply_epoch r (ctl_epoch (ctl t') pid)" by blast
  moreover have "T \<le> t0" using moved(2) t0(1) by simp
  ultimately show False using moved(1) ep(3) r(2) t0(2) unfolding epoch_moved_def by metis
qed

text \<open>C26: Staleness is bounded, whatever control does. In every schedule of interleaved requests, evictions,
  failing calls and changes at the control service, the decision the gateway hands out at time \<open>n\<close> to a
  request that read its epoch at \<open>t\<close> is either control's answer of \<open>n\<close>, or a cached answer given less than
  the lifetime of the access cache before \<open>n\<close> and stamped with an epoch that control reported no earlier
  than the lifetime of the epoch cache before \<open>t\<close>. So once control stops allowing a user for good at \<open>T\<close>, a
  decision handed out after the lifetime of the access cache refuses him without any assumption on
  the epochs, and one for a request begun after the (short) lifetime of the epoch cache refuses him if
  the revocation moved the epoch past the stamp of every allowing answer. Control does not
  guarantee the latter: the bump is best effort and the stamp is read after the decision is
  resolved.\<close>

theorem access_staleness_bounded:
  assumes "gw_reach ctl cfg s" "gc_enforce cfg" "(pid, uid, res, a, t, n) \<in> set (rn_log s)"
  shows "(\<exists>t1 r E. t1 \<le> n \<and> ct_visibility (ctl t1) pid uid res = Some r \<and> a = access_of r uid res E \<and>
       (t1 = n \<or> n < t1 + int (gc_accessTtl cfg) \<and>
          (\<exists>t0 \<le> t. t - int (gc_epochTtl cfg) \<le> t0 \<and> E = ctl_epoch (ctl t0) pid)))
    \<and> (revoked_from ctl pid uid res T \<and>
         (T + int (gc_accessTtl cfg) \<le> n \<or> T + int (gc_epochTtl cfg) \<le> t \<and> epoch_moved ctl pid uid res T)
         \<longrightarrow> \<not> ac_allowed a)"
proof
  have log: "t \<le> n" "sound_decision ctl cfg pid uid res a t n"
    using gw_inv_reach [OF assms(1,2)] assms(3) unfolding gw_inv_def by auto
  then show "\<exists>t1 r E. t1 \<le> n \<and> ct_visibility (ctl t1) pid uid res = Some r \<and> a = access_of r uid res E \<and>
       (t1 = n \<or> n < t1 + int (gc_accessTtl cfg) \<and>
          (\<exists>t0 \<le> t. t - int (gc_epochTtl cfg) \<le> t0 \<and> E = ctl_epoch (ctl t0) pid))"
    unfolding sound_decision_def answered_def by blast
  show "revoked_from ctl pid uid res T \<and>
         (T + int (gc_accessTtl cfg) \<le> n \<or> T + int (gc_epochTtl cfg) \<le> t \<and> epoch_moved ctl pid uid res T)
         \<longrightarrow> \<not> ac_allowed a"
    using sound_decision_revoked [OF log(2,1)] by blast
qed

subsection \<open>A schedule\<close>

text \<open>Control allows the user before time 1, stamping \<open>e\<close>, and reports epoch 4 and refuses him from then on.\<close>

definition revoking_control :: "rat \<Rightarrow> int \<Rightarrow> control" where
  "revoking_control e t =
     (if t < 1 then sample_control\<lparr>ct_visibility := \<lambda>_ _ _. Some (JObj [(''allowed'', JBool True), (''epoch'', JNum e)])\<rparr>
      else sample_control\<lparr>ct_epoch := \<lambda>_. Some (JObj [(''epoch'', JNum 4)]),
             ct_visibility := \<lambda>_ _ _. Some (JObj [(''epoch'', JNum 4)])\<rparr>)"

text \<open>A request that begins and ends at the present time.\<close>

lemma gw_request:
  assumes "gw_reach ctl cfg s" "gc_enforce cfg" "plain_id pid" "plain_id uid"
    and "currentEpoch (ctl (rn_now s)) cfg (rn_now s) pid (rn_state s) = (ep, st)"
    and "resolveAccess (ctl (rn_now s)) cfg (rn_now s) pid uid res ep st = (Inr a, st')"
  shows "gw_reach ctl cfg (s\<lparr>rn_state := st', rn_pending := (pid, ep, rn_now s) # rn_pending s,
     rn_log := (pid, uid, res, a, rn_now s, rn_now s) # rn_log s\<rparr>)"
proof -
  let ?s = "s\<lparr>rn_state := st, rn_pending := (pid, ep, rn_now s) # rn_pending s\<rparr>"
  have "gw_step ctl cfg s ?s" using assms(5) by (rule gw_step.ReadEpoch)
  with assms(1) have "gw_reach ctl cfg ?s" by (rule gw_reach.Next)
  moreover have "gw_step ctl cfg ?s (?s\<lparr>rn_state := st', rn_log := (pid, uid, res, a, rn_now s, rn_now ?s) # rn_log ?s\<rparr>)"
    by (rule gw_step.Resolve [OF _ assms(3,4), of ep]) (use assms(6) in simp_all)
  ultimately have "gw_reach ctl cfg (?s\<lparr>rn_state := st', rn_log := (pid, uid, res, a, rn_now s, rn_now ?s) # rn_log ?s\<rparr>)"
    by (rule gw_reach.Next)
  then show ?thesis by (cases s) simp
qed

text \<open>One request at time 0 on empty caches, one at \<open>t\<close>.\<close>

definition gw_request_at :: "(int \<Rightarrow> control) \<Rightarrow> int \<Rightarrow> access guard_step" where
  "gw_request_at ctl t st =
     (let (ep, st1) = currentEpoch (ctl t) sample_config t ''p1'' st
      in resolveAccess (ctl t) sample_config t ''p1'' ''u1'' ''deals'' ep st1)"

lemma two_requests:
  assumes "\<And>t. ct_visibility (ctl t) ''p1'' ''u1'' ''deals'' \<noteq> None" "0 \<le> t"
  shows "\<exists>s a b. fst (gw_request_at ctl t (snd (gw_request_at ctl 0 empty_state))) = Inr b
     \<and> gw_reach ctl sample_config s
     \<and> rn_log s = [(''p1'', ''u1'', ''deals'', b, t, t), (''p1'', ''u1'', ''deals'', a, 0, 0)]"
proof -
  have ids: "plain_id ''p1''" "plain_id ''u1''" and enf: "gc_enforce sample_config"
    by (simp_all add: plain_id_def sample_config_def)
  have step: "\<exists>ep st1 a st'. currentEpoch (ctl u) sample_config u ''p1'' st = (ep, st1)
      \<and> resolveAccess (ctl u) sample_config u ''p1'' ''u1'' ''deals'' ep st1 = (Inr a, st')
      \<and> gw_request_at ctl u st = (Inr a, st')" for u st
  proof -
    obtain ep st1 where 1: "currentEpoch (ctl u) sample_config u ''p1'' st = (ep, st1)" by fastforce
    have "\<exists>a. fst (resolveAccess (ctl u) sample_config u ''p1'' ''u1'' ''deals'' ep st1) = Inr a"
      using assms(1) [of u] by (auto simp: resolveAccess_def Let_def split: option.splits)
    with 1 show ?thesis by (fastforce simp: gw_request_at_def intro: prod_eqI)
  qed
  let ?s0 = "\<lparr>rn_now = 0, rn_state = empty_state, rn_pending = [], rn_log = []\<rparr> :: gw_run"
  obtain ep st1 a st' where 0: "currentEpoch (ctl 0) sample_config 0 ''p1'' empty_state = (ep, st1)"
      "resolveAccess (ctl 0) sample_config 0 ''p1'' ''u1'' ''deals'' ep st1 = (Inr a, st')"
      "gw_request_at ctl 0 empty_state = (Inr a, st')"
    using step by blast
  have "gw_reach ctl sample_config (?s0\<lparr>rn_state := st', rn_pending := [(''p1'', ep, 0)],
      rn_log := [(''p1'', ''u1'', ''deals'', a, 0, 0)]\<rparr>)" (is "gw_reach _ _ ?s1")
    using gw_request [OF gw_reach.Start [of ctl sample_config 0] enf ids, of ep st1 "''deals''" a st'] 0 by simp
  then have reach: "gw_reach ctl sample_config (?s1\<lparr>rn_now := t\<rparr>)"
    by (rule gw_reach.Next) (rule gw_step.Tick, use assms(2) in simp)
  obtain ep' st1' b st'' where t: "currentEpoch (ctl t) sample_config t ''p1'' st' = (ep', st1')"
      "resolveAccess (ctl t) sample_config t ''p1'' ''u1'' ''deals'' ep' st1' = (Inr b, st'')"
      "gw_request_at ctl t st' = (Inr b, st'')"
    using step by blast
  from gw_request [OF reach enf ids, of ep' st1' "''deals''" b st''] t
  have "gw_reach ctl sample_config (?s1\<lparr>rn_now := t, rn_state := st'', rn_pending := [(''p1'', ep', t), (''p1'', ep, 0)],
      rn_log := [(''p1'', ''u1'', ''deals'', b, t, t), (''p1'', ''u1'', ''deals'', a, 0, 0)]\<rparr>)" (is "gw_reach _ _ ?s2")
    by simp
  moreover have "fst (gw_request_at ctl t (snd (gw_request_at ctl 0 empty_state))) = Inr b" by (simp add: 0(3) t(3))
  ultimately show ?thesis by (intro exI [of _ ?s2] exI [of _ a] exI [of _ b]) simp
qed

theorem access_staleness_bounded_witness:
  "\<exists>s a b. gw_reach (revoking_control 3) sample_config s
     \<and> rn_log s = [(''p1'', ''u1'', ''deals'', b, 2001, 2001), (''p1'', ''u1'', ''deals'', a, 0, 0)] \<and> \<not> ac_allowed b"
proof -
  have enf: "gc_enforce sample_config" by (simp add: sample_config_def)
  have "\<And>t. ct_visibility (revoking_control 3 t) ''p1'' ''u1'' ''deals'' \<noteq> None"
    by (simp add: revoking_control_def)
  from two_requests [of "revoking_control 3" 2001, OF this] obtain s a b where s: "gw_reach (revoking_control 3) sample_config s"
      "rn_log s = [(''p1'', ''u1'', ''deals'', b, 2001, 2001), (''p1'', ''u1'', ''deals'', a, 0, 0)]"
    by force
  have "revoked_from (revoking_control 3) ''p1'' ''u1'' ''deals'' 1"
    by (simp add: revoked_from_def revoking_control_def)
  moreover have "epoch_moved (revoking_control 3) ''p1'' ''u1'' ''deals'' 1"
    by (auto simp: epoch_moved_def revoking_control_def reply_epoch_def ctl_epoch_def split: if_splits)
  ultimately have "\<not> ac_allowed b"
    using access_staleness_bounded [OF s(1) enf, of "''p1''" "''u1''" "''deals''" b 2001 2001 1] s(2)
    by (simp add: sample_config_def)
  with s show ?thesis by blast
qed

text \<open>The stamp read after the decision: an answer that allows, resolved just before the revocation, carries the
  epoch after it. It is served for the whole lifetime of the access cache, long after the epoch cache
  knows the new epoch.\<close>

lemma late_stamp_outlives_revocation:
  "\<exists>s a b. gw_reach (revoking_control 4) sample_config s \<and> revoked_from (revoking_control 4) ''p1'' ''u1'' ''deals'' 1
     \<and> rn_log s = [(''p1'', ''u1'', ''deals'', b, 20000, 20000), (''p1'', ''u1'', ''deals'', a, 0, 0)] \<and> ac_allowed b"
proof -
  have "\<And>t. ct_visibility (revoking_control 4 t) ''p1'' ''u1'' ''deals'' \<noteq> None"
    by (simp add: revoking_control_def)
  from two_requests [of "revoking_control 4" 20000, OF this] obtain s a b where
    b: "fst (gw_request_at (revoking_control 4) 20000 (snd (gw_request_at (revoking_control 4) 0 empty_state))) = Inr b"
    and s: "gw_reach (revoking_control 4) sample_config s"
      "rn_log s = [(''p1'', ''u1'', ''deals'', b, 20000, 20000), (''p1'', ''u1'', ''deals'', a, 0, 0)]"
    by force
  have "fst (gw_request_at (revoking_control 4) 20000 (snd (gw_request_at (revoking_control 4) 0 empty_state))) =
      Inr (access_of (JObj [(''allowed'', JBool True), (''epoch'', JNum 4)]) ''u1'' ''deals'' 4)"
    by (simp add: gw_request_at_def currentEpoch_def cached_epoch_def resolveAccess_def served_def empty_state_def
        sample_config_def revoking_control_def sample_control_def reply_epoch_def access_of_def Let_def
        setBoundedCacheEntry_def touchMapEntry_def map_put_def map_delete_def evictMapToMaxSize.simps)
  then have "ac_allowed b" by (simp add: b)
  moreover have "revoked_from (revoking_control 4) ''p1'' ''u1'' ''deals'' 1"
    by (simp add: revoked_from_def revoking_control_def)
  ultimately show ?thesis using s by blast
qed

end
