(* ===== verification/PermRbac.thy ===== *)
theory PermRbac
  imports Registry
begin

text \<open>
  The role-based layer of the permission engine (\<^verbatim>\<open>shared/src/permission-rbac.ts\<close>): the catalog of a
  project with the system subjects, the expansion of the five system roles over a catalog, the map from
  the pairs of route decorators to catalog keys, the compiler of a user's effective permissions from
  role keys and addressed grants, the decision, and the check against self-escalation.
\<close>

subsection \<open>System subjects and the catalog of a project\<close>

definition SYSTEM_PERMISSION_MODULE :: module_definition where
  "SYSTEM_PERMISSION_MODULE = \<lparr>md_id = SYSTEM_PERMISSION_MODULE_ID, md_locked = True,
     md_dependencies = [], md_softDependencies = [], md_integrationMethods = [],
     md_personalSettingsSchema = [], md_integrationSettingsSchema = [], md_requiredBeforeEnable = [],
     md_policyCapabilities = [(''roles'', [''read'', ''manage'']), (''project'', [''read'', ''manage'', ''delete'']),
       (''members'', [''manage''])]\<rparr>"

definition ORG_ROLE_PERMISSIONS :: "(string \<times> string list) list" where
  "ORG_ROLE_PERMISSIONS =
     [(''platform_owner'', [''org:roles:read'', ''org:roles:manage'']),
      (''platform_admin'', [''org:roles:read'']),
      (''employee'', [])]"

definition orgRoleHasPermission :: "string option \<Rightarrow> string \<Rightarrow> bool" where
  "orgRoleHasPermission role key =
     (case role of None \<Rightarrow> False
      | Some r \<Rightarrow> r \<noteq> [] \<and> (case map_of ORG_ROLE_PERMISSIONS r of None \<Rightarrow> False | Some ks \<Rightarrow> key \<in> set ks))"

definition systemSubjectsCatalog :: catalog where
  "systemSubjectsCatalog = buildPermissionCatalog [moduleDefinitionToManifest SYSTEM_PERMISSION_MODULE]"

definition merge_entry :: "(string \<times> string list) list \<Rightarrow> catalog_entry \<Rightarrow> (string \<times> string list) list" where
  "merge_entry m e =
     AList.update (ce_subject e)
       (foldl js_add (case map_of m (ce_subject e) of None \<Rightarrow> [] | Some as \<Rightarrow> as) (ce_actions e)) m"

definition buildProjectCatalogWithSystem :: "string list \<Rightarrow> catalog" where
  "buildProjectCatalogWithSystem enabledModuleIds =
     (let business = buildProjectPermissionCatalog enabledModuleIds;
          system = systemSubjectsCatalog;
          bySubject = foldl merge_entry [] (cat_entries business @ cat_entries system)
      in \<lparr>cat_entries = js_sort_by (\<lambda>a b. ce_subject a \<le> ce_subject b)
            (map (\<lambda>(s, as). \<lparr>ce_subject = s, ce_actions = js_sort as, ce_moduleIds = []\<rparr>) bySubject),
          cat_keys = js_sort (js_set_of (cat_keys business @ cat_keys system))\<rparr>)"

subsection \<open>System roles\<close>

definition SYSTEM_PROJECT_ROLE_KEYS :: "project_role list" where
  "SYSTEM_PROJECT_ROLE_KEYS = PROJECT_ROLES"

fun SYSTEM_ROLE_ACTIONS :: "project_role \<Rightarrow> string list" where
  "SYSTEM_ROLE_ACTIONS Owner = [''read'', ''write'', ''delete'', ''manage'', ''move'', ''export'', ''import'',
     ''execute'', ''invoke'', ''moderate'']"
| "SYSTEM_ROLE_ACTIONS Admin = [''read'', ''write'', ''delete'', ''manage'', ''move'', ''export'', ''import'',
     ''execute'', ''invoke'', ''moderate'']"
| "SYSTEM_ROLE_ACTIONS Manager = [''read'', ''write'', ''delete'', ''move'', ''export'', ''import'',
     ''execute'', ''invoke'', ''moderate'']"
| "SYSTEM_ROLE_ACTIONS Member = [''read'', ''write'', ''move'', ''export'']"
| "SYSTEM_ROLE_ACTIONS Viewer = [''read'']"

definition ELEVATED_EXPORT_SUBJECTS :: "string list" where
  "ELEVATED_EXPORT_SUBJECTS = [''reports'', ''statistics'']"

definition isElevatedForLowRole :: "string \<Rightarrow> string \<Rightarrow> bool" where
  "isElevatedForLowRole subject action =
     (if action = ''manage'' \<or> action = ''delete'' then True
      else if action = ''import'' then True
      else if action = ''export'' \<and> subject \<in> set ELEVATED_EXPORT_SUBJECTS then True
      else False)"

definition isLowRole :: "project_role \<Rightarrow> bool" where
  "isLowRole role \<longleftrightarrow> role = Member \<or> role = Viewer"

definition isForbiddenProjectPermission :: "string \<Rightarrow> string \<Rightarrow> bool" where
  "isForbiddenProjectPermission subject action =
     (if subject = ''auth'' \<or> starts_with subject ''auth.'' then True
      else if subject = ''billing'' \<and> action = ''manage'' then True
      else if subject = ''org'' \<or> starts_with subject ''org.'' \<or> starts_with subject ''org:'' then True
      else False)"

definition isProjectGrantablePermission :: "string \<Rightarrow> bool" where
  "isProjectGrantablePermission key =
     (case parsePermissionKey key of None \<Rightarrow> False | Some (s, a) \<Rightarrow> \<not> isForbiddenProjectPermission s a)"

text \<open>The keys of the entries, the allow-list of the role, the deny-list of the role.\<close>

definition expand_entries :: "project_role \<Rightarrow> catalog \<Rightarrow> string list" where
  "expand_entries role c =
     foldl js_add []
       (concat (map (\<lambda>e. map (permissionKey (ce_subject e))
          (filter (\<lambda>a. a \<in> set (SYSTEM_ROLE_ACTIONS role) \<and> \<not> (isLowRole role \<and> isElevatedForLowRole (ce_subject e) a))
             (ce_actions e))) (cat_entries c)))"

definition expandSystemRolePermissions :: "project_role \<Rightarrow> catalog \<Rightarrow> string list" where
  "expandSystemRolePermissions role c =
     (let extras = (case PROJECT_ROLE_KEY_ALLOWLIST role of None \<Rightarrow> [] | Some ks \<Rightarrow> ks);
          deny = (case PROJECT_ROLE_KEY_DENYLIST role of None \<Rightarrow> [] | Some ks \<Rightarrow> ks)
      in js_sort (js_remove_all deny
           (foldl js_add (expand_entries role c)
              (filter (\<lambda>k. cat_hasKey c k \<and> isProjectGrantablePermission k) extras))))"

definition expandAllSystemRoles :: "catalog \<Rightarrow> (project_role \<times> string list) list" where
  "expandAllSystemRoles c = map (\<lambda>r. (r, expandSystemRolePermissions r c)) [Owner, Admin, Manager, Member, Viewer]"

subsection \<open>Decorator pairs\<close>

definition DECORATOR_SUBJECT_MAP :: "(string \<times> string list) list" where
  "DECORATOR_SUBJECT_MAP =
     [(''deals:move'', [''deals.stage:move'']),
      (''documents:generate'', [''documents.generate:execute'']),
      (''companies:reassign'', [''companies.owner:write'']),
      (''access:simulate'', [''access:read'']),
      (''companies:execute'', [''companies:write'', ''companies:delete''])]"

definition resolveDecoratorPermission :: "string \<Rightarrow> string \<Rightarrow> catalog \<Rightarrow> string list option" where
  "resolveDecoratorPermission subject action c =
     (let normAction = normalizeAction action;
          override = (case map_of DECORATOR_SUBJECT_MAP (mk_key subject action) of
                        Some ks \<Rightarrow> Some ks
                      | None \<Rightarrow> map_of DECORATOR_SUBJECT_MAP (mk_key subject normAction))
      in case override of
           Some ks \<Rightarrow> if list_all (cat_hasKey c) ks then Some ks else None
         | None \<Rightarrow> if cat_hasKey c (mk_key subject normAction) then Some [mk_key subject normAction] else None)"

subsection \<open>Effective permissions\<close>

record role_input =
  ri_keys :: "string list"
  ri_moduleScope :: "string option"
  ri_source :: "string option"

datatype grant_effect = GAllow | GDeny

record grant_input =
  gi_effect :: grant_effect
  gi_key :: string
  gi_source :: "string option"

record effective_set =
  ef_allow :: "string list"
  ef_deny :: "string list"
  ef_sources :: "(string \<times> string) list"

definition keyInModuleScope :: "string \<Rightarrow> string \<Rightarrow> bool" where
  "keyInModuleScope key moduleScope =
     (case parsePermissionKey key of None \<Rightarrow> False
      | Some (s, a) \<Rightarrow> s = moduleScope \<or> starts_with s (moduleScope @ ''.''))"

definition tagAllow :: "string \<Rightarrow> string \<Rightarrow> (string \<times> string) list \<Rightarrow> (string \<times> string) list" where
  "tagAllow key source m =
     (case map_of m key of
        Some s \<Rightarrow> if s = [] then AList.update key source m else m
      | None \<Rightarrow> AList.update key source m)"

text \<open>Whether a key of a role counts: it is in the catalog, in the module scope and grantable.\<close>

definition role_key_counts :: "string list \<Rightarrow> role_input \<Rightarrow> string \<Rightarrow> bool" where
  "role_key_counts catalogKeys role key \<longleftrightarrow>
     key \<in> set catalogKeys
     \<and> \<not> (case ri_moduleScope role of None \<Rightarrow> False | Some m \<Rightarrow> m \<noteq> [] \<and> \<not> keyInModuleScope key m)
     \<and> isProjectGrantablePermission key"

definition allow_key :: "string \<Rightarrow> string \<Rightarrow> effective_set \<Rightarrow> effective_set" where
  "allow_key key src st = st\<lparr>ef_allow := js_add (ef_allow st) key, ef_sources := tagAllow key src (ef_sources st)\<rparr>"

definition apply_role :: "string list \<Rightarrow> effective_set \<Rightarrow> role_input \<Rightarrow> effective_set" where
  "apply_role catalogKeys st role =
     (let src = (case ri_source role of None \<Rightarrow> ''role'' | Some s \<Rightarrow> s) in
      foldl (\<lambda>st key. if role_key_counts catalogKeys role key then allow_key key src st else st) st (ri_keys role))"

definition apply_grant :: "string list \<Rightarrow> effective_set \<Rightarrow> grant_input \<Rightarrow> effective_set" where
  "apply_grant catalogKeys st g =
     (if gi_key g \<notin> set catalogKeys then st
      else let src = (case gi_source g of Some s \<Rightarrow> s
                      | None \<Rightarrow> ''grant:'' @ (if gi_effect g = GDeny then ''deny'' else ''allow''))
        in if gi_effect g = GDeny
           then st\<lparr>ef_deny := js_add (ef_deny st) (gi_key g), ef_sources := AList.update (gi_key g) src (ef_sources st)\<rparr>
           else if \<not> isProjectGrantablePermission (gi_key g) then st
           else allow_key (gi_key g) src st)"

definition compileEffectivePermissionsWithSources ::
  "role_input list \<Rightarrow> grant_input list \<Rightarrow> string list \<Rightarrow> effective_set" where
  "compileEffectivePermissionsWithSources roles grants catalogKeys =
     (let st0 = foldl (apply_role catalogKeys) \<lparr>ef_allow = [], ef_deny = [], ef_sources = []\<rparr> roles;
          st = foldl (apply_grant catalogKeys) st0 grants
      in \<lparr>ef_allow = js_sort (js_remove_all (ef_deny st) (ef_allow st)), ef_deny = js_sort (ef_deny st),
          ef_sources = ef_sources st\<rparr>)"

definition compileEffectivePermissions ::
  "role_input list \<Rightarrow> grant_input list \<Rightarrow> string list \<Rightarrow> string list \<times> string list" where
  "compileEffectivePermissions roles grants catalogKeys =
     (let r = compileEffectivePermissionsWithSources roles grants catalogKeys in (ef_allow r, ef_deny r))"

subsection \<open>The decision and the check against self-escalation\<close>

datatype rbac_reason = RbacOk | NOT_IN_ANY_ROLE | DENIED_BY_GRANT | PERMISSION_MAPPING_MISSING

record rbac_decision =
  rd_allow :: bool
  rd_reason :: rbac_reason
  rd_matchedKeys :: "string list"

definition decideRbac :: "string \<Rightarrow> string \<Rightarrow> string list \<times> string list \<Rightarrow> catalog \<Rightarrow> rbac_decision" where
  "decideRbac subject action eff c =
     (case resolveDecoratorPermission subject action c of
        None \<Rightarrow> \<lparr>rd_allow = False, rd_reason = PERMISSION_MAPPING_MISSING, rd_matchedKeys = []\<rparr>
      | Some ks \<Rightarrow>
          if ks = [] then \<lparr>rd_allow = False, rd_reason = PERMISSION_MAPPING_MISSING, rd_matchedKeys = []\<rparr>
          else if list_ex (\<lambda>k. k \<in> set (snd eff)) ks
          then \<lparr>rd_allow = False, rd_reason = DENIED_BY_GRANT, rd_matchedKeys = ks\<rparr>
          else if list_all (\<lambda>k. k \<in> set (fst eff)) ks
          then \<lparr>rd_allow = True, rd_reason = RbacOk, rd_matchedKeys = ks\<rparr>
          else \<lparr>rd_allow = False, rd_reason = NOT_IN_ANY_ROLE, rd_matchedKeys = ks\<rparr>)"

text \<open>The keys the actor may not hand out; none means the check passes.\<close>

definition checkNoSelfEscalation :: "bool \<Rightarrow> string list \<Rightarrow> string list \<Rightarrow> string list \<Rightarrow> string list" where
  "checkNoSelfEscalation isOwner actorAllow actorDeny requested =
     (if isOwner then []
      else filter (\<lambda>k. k \<notin> set (js_remove_all actorDeny (js_set_of actorAllow))) requested)"

subsection \<open>The keys of a project catalog\<close>

definition merged_acts :: "(string \<times> string list) list \<Rightarrow> string \<Rightarrow> string set" where
  "merged_acts m s = (case map_of m s of None \<Rightarrow> {} | Some as \<Rightarrow> set as)"

lemma merge_entry_acts:
  "merged_acts (merge_entry m e) s = merged_acts m s \<union> (if s = ce_subject e then set (ce_actions e) else {})"
  by (auto simp: merged_acts_def merge_entry_def update_conv' split: option.splits)

lemma foldl_merge_acts:
  "merged_acts (foldl merge_entry m es) s = merged_acts m s \<union> {a. \<exists>e \<in> set es. ce_subject e = s \<and> a \<in> set (ce_actions e)}"
  by (induction es arbitrary: m) (auto simp: merge_entry_acts)

lemma foldl_merge_distinct: "distinct (map fst m) \<Longrightarrow> distinct (map fst (foldl merge_entry m es))"
  by (induction es arbitrary: m) (simp_all add: merge_entry_def distinct_update)

lemma merged_acts_mem:
  assumes "distinct (map fst m)"
  shows "a \<in> merged_acts m s \<longleftrightarrow> (\<exists>as. (s, as) \<in> set m \<and> a \<in> set as)"
proof (cases "map_of m s")
  case None
  then have "(s, as) \<notin> set m" for as by (force simp: map_of_eq_None_iff)
  with None show ?thesis by (simp add: merged_acts_def)
next
  case (Some as)
  then have "(s, as') \<in> set m \<longleftrightarrow> as' = as" for as'
    using map_of_eq_Some_iff [OF assms, of s as'] by auto
  with Some show ?thesis by (simp add: merged_acts_def)
qed

text \<open>A pair of a subject and an action that some entry of a catalog lists.\<close>

definition listed :: "catalog \<Rightarrow> string \<Rightarrow> string \<Rightarrow> bool" where
  "listed c s a \<longleftrightarrow> (\<exists>e \<in> set (cat_entries c). ce_subject e = s \<and> a \<in> set (ce_actions e))"

lemma project_listed:
  "listed (buildProjectCatalogWithSystem ms) s a \<longleftrightarrow>
     listed (buildProjectPermissionCatalog ms) s a \<or> listed systemSubjectsCatalog s a"
proof -
  let ?es = "cat_entries (buildProjectPermissionCatalog ms) @ cat_entries systemSubjectsCatalog"
  have d: "distinct (map fst (foldl merge_entry [] ?es))" by (rule foldl_merge_distinct) simp
  have "listed (buildProjectCatalogWithSystem ms) s a \<longleftrightarrow> a \<in> merged_acts (foldl merge_entry [] ?es) s"
    unfolding merged_acts_mem [OF d]
    by (force simp: listed_def buildProjectCatalogWithSystem_def Let_def)
  also have "\<dots> \<longleftrightarrow> (\<exists>e \<in> set ?es. ce_subject e = s \<and> a \<in> set (ce_actions e))"
    unfolding foldl_merge_acts by (simp add: merged_acts_def)
  finally show ?thesis by (auto simp: listed_def)
qed

lemma project_hasKey:
  "cat_hasKey (buildProjectCatalogWithSystem ms) k \<longleftrightarrow>
     cat_hasKey (buildProjectPermissionCatalog ms) k \<or> cat_hasKey systemSubjectsCatalog k"
  by (auto simp: cat_hasKey_def buildProjectCatalogWithSystem_def Let_def)

lemma built_key_listed: "cat_hasKey (buildPermissionCatalog mfs) k \<longleftrightarrow> (\<exists>s a. k = permissionKey s a \<and> listed (buildPermissionCatalog mfs) s a)"
  by (auto simp: built.key_listed built.key_entry listed_def)

lemma project_key_listed:
  "cat_hasKey (buildProjectCatalogWithSystem ms) k \<longleftrightarrow>
     (\<exists>s a. k = permissionKey s a \<and> listed (buildProjectCatalogWithSystem ms) s a)"
  unfolding project_hasKey project_listed buildProjectPermissionCatalog_def systemSubjectsCatalog_def built_key_listed
  by blast

interpretation proj: permission_catalog
  "cat_has (buildProjectCatalogWithSystem ms)" "cat_hasKey (buildProjectCatalogWithSystem ms)"
  "cat_keys (buildProjectCatalogWithSystem ms)" "cat_entries (buildProjectCatalogWithSystem ms)" for ms
proof unfold_locales
  fix k
  show "k \<in> set (cat_keys (buildProjectCatalogWithSystem ms)) \<longleftrightarrow>
      (\<exists>e \<in> set (cat_entries (buildProjectCatalogWithSystem ms)). \<exists>a \<in> set (ce_actions e). k = permissionKey (ce_subject e) a)"
    using project_key_listed [of ms k] unfolding cat_hasKey_def listed_def by blast
qed (simp_all add: cat_has_def cat_hasKey_def buildProjectCatalogWithSystem_def Let_def)

text \<open>No subject and no action of a project catalog has a colon, so a key names one pair.\<close>

lemma collected_acts:
  "a \<in> acts_of (foldl collectFromManifest m mfs) s \<Longrightarrow>
     a \<in> acts_of m s \<or> (\<exists>mf \<in> set mfs. \<exists>as. (s, as) \<in> set (mf_permissions mf) \<and> a \<in> normalizeAction ` set as)"
proof (induction mfs arbitrary: m)
  case (Cons mf mfs)
  have one: "a \<in> acts_of (foldl (collect_permission mid) m ps) s \<Longrightarrow>
      a \<in> acts_of m s \<or> (\<exists>as. (s, as) \<in> set ps \<and> a \<in> normalizeAction ` set as)" for mid ps m
  proof (induction ps arbitrary: m)
    case (Cons p ps)
    obtain s' as' where p: "p = (s', as')" by (cases p)
    have "a \<in> acts_of (collect_permission mid m p) s \<or> (\<exists>as. (s, as) \<in> set ps \<and> a \<in> normalizeAction ` set as)"
      by (rule Cons.IH) (use Cons.prems in simp)
    then show ?case unfolding p collect_permission_acts by (auto split: if_splits)
  qed simp
  from Cons.IH [of "collectFromManifest m mf"] Cons.prems show ?case
    using one [of "mf_id mf" m "mf_permissions mf"] by (auto simp: collectFromManifest_def)
qed simp

lemma built_listed_declared:
  assumes "listed (buildPermissionCatalog mfs) s a"
  shows "\<exists>mf \<in> set mfs. \<exists>as. (s, as) \<in> set (mf_permissions mf) \<and> a \<in> normalizeAction ` set as"
proof -
  let ?m = "foldl collectFromManifest [] mfs"
  have "distinct (map fst ?m)" by (rule foldl_collect_distinct) simp
  with assms have "a \<in> acts_of ?m s"
    by (force simp: listed_def buildPermissionCatalog_def Let_def set_entries_of acts_of_distinct)
  then show ?thesis using collected_acts [of a "[]" mfs s] by (simp add: acts_of_def)
qed

lemma manifest_listed_plain:
  assumes "(s, as) \<in> set (mf_permissions (moduleDefinitionToManifest d))" "a \<in> normalizeAction ` set as"
    and "\<And>as a. (s, as) \<in> set (md_policyCapabilities d) \<Longrightarrow> a \<in> set as \<Longrightarrow> \<not> has_colon s \<and> \<not> has_colon (normalizeAction a)"
  shows "\<not> has_colon s \<and> \<not> has_colon a"
proof -
  from assms(2) obtain b where b: "b \<in> set as" "a = normalizeAction b" by auto
  from manifest_capabilities [OF assms(1) b(1)] obtain as0 a0 where
    "(s, as0) \<in> set (md_policyCapabilities d)" "a0 \<in> set as0" "b = normalizeAction a0" by blast
  moreover have "normalizeAction (normalizeAction a0) = normalizeAction a0" for a0
    by (simp add: normalizeAction_def ACTION_SYNONYMS_def)
  ultimately show ?thesis using assms(3) b(2) by metis
qed

lemma project_listed_plain:
  assumes "listed (buildProjectCatalogWithSystem ms) s a" shows "\<not> has_colon s \<and> \<not> has_colon a"
proof -
  have sys: "\<not> has_colon s \<and> \<not> has_colon (normalizeAction a)"
    if "(s, as) \<in> set (md_policyCapabilities SYSTEM_PERMISSION_MODULE)" "a \<in> set as" for s as a
    using that by (auto simp: SYSTEM_PERMISSION_MODULE_def has_colon_def normalizeAction_def ACTION_SYNONYMS_def)
  from assms consider "listed (buildProjectPermissionCatalog ms) s a" | "listed systemSubjectsCatalog s a"
    by (auto simp: project_listed)
  then show ?thesis
  proof cases
    case 1
    then obtain d as where "d \<in> set MODULES" "(s, as) \<in> set (mf_permissions (moduleDefinitionToManifest d))"
        "a \<in> normalizeAction ` set as"
      using built_listed_declared unfolding buildProjectPermissionCatalog_def by fastforce
    then show ?thesis using manifest_listed_plain registry_no_colon by blast
  next
    case 2
    then obtain as where "(s, as) \<in> set (mf_permissions (moduleDefinitionToManifest SYSTEM_PERMISSION_MODULE))"
        "a \<in> normalizeAction ` set as"
      using built_listed_declared unfolding systemSubjectsCatalog_def by fastforce
    then show ?thesis using manifest_listed_plain sys by blast
  qed
qed

lemma project_has_listed:
  "cat_has (buildProjectCatalogWithSystem ms) s a \<longleftrightarrow> listed (buildProjectCatalogWithSystem ms) s a"
proof -
  have "permissionKey s a = permissionKey s' a' \<longleftrightarrow> s = s' \<and> a = a'" if "listed (buildProjectCatalogWithSystem ms) s' a'" for s' a'
    using key_no_colon_inj [of s a s' a'] project_listed_plain [OF that] by auto
  then show ?thesis unfolding cat_has_def project_key_listed by blast
qed

subsection \<open>What a system role expands to\<close>

lemma set_expand_entries:
  "set (expand_entries r c) = {permissionKey s a | s a. listed c s a \<and> a \<in> set (SYSTEM_ROLE_ACTIONS r)
     \<and> \<not> (isLowRole r \<and> isElevatedForLowRole s a)}"
  by (auto simp: expand_entries_def listed_def)

lemma expand_iff:
  "k \<in> set (expandSystemRolePermissions r c) \<longleftrightarrow>
     (k \<in> set (expand_entries r c)
      \<or> in_list_opt k (PROJECT_ROLE_KEY_ALLOWLIST r) \<and> cat_hasKey c k \<and> isProjectGrantablePermission k)
     \<and> \<not> in_list_opt k (PROJECT_ROLE_KEY_DENYLIST r)"
  by (auto simp: expandSystemRolePermissions_def Let_def in_list_opt_def split: option.splits)

lemma expand_in_catalog:
  "k \<in> set (expandSystemRolePermissions r (buildProjectCatalogWithSystem ms)) \<Longrightarrow>
     cat_hasKey (buildProjectCatalogWithSystem ms) k"
  unfolding expand_iff set_expand_entries project_key_listed by blast

lemma system_actions_are_flat: "SYSTEM_ROLE_ACTIONS r = PROJECT_ROLE_ACTIONS r"
  by (cases r) (simp_all add: ALL_ACTIONS_def)

lemma low_role_actions: "isLowRole r \<Longrightarrow> a \<in> set (PROJECT_ROLE_ACTIONS r) \<Longrightarrow> a \<notin> {''manage'', ''delete'', ''import''}"
  by (cases r) (auto simp: isLowRole_def)

lemma allow_key_grantable: "in_list_opt k (PROJECT_ROLE_KEY_ALLOWLIST r) \<Longrightarrow> isProjectGrantablePermission k"
  by (cases r) (auto simp: in_list_opt_def isProjectGrantablePermission_def parsePermissionKey_def isForbiddenProjectPermission_def Let_def)

text \<open>The expansion agrees with the flat key check of the role, the elevated analytic export apart.\<close>

lemma expand_parity:
  assumes "cat_has (buildProjectCatalogWithSystem ms) s a"
  shows "permissionKey s a \<in> set (expandSystemRolePermissions r (buildProjectCatalogWithSystem ms)) \<longleftrightarrow>
     projectRoleCanKey (Some (role_name r)) s a
     \<and> \<not> (isLowRole r \<and> a = ''export'' \<and> s \<in> set ELEVATED_EXPORT_SUBJECTS)"
proof -
  let ?c = "buildProjectCatalogWithSystem ms"
  have li: "listed ?c s a" using assms by (simp add: project_has_listed)
  have uniq: "permissionKey s a = permissionKey s' a' \<longleftrightarrow> s = s' \<and> a = a'" if "listed ?c s' a'" for s' a'
    using key_no_colon_inj [of s a s' a'] project_listed_plain [OF that] by auto
  have ent: "permissionKey s a \<in> set (expand_entries r ?c) \<longleftrightarrow>
      a \<in> set (PROJECT_ROLE_ACTIONS r) \<and> \<not> (isLowRole r \<and> a = ''export'' \<and> s \<in> set ELEVATED_EXPORT_SUBJECTS)"
  proof -
    have "(\<exists>s' a'. permissionKey s a = permissionKey s' a' \<and> listed ?c s' a' \<and> Q s' a') \<longleftrightarrow> Q s a" for Q
      using li uniq by blast
    then have "permissionKey s a \<in> set (expand_entries r ?c) \<longleftrightarrow>
        a \<in> set (PROJECT_ROLE_ACTIONS r) \<and> \<not> (isLowRole r \<and> isElevatedForLowRole s a)"
      unfolding set_expand_entries mem_Collect_eq system_actions_are_flat .
    moreover have "isElevatedForLowRole s a \<longleftrightarrow> a = ''export'' \<and> s \<in> set ELEVATED_EXPORT_SUBJECTS"
      if "isLowRole r" "a \<in> set (PROJECT_ROLE_ACTIONS r)"
      using low_role_actions [OF that] by (simp add: isElevatedForLowRole_def)
    ultimately show ?thesis by blast
  qed
  have al: "s \<noteq> [] \<and> \<not> (a = ''export'')" if "in_list_opt (mk_key s a) (PROJECT_ROLE_KEY_ALLOWLIST r)"
    using allow_key_action [OF that] project_listed_plain [OF li] by (auto simp: has_colon_def)
  have ne: "role_name r \<noteq> []" by (cases r) simp_all
  have hk: "cat_hasKey ?c (mk_key s a)" using assms by (simp add: cat_has_def permissionKey_def)
  show ?thesis
    unfolding expand_iff ent
    using al allow_key_grantable [of "mk_key s a" r] hk ne
    by (auto simp: permissionKey_def projectRoleCanKey_def opt_role_def Let_def)
qed

subsection \<open>What the effective set holds\<close>

definition in_module_scope :: "role_input \<Rightarrow> string \<Rightarrow> bool" where
  "in_module_scope role key = (case ri_moduleScope role of None \<Rightarrow> True | Some m \<Rightarrow> m = [] \<or> keyInModuleScope key m)"

text \<open>Some role or allow grant gives the key; some grant denies it.\<close>

definition key_granted :: "role_input list \<Rightarrow> grant_input list \<Rightarrow> string \<Rightarrow> bool" where
  "key_granted roles grants key \<longleftrightarrow>
     (\<exists>role \<in> set roles. key \<in> set (ri_keys role) \<and> in_module_scope role key)
     \<or> (\<exists>g \<in> set grants. gi_effect g = GAllow \<and> gi_key g = key)"

definition key_denied :: "grant_input list \<Rightarrow> string \<Rightarrow> bool" where
  "key_denied grants key \<longleftrightarrow> (\<exists>g \<in> set grants. gi_effect g = GDeny \<and> gi_key g = key)"

lemma role_key_counts_iff:
  "role_key_counts ck role key \<longleftrightarrow> key \<in> set ck \<and> in_module_scope role key \<and> isProjectGrantablePermission key"
  by (auto simp: role_key_counts_def in_module_scope_def split: option.splits)

lemma apply_role_sets:
  "set (ef_allow (apply_role ck st role)) = set (ef_allow st) \<union> {k \<in> set (ri_keys role). role_key_counts ck role k}
   \<and> ef_deny (apply_role ck st role) = ef_deny st"
proof -
  have "set (ef_allow (foldl (\<lambda>st key. if P key then allow_key key src st else st) st ks)) = set (ef_allow st) \<union> {k \<in> set ks. P k}
      \<and> ef_deny (foldl (\<lambda>st key. if P key then allow_key key src st else st) st ks) = ef_deny st" for P src ks
    by (induction ks arbitrary: st) (auto simp: allow_key_def)
  then show ?thesis by (simp add: apply_role_def)
qed

lemma apply_roles_sets:
  "set (ef_allow (foldl (apply_role ck) st roles)) =
     set (ef_allow st) \<union> {k. \<exists>role \<in> set roles. k \<in> set (ri_keys role) \<and> role_key_counts ck role k}
   \<and> ef_deny (foldl (apply_role ck) st roles) = ef_deny st"
  by (induction roles arbitrary: st) (auto simp: apply_role_sets)

lemma apply_grants_sets:
  "set (ef_allow (foldl (apply_grant ck) st grants)) =
     set (ef_allow st) \<union> {k \<in> set ck. isProjectGrantablePermission k \<and> (\<exists>g \<in> set grants. gi_effect g = GAllow \<and> gi_key g = k)}
   \<and> set (ef_deny (foldl (apply_grant ck) st grants)) = set (ef_deny st) \<union> {k \<in> set ck. key_denied grants k}"
proof (induction grants arbitrary: st)
  case Nil
  then show ?case by (simp add: key_denied_def)
next
  case (Cons g gs)
  have one: "set (ef_allow (apply_grant ck st g)) =
      set (ef_allow st) \<union> (if gi_key g \<in> set ck \<and> gi_effect g = GAllow \<and> isProjectGrantablePermission (gi_key g) then {gi_key g} else {})"
    "set (ef_deny (apply_grant ck st g)) =
      set (ef_deny st) \<union> (if gi_key g \<in> set ck \<and> gi_effect g = GDeny then {gi_key g} else {})"
    by (cases "gi_effect g"; simp add: apply_grant_def allow_key_def Let_def)+
  show ?case using Cons.IH [of "apply_grant ck st g"] unfolding one by (auto simp: key_denied_def split: if_splits)
qed

lemma effective_allow_iff:
  "k \<in> set (ef_allow (compileEffectivePermissionsWithSources roles grants ck)) \<longleftrightarrow>
     k \<in> set ck \<and> isProjectGrantablePermission k \<and> key_granted roles grants k \<and> \<not> key_denied grants k"
  by (auto simp: compileEffectivePermissionsWithSources_def Let_def apply_grants_sets apply_roles_sets
      role_key_counts_iff key_granted_def)

lemma effective_deny_iff:
  "k \<in> set (ef_deny (compileEffectivePermissionsWithSources roles grants ck)) \<longleftrightarrow> k \<in> set ck \<and> key_denied grants k"
  by (simp add: compileEffectivePermissionsWithSources_def Let_def apply_grants_sets apply_roles_sets)

lemma resolve_decorator_known:
  "resolveDecoratorPermission s a c = Some ks \<Longrightarrow> ks \<noteq> [] \<and> (\<forall>k \<in> set ks. k \<in> set (cat_keys c))"
  by (auto simp: resolveDecoratorPermission_def DECORATOR_SUBJECT_MAP_def Let_def list_all_iff cat_hasKey_def
      split: option.splits if_splits)

lemma decide_allow_iff:
  "rd_allow (decideRbac s a eff c) \<longleftrightarrow>
     (\<exists>ks. resolveDecoratorPermission s a c = Some ks \<and> (\<forall>k \<in> set ks. k \<in> set (fst eff) \<and> k \<notin> set (snd eff)))"
  using resolve_decorator_known [of s a c]
  by (auto simp: decideRbac_def list_ex_iff list_all_iff split: option.splits)

lemma system_subject_out_of_scope: "\<not> keyInModuleScope ''roles:manage'' ''deals''"
  by code_simp

text \<open>C21: The role-based decision is exact, least-privileged and puts deny over allow. A route pair is allowed
  if and only if it maps to catalog keys all of which are given by some role (inside its module
  scope) or some allow grant, are denied by no grant, and may be held in a project at all. A module
  scope admits the keys of the subjects of that module only: a role with one gives no key of a system
  subject such as \<open>roles\<close> (lemma \<open>system_subject_out_of_scope\<close>), although the comment on the function puts
  these into every scope.\<close>

theorem rbac_decision_exact:
  "rd_allow (decideRbac s a (compileEffectivePermissions roles grants (cat_keys c)) c) \<longleftrightarrow>
     (\<exists>ks. resolveDecoratorPermission s a c = Some ks \<and>
        (\<forall>k \<in> set ks. cat_hasKey c k \<and> isProjectGrantablePermission k \<and> key_granted roles grants k \<and> \<not> key_denied grants k))"
  unfolding decide_allow_iff
  by (auto simp: compileEffectivePermissions_def Let_def effective_allow_iff effective_deny_iff cat_hasKey_def)

definition stage_catalog :: catalog where
  "stage_catalog = \<lparr>cat_entries = [\<lparr>ce_subject = ''deals.stage'', ce_actions = [''move''], ce_moduleIds = [''deals'']\<rparr>],
     cat_keys = [''deals.stage:move'']\<rparr>"

theorem rbac_decision_exact_witness:
  "rd_allow (decideRbac ''deals'' ''move'' (compileEffectivePermissions
      [\<lparr>ri_keys = [''deals.stage:move''], ri_moduleScope = Some ''deals'', ri_source = None\<rparr>] [] (cat_keys stage_catalog)) stage_catalog)
   \<and> \<not> rd_allow (decideRbac ''deals'' ''move'' (compileEffectivePermissions
      [\<lparr>ri_keys = [''deals.stage:move''], ri_moduleScope = Some ''deals'', ri_source = None\<rparr>]
      [\<lparr>gi_effect = GDeny, gi_key = ''deals.stage:move'', gi_source = None\<rparr>] (cat_keys stage_catalog)) stage_catalog)"
proof -
  have r: "resolveDecoratorPermission ''deals'' ''move'' stage_catalog = Some [''deals.stage:move'']"
    by (simp add: resolveDecoratorPermission_def stage_catalog_def DECORATOR_SUBJECT_MAP_def mk_key_def cat_hasKey_def)
  have p: "parsePermissionKey ''deals.stage:move'' = Some (''deals.stage'', ''move'')"
    by (simp add: parsePermissionKey_def Let_def)
  have h: "cat_hasKey stage_catalog ''deals.stage:move''" by (simp add: cat_hasKey_def stage_catalog_def)
  show ?thesis unfolding rbac_decision_exact
    by (simp add: r p h isProjectGrantablePermission_def isForbiddenProjectPermission_def key_granted_def key_denied_def
        in_module_scope_def keyInModuleScope_def)
qed

end
