(* ===== verification/JsonText.thy ===== *)
theory JsonText
  imports Prelude
begin

text \<open>
  \<open>JSON.stringify\<close>, as the hash chains of the audit journals use it: the text of a value, and that the
  text determines the value. Numbers are printed in plain decimal notation, as the runtime does for
  absolute values from one millionth to \<open>10\<^sup>2\<^sup>1\<close>; the bound of thirty places is beyond what a double
  needs there. A property whose value is \<open>undefined\<close> is left out of an object and is \<open>null\<close> in an array.
\<close>

subsection \<open>Strings\<close>

definition hex_digit :: "nat \<Rightarrow> char" where
  "hex_digit n = (if n < 10 then digit_char n else char_of (87 + n))"

definition QUOTE :: char where "QUOTE = CHR 0x22"
definition BACKSLASH :: char where "BACKSLASH = CHR 0x5C"

definition esc_char :: "char \<Rightarrow> string" where
  "esc_char c =
     (if c = QUOTE \<or> c = BACKSLASH then [BACKSLASH, c]
      else if c = CHR 0x08 then [BACKSLASH, CHR ''b'']
      else if c = CHR 0x0C then [BACKSLASH, CHR ''f'']
      else if c = CHR 0x0A then [BACKSLASH, CHR ''n'']
      else if c = CHR 0x0D then [BACKSLASH, CHR ''r'']
      else if c = CHR 0x09 then [BACKSLASH, CHR ''t'']
      else if (of_char c :: nat) < 32
      then BACKSLASH # ''u00'' @ [hex_digit (of_char c div 16), hex_digit (of_char c mod 16)]
      else [c])"

definition json_str :: "string \<Rightarrow> string" where
  "json_str s = QUOTE # concat (map esc_char s) @ [QUOTE]"

subsection \<open>Numbers\<close>

definition is_int :: "rat \<Rightarrow> bool" where
  "is_int q \<longleftrightarrow> snd (quotient_of q) = 1"

fun decimals :: "nat \<Rightarrow> rat \<Rightarrow> nat option" where
  "decimals 0 q = (if is_int q then Some 0 else None)"
| "decimals (Suc n) q = (if is_int q then Some 0 else map_option Suc (decimals n (10 * q)))"

definition point_at :: "nat \<Rightarrow> string \<Rightarrow> string" where
  "point_at k s =
     (let p = replicate (k + 1 - length s) (CHR ''0'') @ s; n = length p - k in take n p @ CHR ''.'' # drop n p)"

definition num_text :: "rat \<Rightarrow> string" where
  "num_text q =
     (case decimals 30 q of
        None \<Rightarrow> ''null''
      | Some k \<Rightarrow>
          (let m = nat \<lfloor>\<bar>q\<bar> * 10 ^ k\<rfloor> in
           (if q < 0 then ''-'' else []) @ (if k = 0 then nat_str m else point_at k (nat_str m))))"

subsection \<open>Values\<close>

fun json_text :: "jsval \<Rightarrow> string" where
  "json_text JUndef = ''null''"
| "json_text JNull = ''null''"
| "json_text (JBool b) = (if b then ''true'' else ''false'')"
| "json_text (JNum q) = num_text q"
| "json_text (JStr s) = json_str s"
| "json_text (JArr xs) = CHR ''['' # join '','' (map json_text xs) @ '']''"
| "json_text (JObj ps) =
     CHR ''{'' # join '','' (map (\<lambda>(k, v). json_str k @ CHR '':'' # json_text v) (filter (\<lambda>(k, v). v \<noteq> JUndef) ps)) @ ''}''"

text \<open>Values whose text is theirs alone: nothing undefined inside, numbers that have a finite decimal text.\<close>

fun json_plain :: "jsval \<Rightarrow> bool" where
  "json_plain JUndef = False"
| "json_plain JNull = True"
| "json_plain (JBool b) = True"
| "json_plain (JNum q) = (decimals 30 q \<noteq> None)"
| "json_plain (JStr s) = True"
| "json_plain (JArr xs) = list_all json_plain xs"
| "json_plain (JObj ps) = list_all (\<lambda>(k, v). json_plain v) ps"

subsection \<open>The text of a string determines it\<close>

lemma of_char_digit [simp]: "d < 10 \<Longrightarrow> (of_char (digit_char d) :: nat) = 48 + d"
  by (simp add: digit_char_def of_char_of)

lemma of_char_hex: "d < 16 \<Longrightarrow> (of_char (hex_digit d) :: nat) = (if d < 10 then 48 + d else 87 + d)"
  by (simp add: hex_digit_def of_char_of)

definition hex_val :: "char \<Rightarrow> nat" where
  "hex_val c = (if (of_char c :: nat) \<ge> 97 then of_char c - 87 else of_char c - 48)"

lemma hex_val_digit: "d < 16 \<Longrightarrow> hex_val (hex_digit d) = d"
  by (simp add: hex_val_def of_char_hex)

definition unesc :: "string \<Rightarrow> char \<times> string" where
  "unesc s =
     (let b = hd s; d = hd (tl s); r = tl (tl s) in
      if b \<noteq> BACKSLASH then (b, tl s)
      else if d = CHR ''b'' then (CHR 0x08, r)
      else if d = CHR ''f'' then (CHR 0x0C, r)
      else if d = CHR ''n'' then (CHR 0x0A, r)
      else if d = CHR ''r'' then (CHR 0x0D, r)
      else if d = CHR ''t'' then (CHR 0x09, r)
      else if d = CHR ''u'' then (char_of (hex_val (r ! 2) * 16 + hex_val (r ! 3)), drop 4 r)
      else (d, r))"

lemma unesc_esc: "unesc (esc_char c @ x) = (c, x)"
proof -
  consider "c = QUOTE" | "c = BACKSLASH" | "c = CHR 0x08" | "c = CHR 0x0C" | "c = CHR 0x0A" | "c = CHR 0x0D"
    | "c = CHR 0x09" | (ctl) "(of_char c :: nat) < 32" "c \<noteq> QUOTE" "c \<noteq> BACKSLASH" "c \<notin> {CHR 0x08, CHR 0x0C, CHR 0x0A, CHR 0x0D, CHR 0x09}"
    | (other) "\<not> (of_char c :: nat) < 32" "c \<noteq> QUOTE" "c \<noteq> BACKSLASH" "c \<notin> {CHR 0x08, CHR 0x0C, CHR 0x0A, CHR 0x0D, CHR 0x09}"
    by blast
  then show ?thesis
  proof cases
    case ctl
    then have "esc_char c = BACKSLASH # ''u00'' @ [hex_digit (of_char c div 16), hex_digit (of_char c mod 16)]"
      by (simp add: esc_char_def)
    moreover have "(of_char c :: nat) div 16 < 16" using ctl(1) by simp
    ultimately show ?thesis
      by (simp add: unesc_def Let_def hex_val_digit BACKSLASH_def)
  next
    case other
    then have "esc_char c = [c]" by (simp add: esc_char_def)
    then show ?thesis using other by (simp add: unesc_def)
  qed (simp_all add: esc_char_def unesc_def QUOTE_def BACKSLASH_def)
qed

lemma esc_char_inj: "esc_char c @ x = esc_char d @ y \<Longrightarrow> c = d \<and> x = y"
  by (metis unesc_esc prod.inject)

lemma esc_char_head: "esc_char c \<noteq> [] \<and> hd (esc_char c) \<noteq> QUOTE"
proof -
  have ne: "esc_char c \<noteq> []" by (simp add: esc_char_def)
  have "hd (esc_char c) \<noteq> QUOTE"
  proof
    assume q: "hd (esc_char c) = QUOTE"
    then have "fst (unesc (esc_char c @ [])) = QUOTE" by (simp add: unesc_def BACKSLASH_def QUOTE_def)
    then have "c = QUOTE" using unesc_esc [of c "[]"] by simp
    then have "hd (esc_char c) = BACKSLASH" by (simp add: esc_char_def)
    with q show False by (simp add: BACKSLASH_def QUOTE_def)
  qed
  with ne show ?thesis by simp
qed

lemma concat_esc_inj:
  "concat (map esc_char s) @ QUOTE # x = concat (map esc_char t) @ QUOTE # y \<Longrightarrow> s = t \<and> x = y"
proof (induction s arbitrary: t)
  case Nil
  then show ?case using esc_char_head [of "hd t"] by (cases t) (auto simp: neq_Nil_conv)
next
  case (Cons c s)
  show ?case
  proof (cases t)
    case Nil
    with Cons.prems show ?thesis using esc_char_head [of c] by (auto simp: neq_Nil_conv)
  next
    case (Cons d t')
    with Cons.prems esc_char_inj [of c "concat (map esc_char s) @ QUOTE # x" d "concat (map esc_char t') @ QUOTE # y"]
    show ?thesis using Cons.IH [of t'] by simp
  qed
qed

lemma json_str_inj: "json_str s @ x = json_str t @ y \<Longrightarrow> s = t \<and> x = y"
  using concat_esc_inj [of s x t y] by (simp add: json_str_def)

subsection \<open>The text of a number determines it\<close>

lemma is_int_iff: "is_int q \<longleftrightarrow> q \<in> \<int>"
proof
  assume "is_int q"
  then have "quotient_of q = (fst (quotient_of q), 1)" by (simp add: is_int_def prod_eq_iff)
  from quotient_of_div [OF this] have "q = of_int (fst (quotient_of q))" by simp
  then show "q \<in> \<int>" by (metis Ints_of_int)
next
  assume "q \<in> \<int>"
  then obtain i where "q = of_int i" by (auto elim: Ints_cases)
  then show "is_int q" by (simp add: is_int_def)
qed

lemma decimals_int: "decimals n q = Some k \<Longrightarrow> q * 10 ^ k \<in> \<int>"
proof (induction n q arbitrary: k rule: decimals.induct)
  case (2 n q)
  then show ?case by (auto simp: is_int_iff algebra_simps split: if_splits)
qed (auto simp: is_int_iff split: if_splits)

lemma str_nat_zeros: "str_nat (replicate n (CHR ''0'') @ s) = str_nat s"
  by (induction n) (simp_all add: str_nat_def char_digit_def)

definition num_val :: "string \<Rightarrow> rat" where
  "num_val t =
     (let b = (if hd t = CHR ''-'' then tl t else t);
          i = takeWhile (\<lambda>c. c \<noteq> CHR ''.'') b; f = tl (dropWhile (\<lambda>c. c \<noteq> CHR ''.'') b)
      in (if hd t = CHR ''-'' then - 1 else 1) * (of_nat (str_nat (i @ f)) / 10 ^ length f))"

lemma digits_no_point: "list_all is_digit s \<Longrightarrow> c \<in> set s \<Longrightarrow> c \<noteq> CHR ''.'' \<and> c \<noteq> CHR ''-''"
  by (auto simp: list_all_iff is_digit_def)

lemma point_at_parts:
  assumes "list_all is_digit s" "k > 0"
  shows "\<exists>i f. point_at k s = i @ CHR ''.'' # f \<and> i \<noteq> [] \<and> list_all is_digit i \<and> list_all is_digit f
    \<and> length f = k \<and> str_nat (i @ f) = str_nat s"
proof -
  define p where "p = replicate (k + 1 - length s) (CHR ''0'') @ s"
  define n where "n = length p - k"
  have len: "length p > k" by (simp add: p_def)
  have d: "c \<in> set p \<Longrightarrow> is_digit c" for c
    using assms(1) by (auto simp: p_def list_all_iff is_digit_def)
  have "point_at k s = take n p @ CHR ''.'' # drop n p" by (simp only: point_at_def Let_def p_def n_def)
  moreover have "take n p \<noteq> []" using len by (auto simp: n_def)
  moreover have "list_all is_digit (take n p)" "list_all is_digit (drop n p)"
    using d by (auto simp: list_all_iff dest: in_set_takeD in_set_dropD)
  moreover have "length (drop n p) = k" using len by (simp add: n_def)
  moreover have "str_nat (take n p @ drop n p) = str_nat s" by (simp only: append_take_drop_id p_def str_nat_zeros)
  ultimately show ?thesis by blast
qed

lemma num_val_text:
  assumes "decimals 30 q \<noteq> None"
  shows "num_val (num_text q) = q"
proof -
  obtain k where k: "decimals 30 q = Some k" using assms by auto
  define m where "m = nat \<lfloor>\<bar>q\<bar> * 10 ^ k\<rfloor>"
  have "\<bar>q\<bar> * 10 ^ k \<in> \<int>"
    using decimals_int [OF k] by (metis Ints_abs abs_mult abs_of_nonneg zero_le_numeral zero_le_power)
  then obtain i where i: "\<bar>q\<bar> * 10 ^ k = of_int i" by (auto elim: Ints_cases)
  have "i \<ge> 0" using i by (metis abs_ge_zero of_int_0_le_iff zero_le_mult_iff zero_le_numeral zero_le_power)
  then have "of_nat m = \<bar>q\<bar> * 10 ^ k" unfolding m_def i by simp
  then have val: "of_nat m / 10 ^ k = \<bar>q\<bar>" by simp
  let ?b = "if k = 0 then nat_str m else point_at k (nat_str m)"
  have t: "num_text q = (if q < 0 then ''-'' else []) @ ?b"
    by (simp add: num_text_def k m_def Let_def)
  have b: "\<exists>i f. takeWhile (\<lambda>c. c \<noteq> CHR ''.'') ?b = i \<and> tl (dropWhile (\<lambda>c. c \<noteq> CHR ''.'') ?b) = f
      \<and> length f = k \<and> str_nat (i @ f) = m \<and> ?b \<noteq> [] \<and> hd ?b \<noteq> CHR ''-''"
  proof (cases "k = 0")
    case True
    have np: "c \<in> set (nat_str m) \<Longrightarrow> c \<noteq> CHR ''.'' \<and> c \<noteq> CHR ''-''" for c
      using digits_no_point [OF nat_str_digits] by blast
    then have tw: "takeWhile (\<lambda>c. c \<noteq> CHR ''.'') (nat_str m) = nat_str m" "dropWhile (\<lambda>c. c \<noteq> CHR ''.'') (nat_str m) = []"
      unfolding takeWhile_eq_all_conv dropWhile_eq_Nil_conv by blast+
    have "hd (nat_str m) \<noteq> CHR ''-''" using np [of "hd (nat_str m)"] by simp
    then show ?thesis unfolding if_P [OF True] tw using True by simp
  next
    case False
    then obtain i f where p: "point_at k (nat_str m) = i @ CHR ''.'' # f" "i \<noteq> []" "list_all is_digit i"
        "length f = k" "str_nat (i @ f) = m"
      using point_at_parts [OF nat_str_digits, of k m] by auto
    have np: "c \<in> set i \<Longrightarrow> c \<noteq> CHR ''.'' \<and> c \<noteq> CHR ''-''" for c
      using digits_no_point [OF p(3)] by blast
    then have "takeWhile (\<lambda>c. c \<noteq> CHR ''.'') (i @ CHR ''.'' # f) = i" "dropWhile (\<lambda>c. c \<noteq> CHR ''.'') (i @ CHR ''.'' # f) = CHR ''.'' # f"
      by (auto simp: takeWhile_append dropWhile_append)
    moreover have "hd i \<noteq> CHR ''-''" using np [of "hd i"] p(2) by simp
    ultimately show ?thesis using False p by simp
  qed
  then have "num_val (num_text q) = (if q < 0 then - 1 else 1) * (of_nat m / 10 ^ k)"
    unfolding t num_val_def by (auto simp: Let_def)
  then show ?thesis unfolding val by simp
qed

lemma num_text_inj:
  "decimals 30 p \<noteq> None \<Longrightarrow> decimals 30 q \<noteq> None \<Longrightarrow> num_text p = num_text q \<Longrightarrow> p = q"
  by (metis num_val_text)

definition num_char :: "char \<Rightarrow> bool" where
  "num_char c \<longleftrightarrow> is_digit c \<or> c = CHR ''-'' \<or> c = CHR ''.''"

lemma num_text_chars:
  assumes "decimals 30 q \<noteq> None"
  shows "list_all num_char (num_text q) \<and> num_text q \<noteq> []"
proof -
  obtain k where k: "decimals 30 q = Some k" using assms by auto
  let ?m = "nat \<lfloor>\<bar>q\<bar> * 10 ^ k\<rfloor>"
  have dig: "list_all num_char s" if "list_all is_digit s" for s
    using that by (auto simp: list_all_iff num_char_def)
  have "list_all num_char (point_at k (nat_str ?m)) \<and> point_at k (nat_str ?m) \<noteq> []" if "k > 0"
    using point_at_parts [OF nat_str_digits that, of ?m] dig by (auto simp: num_char_def)
  then show ?thesis
    using dig [OF nat_str_digits, of ?m] by (auto simp: num_text_def k Let_def num_char_def)
qed

subsection \<open>The text of a value determines it\<close>

text \<open>What may follow a value inside another: nothing, a comma or a closing bracket.\<close>

definition ends :: "string \<Rightarrow> bool" where
  "ends r \<longleftrightarrow> r = [] \<or> hd r \<in> {CHR '','', CHR '']'', CHR ''}''}"

lemma num_text_ends_inj:
  assumes "decimals 30 p \<noteq> None" "decimals 30 q \<noteq> None" "ends x" "ends y" "num_text p @ x = num_text q @ y"
  shows "p = q \<and> x = y"
proof -
  have stop: "takeWhile num_char (num_text r @ z) = num_text r" if "decimals 30 r \<noteq> None" "ends z" for r z
  proof -
    have "takeWhile num_char z = []"
      using that(2) by (cases z) (auto simp: ends_def num_char_def is_digit_def)
    then show ?thesis using num_text_chars [OF that(1)] by (simp add: list_all_iff takeWhile_append)
  qed
  have "num_text p = num_text q" using assms stop by metis
  with assms show ?thesis using num_text_inj by auto
qed

lemma join_Cons: "join sep (s # ss) = s @ (if ss = [] then [] else sep @ join sep ss)"
  by (cases ss) simp_all

lemma join_inj:
  assumes "\<And>a b p q. a \<in> set xs \<Longrightarrow> P b \<Longrightarrow> ends p \<Longrightarrow> ends q \<Longrightarrow> f a @ p = f b @ q \<Longrightarrow> a = b \<and> p = q"
    and "\<And>a. a \<in> set xs \<or> P a \<Longrightarrow> f a \<noteq> [] \<and> hd (f a) \<noteq> e"
    and "e = CHR '']'' \<or> e = CHR ''}''" and "list_all P ys"
    and "join '','' (map f xs) @ e # x = join '','' (map f ys) @ e # y"
  shows "xs = ys \<and> x = y"
  using assms
proof (induction xs arbitrary: ys)
  case Nil
  show ?case
  proof (cases ys)
    case (Cons b zs)
    then show ?thesis using Nil.prems(2) [of b] Nil.prems(4,5) by (cases "f b") (auto simp: join_Cons)
  qed (use Nil in simp)
next
  case (Cons a xs)
  show ?case
  proof (cases ys)
    case Nil
    with Cons.prems(2) [of a] Cons.prems(5) show ?thesis by (cases "f a") (auto simp: join_Cons)
  next
    case (Cons b ys')
    let ?p = "(if xs = [] then [] else '','' @ join '','' (map f xs)) @ e # x"
    let ?q = "(if ys' = [] then [] else '','' @ join '','' (map f ys')) @ e # y"
    have eq: "f a @ ?p = f b @ ?q" using Cons.prems(5) Cons by (simp add: join_Cons split: if_splits)
    have "ends ?p" "ends ?q" using Cons.prems(3) by (auto simp: ends_def)
    then have ab: "a = b" and pq: "?p = ?q" using Cons.prems(1) [OF _ _ _ _ eq] Cons.prems(4) Cons by auto
    have ne: "e \<noteq> CHR '',''" using Cons.prems(3) by auto
    show ?thesis
    proof (cases "xs = [] \<or> ys' = []")
      case True
      with pq ne show ?thesis using ab Cons by (auto split: if_splits)
    next
      case False
      with pq have "join '','' (map f xs) @ e # x = join '','' (map f ys') @ e # y" by simp
      moreover have "list_all P ys'" using Cons.prems(4) Cons by simp
      ultimately have "xs = ys' \<and> x = y" using Cons.prems(1-3) by (intro Cons.IH) auto
      with ab Cons show ?thesis by simp
    qed
  qed
qed

fun value_tag :: "jsval \<Rightarrow> nat" where
  "value_tag JUndef = 0"
| "value_tag JNull = 0"
| "value_tag (JBool b) = (if b then 1 else 2)"
| "value_tag (JNum q) = 3"
| "value_tag (JStr s) = 4"
| "value_tag (JArr xs) = 5"
| "value_tag (JObj ps) = 6"

definition char_tag :: "char \<Rightarrow> nat" where
  "char_tag c =
     (if c = CHR ''n'' then 0 else if c = CHR ''t'' then 1 else if c = CHR ''f'' then 2
      else if c = QUOTE then 4 else if c = CHR ''['' then 5 else if c = CHR ''{'' then 6 else 3)"

lemma json_text_head:
  assumes "json_plain v"
  shows "json_text v \<noteq> [] \<and> char_tag (hd (json_text v)) = value_tag v \<and> hd (json_text v) \<notin> {CHR '']'', CHR ''}''}"
proof (cases v)
  case (JNum q)
  then have c: "list_all num_char (num_text q)" "num_text q \<noteq> []" using assms num_text_chars [of q] by auto
  then have "num_char (hd (num_text q))" by (simp add: list_all_iff)
  then have "hd (num_text q) \<notin> {CHR ''n'', CHR ''t'', CHR ''f'', QUOTE, CHR ''['', CHR ''{'', CHR '']'', CHR ''}''}"
    by (auto simp: num_char_def is_digit_def QUOTE_def)
  with c JNum show ?thesis by (simp add: char_tag_def)
qed (use assms in \<open>simp_all add: json_str_def QUOTE_def char_tag_def\<close>)

lemma same_tag:
  assumes "json_plain v" "json_plain w" "json_text v @ x = json_text w @ y"
  shows "value_tag v = value_tag w"
proof -
  have "hd (json_text v) = hd (json_text w)"
    using assms json_text_head by (metis hd_append2)
  then show ?thesis using json_text_head [OF assms(1)] json_text_head [OF assms(2)] by simp
qed

lemma plain_pairs: "list_all (\<lambda>(k, v). json_plain v) ps \<Longrightarrow> filter (\<lambda>(k, v). v \<noteq> JUndef) ps = ps"
  by (induction ps) auto

lemma json_text_ends_inj:
  "json_plain v \<Longrightarrow> json_plain w \<Longrightarrow> ends x \<Longrightarrow> ends y \<Longrightarrow> json_text v @ x = json_text w @ y \<Longrightarrow> v = w \<and> x = y"
proof (induction v arbitrary: w x y)
  case (JArr xs)
  have "value_tag w = 5" using same_tag [OF JArr.prems(1,2,5)] by simp
  then obtain ys where w: "w = JArr ys" by (cases w) (auto split: if_splits)
  have "xs = ys \<and> x = y"
  proof (rule join_inj [of xs json_plain json_text "CHR '']''"])
    fix a assume "a \<in> set xs \<or> json_plain a"
    then have "json_plain a" using JArr.prems(1) by (auto simp: list_all_iff)
    then show "json_text a \<noteq> [] \<and> hd (json_text a) \<noteq> CHR '']''" using json_text_head [of a] by auto
  next
    show "join '','' (map json_text xs) @ CHR '']'' # x = join '','' (map json_text ys) @ CHR '']'' # y"
      using JArr.prems(5) w by simp
  qed (use JArr in \<open>auto simp: w list_all_iff\<close>)
  with w show ?case by simp
next
  case (JObj ps)
  have "value_tag w = 6" using same_tag [OF JObj.prems(1,2,5)] by simp
  then obtain qs where w: "w = JObj qs" by (cases w) (auto split: if_splits)
  let ?f = "\<lambda>(k, v). json_str k @ CHR '':'' # json_text v" and ?P = "\<lambda>(k, v). json_plain v"
  have pl: "list_all ?P ps" "list_all ?P qs" using JObj.prems(1,2) w by simp_all
  have "ps = qs \<and> x = y"
  proof (rule join_inj [of ps ?P ?f "CHR ''}''"])
    fix a b p q
    assume ab: "a \<in> set ps" "?P b" "ends p" "ends q" "?f a @ p = ?f b @ q"
    obtain k v l u where kv: "a = (k, v)" "b = (l, u)" by (metis surj_pair)
    from ab(5) have "json_str k @ CHR '':'' # json_text v @ p = json_str l @ CHR '':'' # json_text u @ q"
      by (simp add: kv)
    from json_str_inj [OF this] have "k = l" "json_text v @ p = json_text u @ q" by simp_all
    moreover have "json_plain v" using pl(1) ab(1) kv by (auto simp: list_all_iff)
    ultimately show "a = b \<and> p = q"
      using JObj.IH [of a v u p q] ab kv by auto
  next
    show "join '','' (map ?f ps) @ CHR ''}'' # x = join '','' (map ?f qs) @ CHR ''}'' # y"
      using JObj.prems(5) by (simp add: w plain_pairs [OF pl(1)] plain_pairs [OF pl(2)])
  qed (use pl in \<open>auto simp: json_str_def QUOTE_def\<close>)
  with w show ?case by simp
next
  case (JNum q)
  have "value_tag w = 3" using same_tag [OF JNum.prems(1,2,5)] by simp
  then obtain r where w: "w = JNum r" by (cases w) (auto split: if_splits)
  with JNum.prems show ?case using num_text_ends_inj [of q r x y] by auto
next
  case (JStr s)
  have "value_tag w = 4" using same_tag [OF JStr.prems(1,2,5)] by simp
  then obtain t where "w = JStr t" by (cases w) (auto split: if_splits)
  with JStr.prems show ?case using json_str_inj [of s x t y] by auto
next
  case (JBool b)
  have "value_tag w = value_tag (JBool b)" using same_tag [OF JBool.prems(1,2,5)] by simp
  then have "w = JBool b" by (cases w) (auto split: if_splits)
  with JBool.prems show ?case by simp
next
  case JNull
  have "value_tag w = 0" using same_tag [OF JNull.prems(1,2,5)] by simp
  then have "w = JNull" using JNull.prems(2) by (cases w) (auto split: if_splits)
  with JNull.prems show ?case by simp
qed simp

lemma json_text_inj: "json_plain v \<Longrightarrow> json_plain w \<Longrightarrow> json_text v = json_text w \<Longrightarrow> v = w"
  using json_text_ends_inj [of v w "[]" "[]"] by (simp add: ends_def)

end
