(* ===== verification/HashChain.thy ===== *)
theory HashChain
  imports JsonText
begin

text \<open>
  The tamper-evident hash chain of the audit log (\<^verbatim>\<open>audit/src/chain/hash-chain.ts\<close>): the canonical text
  of a content, the hash of a record over the hash before it, linking and verification. The digest
  function is the parameter \<open>sha\<close>; what is proved about forgeries says that one exhibits a collision
  between texts that were hashed for the two chains in question, never that some collision exists
  somewhere (which holds of every digest of fixed length). A field left undefined is \<open>None\<close>, and
  \<open>JUndef\<close> for the data; property names that look like array indices, which the runtime moves to the
  front of an object, are not modelled.
\<close>

subsection \<open>Canonical text\<close>

fun sortKeys :: "jsval \<Rightarrow> jsval" where
  "sortKeys (JArr xs) = JArr (map sortKeys xs)"
| "sortKeys (JObj ps) = JObj (js_sort_by (\<lambda>a b. fst a \<le> fst b) (map (\<lambda>(k, v). (k, sortKeys v)) ps))"
| "sortKeys v = v"

definition canonicalize :: "jsval \<Rightarrow> string" where
  "canonicalize v = json_text (sortKeys v)"

text \<open>What the text of a value shows of it: undefined properties are gone, undefined items are null.\<close>

fun drop_undef :: "jsval \<Rightarrow> jsval" where
  "drop_undef JUndef = JNull"
| "drop_undef (JArr xs) = JArr (map drop_undef xs)"
| "drop_undef (JObj ps) = JObj (map (\<lambda>(k, v). (k, drop_undef v)) (filter (\<lambda>(k, v). v \<noteq> JUndef) ps))"
| "drop_undef v = v"

fun numbers_ok :: "jsval \<Rightarrow> bool" where
  "numbers_ok (JNum q) = (decimals 30 q \<noteq> None)"
| "numbers_ok (JArr xs) = list_all numbers_ok xs"
| "numbers_ok (JObj ps) = list_all (\<lambda>(k, v). numbers_ok v) ps"
| "numbers_ok v = True"

definition canon :: "jsval \<Rightarrow> jsval" where
  "canon v = drop_undef (sortKeys v)"

lemma drop_undef_defined [simp]: "drop_undef v \<noteq> JUndef"
  by (cases v) simp_all

lemma json_text_drop: "json_text (drop_undef v) = json_text v"
proof (induction v rule: drop_undef.induct)
  case (2 xs)
  then show ?case by (simp cong: map_cong)
next
  case (3 ps)
  have ih: "json_text (drop_undef v) = json_text v" if "(k, v) \<in> set ps" "v \<noteq> JUndef" for k v
    using that by (intro 3) auto
  have texts: "map (\<lambda>(k, v). json_str k @ CHR '':'' # json_text v) (map (\<lambda>(k, v). (k, drop_undef v)) (filter (\<lambda>(k, v). v \<noteq> JUndef) ps))
      = map (\<lambda>(k, v). json_str k @ CHR '':'' # json_text v) (filter (\<lambda>(k, v). v \<noteq> JUndef) ps)"
    unfolding map_map using ih by (intro map_cong) auto
  have kept: "filter (\<lambda>(k, v). v \<noteq> JUndef) (map (\<lambda>(k, v). (k, drop_undef v)) qs) = map (\<lambda>(k, v). (k, drop_undef v)) qs" for qs
    by (induction qs) auto
  show ?case by (simp only: drop_undef.simps json_text.simps kept texts)
qed simp_all

lemma plain_drop_undef: "numbers_ok v \<Longrightarrow> json_plain (drop_undef v)"
  by (induction v rule: drop_undef.induct) (auto simp: list_all_iff)

lemma numbers_sortKeys: "numbers_ok (sortKeys v) = numbers_ok v"
  by (induction v rule: sortKeys.induct) (auto simp: list_all_iff)

lemma canonicalize_inj:
  assumes "numbers_ok v" "numbers_ok w" "canonicalize v = canonicalize w"
  shows "canon v = canon w"
proof (rule json_text_inj)
  show "json_plain (canon v)" "json_plain (canon w)"
    using assms by (simp_all add: canon_def plain_drop_undef numbers_sortKeys)
  show "json_text (canon v) = json_text (canon w)"
    using assms(3) by (simp add: canon_def canonicalize_def json_text_drop)
qed

subsection \<open>Records\<close>

definition GENESIS_HASH :: string where
  "GENESIS_HASH = replicate 64 (CHR ''0'')"

record chain_content =
  cc_chainKey :: string
  cc_seq :: nat
  cc_action :: string
  cc_subject :: "string option"
  cc_actorId :: "string option"
  cc_actorType :: "string option"
  cc_projectId :: "string option"
  cc_organizationId :: "string option"
  cc_idempotencyKey :: "string option"
  cc_createdAt :: rat
  cc_data :: jsval

definition opt_js :: "string option \<Rightarrow> jsval" where
  "opt_js x = (case x of None \<Rightarrow> JUndef | Some s \<Rightarrow> JStr s)"

definition content_js :: "chain_content \<Rightarrow> jsval" where
  "content_js c = JObj
     [(''chainKey'', JStr (cc_chainKey c)), (''seq'', JNum (of_nat (cc_seq c))), (''action'', JStr (cc_action c)),
      (''subject'', opt_js (cc_subject c)), (''actorId'', opt_js (cc_actorId c)), (''actorType'', opt_js (cc_actorType c)),
      (''projectId'', opt_js (cc_projectId c)), (''organizationId'', opt_js (cc_organizationId c)),
      (''idempotencyKey'', opt_js (cc_idempotencyKey c)), (''createdAt'', JNum (cc_createdAt c)), (''data'', cc_data c)]"

text \<open>The text that is hashed, and its hash.\<close>

definition record_text :: "string \<Rightarrow> chain_content \<Rightarrow> string" where
  "record_text prevHash c = canonicalize (JObj [(''prevHash'', JStr prevHash), (''content'', content_js c)])"

definition computeHash :: "(string \<Rightarrow> string) \<Rightarrow> string \<Rightarrow> chain_content \<Rightarrow> string" where
  "computeHash sha prevHash c = sha (record_text prevHash c)"

record chain_record =
  cr_content :: chain_content
  cr_prevHash :: string
  cr_hash :: string

definition linkRecord :: "(string \<Rightarrow> string) \<Rightarrow> string \<Rightarrow> chain_content \<Rightarrow> chain_record" where
  "linkRecord sha prevHash c = \<lparr>cr_content = c, cr_prevHash = prevHash, cr_hash = computeHash sha prevHash c\<rparr>"

subsection \<open>Verification\<close>

datatype break_reason = HASH_MISMATCH | PREV_HASH_MISMATCH | SEQ_GAP

record chain_break =
  br_seq :: nat
  br_expected :: string
  br_actual :: string
  br_reason :: break_reason

text \<open>\<open>Verified\<close> with the number of records, \<open>Broken\<close> with the number verified before the break.\<close>

datatype verify_result = Verified nat | Broken nat chain_break

fun verify_from :: "(string \<Rightarrow> string) \<Rightarrow> string \<Rightarrow> nat \<Rightarrow> chain_record list \<Rightarrow> verify_result" where
  "verify_from sha prevHash expectedSeq [] = Verified (expectedSeq - 1)"
| "verify_from sha prevHash expectedSeq (r # rs) =
     (let s = cc_seq (cr_content r); recomputed = computeHash sha prevHash (cr_content r) in
      if s \<noteq> expectedSeq then
        Broken (expectedSeq - 1) \<lparr>br_seq = s, br_expected = nat_str expectedSeq, br_actual = nat_str s, br_reason = SEQ_GAP\<rparr>
      else if cr_prevHash r \<noteq> prevHash then
        Broken (expectedSeq - 1) \<lparr>br_seq = s, br_expected = prevHash, br_actual = cr_prevHash r, br_reason = PREV_HASH_MISMATCH\<rparr>
      else if recomputed \<noteq> cr_hash r then
        Broken (expectedSeq - 1) \<lparr>br_seq = s, br_expected = recomputed, br_actual = cr_hash r, br_reason = HASH_MISMATCH\<rparr>
      else verify_from sha (cr_hash r) (expectedSeq + 1) rs)"

definition verifyChain :: "(string \<Rightarrow> string) \<Rightarrow> chain_record list \<Rightarrow> verify_result" where
  "verifyChain sha rs = verify_from sha GENESIS_HASH 1 rs"

subsection \<open>Links that determine what they link\<close>

text \<open>The texts hashed along a chain of contents put on the hash \<open>h\<close>.\<close>

fun link_texts :: "('h \<Rightarrow> 'c \<Rightarrow> 't) \<Rightarrow> ('t \<Rightarrow> 'h) \<Rightarrow> 'h \<Rightarrow> 'c list \<Rightarrow> 't list" where
  "link_texts enc digest h [] = []"
| "link_texts enc digest h (c # cs) = enc h c # link_texts enc digest (digest (enc h c)) cs"

text \<open>Two different texts, one of each list, with one digest.\<close>

definition collide :: "('t \<Rightarrow> 'h) \<Rightarrow> 't list \<Rightarrow> 't list \<Rightarrow> bool" where
  "collide digest xs ys \<longleftrightarrow> list_ex (\<lambda>x. list_ex (\<lambda>y. x \<noteq> y \<and> digest x = digest y) ys) xs"

lemma collide_iff: "collide digest xs ys \<longleftrightarrow> (\<exists>x\<in>set xs. \<exists>y\<in>set ys. x \<noteq> y \<and> digest x = digest y)"
  by (auto simp: collide_def list_ex_iff)

lemma link_texts_snoc:
  "link_texts enc digest h (cs @ [c]) =
     link_texts enc digest h cs @ [enc (foldl (\<lambda>h c. digest (enc h c)) h cs) c]"
  by (induction cs arbitrary: h) auto

text \<open>
  The contract of a hash chain: the text of a link determines the hash it was put on and what it shows
  of its content. Two chains of the same length that end in the same hash then show the same contents
  throughout, unless two of the texts hashed for them collide.
\<close>

locale hash_link =
  fixes enc :: "'h \<Rightarrow> 'c \<Rightarrow> 't" and digest :: "'t \<Rightarrow> 'h" and view :: "'c \<Rightarrow> 'v" and good :: "'c \<Rightarrow> bool"
  assumes text_inj: "good c \<Longrightarrow> good d \<Longrightarrow> enc h c = enc k d \<Longrightarrow> h = k \<and> view c = view d"
begin

lemma link_inj:
  assumes "\<not> collide digest [enc h c] [enc k d]" "good c" "good d" "digest (enc h c) = digest (enc k d)"
  shows "h = k \<and> view c = view d"
  using assms by (intro text_inj) (auto simp: collide_iff)

lemma chain_determined:
  "\<not> collide digest (link_texts enc digest h cs) (link_texts enc digest k ds) \<Longrightarrow> length cs = length ds
     \<Longrightarrow> list_all good cs \<Longrightarrow> list_all good ds
     \<Longrightarrow> foldl (\<lambda>h c. digest (enc h c)) h cs = foldl (\<lambda>h c. digest (enc h c)) k ds
     \<Longrightarrow> h = k \<and> map view cs = map view ds"
proof (induction cs arbitrary: ds rule: rev_induct)
  case (snoc c cs)
  then obtain d ds' where ds: "ds = ds' @ [d]" by (metis length_0_conv rev_exhaust snoc_eq_iff_butlast)
  let ?link = "\<lambda>h c. digest (enc h c)"
  have safe: "\<not> collide digest (link_texts enc digest h cs) (link_texts enc digest k ds')"
    "\<not> collide digest [enc (foldl ?link h cs) c] [enc (foldl ?link k ds') d]"
    using snoc.prems(1) by (auto simp: ds link_texts_snoc collide_iff)
  from snoc.prems link_inj [OF safe(2)] snoc.IH [OF safe(1)] show ?case by (auto simp: ds)
qed simp

end

definition content_ok :: "chain_content \<Rightarrow> bool" where
  "content_ok c \<longleftrightarrow> numbers_ok (content_js c)"

lemma canon_wrapped:
  "canon (JObj [(''prevHash'', JStr h), (''content'', content_js c)]) =
     JObj [(''content'', canon (content_js c)), (''prevHash'', JStr h)]"
  by (simp add: canon_def content_js_def)

interpretation audit: hash_link record_text sha "\<lambda>c. canon (content_js c)" content_ok for sha
proof
  fix c d h k
  assume a: "content_ok c" "content_ok d" "record_text h c = record_text k d"
  let ?w = "\<lambda>h c. JObj [(''prevHash'', JStr h), (''content'', content_js c)]"
  have "canon (?w h c) = canon (?w k d)"
    using a by (intro canonicalize_inj) (simp_all add: content_ok_def record_text_def)
  then show "h = k \<and> canon (content_js c) = canon (content_js d)" by (simp add: canon_wrapped)
qed

text \<open>The texts hashed for a chain of records.\<close>

definition chain_texts :: "(string \<Rightarrow> string) \<Rightarrow> chain_record list \<Rightarrow> string list" where
  "chain_texts sha rs = link_texts record_text sha GENESIS_HASH (map cr_content rs)"

subsection \<open>Well-linked chains\<close>

fun chained :: "(string \<Rightarrow> string) \<Rightarrow> string \<Rightarrow> nat \<Rightarrow> chain_record list \<Rightarrow> bool" where
  "chained sha h n [] = True"
| "chained sha h n (r # rs) =
     (cc_seq (cr_content r) = n \<and> r = linkRecord sha h (cr_content r) \<and> chained sha (cr_hash r) (n + 1) rs)"

definition tail_hash :: "string \<Rightarrow> chain_record list \<Rightarrow> string" where
  "tail_hash h rs = (if rs = [] then h else cr_hash (last rs))"

lemma tail_hash_simps [simp]: "tail_hash h [] = h" "tail_hash h (rs @ [r]) = cr_hash r"
  by (simp_all add: tail_hash_def)

lemma tail_hash_Cons: "tail_hash h (r # rs) = tail_hash (cr_hash r) rs"
  by (simp add: tail_hash_def)

lemma linked_iff:
  "r = linkRecord sha h (cr_content r) \<longleftrightarrow> cr_prevHash r = h \<and> cr_hash r = computeHash sha h (cr_content r)"
  by (cases r) (auto simp: linkRecord_def)

lemma verify_from_iff:
  "n > 0 \<Longrightarrow> verify_from sha h n rs = Verified m \<longleftrightarrow> chained sha h n rs \<and> m = n - 1 + length rs"
proof (induction rs arbitrary: h n)
  case (Cons r rs)
  then show ?case by (auto simp: Let_def linked_iff)
qed auto

lemma verifyChain_iff: "verifyChain sha rs = Verified m \<longleftrightarrow> chained sha GENESIS_HASH 1 rs \<and> m = length rs"
  using verify_from_iff [of 1] by (simp add: verifyChain_def)

lemma chained_append:
  "chained sha h n (rs @ ss) \<longleftrightarrow> chained sha h n rs \<and> chained sha (tail_hash h rs) (n + length rs) ss"
  by (induction rs arbitrary: h n) (auto simp: tail_hash_Cons)

lemma chained_snoc:
  "chained sha h n (rs @ [r]) \<longleftrightarrow>
     chained sha h n rs \<and> cc_seq (cr_content r) = n + length rs \<and> r = linkRecord sha (tail_hash h rs) (cr_content r)"
  by (simp add: chained_append)

lemma chained_tail_hash: "chained sha h n rs \<Longrightarrow> tail_hash h rs = foldl (computeHash sha) h (map cr_content rs)"
  by (induction rs arbitrary: h n) (auto simp: tail_hash_Cons linked_iff)

lemma chained_records: "chained sha h n rs \<Longrightarrow> map cr_content rs = map cr_content rs' \<Longrightarrow> chained sha h n rs' \<Longrightarrow> rs = rs'"
proof (induction rs arbitrary: h n rs')
  case (Cons r rs)
  then show ?case by (cases rs') auto
qed simp

lemma drop_undef_get:
  "distinct (map fst ps) \<Longrightarrow> map_of ps k = Some v \<Longrightarrow> v \<noteq> JUndef \<Longrightarrow> js_get (drop_undef (JObj ps)) k = drop_undef v"
proof (induction ps)
  case (Cons p ps)
  obtain l u where p: "p = (l, u)" by (cases p)
  show ?case
  proof (cases "l = k")
    case True
    with Cons.prems p show ?thesis by simp
  next
    case False
    with Cons p show ?thesis by auto
  qed
qed simp

lemma sortKeys_opt [simp]: "sortKeys (opt_js x) = opt_js x"
  by (simp add: opt_js_def split: option.splits)

lemma sorted_content:
  "sortKeys (content_js c) = JObj
     [(''action'', JStr (cc_action c)), (''actorId'', opt_js (cc_actorId c)), (''actorType'', opt_js (cc_actorType c)),
      (''chainKey'', JStr (cc_chainKey c)), (''createdAt'', JNum (cc_createdAt c)), (''data'', sortKeys (cc_data c)),
      (''idempotencyKey'', opt_js (cc_idempotencyKey c)), (''organizationId'', opt_js (cc_organizationId c)),
      (''projectId'', opt_js (cc_projectId c)), (''seq'', JNum (of_nat (cc_seq c))), (''subject'', opt_js (cc_subject c))]"
  by (simp add: content_js_def)

lemma canon_seq: "js_get (canon (content_js c)) ''seq'' = JNum (of_nat (cc_seq c))"
proof -
  have "js_get (canon (content_js c)) ''seq'' = drop_undef (JNum (of_nat (cc_seq c)))"
    unfolding canon_def sorted_content by (rule drop_undef_get) simp_all
  then show ?thesis by simp
qed

subsection \<open>Properties\<close>

lemma foldl_computeHash: "foldl (computeHash sha) h cs = foldl (\<lambda>h c. sha (record_text h c)) h cs"
  by (induction cs arbitrary: h) (simp_all add: computeHash_def)

lemma tail_determines:
  assumes "\<not> collide sha (chain_texts sha rs) (chain_texts sha rs')"
    and "chained sha GENESIS_HASH 1 rs" "chained sha GENESIS_HASH 1 rs'"
    and "tail_hash h rs = tail_hash h rs'" "rs \<noteq> []" "rs' \<noteq> []"
    and "list_all (content_ok \<circ> cr_content) rs" "list_all (content_ok \<circ> cr_content) rs'"
  shows "length rs = length rs'
    \<and> map (\<lambda>r. canon (content_js (cr_content r))) rs = map (\<lambda>r. canon (content_js (cr_content r))) rs'"
proof -
  obtain xs r ys r' where rs: "rs = xs @ [r]" "rs' = ys @ [r']" using assms(5,6) by (metis rev_exhaust)
  let ?t = "record_text (tail_hash GENESIS_HASH xs) (cr_content r)" and ?t' = "record_text (tail_hash GENESIS_HASH ys) (cr_content r')"
  have "chained sha GENESIS_HASH 1 xs" "chained sha GENESIS_HASH 1 ys" using assms(2,3) by (simp_all add: rs chained_append)
  then have "?t \<in> set (chain_texts sha rs)" "?t' \<in> set (chain_texts sha rs')"
    by (simp_all add: rs chain_texts_def link_texts_snoc chained_tail_hash foldl_computeHash)
  then have "\<not> collide sha [?t] [?t']" using assms(1) by (auto simp: collide_iff)
  moreover have "sha ?t = sha ?t'"
    using assms(2-4) by (simp add: rs chained_snoc linked_iff computeHash_def)
  ultimately have "canon (content_js (cr_content r)) = canon (content_js (cr_content r'))"
    using audit.link_inj assms(7,8) by (simp add: rs)
  then have "cc_seq (cr_content r) = cc_seq (cr_content r')" by (metis canon_seq jsval.inject(2) of_nat_eq_iff)
  then have len: "length rs = length rs'" using assms(2,3) by (simp add: rs chained_snoc)
  have "foldl (\<lambda>h c. sha (record_text h c)) GENESIS_HASH (map cr_content rs)
      = foldl (\<lambda>h c. sha (record_text h c)) GENESIS_HASH (map cr_content rs')"
    using chained_tail_hash [OF assms(2)] chained_tail_hash [OF assms(3)] assms(4-6)
    by (simp add: tail_hash_def foldl_computeHash)
  from audit.chain_determined [OF assms(1) [unfolded chain_texts_def] _ _ _ this] len assms(7,8) show ?thesis
    by (simp add: list_all_iff comp_def)
qed

text \<open>C24: The hash of the last record pins down the whole chain. Two non-empty chains that both verify and end
  in the same hash have the same length and record for record the same canonical content, unless two
  different texts, one hashed for each of the two chains, have the same digest: an altered, inserted,
  dropped or swapped record is detected by whoever knows the last hash, or hands him a collision
  among these texts. The numbers in the contents are ones the text prints in plain decimal notation.\<close>

theorem chain_tamper_evident:
  assumes "verifyChain sha rs = Verified n" "verifyChain sha rs' = Verified n'"
    and "rs \<noteq> []" "rs' \<noteq> []" "cr_hash (last rs) = cr_hash (last rs')"
    and "list_all (content_ok \<circ> cr_content) rs" "list_all (content_ok \<circ> cr_content) rs'"
  shows "collide sha (chain_texts sha rs) (chain_texts sha rs') \<or> n = n'
    \<and> map (\<lambda>r. canon (content_js (cr_content r))) rs = map (\<lambda>r. canon (content_js (cr_content r))) rs'"
  using tail_determines [of sha rs rs' GENESIS_HASH] assms by (auto simp: verifyChain_iff tail_hash_def)

text \<open>A missing tail is not noticed. Every beginning of a chain that verifies also verifies, so whoever deletes
  the latest records of a journal leaves a chain that is reported intact; the stored head, which
  knows the number of records and the last hash, is not consulted.\<close>

lemma truncated_chain_verifies:
  assumes "verifyChain sha rs = Verified n"
  shows "verifyChain sha (take k rs) = Verified (min k n)"
  using assms chained_append [of sha GENESIS_HASH 1 "take k rs" "drop k rs"]
  by (auto simp: verifyChain_iff min_def)

definition sample_content :: "nat \<Rightarrow> chain_content" where
  "sample_content n = \<lparr>cc_chainKey = ''record|p1'', cc_seq = n, cc_action = ''crm.deal.updated'', cc_subject = Some ''deal/d1'',
     cc_actorId = Some ''u1'', cc_actorType = Some ''user'', cc_projectId = Some ''p1'', cc_organizationId = None,
     cc_idempotencyKey = Some ''k1'', cc_createdAt = 1000, cc_data = JObj [(''category'', JStr ''crm'')]\<rparr>"

definition sample_chain :: "(string \<Rightarrow> string) \<Rightarrow> chain_record list" where
  "sample_chain sha =
     (let r = linkRecord sha GENESIS_HASH (sample_content 1) in [r, linkRecord sha (cr_hash r) (sample_content 2)])"

lemma sample_chain_verifies: "verifyChain sha (sample_chain sha) = Verified 2"
  by (simp add: verifyChain_def sample_chain_def Let_def linkRecord_def sample_content_def)

lemma sample_content_ok: "content_ok (sample_content n)"
  by (simp add: content_ok_def content_js_def sample_content_def opt_js_def numeral_eq_Suc is_int_def)

text \<open>A chain of one record whose action was changed, under a digest that sends every text to one hash.\<close>

definition forged_chain :: "string \<Rightarrow> chain_record list" where
  "forged_chain action = [linkRecord (\<lambda>_. ''00'') GENESIS_HASH (sample_content 1\<lparr>cc_action := action\<rparr>)]"

lemma forged_chain_verifies: "verifyChain (\<lambda>_. ''00'') (forged_chain a) = Verified 1"
  by (simp add: verifyChain_def forged_chain_def Let_def linkRecord_def sample_content_def computeHash_def)

lemma canon_action: "js_get (canon (content_js c)) ''action'' = JStr (cc_action c)"
proof -
  have "js_get (canon (content_js c)) ''action'' = drop_undef (JStr (cc_action c))"
    unfolding canon_def sorted_content by (rule drop_undef_get) simp_all
  then show ?thesis by simp
qed

lemma forged_content_ok: "list_all (content_ok \<circ> cr_content) (forged_chain a)"
  using sample_content_ok [of 1] by (simp add: forged_chain_def linkRecord_def content_ok_def content_js_def)

theorem chain_tamper_evident_witness:
  "collide (\<lambda>_. ''00'') (chain_texts (\<lambda>_. ''00'') (forged_chain ''crm.deal.updated''))
     (chain_texts (\<lambda>_. ''00'') (forged_chain ''crm.deal.deleted''))"
proof -
  let ?r = "\<lambda>a. linkRecord (\<lambda>_. ''00'') GENESIS_HASH (sample_content 1\<lparr>cc_action := a\<rparr>)"
  have "canon (content_js (cr_content (?r ''crm.deal.updated''))) \<noteq> canon (content_js (cr_content (?r ''crm.deal.deleted'')))"
  proof
    assume "canon (content_js (cr_content (?r ''crm.deal.updated''))) = canon (content_js (cr_content (?r ''crm.deal.deleted'')))"
    then show False using canon_action [of "cr_content (?r ''crm.deal.updated'')"] canon_action [of "cr_content (?r ''crm.deal.deleted'')"]
      by (simp add: linkRecord_def)
  qed
  with chain_tamper_evident [OF forged_chain_verifies forged_chain_verifies _ _ _ forged_content_ok forged_content_ok,
      of "''crm.deal.updated''" "''crm.deal.deleted''"] show ?thesis
    by (simp add: forged_chain_def linkRecord_def computeHash_def)
qed

end
