(* ===== verification/AuditChain.thy ===== *)
theory AuditChain
  imports HashChain
begin

text \<open>
  The audit service (\<^verbatim>\<open>audit/src/chain/audit-chain.service.ts\<close> and the ingestion part of
  \<^verbatim>\<open>audit/src/audit/audit.service.ts\<close>): chain heads, stored events and the ledger of processed
  messages; appending by compare-and-swap on the head with a compensating swap when the insert fails;
  the two-phase claim that makes redelivered messages count once, and the expiry of claims. What the
  Mongo driver makes of a value between insert and find is the parameter \<open>bson\<close>, and \<open>Date.parse\<close> the
  parameter \<open>parse_date\<close>. The unique index on chain and position is taken as present (its creation at boot
  is best effort). An insertion that is stored but reported as failed is an outcome of the sequential
  attempts; in the interleaving relation a failing insertion stores nothing.
\<close>

subsection \<open>The store\<close>

datatype claim_state = Pending | Processed

record event_doc =
  ed_record :: chain_record        \<comment> \<open>with the data as stored\<close>
  ed_entityType :: "string option"
  ed_entityId :: "string option"
  ed_payloadJson :: string

record audit_store =
  au_heads :: "(string \<times> nat \<times> string) list"
  au_events :: "event_doc list"
  au_claims :: "(string \<times> claim_state \<times> rat) list"   \<comment> \<open>with \<open>processedAt\<close>\<close>

abbreviation ed_content :: "event_doc \<Rightarrow> chain_content" where
  "ed_content e \<equiv> cr_content (ed_record e)"

definition orgChainKey :: "string \<Rightarrow> string option \<Rightarrow> string" where
  "orgChainKey org pid = ''org|'' @ org @ ''|'' @ (case pid of None \<Rightarrow> [] | Some p \<Rightarrow> p)"

definition recordChainKey :: "string \<Rightarrow> string" where
  "recordChainKey pid = ''record|'' @ pid"

subsection \<open>The atomic operations\<close>

definition head_init :: "string \<Rightarrow> audit_store \<Rightarrow> audit_store" where
  "head_init key st =
     (case map_of (au_heads st) key of
        None \<Rightarrow> st\<lparr>au_heads := AList.update key (0, GENESIS_HASH) (au_heads st)\<rparr>
      | Some _ \<Rightarrow> st)"

definition head_get :: "string \<Rightarrow> audit_store \<Rightarrow> nat \<times> string" where
  "head_get key st = (case map_of (au_heads st) key of None \<Rightarrow> (0, GENESIS_HASH) | Some h \<Rightarrow> h)"

text \<open>Whether the head matched, and the store after it.\<close>

definition head_cas :: "string \<Rightarrow> nat \<times> string \<Rightarrow> nat \<times> string \<Rightarrow> audit_store \<Rightarrow> bool \<times> audit_store" where
  "head_cas key old new st =
     (if map_of (au_heads st) key = Some old
      then (True, st\<lparr>au_heads := AList.update key new (au_heads st)\<rparr>) else (False, st))"

definition next_record :: "(string \<Rightarrow> string) \<Rightarrow> nat \<times> string \<Rightarrow> chain_content \<Rightarrow> chain_record" where
  "next_record sha h c = linkRecord sha (snd h) (c\<lparr>cc_seq := fst h + 1\<rparr>)"

definition subject_parts :: "string \<Rightarrow> string \<times> string" where
  "subject_parts s =
     (if CHR ''/'' \<in> set s
      then (takeWhile (\<lambda>c. c \<noteq> CHR ''/'') s, tl (dropWhile (\<lambda>c. c \<noteq> CHR ''/'') s)) else ([], []))"

definition nonempty :: "string \<Rightarrow> string option" where
  "nonempty s = (if s = [] then None else Some s)"

definition js_or :: "jsval \<Rightarrow> jsval \<Rightarrow> jsval" where
  "js_or v d = (if js_nullish v then d else v)"

definition event_of :: "(jsval \<Rightarrow> jsval) \<Rightarrow> chain_record \<Rightarrow> event_doc" where
  "event_of bson r =
     (let c = cr_content r; parts = subject_parts (case cc_subject c of None \<Rightarrow> [] | Some s \<Rightarrow> s) in
      \<lparr>ed_record = r\<lparr>cr_content := c\<lparr>cc_data := bson (js_or (cc_data c) JNull)\<rparr>\<rparr>,
       ed_entityType = nonempty (fst parts), ed_entityId = nonempty (snd parts),
       ed_payloadJson = json_text (js_or (cc_data c) (JObj []))\<rparr>)"

text \<open>The unique index on the chain and the position refuses a second record there.\<close>

definition insert_event :: "event_doc \<Rightarrow> audit_store \<Rightarrow> audit_store option" where
  "insert_event e st =
     (if list_ex (\<lambda>d. cc_chainKey (ed_content d) = cc_chainKey (ed_content e) \<and> cc_seq (ed_content d) = cc_seq (ed_content e))
           (au_events st) then None
      else Some (st\<lparr>au_events := au_events st @ [e]\<rparr>))"

subsection \<open>One append, alone\<close>

text \<open>
  How an attempt ends: the insert may fail, with nothing stored or with the record stored all the
  same, and the process may die before or after it. Alone, the first swap of the head succeeds.
\<close>

datatype attempt = Completes | DiesAfterClaim | DiesAfterSwap | InsertFails | StoredButFails | DiesAfterInsert

definition append_alone :: "(string \<Rightarrow> string) \<Rightarrow> (jsval \<Rightarrow> jsval) \<Rightarrow> attempt \<Rightarrow> chain_content \<Rightarrow> audit_store
    \<Rightarrow> chain_record option \<times> audit_store" where
  "append_alone sha bson how c st =
     (let key = cc_chainKey c; st0 = head_init key st; h = head_get key st0; r = next_record sha h c;
          st1 = snd (head_cas key h (cc_seq (cr_content r), cr_hash r) st0)
      in if how = DiesAfterSwap then (None, st1)
         else case (if how = InsertFails then None else insert_event (event_of bson r) st1) of
             Some st2 \<Rightarrow>
               if how = StoredButFails then (None, snd (head_cas key (cc_seq (cr_content r), cr_hash r) h st2))
               else (Some r, st2)
           | None \<Rightarrow> (None, snd (head_cas key (cc_seq (cr_content r), cr_hash r) h st1)))"

subsection \<open>Loading and verifying\<close>

definition toChainRecord :: "event_doc \<Rightarrow> chain_record" where
  "toChainRecord e =
     (let r = ed_record e; c = cr_content r in r\<lparr>cr_content := c\<lparr>cc_data := js_or (cc_data c) JUndef\<rparr>\<rparr>)"

definition loadChain :: "string \<Rightarrow> audit_store \<Rightarrow> chain_record list" where
  "loadChain key st =
     map toChainRecord (js_sort_by (\<lambda>a b. cc_seq (ed_content a) \<le> cc_seq (ed_content b))
       (filter (\<lambda>e. cc_chainKey (ed_content e) = key) (au_events st)))"

definition verify :: "(string \<Rightarrow> string) \<Rightarrow> string \<Rightarrow> audit_store \<Rightarrow> verify_result" where
  "verify sha key st = verifyChain sha (loadChain key st)"

subsection \<open>Claims\<close>

definition confirmMessage :: "string \<Rightarrow> rat \<Rightarrow> audit_store \<Rightarrow> audit_store" where
  "confirmMessage k now st =
     (case map_of (au_claims st) k of
        None \<Rightarrow> st
      | Some _ \<Rightarrow> st\<lparr>au_claims := AList.update k (Processed, now) (au_claims st)\<rparr>)"

definition claimMessage :: "string \<Rightarrow> rat \<Rightarrow> audit_store \<Rightarrow> bool \<times> audit_store" where
  "claimMessage k now st =
     (case map_of (au_claims st) k of
        None \<Rightarrow> (True, st\<lparr>au_claims := AList.update k (Pending, now) (au_claims st)\<rparr>)
      | Some (Processed, _) \<Rightarrow> (False, st)
      | Some (Pending, _) \<Rightarrow>
          if list_ex (\<lambda>e. cc_idempotencyKey (ed_content e) = Some k) (au_events st)
          then (False, confirmMessage k now st) else (True, st))"

text \<open>
  The ledger index is declared to expire an entry seven days after \<open>processedAt\<close>. Mongo expires by values
  of type date only and \<open>processedAt\<close> is stored as a number, so the index may never remove anything; a run
  below sweeps whenever it likes, or never.
\<close>

definition claim_ttl :: rat where
  "claim_ttl = 7 * 24 * 60 * 60 * 1000"

definition expire_claims :: "rat \<Rightarrow> audit_store \<Rightarrow> audit_store" where
  "expire_claims now st = st\<lparr>au_claims := filter (\<lambda>(_, _, t). now \<le> t + claim_ttl) (au_claims st)\<rparr>"

subsection \<open>From a bus message to a record\<close>

text \<open>\<open>String(v)\<close>.\<close>

fun js_String :: "jsval \<Rightarrow> string" where
  "js_String JUndef = ''undefined''"
| "js_String JNull = ''null''"
| "js_String (JBool b) = (if b then ''true'' else ''false'')"
| "js_String (JNum q) = num_text q"
| "js_String (JStr s) = s"
| "js_String (JArr xs) = join '','' (map (\<lambda>x. if js_nullish x then [] else js_String x) xs)"
| "js_String (JObj ps) = ''[object Object]''"

text \<open>\<open>String(v.a ?? v.b ?? '')\<close> over the names given.\<close>

definition first_text :: "jsval \<Rightarrow> string list \<Rightarrow> string" where
  "first_text v ks =
     (case filter (\<lambda>k. \<not> js_nullish (js_get v k)) ks of [] \<Rightarrow> [] | k # _ \<Rightarrow> js_String (js_get v k))"

definition SYSTEM_SCOPED_NAMESPACES :: "string list" where
  "SYSTEM_SCOPED_NAMESPACES = [''control'', ''gateway'', ''chat'', ''notification'', ''template'']"

definition categoryFor :: "string \<Rightarrow> string" where
  "categoryFor n =
     (if starts_with n ''control.'' then ''permission''
      else if starts_with n ''gateway.auth.'' \<or> starts_with n ''gateway.profile.'' then ''security''
      else if starts_with n ''crm.'' then ''crm'' else ''system'')"

fun asObj :: "jsval \<Rightarrow> jsval" where
  "asObj (JObj ps) = JObj ps"
| "asObj v = JUndef"

definition parseTimestamp :: "(string \<Rightarrow> rat option) \<Rightarrow> jsval \<Rightarrow> rat option" where
  "parseTimestamp parse_date v = (case v of JNum q \<Rightarrow> Some q | JStr s \<Rightarrow> parse_date s | _ \<Rightarrow> None)"

definition resolveChainProjectId :: "string \<Rightarrow> jsval \<Rightarrow> string" where
  "resolveChainProjectId n p =
     (let direct = trim (first_text p [''projectId'', ''project_id'']);
          nested = trim (first_text (asObj (js_get p ''payload'')) [''projectId'', ''project_id''])
      in if direct \<noteq> [] then direct else if nested \<noteq> [] then nested
         else if takeWhile (\<lambda>c. c \<noteq> CHR ''.'') n \<in> set SYSTEM_SCOPED_NAMESPACES then ''system'' else [])"

text \<open>\<open>{ ...a, ...b }\<close>: a later property keeps the place of an earlier one of its name.\<close>

definition spread :: "(string \<times> jsval) list \<Rightarrow> jsval \<Rightarrow> jsval" where
  "spread ps v = JObj (case v of JObj qs \<Rightarrow> foldl (\<lambda>m (k, x). AList.update k x m) ps qs | _ \<Rightarrow> ps)"

definition text_or_undef :: "string \<Rightarrow> jsval" where
  "text_or_undef s = (if s = [] then JUndef else JStr s)"

text \<open>The data of the record: what the bus adds, and the payload over it.\<close>

definition event_data :: "string \<Rightarrow> jsval \<Rightarrow> jsval" where
  "event_data n p =
     spread [(''category'', JStr (categoryFor n)), (''traceId'', text_or_undef (first_text p [''traceId'', ''trace_id''])),
             (''causationId'', text_or_undef (first_text p [''causationId'', ''causation_id'']))]
       (if asObj (js_get p ''payload'') = JUndef then JObj [(''raw'', js_get p ''payload'')] else js_get p ''payload'')"

record audit_message =
  am_name :: string
  am_project :: string
  am_key :: string
  am_content :: chain_content

text \<open>The message a payload stands for; nothing when it is rejected.\<close>

definition message_of :: "(string \<Rightarrow> rat option) \<Rightarrow> rat \<Rightarrow> jsval \<Rightarrow> audit_message option" where
  "message_of parse_date now p =
     (let n = trim (first_text p [''type'', ''event_name'', ''eventName'']);
          pid = resolveChainProjectId n p;
          inner = js_get p ''payload'';
          org = (if \<not> js_nullish (js_get p ''organizationId'') \<or> \<not> js_nullish (js_get p ''organization_id'')
                 then first_text p [''organizationId'', ''organization_id'']
                 else first_text (asObj inner) [''organizationId'']);
          mid = first_text p [''messageId'', ''message_id''];
          ik = first_text p [''idempotencyKey'', ''idempotency_key''];
          key = (if ik = [] then mid else ik)
      in if n = [] \<or> pid = [] then None
         else Some \<lparr>am_name = n, am_project = pid, am_key = key, am_content =
           \<lparr>cc_chainKey = recordChainKey pid, cc_seq = 0, cc_action = n, cc_subject = nonempty (first_text p [''subject'']),
            cc_actorId = nonempty (first_text p [''userId'', ''user_id'', ''actorId'', ''actor_id'']),
            cc_actorType = Some (if list_all (\<lambda>k. js_nullish (js_get p k)) [''actorType'', ''actor_type''] then ''service''
                                 else first_text p [''actorType'', ''actor_type'']),
            cc_projectId = nonempty pid, cc_organizationId = nonempty org, cc_idempotencyKey = nonempty key,
            cc_createdAt = (case parseTimestamp parse_date (js_get p ''timestamp'') of Some t \<Rightarrow> t | None \<Rightarrow> now),
            cc_data = event_data n p\<rparr>\<rparr>)"

text \<open>The consumer: claim, append, confirm; \<open>how\<close> is where the attempt dies, if it does.\<close>

definition ingest_message :: "(string \<Rightarrow> string) \<Rightarrow> (jsval \<Rightarrow> jsval) \<Rightarrow> rat \<Rightarrow> attempt \<Rightarrow> audit_message
    \<Rightarrow> audit_store \<Rightarrow> audit_store" where
  "ingest_message sha bson now how m st =
     (let (fresh, st1) = (if am_key m = [] then (True, st) else claimMessage (am_key m) now st) in
      if \<not> fresh \<or> how = DiesAfterClaim then st1
      else let (r, st2) = append_alone sha bson how (am_content m) st1 in
        if r = None \<or> how = DiesAfterInsert \<or> am_key m = [] then st2 else confirmMessage (am_key m) now st2)"

definition ingestEvent :: "(string \<Rightarrow> string) \<Rightarrow> (jsval \<Rightarrow> jsval) \<Rightarrow> (string \<Rightarrow> rat option) \<Rightarrow> rat \<Rightarrow> attempt \<Rightarrow> jsval
    \<Rightarrow> audit_store \<Rightarrow> audit_store" where
  "ingestEvent sha bson parse_date now how p st =
     (case message_of parse_date now p of None \<Rightarrow> st | Some m \<Rightarrow> ingest_message sha bson now how m st)"

subsection \<open>The service's own appends and checks\<close>

datatype rpc_error = INVALID_ARGUMENT string | RPC_NOT_FOUND string

record append_payload =
  ap_event_name :: string
  ap_entity_type :: string
  ap_entity_id :: string
  ap_actor_id :: string
  ap_actor_type :: string
  ap_payload_json :: "string option"
  ap_request_id :: string
  ap_trace_id :: string

definition validateRequiredField :: "string \<Rightarrow> string \<Rightarrow> rpc_error + unit" where
  "validateRequiredField v name = (if trim v = [] then Inl (INVALID_ARGUMENT (name @ '' is required'')) else Inr ())"

text \<open>The content an append request stands for; \<open>parse_json\<close> is \<open>JSON.parse\<close>, nothing where it throws.\<close>

definition append_content :: "(string \<Rightarrow> jsval option) \<Rightarrow> rat \<Rightarrow> string \<Rightarrow> append_payload \<Rightarrow> chain_content" where
  "append_content parse_json now pid p =
     (let n = trim (ap_event_name p); ty = trim (ap_entity_type p); i = trim (ap_entity_id p); req = trim (ap_request_id p);
          text = (case ap_payload_json p of None \<Rightarrow> ''{}'' | Some t \<Rightarrow> t);
          parsed = (case parse_json text of None \<Rightarrow> JObj [(''raw'', JStr text)] | Some v \<Rightarrow> v)
      in \<lparr>cc_chainKey = recordChainKey pid, cc_seq = 0, cc_action = n, cc_subject = Some (ty @ ''/'' @ i),
          cc_actorId = Some (trim (ap_actor_id p)), cc_actorType = Some (trim (ap_actor_type p)), cc_projectId = Some pid,
          cc_organizationId = None,
          cc_idempotencyKey = Some (if req \<noteq> [] then req else ''append:'' @ pid @ '':'' @ ty @ '':'' @ i @ '':'' @ n),
          cc_createdAt = now,
          cc_data = JObj [(''category'', JStr (categoryFor n)), (''traceId'', text_or_undef (trim (ap_trace_id p))),
                          (''requestId'', text_or_undef req), (''payload'', parsed)]\<rparr>)"

definition appendEvent :: "(string \<Rightarrow> string) \<Rightarrow> (jsval \<Rightarrow> jsval) \<Rightarrow> (string \<Rightarrow> jsval option) \<Rightarrow> rat \<Rightarrow> attempt \<Rightarrow> string
    \<Rightarrow> append_payload \<Rightarrow> audit_store \<Rightarrow> rpc_error + chain_record option \<times> audit_store" where
  "appendEvent sha bson parse_json now how pid p st =
     (if pid = [] then Inl (INVALID_ARGUMENT ''project_id is required'')
      else sbind (validateRequiredField (ap_event_name p) ''event_name'') (\<lambda>_.
        sbind (validateRequiredField (ap_entity_type p) ''entity_type'') (\<lambda>_.
        sbind (validateRequiredField (ap_entity_id p) ''entity_id'') (\<lambda>_.
        sbind (validateRequiredField (ap_actor_id p) ''actor_id'') (\<lambda>_.
        sbind (validateRequiredField (ap_actor_type p) ''actor_type'') (\<lambda>_.
          Inr (append_alone sha bson how (append_content parse_json now pid p) st)))))))"

text \<open>\<open>verifyChain\<close> of the service: the level, when not given, follows from the organization id.\<close>

definition verify_scope :: "(string \<Rightarrow> string) \<Rightarrow> string option \<Rightarrow> string \<Rightarrow> string \<Rightarrow> audit_store \<Rightarrow> rpc_error + verify_result \<times> string" where
  "verify_scope sha level org pid st =
     (let lv = (case level of Some l \<Rightarrow> l | None \<Rightarrow> if org \<noteq> [] then ''org'' else ''record'')
      in if lv = ''org'' then
           (if org = [] then Inl (INVALID_ARGUMENT ''organizationId is required for org-level chain'')
            else (let key = orgChainKey org (nonempty pid) in Inr (verify sha key st, key)))
         else if pid = [] then Inl (INVALID_ARGUMENT ''projectId is required for record-level chain'')
         else (let key = recordChainKey pid in Inr (verify sha key st, key)))"

subsection \<open>Appends that interleave\<close>

text \<open>
  Where an append stands between two awaits. \<open>Lost\<close> is an append whose insert failed and whose
  compensating swap missed or failed; a process that dies simply makes no further step. A failing
  insertion stores nothing here.
\<close>

datatype pc = ToInit | ToRead | ToSwap "nat \<times> string" | ToInsert "nat \<times> string" chain_record
  | ToRollback "nat \<times> string" chain_record | Appended chain_record | RolledBack | Lost chain_record

inductive append_step :: "(string \<Rightarrow> string) \<Rightarrow> (jsval \<Rightarrow> jsval) \<Rightarrow> chain_content \<Rightarrow> audit_store \<times> pc \<Rightarrow> audit_store \<times> pc \<Rightarrow> bool"
  for sha bson c where
  init: "append_step sha bson c (st, ToInit) (head_init (cc_chainKey c) st, ToRead)"
| read: "append_step sha bson c (st, ToRead) (st, ToSwap (head_get (cc_chainKey c) st))"
| swap: "r = next_record sha h c \<Longrightarrow> head_cas (cc_chainKey c) h (cc_seq (cr_content r), cr_hash r) st = (True, st') \<Longrightarrow>
    append_step sha bson c (st, ToSwap h) (st', ToInsert h r)"
| miss: "r = next_record sha h c \<Longrightarrow> head_cas (cc_chainKey c) h (cc_seq (cr_content r), cr_hash r) st = (False, st') \<Longrightarrow>
    append_step sha bson c (st, ToSwap h) (st', ToRead)"
| insert: "insert_event (event_of bson r) st = Some st' \<Longrightarrow> append_step sha bson c (st, ToInsert h r) (st', Appended r)"
| fail: "append_step sha bson c (st, ToInsert h r) (st, ToRollback h r)"
| undo: "head_cas (cc_chainKey c) (cc_seq (cr_content r), cr_hash r) h st = (True, st') \<Longrightarrow>
    append_step sha bson c (st, ToRollback h r) (st', RolledBack)"
| undo_miss: "head_cas (cc_chainKey c) (cc_seq (cr_content r), cr_hash r) h st = (False, st') \<Longrightarrow>
    append_step sha bson c (st, ToRollback h r) (st', Lost r)"
| undo_fail: "append_step sha bson c (st, ToRollback h r) (st, Lost r)"


record audit_run =
  ar_store :: audit_store
  ar_procs :: "nat \<Rightarrow> (chain_content \<times> pc) option"

definition audit_start :: audit_run where
  "audit_start = \<lparr>ar_store = \<lparr>au_heads = [], au_events = [], au_claims = []\<rparr>, ar_procs = (\<lambda>_. None)\<rparr>"

text \<open>Any number of appends of contents from \<open>C\<close>, started at any time, one atomic step of one of them at a time.\<close>

inductive audit_step :: "(string \<Rightarrow> string) \<Rightarrow> (jsval \<Rightarrow> jsval) \<Rightarrow> chain_content set \<Rightarrow> audit_run \<Rightarrow> audit_run \<Rightarrow> bool"
  for sha bson C where
  start: "ar_procs s i = None \<Longrightarrow> c \<in> C \<Longrightarrow> audit_step sha bson C s (s\<lparr>ar_procs := (ar_procs s)(i := Some (c, ToInit))\<rparr>)"
| move: "ar_procs s i = Some (c, p) \<Longrightarrow> append_step sha bson c (ar_store s, p) (st', p') \<Longrightarrow>
    audit_step sha bson C s (s\<lparr>ar_store := st', ar_procs := (ar_procs s)(i := Some (c, p'))\<rparr>)"

inductive audit_reach :: "(string \<Rightarrow> string) \<Rightarrow> (jsval \<Rightarrow> jsval) \<Rightarrow> chain_content set \<Rightarrow> audit_run \<Rightarrow> bool" for sha bson C where
  "audit_reach sha bson C audit_start"
| "audit_reach sha bson C s \<Longrightarrow> audit_step sha bson C s s' \<Longrightarrow> audit_reach sha bson C s'"

subsection \<open>The linear log behind the store\<close>

fun holding :: "pc \<Rightarrow> ((nat \<times> string) \<times> chain_record) option" where
  "holding (ToInsert h r) = Some (h, r)"
| "holding (ToRollback h r) = Some (h, r)"
| "holding _ = None"

abbreviation pos :: "event_doc \<Rightarrow> string \<times> nat" where
  "pos e \<equiv> (cc_chainKey (ed_content e), cc_seq (ed_content e))"

text \<open>
  \<open>L\<close> lists, for every chain, the records whose swap of the head was not undone. The head of a chain
  describes its log, and what is stored is in the log, once.
\<close>

definition heads_ok :: "(string \<Rightarrow> string) \<Rightarrow> audit_store \<Rightarrow> (string \<Rightarrow> chain_record list) \<Rightarrow> bool" where
  "heads_ok sha st L \<longleftrightarrow>
     (\<forall>key. chained sha GENESIS_HASH 1 (L key) \<and> head_get key st = (length (L key), tail_hash GENESIS_HASH (L key))
        \<and> (\<forall>r \<in> set (L key). cc_chainKey (cr_content r) = key))"

definition events_ok :: "(jsval \<Rightarrow> jsval) \<Rightarrow> audit_store \<Rightarrow> (string \<Rightarrow> chain_record list) \<Rightarrow> bool" where
  "events_ok bson st L \<longleftrightarrow>
     (\<forall>e \<in> set (au_events st). \<exists>r \<in> set (L (cc_chainKey (ed_content e))). e = event_of bson r)
     \<and> distinct (map pos (au_events st))"

definition slot :: "chain_record list \<Rightarrow> nat \<times> string \<Rightarrow> chain_record \<Rightarrow> bool" where
  "slot rs h r \<longleftrightarrow> (\<exists>xs ys. rs = xs @ r # ys \<and> h = (length xs, tail_hash GENESIS_HASH xs))"

text \<open>The processes that swapped the head and have not stored their record, with the head they replaced.\<close>

definition holders :: "audit_run \<Rightarrow> (nat \<times> chain_content \<times> (nat \<times> string) \<times> chain_record) set" where
  "holders s = {(i, c, h, r). \<exists>p. ar_procs s i = Some (c, p) \<and> holding p = Some (h, r)}"

definition held :: "(string \<Rightarrow> string) \<Rightarrow> (string \<times> nat) set \<Rightarrow> (nat \<times> chain_content \<times> (nat \<times> string) \<times> chain_record) set
    \<Rightarrow> (string \<Rightarrow> chain_record list) \<Rightarrow> bool" where
  "held sha E H L \<longleftrightarrow>
     (\<forall>i c h r. (i, c, h, r) \<in> H \<longrightarrow>
        slot (L (cc_chainKey c)) h r \<and> r = next_record sha h c \<and> (cc_chainKey c, fst h + 1) \<notin> E
        \<and> (\<forall>j d k u. (j, d, k, u) \<in> H \<longrightarrow> cc_chainKey d = cc_chainKey c \<longrightarrow> fst k = fst h \<longrightarrow> j = i))"

text \<open>Every logged record comes from a content of \<open>C\<close>, and is stored, held or lost by a process.\<close>

definition covered :: "(jsval \<Rightarrow> jsval) \<Rightarrow> chain_content set \<Rightarrow> audit_run \<Rightarrow> (string \<Rightarrow> chain_record list) \<Rightarrow> bool" where
  "covered bson C s L \<longleftrightarrow>
     (\<forall>i c p. ar_procs s i = Some (c, p) \<longrightarrow> c \<in> C)
     \<and> (\<forall>key r. r \<in> set (L key) \<longrightarrow>
          (\<exists>c \<in> C. \<exists>n. cr_content r = c\<lparr>cc_seq := n\<rparr>)
          \<and> (event_of bson r \<in> set (au_events (ar_store s))
             \<or> (\<exists>i c p. ar_procs s i = Some (c, p) \<and> cc_chainKey c = key \<and> (p = Lost r \<or> (\<exists>h. holding p = Some (h, r))))))
     \<and> (\<forall>i c r. ar_procs s i = Some (c, Appended r) \<longrightarrow>
          event_of bson r \<in> set (au_events (ar_store s)) \<and> (\<exists>n. cr_content r = c\<lparr>cc_seq := n\<rparr>))"

definition audit_inv :: "(string \<Rightarrow> string) \<Rightarrow> (jsval \<Rightarrow> jsval) \<Rightarrow> chain_content set \<Rightarrow> audit_run
    \<Rightarrow> (string \<Rightarrow> chain_record list) \<Rightarrow> bool" where
  "audit_inv sha bson C s L \<longleftrightarrow>
     heads_ok sha (ar_store s) L \<and> events_ok bson (ar_store s) L
     \<and> held sha (pos ` set (au_events (ar_store s))) (holders s) L \<and> covered bson C s L"

lemma head_get_init [simp]: "head_get k (head_init key st) = head_get k st"
  by (auto simp: head_get_def head_init_def update_conv' split: option.splits)

lemma init_events [simp]: "au_events (head_init key st) = au_events st"
  by (simp add: head_init_def split: option.split)

lemma head_cas_hit:
  "head_cas key old new st = (True, st') \<Longrightarrow>
     head_get key st = old \<and> (\<forall>k. head_get k st' = (if k = key then new else head_get k st)) \<and> au_events st' = au_events st"
  by (auto simp: head_cas_def head_get_def update_conv' split: if_splits)

lemma head_cas_missed: "head_cas key old new st = (False, st') \<Longrightarrow> st' = st"
  by (simp add: head_cas_def split: if_splits)

lemma event_of_keeps [simp]:
  "cc_chainKey (ed_content (event_of bson r)) = cc_chainKey (cr_content r)"
  "cc_seq (ed_content (event_of bson r)) = cc_seq (cr_content r)"
  "cc_idempotencyKey (ed_content (event_of bson r)) = cc_idempotencyKey (cr_content r)"
  by (simp_all add: event_of_def Let_def)

lemma next_record_simps [simp]:
  "cc_chainKey (cr_content (next_record sha h c)) = cc_chainKey c"
  "cc_seq (cr_content (next_record sha h c)) = fst h + 1"
  "cc_idempotencyKey (cr_content (next_record sha h c)) = cc_idempotencyKey c"
  "cr_content (next_record sha h c) = c\<lparr>cc_seq := fst h + 1\<rparr>"
  by (simp_all add: next_record_def linkRecord_def)

lemma insert_event_Some:
  "insert_event e st = Some st' \<longleftrightarrow> pos e \<notin> pos ` set (au_events st) \<and> st' = st\<lparr>au_events := au_events st @ [e]\<rparr>"
proof -
  have "list_ex (\<lambda>d. cc_chainKey (ed_content d) = cc_chainKey (ed_content e) \<and> cc_seq (ed_content d) = cc_seq (ed_content e)) (au_events st)
      \<longleftrightarrow> pos e \<in> pos ` set (au_events st)"
    unfolding list_ex_iff image_iff by (metis prod.inject)
  then show ?thesis unfolding insert_event_def by auto
qed

lemma chained_seqs: "chained sha h n rs \<Longrightarrow> map (\<lambda>r. cc_seq (cr_content r)) rs = [n..<n + length rs]"
proof (induction rs arbitrary: h n)
  case (Cons r rs)
  then show ?case using upt_conv_Cons [of n "n + length (r # rs)"] by auto
qed simp

lemma chained_position:
  assumes "chained sha h 1 rs" "r \<in> set rs"
  shows "cc_seq (cr_content r) \<le> length rs" "cc_seq (cr_content r) \<noteq> 0"
proof -
  have "cc_seq (cr_content r) \<in> set (map (\<lambda>r. cc_seq (cr_content r)) rs)" using assms(2) by auto
  then have "cc_seq (cr_content r) \<in> {1..<1 + length rs}" unfolding chained_seqs [OF assms(1)] set_upt .
  then show "cc_seq (cr_content r) \<le> length rs" "cc_seq (cr_content r) \<noteq> 0" by auto
qed

lemma chained_same_position:
  "chained sha h 1 rs \<Longrightarrow> r \<in> set rs \<Longrightarrow> u \<in> set rs \<Longrightarrow> cc_seq (cr_content r) = cc_seq (cr_content u) \<Longrightarrow> r = u"
  using chained_seqs [of sha h 1 rs] distinct_upt [of 1 "1 + length rs"] inj_onD [of "\<lambda>r. cc_seq (cr_content r)" "set rs" r u]
  by (metis distinct_map)

lemma heads_okD:
  assumes "heads_ok sha st L"
  shows "chained sha GENESIS_HASH 1 (L key)" "head_get key st = (length (L key), tail_hash GENESIS_HASH (L key))"
    and "r \<in> set (L key) \<Longrightarrow> cc_chainKey (cr_content r) = key"
  using assms by (simp_all add: heads_ok_def)

lemma stored_in_log:
  assumes "events_ok bson st L" "e \<in> set (au_events st)"
  obtains r where "r \<in> set (L (cc_chainKey (ed_content e)))" "e = event_of bson r"
  using assms by (auto simp: events_ok_def)

lemma beyond_log_free:
  assumes "heads_ok sha st L" "events_ok bson st L" "length (L key) < n"
  shows "(key, n) \<notin> pos ` set (au_events st)"
proof
  assume "(key, n) \<in> pos ` set (au_events st)"
  then obtain e where e: "e \<in> set (au_events st)" "key = cc_chainKey (ed_content e)" "n = cc_seq (ed_content e)" by auto
  from stored_in_log [OF assms(2) e(1)] obtain r where "r \<in> set (L key)" "e = event_of bson r" unfolding e(2) by blast
  with chained_position(1) [OF heads_okD(1) [OF assms(1), of key], of r] e(3) assms(3) show False by auto
qed

subsection \<open>Every step keeps the log\<close>

lemma swap_hit:
  assumes "heads_ok sha st L" "r = next_record sha h c"
    and "head_cas (cc_chainKey c) h (cc_seq (cr_content r), cr_hash r) st = (True, st')"
  shows "heads_ok sha st' (L(cc_chainKey c := L (cc_chainKey c) @ [r]))"
    and "h = (length (L (cc_chainKey c)), tail_hash GENESIS_HASH (L (cc_chainKey c)))" and "au_events st' = au_events st"
proof -
  let ?k = "cc_chainKey c" and ?new = "(cc_seq (cr_content r), cr_hash r)"
  note hit = head_cas_hit [OF assms(3)]
  from hit show "au_events st' = au_events st" by simp
  from hit have heads: "head_get k st' = (if k = ?k then ?new else head_get k st)" for k by blast
  from hit heads_okD(2) [OF assms(1), of ?k] show h: "h = (length (L ?k), tail_hash GENESIS_HASH (L ?k))" by simp
  have r: "cc_seq (cr_content r) = 1 + length (L ?k)" "r = linkRecord sha (tail_hash GENESIS_HASH (L ?k)) (cr_content r)"
    "cc_chainKey (cr_content r) = ?k"
    using assms(2) h by (simp_all add: next_record_def linkRecord_def)
  have "chained sha GENESIS_HASH 1 (L ?k @ [r])" unfolding chained_snoc using heads_okD(1) [OF assms(1)] r by blast
  then show "heads_ok sha st' (L(?k := L ?k @ [r]))"
    using heads_okD [OF assms(1)] r(1,3) unfolding heads_ok_def by (simp add: heads)
qed

lemma undo_hit:
  assumes "heads_ok sha st L" "L key = xs @ r # ys" "cc_seq (cr_content r) = length xs + 1"
    and "head_cas key (cc_seq (cr_content r), cr_hash r) (length xs, tail_hash GENESIS_HASH xs) st = (True, st')"
  shows "heads_ok sha st' (L(key := xs))" and "ys = []" and "au_events st' = au_events st"
proof -
  note hit = head_cas_hit [OF assms(4)]
  from hit show "au_events st' = au_events st" by simp
  from hit have heads: "head_get k st' = (if k = key then (length xs, tail_hash GENESIS_HASH xs) else head_get k st)" for k by blast
  from hit heads_okD(2) [OF assms(1), of key] assms(2,3) show "ys = []" by simp
  have "chained sha GENESIS_HASH 1 xs" using heads_okD(1) [OF assms(1), of key] unfolding assms(2) chained_append by simp
  then show "heads_ok sha st' (L(key := xs))"
    using heads_okD [OF assms(1)] assms(2) unfolding heads_ok_def by (simp add: heads)
qed

lemma events_ok_longer:
  "events_ok bson st L \<Longrightarrow> au_events st' = au_events st \<Longrightarrow> (\<And>k. set (L k) \<subseteq> set (L' k)) \<Longrightarrow> events_ok bson st' L'"
  unfolding events_ok_def by (metis subsetD)

lemma events_ok_undone:
  assumes "heads_ok sha st L" "events_ok bson st L" "L key = xs @ [r]" "(key, cc_seq (cr_content r)) \<notin> pos ` set (au_events st)"
    and "au_events st' = au_events st"
  shows "events_ok bson st' (L(key := xs))"
proof -
  have "\<exists>u \<in> set ((L(key := xs)) (cc_chainKey (ed_content e))). e = event_of bson u" if e: "e \<in> set (au_events st)" for e
  proof -
    obtain u where u: "u \<in> set (L (cc_chainKey (ed_content e)))" "e = event_of bson u" using stored_in_log [OF assms(2) e] .
    show ?thesis
    proof (cases "cc_chainKey (ed_content e) = key")
      case True
      have "cc_seq (ed_content e) \<noteq> cc_seq (cr_content r)"
        using assms(4) e True image_eqI [of _ pos e] by metis
      then have "u \<noteq> r" unfolding u(2) by (metis event_of_keeps(2))
      moreover have "u \<in> set (xs @ [r])" using u(1) True assms(3) by simp
      ultimately show ?thesis using u(2) True by (intro bexI [of _ u]) simp_all
    next
      case False
      with u show ?thesis by (intro bexI [of _ u]) simp_all
    qed
  qed
  then show ?thesis using assms(2,5) by (simp add: events_ok_def)
qed

lemma events_ok_insert:
  assumes "events_ok bson st L" "r \<in> set (L (cc_chainKey (cr_content r)))" "insert_event (event_of bson r) st = Some st'"
  shows "events_ok bson st' L"
  using assms by (auto simp: events_ok_def insert_event_Some)

subsection \<open>The invariant of interleaved appends\<close>

lemma heldD:
  assumes "held sha E H L" "(i, c, h, r) \<in> H"
  shows "slot (L (cc_chainKey c)) h r" "r = next_record sha h c" "(cc_chainKey c, fst h + 1) \<notin> E"
    and "(j, d, k, u) \<in> H \<Longrightarrow> cc_chainKey d = cc_chainKey c \<Longrightarrow> fst k = fst h \<Longrightarrow> j = i"
  using assms unfolding held_def by blast+

lemma held_mono:
  assumes "held sha E H L" "H' \<subseteq> H" "\<And>i c h r. (i, c, h, r) \<in> H' \<Longrightarrow> (cc_chainKey c, fst h + 1) \<notin> E'"
    and "\<And>i c h r. (i, c, h, r) \<in> H' \<Longrightarrow> slot (L (cc_chainKey c)) h r \<Longrightarrow> slot (L' (cc_chainKey c)) h r"
  shows "held sha E' H' L'"
  using assms(1) assms(2-) unfolding held_def by (meson subsetD)

lemma holders_move:
  "ar_procs s i = Some (c, p) \<Longrightarrow>
   holders (s\<lparr>ar_store := st', ar_procs := (ar_procs s)(i := Some (c, p'))\<rparr>)
     = {x \<in> holders s. fst x \<noteq> i} \<union> (case holding p' of None \<Rightarrow> {} | Some (h, r) \<Rightarrow> {(i, c, h, r)})"
  by (auto simp: holders_def split: option.splits if_splits)

lemma holders_in: "ar_procs s i = Some (c, p) \<Longrightarrow> holding p = Some (h, r) \<Longrightarrow> (i, c, h, r) \<in> holders s"
  by (auto simp: holders_def)

lemma slot_snoc: "slot rs h r \<Longrightarrow> slot (rs @ [u]) h r"
  unfolding slot_def by (metis append_Cons append_assoc)

lemma slot_undone:
  assumes "slot (xs @ [u]) h r" "fst h \<noteq> length xs"
  shows "slot xs h r"
proof -
  from assms(1) obtain as ys where s: "xs @ [u] = as @ r # ys" "h = (length as, tail_hash GENESIS_HASH as)"
    by (auto simp: slot_def)
  have "ys \<noteq> []" using s assms(2) by auto
  then obtain zs z where "ys = zs @ [z]" by (metis rev_exhaust)
  with s have "xs = as @ r # zs" by simp
  with s(2) show ?thesis by (auto simp: slot_def)
qed

text \<open>What the swap, the undoing swap and the insertion do to the holders.\<close>

lemma held_swap:
  assumes "held sha E {x \<in> H. fst x \<noteq> i} L" "heads_ok sha st L"
    and "h = (length (L (cc_chainKey c)), tail_hash GENESIS_HASH (L (cc_chainKey c)))" "r = next_record sha h c"
    and "(cc_chainKey c, fst h + 1) \<notin> E"
  shows "held sha E ({x \<in> H. fst x \<noteq> i} \<union> {(i, c, h, r)}) (L(cc_chainKey c := L (cc_chainKey c) @ [r]))"
proof -
  let ?H = "{x \<in> H. fst x \<noteq> i}" and ?L = "L(cc_chainKey c := L (cc_chainKey c) @ [r])"
  have short: "fst k < fst h" if "(j, d, k, u) \<in> ?H" "cc_chainKey d = cc_chainKey c" for j d k u
    using heldD(1) [OF assms(1) that(1)] that(2) assms(3) by (auto simp: slot_def)
  have old: "held sha E ?H ?L"
  proof (rule held_mono [OF assms(1)])
    fix j d k u
    assume j: "(j, d, k, u) \<in> ?H"
    from heldD(3) [OF assms(1) j] show "(cc_chainKey d, fst k + 1) \<notin> E" .
    assume "slot (L (cc_chainKey d)) k u"
    then show "slot (?L (cc_chainKey d)) k u" by (cases "cc_chainKey d = cc_chainKey c") (simp_all add: slot_snoc)
  qed simp
  have new: "slot (?L (cc_chainKey c)) h r" using assms(3) by (auto simp: slot_def)
  show ?thesis
    unfolding held_def
  proof (intro allI impI, elim UnE)
    fix j d k u
    assume j: "(j, d, k, u) \<in> ?H"
    have "l = j" if l: "(l, e, g, w) \<in> ?H \<union> {(i, c, h, r)}" "cc_chainKey e = cc_chainKey d" "fst g = fst k" for l e g w
      using l(1)
    proof
      assume "(l, e, g, w) \<in> ?H"
      from heldD(4) [OF old j this l(2,3)] show ?thesis .
    next
      assume "(l, e, g, w) \<in> {(i, c, h, r)}"
      with l(2,3) short [OF j] show ?thesis by simp
    qed
    with heldD(1-3) [OF old j]
    show "slot (?L (cc_chainKey d)) k u \<and> u = next_record sha k d \<and> (cc_chainKey d, fst k + 1) \<notin> E
      \<and> (\<forall>l e g w. (l, e, g, w) \<in> ?H \<union> {(i, c, h, r)} \<longrightarrow> cc_chainKey e = cc_chainKey d \<longrightarrow> fst g = fst k \<longrightarrow> l = j)"
      by blast
  next
    fix j d k u
    assume "(j, d, k, u) \<in> {(i, c, h, r)}"
    then have j: "j = i" "d = c" "k = h" "u = r" by auto
    have "l = i" if l: "(l, e, g, w) \<in> ?H \<union> {(i, c, h, r)}" "cc_chainKey e = cc_chainKey c" "fst g = fst h" for l e g w
      using l(1)
    proof
      assume "(l, e, g, w) \<in> ?H"
      from short [OF this l(2)] l(3) show ?thesis by simp
    qed simp
    with new assms(4,5) j
    show "slot (?L (cc_chainKey d)) k u \<and> u = next_record sha k d \<and> (cc_chainKey d, fst k + 1) \<notin> E
      \<and> (\<forall>l e g w. (l, e, g, w) \<in> ?H \<union> {(i, c, h, r)} \<longrightarrow> cc_chainKey e = cc_chainKey d \<longrightarrow> fst g = fst k \<longrightarrow> l = j)"
      by blast
  qed
qed

lemma held_undone:
  assumes "held sha E H L" "(i, c, h, r) \<in> H" "L (cc_chainKey c) = xs @ [r]" "fst h = length xs"
  shows "held sha E {x \<in> H. fst x \<noteq> i} (L(cc_chainKey c := xs))"
proof (rule held_mono [OF assms(1)])
  fix j d k u
  assume j: "(j, d, k, u) \<in> {x \<in> H. fst x \<noteq> i}"
  show "(cc_chainKey d, fst k + 1) \<notin> E" using heldD(3) [OF assms(1)] j by blast
  assume "slot (L (cc_chainKey d)) k u"
  moreover have "fst k \<noteq> length xs" if "cc_chainKey d = cc_chainKey c"
    using heldD(4) [OF assms(1,2), of j d k u] that j assms(4) by auto
  ultimately show "slot ((L(cc_chainKey c := xs)) (cc_chainKey d)) k u"
    using slot_undone [of xs r k u] assms(3) by (cases "cc_chainKey d = cc_chainKey c") auto
qed auto

lemma held_insert:
  assumes "held sha E H L" "(i, c, h, r) \<in> H"
  shows "held sha (insert (cc_chainKey c, fst h + 1) E) {x \<in> H. fst x \<noteq> i} L"
proof (rule held_mono [OF assms(1)])
  fix j d k u
  assume j: "(j, d, k, u) \<in> {x \<in> H. fst x \<noteq> i}"
  have "(cc_chainKey d, fst k + 1) \<notin> E" using heldD(3) [OF assms(1)] j by blast
  moreover have "\<not> (cc_chainKey d = cc_chainKey c \<and> fst k = fst h)"
    using heldD(4) [OF assms(1,2), of j d k u] j by auto
  ultimately show "(cc_chainKey d, fst k + 1) \<notin> insert (cc_chainKey c, fst h + 1) E" by auto
qed auto

abbreviation moved :: "audit_run \<Rightarrow> nat \<Rightarrow> chain_content \<Rightarrow> audit_store \<Rightarrow> pc \<Rightarrow> audit_run" where
  "moved s i c st p \<equiv> s\<lparr>ar_store := st, ar_procs := (ar_procs s)(i := Some (c, p))\<rparr>"

lemma coveredD:
  assumes "covered bson C s L"
  shows "ar_procs s i = Some (c, p) \<Longrightarrow> c \<in> C"
    and "r \<in> set (L key) \<Longrightarrow> \<exists>c \<in> C. \<exists>n. cr_content r = c\<lparr>cc_seq := n\<rparr>"
    and "r \<in> set (L key) \<Longrightarrow> event_of bson r \<in> set (au_events (ar_store s))
        \<or> (\<exists>i c p. ar_procs s i = Some (c, p) \<and> cc_chainKey c = key \<and> (p = Lost r \<or> (\<exists>h. holding p = Some (h, r))))"
    and "ar_procs s i = Some (c, Appended r) \<Longrightarrow>
        event_of bson r \<in> set (au_events (ar_store s)) \<and> (\<exists>n. cr_content r = c\<lparr>cc_seq := n\<rparr>)"
  using assms unfolding covered_def by blast+

lemma covered_move:
  assumes cov: "covered bson C s L" and i: "ar_procs s i = Some (c, p)"
    and ev: "set (au_events (ar_store s)) \<subseteq> set (au_events st')"
    and carry: "\<And>r. p = Lost r \<or> (\<exists>h. holding p = Some (h, r)) \<Longrightarrow> r \<in> set (L' (cc_chainKey c)) \<Longrightarrow>
        event_of bson r \<in> set (au_events st') \<or> p' = Lost r \<or> (\<exists>h. holding p' = Some (h, r))"
    and new: "\<And>key r. r \<in> set (L' key) \<Longrightarrow>
        r \<in> set (L key) \<or> key = cc_chainKey c \<and> (\<exists>n. cr_content r = c\<lparr>cc_seq := n\<rparr>) \<and> (\<exists>h. holding p' = Some (h, r))"
    and app: "\<And>r. p' = Appended r \<Longrightarrow> event_of bson r \<in> set (au_events st') \<and> (\<exists>n. cr_content r = c\<lparr>cc_seq := n\<rparr>)"
  shows "covered bson C (moved s i c st' p') L'"
proof -
  let ?s = "moved s i c st' p'"
  have at: "ar_procs ?s i = Some (c, p')" by simp
  have other: "ar_procs ?s j = ar_procs s j" if "j \<noteq> i" for j using that by simp
  have "d \<in> C" if "ar_procs ?s j = Some (d, q)" for j d q
    using that coveredD(1) [OF cov] i at other [of j] by (cases "j = i") auto
  moreover have "\<exists>c \<in> C. \<exists>n. cr_content r = c\<lparr>cc_seq := n\<rparr>" if "r \<in> set (L' key)" for key r
    using new [OF that] coveredD(2) [OF cov] coveredD(1) [OF cov i] by blast
  moreover have "event_of bson r \<in> set (au_events (ar_store ?s))
      \<or> (\<exists>i c p. ar_procs ?s i = Some (c, p) \<and> cc_chainKey c = key \<and> (p = Lost r \<or> (\<exists>h. holding p = Some (h, r))))"
    if r: "r \<in> set (L' key)" for key r
    using new [OF r]
  proof
    assume "r \<in> set (L key)"
    from coveredD(3) [OF cov this] consider "event_of bson r \<in> set (au_events (ar_store s))"
      | j d q where "ar_procs s j = Some (d, q)" "cc_chainKey d = key" "q = Lost r \<or> (\<exists>h. holding q = Some (h, r))"
      by blast
    then show ?thesis
    proof cases
      case 1
      with ev show ?thesis by auto
    next
      case 2
      show ?thesis
      proof (cases "j = i")
        case True
        with 2 i have "q = p" "key = cc_chainKey c" by auto
        with carry [of r] 2(3) r at show ?thesis by auto
      next
        case False
        with other [OF this] 2 show ?thesis by metis
      qed
    qed
  next
    assume "key = cc_chainKey c \<and> (\<exists>n. cr_content r = c\<lparr>cc_seq := n\<rparr>) \<and> (\<exists>h. holding p' = Some (h, r))"
    with at show ?thesis by metis
  qed
  moreover have "event_of bson r \<in> set (au_events (ar_store ?s)) \<and> (\<exists>n. cr_content r = d\<lparr>cc_seq := n\<rparr>)"
    if "ar_procs ?s j = Some (d, Appended r)" for j d r
  proof (cases "j = i")
    case True
    with that app show ?thesis by auto
  next
    case False
    with that coveredD(4) [OF cov] ev other [OF False] show ?thesis by auto
  qed
  ultimately show ?thesis unfolding covered_def by blast
qed

lemma audit_inv_quiet:
  assumes "audit_inv sha bson C s L" "ar_procs s i = Some (c, p)"
    and "\<And>k. head_get k st' = head_get k (ar_store s)" "au_events st' = au_events (ar_store s)"
    and "holding p' = None \<or> holding p' = holding p" "\<And>r. p' \<noteq> Appended r"
    and "\<And>r h. holding p = Some (h, r) \<Longrightarrow> holding p' = Some (h, r) \<or> p' = Lost r" "\<And>r. p \<noteq> Lost r"
  shows "audit_inv sha bson C (moved s i c st' p') L"
proof -
  from assms(1) have hd: "heads_ok sha (ar_store s) L" and ev: "events_ok bson (ar_store s) L"
    and he: "held sha (pos ` set (au_events (ar_store s))) (holders s) L" and cov: "covered bson C s L"
    by (simp_all add: audit_inv_def)
  have "heads_ok sha st' L" using hd assms(3) by (simp add: heads_ok_def)
  moreover have "events_ok bson st' L" using ev assms(4) by (simp add: events_ok_def)
  moreover have sub: "holders (moved s i c st' p') \<subseteq> holders s"
    unfolding holders_move [OF assms(2)] using assms(2,5) by (auto simp: holders_def split: option.splits)
  have "held sha (pos ` set (au_events (ar_store s))) (holders (moved s i c st' p')) L"
    by (rule held_mono [OF he sub]) (use heldD(3) [OF he] sub in blast)+
  moreover have "covered bson C (moved s i c st' p') L"
    by (rule covered_move [OF cov assms(2)]) (use assms(4,6,7,8) in auto)
  ultimately show ?thesis unfolding audit_inv_def by (simp add: assms(4))
qed

lemma not_in_prefix: "chained sha h 1 (xs @ r # ys) \<Longrightarrow> r \<notin> set xs"
  using chained_seqs [of sha h 1 "xs @ r # ys"] distinct_upt [of 1 "1 + length (xs @ r # ys)"] distinct_map
  by (metis (no_types, lifting) distinct_append not_distinct_conv_prefix)

lemma held_record_key: "held sha E H L \<Longrightarrow> (i, c, h, r) \<in> H \<Longrightarrow> cc_chainKey (cr_content r) = cc_chainKey c"
  using heldD(2) by fastforce

lemma audit_inv_swap:
  assumes "audit_inv sha bson C s L" "ar_procs s i = Some (c, ToSwap h)" "r = next_record sha h c"
    and "head_cas (cc_chainKey c) h (cc_seq (cr_content r), cr_hash r) (ar_store s) = (True, st')"
  shows "audit_inv sha bson C (moved s i c st' (ToInsert h r)) (L(cc_chainKey c := L (cc_chainKey c) @ [r]))"
proof -
  let ?L = "L(cc_chainKey c := L (cc_chainKey c) @ [r])"
  from assms(1) have hd: "heads_ok sha (ar_store s) L" and ev: "events_ok bson (ar_store s) L"
    and he: "held sha (pos ` set (au_events (ar_store s))) (holders s) L" and cov: "covered bson C s L"
    by (simp_all add: audit_inv_def)
  note hit = swap_hit [OF hd assms(3,4)]
  have "(cc_chainKey c, fst h + 1) \<notin> pos ` set (au_events (ar_store s))"
    by (rule beyond_log_free [OF hd ev]) (simp add: hit(2))
  moreover have "held sha (pos ` set (au_events (ar_store s))) {x \<in> holders s. fst x \<noteq> i} L"
    by (rule held_mono [OF he]) (use heldD(3) [OF he] in blast)+
  ultimately have "held sha (pos ` set (au_events st')) (holders (moved s i c st' (ToInsert h r))) ?L"
    unfolding holders_move [OF assms(2)] hit(3) using held_swap [OF _ hd hit(2) assms(3)] by simp
  moreover have "events_ok bson st' ?L" by (rule events_ok_longer [OF ev hit(3)]) auto
  moreover have "covered bson C (moved s i c st' (ToInsert h r)) ?L"
    by (rule covered_move [OF cov assms(2)]) (use assms(3) hit(3) in \<open>auto split: if_splits\<close>)
  ultimately show ?thesis using hit(1) by (simp add: audit_inv_def)
qed

lemma audit_inv_undo:
  assumes "audit_inv sha bson C s L" "ar_procs s i = Some (c, ToRollback h r)"
    and "head_cas (cc_chainKey c) (cc_seq (cr_content r), cr_hash r) h (ar_store s) = (True, st')"
  shows "\<exists>L'. audit_inv sha bson C (moved s i c st' RolledBack) L'"
proof -
  from assms(1) have hd: "heads_ok sha (ar_store s) L" and ev: "events_ok bson (ar_store s) L"
    and he: "held sha (pos ` set (au_events (ar_store s))) (holders s) L" and cov: "covered bson C s L"
    by (simp_all add: audit_inv_def)
  have H: "(i, c, h, r) \<in> holders s" by (rule holders_in [OF assms(2)]) simp
  note h = heldD [OF he H]
  from h(1) obtain xs ys where s: "L (cc_chainKey c) = xs @ r # ys" "h = (length xs, tail_hash GENESIS_HASH xs)"
    unfolding slot_def by blast
  have seq: "cc_seq (cr_content r) = length xs + 1" using h(2) s(2) by simp
  note hit = undo_hit [OF hd s(1) seq assms(3) [unfolded s(2)]]
  let ?L = "L(cc_chainKey c := xs)"
  have L: "L (cc_chainKey c) = xs @ [r]" using s(1) hit(2) by simp
  have "held sha (pos ` set (au_events st')) (holders (moved s i c st' RolledBack)) ?L"
    unfolding holders_move [OF assms(2)] hit(3) using held_undone [OF he H L] s(2) by simp
  moreover have "events_ok bson st' ?L"
    by (rule events_ok_undone [OF hd ev L]) (use h(3) seq s(2) hit(3) in simp_all)
  moreover have "r \<notin> set xs" using not_in_prefix heads_okD(1) [OF hd, of "cc_chainKey c"] unfolding s(1) by blast
  then have "covered bson C (moved s i c st' RolledBack) ?L"
    by (intro covered_move [OF cov assms(2)]) (use hit(3) L in \<open>auto split: if_splits\<close>)
  ultimately have "audit_inv sha bson C (moved s i c st' RolledBack) ?L" using hit(1) by (simp add: audit_inv_def)
  then show ?thesis by blast
qed

lemma audit_inv_insert:
  assumes "audit_inv sha bson C s L" "ar_procs s i = Some (c, ToInsert h r)"
    and "insert_event (event_of bson r) (ar_store s) = Some st'"
  shows "audit_inv sha bson C (moved s i c st' (Appended r)) L"
proof -
  from assms(1) have hd: "heads_ok sha (ar_store s) L" and ev: "events_ok bson (ar_store s) L"
    and he: "held sha (pos ` set (au_events (ar_store s))) (holders s) L" and cov: "covered bson C s L"
    by (simp_all add: audit_inv_def)
  have H: "(i, c, h, r) \<in> holders s" by (rule holders_in [OF assms(2)]) simp
  note h = heldD [OF he H]
  have key: "cc_chainKey (cr_content r) = cc_chainKey c" "cc_seq (cr_content r) = fst h + 1" using h(2) by simp_all
  have st': "st' = ar_store s\<lparr>au_events := au_events (ar_store s) @ [event_of bson r]\<rparr>"
    using assms(3) by (simp add: insert_event_Some)
  have "r \<in> set (L (cc_chainKey (cr_content r)))" using h(1) key by (auto simp: slot_def)
  from events_ok_insert [OF ev this assms(3)] have "events_ok bson st' L" .
  moreover have "held sha (pos ` set (au_events st')) (holders (moved s i c st' (Appended r))) L"
    unfolding holders_move [OF assms(2)] using held_insert [OF he H] key by (simp add: st')
  moreover have "heads_ok sha st' L" using hd by (simp add: heads_ok_def st' head_get_def)
  moreover have "covered bson C (moved s i c st' (Appended r)) L"
    by (rule covered_move [OF cov assms(2)]) (use h(2) in \<open>auto simp: st'\<close>)
  ultimately show ?thesis by (simp add: audit_inv_def)
qed

lemma audit_inv_move:
  assumes "audit_inv sha bson C s L" "ar_procs s i = Some (c, p)" "append_step sha bson c (ar_store s, p) (st', p')"
  shows "\<exists>L'. audit_inv sha bson C (moved s i c st' p') L'"
  using assms(3)
proof (cases rule: append_step.cases)
  case init
  then have "audit_inv sha bson C (moved s i c st' p') L" by (intro audit_inv_quiet [OF assms(1,2)]) simp_all
  then show ?thesis by blast
next
  case read
  then have "audit_inv sha bson C (moved s i c st' p') L" by (intro audit_inv_quiet [OF assms(1,2)]) simp_all
  then show ?thesis by blast
next
  case (swap r h)
  with audit_inv_swap [of sha bson C s L i c h r st'] assms(1,2) show ?thesis by blast
next
  case (miss r h)
  then have "st' = ar_store s" by (auto dest: head_cas_missed)
  with miss have "audit_inv sha bson C (moved s i c st' p') L" by (intro audit_inv_quiet [OF assms(1,2)]) simp_all
  then show ?thesis by blast
next
  case (insert r h)
  with audit_inv_insert [of sha bson C s L i c h r st'] assms(1,2) show ?thesis by blast
next
  case (fail h r)
  then have "audit_inv sha bson C (moved s i c st' p') L" by (intro audit_inv_quiet [OF assms(1,2)]) simp_all
  then show ?thesis by blast
next
  case (undo r h)
  with audit_inv_undo [of sha bson C s L i c h r st'] assms(1,2) show ?thesis by blast
next
  case (undo_miss r h)
  then have "st' = ar_store s" by (auto dest: head_cas_missed)
  with undo_miss have "audit_inv sha bson C (moved s i c st' p') L" by (intro audit_inv_quiet [OF assms(1,2)]) simp_all
  then show ?thesis by blast
next
  case (undo_fail h r)
  then have "audit_inv sha bson C (moved s i c st' p') L" by (intro audit_inv_quiet [OF assms(1,2)]) simp_all
  then show ?thesis by blast
qed

lemma audit_inv_start:
  assumes "audit_inv sha bson C s L" "ar_procs s i = None" "c \<in> C"
  shows "audit_inv sha bson C (s\<lparr>ar_procs := (ar_procs s)(i := Some (c, ToInit))\<rparr>) L"
proof -
  let ?s = "s\<lparr>ar_procs := (ar_procs s)(i := Some (c, ToInit))\<rparr>"
  have same: "ar_procs s j = Some x \<Longrightarrow> ar_procs ?s j = Some x" for j x using assms(2) by (cases "j = i") auto
  have prior: "ar_procs ?s j = Some (d, q) \<Longrightarrow> (j = i \<and> d = c \<and> q = ToInit) \<or> ar_procs s j = Some (d, q)" for j d q
    by (cases "j = i") auto
  have "holders ?s = holders s" unfolding holders_def using same prior by fastforce
  moreover have "covered bson C ?s L"
    unfolding covered_def
  proof (intro conjI allI impI)
    fix key r
    assume r: "r \<in> set (L key)"
    from assms(1) have cov: "covered bson C s L" by (simp add: audit_inv_def)
    show "\<exists>c \<in> C. \<exists>n. cr_content r = c\<lparr>cc_seq := n\<rparr>" by (rule coveredD(2) [OF cov r])
    show "event_of bson r \<in> set (au_events (ar_store ?s))
       \<or> (\<exists>i c p. ar_procs ?s i = Some (c, p) \<and> cc_chainKey c = key \<and> (p = Lost r \<or> (\<exists>h. holding p = Some (h, r))))"
      using coveredD(3) [OF cov r] same by (metis audit_run.select_convs(1) audit_run.surjective audit_run.update_convs(2))
  next
    fix j d q
    assume "ar_procs ?s j = Some (d, q)"
    with prior [of j d q] assms(1,3) show "d \<in> C" by (auto simp: audit_inv_def dest: coveredD(1))
  next
    fix j d r
    assume "ar_procs ?s j = Some (d, Appended r)"
    then have "ar_procs s j = Some (d, Appended r)" using prior [of j d "Appended r"] by blast
    from coveredD(4) [OF _ this] assms(1)
    show "event_of bson r \<in> set (au_events (ar_store ?s))" "\<exists>n. cr_content r = d\<lparr>cc_seq := n\<rparr>"
      unfolding audit_inv_def by auto
  qed
  ultimately show ?thesis using assms(1) by (simp add: audit_inv_def)
qed

lemma audit_reach_inv: "audit_reach sha bson C s \<Longrightarrow> \<exists>L. audit_inv sha bson C s L"
proof (induction rule: audit_reach.induct)
  case 1
  have "audit_inv sha bson C audit_start (\<lambda>_. [])"
    by (simp add: audit_inv_def audit_start_def heads_ok_def events_ok_def held_def covered_def holders_def head_get_def tail_hash_def)
  then show ?case by blast
next
  case (2 s s')
  then obtain L where inv: "audit_inv sha bson C s L" by blast
  from 2(2) show ?case
  proof cases
    case (start i c)
    with audit_inv_start [OF inv] show ?thesis by blast
  next
    case (move i c p st' p')
    with audit_inv_move [OF inv] show ?thesis by blast
  qed
qed

subsection \<open>What is loaded is the log\<close>

text \<open>Whether the stored data comes back as it was hashed.\<close>

definition kept :: "(jsval \<Rightarrow> jsval) \<Rightarrow> chain_content \<Rightarrow> bool" where
  "kept bson c \<longleftrightarrow> js_or (bson (js_or (cc_data c) JNull)) JUndef = cc_data c"

lemma reload: "kept bson (cr_content r) \<Longrightarrow> toChainRecord (event_of bson r) = r"
  by (simp add: kept_def toChainRecord_def event_of_def Let_def)

lemma sorted_sort_by: "sorted (map f (js_sort_by (\<lambda>a b. f a \<le> f b) xs))" for f :: "'a \<Rightarrow> 'b::linorder"
proof (induction xs)
  case (Cons x xs)
  have "sorted (map f ys) \<Longrightarrow> sorted (map f (js_insort (\<lambda>a b. f a \<le> f b) x ys))" for ys
    by (induction ys) auto
  with Cons show ?case by simp
qed simp

lemma loadChain_log:
  assumes "heads_ok sha st L" "events_ok bson st L"
    and "\<And>r. r \<in> set (L key) \<Longrightarrow> kept bson (cr_content r) \<and> event_of bson r \<in> set (au_events st)"
  shows "loadChain key st = L key"
proof -
  let ?es = "filter (\<lambda>e. cc_chainKey (ed_content e) = key) (au_events st)"
    and ?seq = "\<lambda>r. cc_seq (cr_content r)"
  let ?ss = "js_sort_by (\<lambda>a b. cc_seq (ed_content a) \<le> cc_seq (ed_content b)) ?es"
  have seqs: "?seq (toChainRecord e) = cc_seq (ed_content e)" for e
    by (simp add: toChainRecord_def Let_def)
  have es: "set ?es = event_of bson ` set (L key)"
  proof (intro equalityI subsetI)
    fix e
    assume "e \<in> set ?es"
    then have e: "e \<in> set (au_events st)" "cc_chainKey (ed_content e) = key" by auto
    from stored_in_log [OF assms(2) e(1)] e(2) show "e \<in> event_of bson ` set (L key)" by blast
  next
    fix e
    assume "e \<in> event_of bson ` set (L key)"
    with assms(3) heads_okD(3) [OF assms(1)] show "e \<in> set ?es" by auto
  qed
  have "distinct (map pos ?es)" using assms(2) by (simp add: events_ok_def distinct_map_filter)
  then have de: "distinct (map (\<lambda>e. cc_seq (ed_content e)) ?es)"
    by (auto simp: distinct_map intro!: inj_onI dest: inj_onD)
  have "map ?seq (L key) = [1..<1 + length (L key)]" by (rule chained_seqs [OF heads_okD(1) [OF assms(1)]])
  then have dl: "distinct (map ?seq (L key))" "sorted (map ?seq (L key))" by (metis distinct_upt, metis sorted_upt)
  have loaded: "loadChain key st = map toChainRecord ?ss" by (simp add: loadChain_def)
  have "set (loadChain key st) = set (L key)"
    unfolding loaded using es assms(3) reload [of bson] by (auto simp: image_iff)
  moreover have "sorted (map ?seq (loadChain key st))"
    unfolding loaded map_map comp_def seqs by (rule sorted_sort_by)
  moreover have "distinct (map ?seq (loadChain key st))"
    unfolding loaded map_map comp_def seqs using de by (simp add: distinct_map)
  ultimately show ?thesis
    using map_sorted_distinct_set_unique [of ?seq "loadChain key st" "L key"] dl by (simp add: distinct_map)
qed

definition chain_settled :: "string \<Rightarrow> audit_run \<Rightarrow> bool" where
  "chain_settled key s \<longleftrightarrow>
     (\<forall>i c p. ar_procs s i = Some (c, p) \<longrightarrow> cc_chainKey c = key \<longrightarrow> holding p = None \<and> (\<forall>r. p \<noteq> Lost r))"

lemma kept_seq [simp]: "kept bson (c\<lparr>cc_seq := n\<rparr>) = kept bson c"
  by (simp add: kept_def)

lemma settled_loads_log:
  assumes "audit_inv sha bson C s L" "chain_settled key s" "\<forall>c \<in> C. kept bson c"
  shows "loadChain key (ar_store s) = L key"
proof -
  from assms(1) have cov: "covered bson C s L" and ok: "heads_ok sha (ar_store s) L" "events_ok bson (ar_store s) L"
    by (simp_all add: audit_inv_def)
  show ?thesis
  proof (rule loadChain_log [OF ok])
    fix r
    assume r: "r \<in> set (L key)"
    obtain c n where "c \<in> C" "cr_content r = c\<lparr>cc_seq := n\<rparr>" using coveredD(2) [OF cov r] by blast
    then have "kept bson (cr_content r)" using assms(3) by simp
    moreover have "event_of bson r \<in> set (au_events (ar_store s))"
      using coveredD(3) [OF cov r] assms(2) unfolding chain_settled_def by (metis option.distinct(1))
    ultimately show "kept bson (cr_content r) \<and> event_of bson r \<in> set (au_events (ar_store s))" ..
  qed
qed

text \<open>C22: Concurrent appends form one chain. Whatever number of appends run at once, and however their reads, swaps of
  the head, insertions, failures and compensations interleave, no two stored events share a position of a
  chain. The stored chain verifies in full, with every record an append returned in it, under two
  conditions: no append of the chain holds or lost a position (none died or stands between the swap
  of the head and the insertion, and no failed insertion was left uncompensated), and the data of all
  contents comes back from the store as it was hashed, which is so for data without undefined
  properties (an event with a trace id and a causation id) and not for others. A failing
  insertion stores nothing and the unique index exists.\<close>

theorem concurrent_appends_linear:
  assumes "audit_reach sha bson C s"
  shows "distinct (map (\<lambda>e. (cc_chainKey (ed_content e), cc_seq (ed_content e))) (au_events (ar_store s)))
    \<and> (chain_settled key s \<longrightarrow> (\<forall>c \<in> C. kept bson c) \<longrightarrow>
         (\<exists>n. verify sha key (ar_store s) = Verified n)
         \<and> (\<forall>i c r. ar_procs s i = Some (c, Appended r) \<longrightarrow> cc_chainKey c = key \<longrightarrow> r \<in> set (loadChain key (ar_store s))))"
proof -
  from audit_reach_inv [OF assms] obtain L where inv: "audit_inv sha bson C s L" by blast
  then have ok: "heads_ok sha (ar_store s) L" "events_ok bson (ar_store s) L" and cov: "covered bson C s L"
    by (simp_all add: audit_inv_def)
  have logged: "r \<in> set (L key)"
    if done_: "ar_procs s i = Some (c, Appended r)" "cc_chainKey c = key" "\<forall>c \<in> C. kept bson c" for i c r
  proof -
    obtain n where r: "event_of bson r \<in> set (au_events (ar_store s))" "cr_content r = c\<lparr>cc_seq := n\<rparr>"
      using coveredD(4) [OF cov done_(1)] by blast
    with done_(2) have "cc_chainKey (ed_content (event_of bson r)) = key" by simp
    with stored_in_log [OF ok(2) r(1)] obtain u where u: "u \<in> set (L key)" "event_of bson r = event_of bson u" by metis
    have "kept bson (cr_content r)" using coveredD(1) [OF cov done_(1)] done_(3) r(2) by simp
    moreover have "kept bson (cr_content u)" using coveredD(2) [OF cov u(1)] done_(3) by auto
    ultimately have "r = u" using reload u(2) by metis
    with u(1) show ?thesis by simp
  qed
  have "verify sha key (ar_store s) = Verified (length (L key))"
    if "chain_settled key s" "\<forall>c \<in> C. kept bson c"
    unfolding verify_def settled_loads_log [OF inv that] verifyChain_iff using heads_okD(1) [OF ok(1)] by simp
  with ok(2) settled_loads_log [OF inv] logged show ?thesis by (auto simp: events_ok_def)
qed

definition sample_run :: audit_run where
  "sample_run =
     (let c = sample_content 0; r = next_record (\<lambda>m. m) (0, GENESIS_HASH) c; st0 = head_init (cc_chainKey c) (ar_store audit_start);
          st1 = snd (head_cas (cc_chainKey c) (0, GENESIS_HASH) (1, cr_hash r) st0)
      in \<lparr>ar_store = st1\<lparr>au_events := [event_of (\<lambda>v. v) r]\<rparr>, ar_procs = [0 \<mapsto> (c, Appended r)]\<rparr>)"

lemma sample_run_reached: "audit_reach (\<lambda>m. m) (\<lambda>v. v) {sample_content 0} sample_run"
proof -
  let ?c = "sample_content 0"
  let ?k = "cc_chainKey ?c" and ?r = "next_record (\<lambda>m. m) (0, GENESIS_HASH) ?c"
  let ?st0 = "head_init ?k (ar_store audit_start)"
  let ?st1 = "snd (head_cas ?k (0, GENESIS_HASH) (1, cr_hash ?r) ?st0)"
  let ?st2 = "?st1\<lparr>au_events := [event_of (\<lambda>v. v) ?r]\<rparr>"
  let ?reach = "audit_reach (\<lambda>m. m) (\<lambda>v. v) {?c}" and ?at = "\<lambda>st p. \<lparr>ar_store = st, ar_procs = [0 \<mapsto> (?c, p)]\<rparr>"
  have move: "?reach (?at st p) \<Longrightarrow> append_step (\<lambda>m. m) (\<lambda>v. v) ?c (st, p) (st', p') \<Longrightarrow> ?reach (?at st' p')" for st p st' p'
    by (erule audit_reach.intros(2)) (use audit_step.move [of "?at st p" 0 ?c p "\<lambda>m. m" "\<lambda>v. v" st' p' "{?c}"] in simp)
  have "?reach (?at (ar_store audit_start) ToInit)"
    by (rule audit_reach.intros(2) [OF audit_reach.intros(1)])
       (use audit_step.start [of audit_start 0 ?c "{?c}" "\<lambda>m. m" "\<lambda>v. v"] in \<open>simp add: audit_start_def\<close>)
  from move [OF this append_step.init] have "?reach (?at ?st0 ToRead)" .
  moreover have "head_get ?k ?st0 = (0, GENESIS_HASH)" by (simp only: head_get_init) (simp add: head_get_def audit_start_def)
  ultimately have "?reach (?at ?st0 (ToSwap (0, GENESIS_HASH)))" using move append_step.read by metis
  moreover have "map_of (au_heads ?st0) ?k = Some (0, GENESIS_HASH)"
    by (simp add: head_init_def audit_start_def)
  then have "head_cas ?k (0, GENESIS_HASH) (cc_seq (cr_content ?r), cr_hash ?r) ?st0 = (True, ?st1)"
    by (simp add: head_cas_def)
  ultimately have "?reach (?at ?st1 (ToInsert (0, GENESIS_HASH) ?r))"
    using move append_step.swap by blast
  moreover have "insert_event (event_of (\<lambda>v. v) ?r) ?st1 = Some ?st2"
    by (simp add: insert_event_Some head_cas_def head_init_def audit_start_def)
  ultimately have "?reach (?at ?st2 (Appended ?r))" using move append_step.insert by blast
  then show ?thesis by (simp add: sample_run_def Let_def)
qed

theorem concurrent_appends_linear_witness:
  "\<exists>n. verify (\<lambda>m. m) ''record|p1'' (ar_store sample_run) = Verified n"
  using concurrent_appends_linear [OF sample_run_reached, of "''record|p1''"]
  by (simp add: chain_settled_def sample_run_def Let_def kept_def js_or_def sample_content_def split: if_splits)

subsection \<open>Redelivered messages\<close>

abbreviation keyed :: "string \<Rightarrow> audit_store \<Rightarrow> event_doc list" where
  "keyed k st \<equiv> filter (\<lambda>e. cc_idempotencyKey (ed_content e) = Some k) (au_events st)"

lemma init_head: "map_of (au_heads (head_init key st)) key = Some (head_get key st)"
  by (simp add: head_init_def head_get_def update_conv' split: option.split)

lemma init_claims [simp]: "au_claims (head_init key st) = au_claims st"
  by (simp add: head_init_def split: option.split)

text \<open>Alone, the swap of the head hits, and so does the swap back.\<close>

lemma head_cas_alone:
  assumes "map_of (au_heads st) key = Some old"
  shows "fst (head_cas key old new st)" "au_events (snd (head_cas key old new st)) = au_events st"
    "au_claims (snd (head_cas key old new st)) = au_claims st"
    "map_of (au_heads (snd (head_cas key old new st))) key = Some new"
    "head_get k (snd (head_cas key old new st)) = (if k = key then new else head_get k st)"
  using assms by (simp_all add: head_cas_def head_get_def update_conv')

text \<open>An append alone stores its record at the next position of its chain, or nothing when it fails.\<close>

definition seqs_ok :: "audit_store \<Rightarrow> bool" where
  "seqs_ok st \<longleftrightarrow> (\<forall>e \<in> set (au_events st). cc_seq (ed_content e) \<le> fst (head_get (cc_chainKey (ed_content e)) st))"

lemma cas_keeps [simp]:
  "au_events (snd (head_cas key old new st)) = au_events st" "au_claims (snd (head_cas key old new st)) = au_claims st"
  by (simp_all add: head_cas_def)

lemma append_alone_claims: "au_claims (snd (append_alone sha bson how c st)) = au_claims st"
  by (auto simp: append_alone_def Let_def insert_event_Some split: option.split)

text \<open>In any store an append adds its record or nothing, and its record when it succeeds.\<close>

lemma append_alone_events:
  fixes sha bson c st
  defines "r \<equiv> next_record sha (head_get (cc_chainKey c) st) c"
  shows "au_events (snd (append_alone sha bson how c st)) \<in> {au_events st, au_events st @ [event_of bson r]}"
    and "fst (append_alone sha bson how c st) \<noteq> None \<Longrightarrow>
      au_events (snd (append_alone sha bson how c st)) = au_events st @ [event_of bson r]"
  unfolding append_alone_def Let_def head_get_init r_def [symmetric]
  by (auto simp: insert_event_Some split: option.splits if_splits)

lemma append_alone_outcome:
  fixes sha bson c st
  defines "r \<equiv> next_record sha (head_get (cc_chainKey c) st) c"
  assumes "seqs_ok st" "how \<noteq> StoredButFails"
  shows "fst (append_alone sha bson how c st) = (if how = DiesAfterSwap \<or> how = InsertFails then None else Some r)"
    and "seqs_ok (snd (append_alone sha bson how c st))"
proof -
  let ?k = "cc_chainKey c" and ?h = "head_get (cc_chainKey c) st"
  let ?st0 = "head_init ?k st"
  define new where "new = (cc_seq (cr_content r), cr_hash r)"
  define st1 where "st1 = snd (head_cas ?k ?h new ?st0)"
  define st2 where "st2 = snd (head_cas ?k new ?h st1)"
  define st3 where "st3 = st1\<lparr>au_events := au_events st @ [event_of bson r]\<rparr>"
  note one = head_cas_alone [OF init_head [of ?k st], where new = new, folded st1_def, unfolded init_events init_claims head_get_init]
  note two = head_cas_alone [OF one(4), where new = ?h, folded st2_def, unfolded one]
  have seq: "cc_seq (cr_content r) = fst ?h + 1" "cc_chainKey (cr_content r) = ?k" by (simp_all add: r_def)
  have "(?k, fst ?h + 1) \<notin> pos ` set (au_events st)"
    using assms(2) unfolding seqs_ok_def by fastforce
  then have fits: "insert_event (event_of bson r) st1 = Some st3"
    unfolding insert_event_Some one event_of_keeps seq st3_def by simp
  have run: "append_alone sha bson how c st =
      (if how = DiesAfterSwap then (None, st1) else if how = InsertFails then (None, st2) else (Some r, st3))"
    unfolding append_alone_def Let_def head_get_init r_def [symmetric] new_def [symmetric] st1_def [symmetric]
      st2_def [symmetric] fits using assms(3) by simp
  show "fst (append_alone sha bson how c st) = (if how = DiesAfterSwap \<or> how = InsertFails then None else Some r)"
    by (simp add: run)
  have h3: "head_get k st3 = head_get k st1" for k by (simp add: st3_def head_get_def)
  have n: "fst new = fst ?h + 1" by (simp add: new_def seq)
  have le: "cc_seq (ed_content e) \<le> fst (head_get (cc_chainKey (ed_content e)) st)" if "e \<in> set (au_events st)" for e
    using assms(2) that by (simp add: seqs_ok_def)
  have "seqs_ok st1" unfolding seqs_ok_def one using le n by fastforce
  moreover have "seqs_ok st2" unfolding seqs_ok_def two using le by fastforce
  moreover have "seqs_ok st3" using \<open>seqs_ok st1\<close> unfolding seqs_ok_def h3 by (auto simp: st3_def one n seq)
  ultimately show "seqs_ok (snd (append_alone sha bson how c st))" by (simp add: run)
qed

text \<open>
  What holds of one key: it is stored at most once, a processed claim has its event, a stored event has its
  claim, and a claim bears the time of a delivery from \<open>T\<close>.
\<close>

definition key_ok :: "rat set \<Rightarrow> string \<Rightarrow> audit_store \<Rightarrow> bool" where
  "key_ok T k st \<longleftrightarrow>
     length (keyed k st) \<le> 1
     \<and> (\<forall>t. map_of (au_claims st) k = Some (Processed, t) \<longrightarrow> keyed k st \<noteq> [])
     \<and> (keyed k st \<noteq> [] \<longrightarrow> k \<noteq> [] \<longrightarrow> map_of (au_claims st) k \<noteq> None)
     \<and> (\<forall>s t. map_of (au_claims st) k = Some (s, t) \<longrightarrow> t \<in> T)"

lemma confirm_simps [simp]:
  "au_events (confirmMessage k now st) = au_events st" "head_get key (confirmMessage k now st) = head_get key st"
  by (simp_all add: confirmMessage_def head_get_def split: option.split)

lemma confirm_heads [simp]: "au_heads (confirmMessage k now st) = au_heads st"
  by (simp add: confirmMessage_def split: option.split)

lemma confirm_claims:
  "map_of (au_claims (confirmMessage k now st)) j =
     (if j = k \<and> map_of (au_claims st) k \<noteq> None then Some (Processed, now) else map_of (au_claims st) j)"
  by (auto simp: confirmMessage_def update_conv' split: option.split)

lemma claim_simps [simp]:
  "au_events (snd (claimMessage k now st)) = au_events st"
  "au_heads (snd (claimMessage k now st)) = au_heads st"
  by (auto simp: claimMessage_def split: option.split claim_state.split prod.split)

lemma claim_claims:
  "j \<noteq> k \<Longrightarrow> map_of (au_claims (snd (claimMessage k now st))) j = map_of (au_claims st) j"
  by (auto simp: claimMessage_def confirm_claims update_conv' split: option.split claim_state.split prod.split)

lemma key_ok_confirm: "key_ok T k st \<Longrightarrow> keyed k st \<noteq> [] \<Longrightarrow> now \<in> T \<Longrightarrow> key_ok T k (confirmMessage k now st)"
  by (auto simp: key_ok_def confirm_claims)

text \<open>A claim that is granted is recorded, and nothing with its key is stored; one that is refused has its event.\<close>

lemma claim_granted:
  assumes "key_ok T k st" "claimMessage k now st = (True, st')" "k \<noteq> []" "now \<in> T"
  shows "key_ok T k st'" "keyed k st' = []" "map_of (au_claims st') k \<noteq> None"
proof -
  from assms(2) have ev: "au_events st' = au_events st" using claim_simps(1) [of k now st] by simp
  have none: "keyed k st = []"
    using assms unfolding key_ok_def
    by (auto simp: claimMessage_def list_ex_iff filter_empty_conv split: option.splits claim_state.splits if_splits prod.splits)
  with ev show empty: "keyed k st' = []" by simp
  from assms(2) obtain t where k: "map_of (au_claims st') k = Some (Pending, t)"
    "t = now \<or> map_of (au_claims st) k = Some (Pending, t)"
    by (auto simp: claimMessage_def update_conv' split: option.splits claim_state.splits if_splits prod.splits)
  then show "map_of (au_claims st') k \<noteq> None" by simp
  show "key_ok T k st'" using assms(1,4) empty k unfolding key_ok_def by auto
qed

lemma claim_refused:
  assumes "key_ok T k st" "claimMessage k now st = (False, st')" "now \<in> T"
  shows "key_ok T k st'" "keyed k st \<noteq> []"
proof -
  show stored: "keyed k st \<noteq> []"
    using assms unfolding key_ok_def
    by (auto simp: claimMessage_def list_ex_iff filter_empty_conv split: option.splits claim_state.splits if_splits prod.splits)
  have "st' = st \<or> st' = confirmMessage k now st"
    using assms(2) by (auto simp: claimMessage_def split: option.splits claim_state.splits if_splits prod.splits)
  then show "key_ok T k st'" using assms(1,3) stored key_ok_confirm by blast
qed

lemma key_ok_other:
  "key_ok T k st \<Longrightarrow> keyed k st' = keyed k st \<Longrightarrow> map_of (au_claims st') k = map_of (au_claims st) k \<Longrightarrow> key_ok T k st'"
  by (simp add: key_ok_def)

lemma if_Some: "(if b then None else Some x) = Some y \<longleftrightarrow> \<not> b \<and> x = y"
  by simp

lemma message_of_key: "message_of parse_date now p = Some m \<Longrightarrow> cc_idempotencyKey (am_content m) = nonempty (am_key m)"
  unfolding message_of_def Let_def if_Some
  by (elim conjE, hypsubst, simp only: audit_message.select_convs chain_content.select_convs)

text \<open>The pieces of one ingestion: it is refused, or it gets past the claim and maybe appends. Up to the
  append, events and heads are as they were, and so are the other claims.\<close>

definition past_claim :: "string \<Rightarrow> rat \<Rightarrow> audit_store \<Rightarrow> audit_store \<Rightarrow> bool" where
  "past_claim k now st st1 \<longleftrightarrow> k = [] \<and> st1 = st \<or> k \<noteq> [] \<and> claimMessage k now st = (True, st1)"

lemma past_claim_keeps:
  assumes "past_claim k now st st1"
  shows "au_events st1 = au_events st" "au_heads st1 = au_heads st"
    "j \<noteq> k \<Longrightarrow> map_of (au_claims st1) j = map_of (au_claims st) j"
proof -
  have "st1 = st \<or> st1 = snd (claimMessage k now st)" using assms by (auto simp: past_claim_def)
  then show "au_events st1 = au_events st" "au_heads st1 = au_heads st"
    "j \<noteq> k \<Longrightarrow> map_of (au_claims st1) j = map_of (au_claims st) j"
    by (auto simp: claim_claims)
qed

lemma ingest_message_cases:
  fixes sha bson now how m st
  defines "k \<equiv> am_key m" and "st' \<equiv> ingest_message sha bson now how m st"
  obtains (refused) "k \<noteq> []" "claimMessage k now st = (False, st')"
  | (claimed) "past_claim k now st st'" "how = DiesAfterClaim"
  | (tried) st1 r st2 where "past_claim k now st st1" "how \<noteq> DiesAfterClaim"
      "append_alone sha bson how (am_content m) st1 = (r, st2)"
      "st' = (if r = None \<or> how = DiesAfterInsert \<or> k = [] then st2 else confirmMessage k now st2)"
proof -
  obtain fresh st1 where claim: "(if k = [] then (True, st) else claimMessage k now st) = (fresh, st1)" by force
  obtain r st2 where app: "append_alone sha bson how (am_content m) st1 = (r, st2)" by force
  have run: "st' = (if \<not> fresh \<or> how = DiesAfterClaim then st1
      else if r = None \<or> how = DiesAfterInsert \<or> k = [] then st2 else confirmMessage k now st2)"
    using claim unfolding st'_def k_def ingest_message_def by (simp add: app)
  have "\<not> fresh \<Longrightarrow> k \<noteq> [] \<and> claimMessage k now st = (False, st')" using claim run by (auto split: if_splits)
  moreover have "fresh \<Longrightarrow> past_claim k now st st1" using claim by (auto simp: past_claim_def split: if_splits)
  ultimately show thesis using refused claimed tried [OF _ _ app] run by (cases fresh; cases "how = DiesAfterClaim") auto
qed

lemma keyed_append:
  fixes sha c st
  defines "r \<equiv> next_record sha (head_get (cc_chainKey c) st) c"
  shows "keyed j (snd (append_alone sha bson how c st)) \<in>
    {keyed j st, keyed j st @ (if cc_idempotencyKey c = Some j then [event_of bson r] else [])}"
  using append_alone_events(1) [of sha bson how c st] by (auto simp: r_def)

lemma ingest_message_key_ok:
  assumes "key_ok T k st" "am_key m = k \<longrightarrow> now \<in> T" "cc_idempotencyKey (am_content m) = nonempty (am_key m)"
  shows "key_ok T k (ingest_message sha bson now how m st)"
proof (cases "am_key m = k \<and> k \<noteq> []")
  case False
  show ?thesis
  proof (rule key_ok_other [OF assms(1)])
    have other: "cc_idempotencyKey (am_content m) \<noteq> Some k" using False assms(3) by (auto simp: nonempty_def)
    show "keyed k (ingest_message sha bson now how m st) = keyed k st"
    proof (cases rule: ingest_message_cases [of m now st sha bson how])
      case refused
      then show ?thesis using claim_simps(1) [of "am_key m" now st] by simp
    next
      case claimed
      then show ?thesis by (simp add: past_claim_keeps)
    next
      case (tried st1 r st2)
      then have "keyed k st2 = keyed k st" 
        using keyed_append [of k sha bson how "am_content m" st1] other by (simp add: past_claim_keeps)
      then show ?thesis unfolding tried(4) by simp
    qed
    have that: "am_key m \<noteq> k \<or> am_key m = []" using False by auto
    show "map_of (au_claims (ingest_message sha bson now how m st)) k = map_of (au_claims st) k"
    proof (cases rule: ingest_message_cases [of m now st sha bson how])
      case refused
      then show ?thesis using claim_claims [of k "am_key m" now st] that by auto
    next
      case claimed
      then show ?thesis using that by (cases "am_key m = k") (auto simp: past_claim_keeps, simp add: past_claim_def)
    next
      case (tried st1 r st2)
      have "au_claims st2 = au_claims st1" using append_alone_claims [of sha bson how "am_content m" st1] tried(3) by simp
      moreover have "map_of (au_claims st1) k = map_of (au_claims st) k"
        using that tried(1) by (cases "am_key m = k") (auto simp: past_claim_keeps, simp add: past_claim_def)
      ultimately show ?thesis using that unfolding tried(4) by (auto simp: confirm_claims)
    qed
  qed
next
  case True
  then have k: "am_key m = k" "k \<noteq> []" "now \<in> T" "cc_idempotencyKey (am_content m) = Some k"
    using assms(2,3) by (auto simp: nonempty_def)
  show ?thesis
  proof (cases rule: ingest_message_cases [of m now st sha bson how])
    case refused
    with claim_refused(1) [OF assms(1) _ k(3)] k(1) show ?thesis by simp
  next
    case claimed
    with claim_granted(1) [OF assms(1) _ k(2,3)] k(1,2) show ?thesis by (simp add: past_claim_def)
  next
    case (tried st1 r st2)
    with k have claim: "claimMessage k now st = (True, st1)" by (simp add: past_claim_def)
    note st1 = claim_granted [OF assms(1) claim k(2,3)]
    have claims: "au_claims st2 = au_claims st1" using append_alone_claims [of sha bson how "am_content m" st1] tried(3) by simp
    have "length (keyed k st2) \<le> 1"
      using keyed_append [of k sha bson how "am_content m" st1] st1(2) tried(3) k(4) by auto
    moreover have "keyed k st2 \<noteq> []" if "map_of (au_claims st1) k = Some (Processed, t)" for t
      using st1(1,2) that unfolding key_ok_def by blast
    ultimately have st2: "key_ok T k st2"
      using st1(1,3) unfolding key_ok_def claims by blast
    have "keyed k st2 \<noteq> []" if "r \<noteq> None"
      using append_alone_events(2) [of sha bson how "am_content m" st1] that tried(3) k(4) by simp
    with key_ok_confirm [OF st2 _ k(3)] st2 show ?thesis unfolding tried(4) by (auto simp: k(1))
  qed
qed

text \<open>A processed claim has its event, whatever expired.\<close>

definition processed_stored :: "audit_store \<Rightarrow> bool" where
  "processed_stored st \<longleftrightarrow> (\<forall>k t. map_of (au_claims st) k = Some (Processed, t) \<longrightarrow> keyed k st \<noteq> [])"

lemma ingest_grows: "set (au_events st) \<subseteq> set (au_events (ingest_message sha bson now how m st))"
proof (cases rule: ingest_message_cases [of m now st sha bson how])
  case refused
  then show ?thesis using claim_simps(1) [of "am_key m" now st] by simp
next
  case claimed
  then show ?thesis by (simp add: past_claim_keeps)
next
  case (tried st1 r st2)
  then have "set (au_events st) \<subseteq> set (au_events st2)"
    using append_alone_events(1) [of sha bson how "am_content m" st1] by (auto simp: past_claim_keeps)
  then show ?thesis unfolding tried(4) by simp
qed


lemma ingest_processed_stored:
  assumes "processed_stored st" "cc_idempotencyKey (am_content m) = nonempty (am_key m)"
  shows "processed_stored (ingest_message sha bson now how m st)"
  unfolding processed_stored_def
proof (intro allI impI)
  fix k t
  let ?st' = "ingest_message sha bson now how m st"
  assume done_: "map_of (au_claims ?st') k = Some (Processed, t)"
  have grown: "keyed k st \<noteq> [] \<Longrightarrow> keyed k ?st' \<noteq> []"
    using ingest_grows [of st sha bson now how m] by (auto simp: filter_empty_conv)
  have old: "keyed k st \<noteq> []" if "map_of (au_claims st1) k = Some (Processed, t)" "past_claim (am_key m) now st st1" for st1
    using that assms(1) unfolding processed_stored_def past_claim_def
    by (auto simp: claimMessage_def update_conv' split: option.splits claim_state.splits if_splits prod.splits)
  show "keyed k ?st' \<noteq> []"
  proof (cases rule: ingest_message_cases [of m now st sha bson how])
    case refused
    then have "?st' = st \<or> ?st' = confirmMessage (am_key m) now st \<and> keyed (am_key m) st \<noteq> []"
      by (auto simp: claimMessage_def list_ex_iff filter_empty_conv
          split: option.splits claim_state.splits if_splits prod.splits)
    then have "map_of (au_claims st) k = Some (Processed, t) \<or> keyed k st \<noteq> []"
      using done_ by (auto simp: confirm_claims split: if_splits)
    then show ?thesis using assms(1) grown unfolding processed_stored_def by blast
  next
    case claimed
    with old done_ grown show ?thesis by blast
  next
    case (tried st1 r st2)
    have claims: "au_claims st2 = au_claims st1" using append_alone_claims [of sha bson how "am_content m" st1] tried(3) by simp
    show ?thesis
    proof (cases "map_of (au_claims st1) k = Some (Processed, t)")
      case True
      with old tried(1) grown show ?thesis by blast
    next
      case False
      then have "k = am_key m" "k \<noteq> []" "r \<noteq> None"
        using done_ unfolding tried(4) by (auto simp: claims confirm_claims split: if_splits)
      with append_alone_events(2) [of sha bson how "am_content m" st1] tried(3) assms(2) show ?thesis
        unfolding tried(4) by (simp add: nonempty_def)
    qed
  qed
qed

lemma seqs_same: "seqs_ok st \<Longrightarrow> au_events st' = au_events st \<Longrightarrow> au_heads st' = au_heads st \<Longrightarrow> seqs_ok st'"
  by (simp add: seqs_ok_def head_get_def)

lemma ingest_seqs:
  assumes "seqs_ok st" "how \<noteq> StoredButFails"
  shows "seqs_ok (ingest_message sha bson now how m st)"
proof (cases rule: ingest_message_cases [of m now st sha bson how])
  case refused
  then have "au_events (ingest_message sha bson now how m st) = au_events st"
    "au_heads (ingest_message sha bson now how m st) = au_heads st"
    using claim_simps [of "am_key m" now st] by simp_all
  then show ?thesis by (rule seqs_same [OF assms(1)])
next
  case claimed
  then show ?thesis by (intro seqs_same [OF assms(1)]) (simp_all add: past_claim_keeps)
next
  case (tried st1 r st2)
  have "seqs_ok st1" using tried(1) by (intro seqs_same [OF assms(1)]) (simp_all add: past_claim_keeps)
  from append_alone_outcome(2) [OF this assms(2), of sha bson "am_content m"] tried(3) have "seqs_ok st2" by simp
  then show ?thesis unfolding tried(4) by (rule seqs_same) simp_all
qed

text \<open>An attempt that runs to its end and gets past the claim stores the record at the next position.\<close>

lemma ingest_completes:
  assumes "seqs_ok st" "past_claim (am_key m) now st st1"
  shows "au_events (ingest_message sha bson now Completes m st)
    = au_events st @ [event_of bson (next_record sha (head_get (cc_chainKey (am_content m)) st) (am_content m))]"
proof -
  let ?c = "am_content m"
  have st1: "seqs_ok st1" "au_events st1 = au_events st" "\<And>j. head_get j st1 = head_get j st"
    using assms(2) seqs_same [OF assms(1), of st1] by (simp_all add: past_claim_keeps head_get_def)
  have claim: "(if am_key m = [] then (True, st) else claimMessage (am_key m) now st) = (True, st1)"
    using assms(2) by (auto simp: past_claim_def)
  have "fst (append_alone sha bson Completes ?c st1) \<noteq> None" using append_alone_outcome(1) [OF st1(1)] by simp
  from append_alone_events(2) [OF this] show ?thesis
    by (simp add: ingest_message_def claim st1(2,3) case_prod_beta Let_def)
qed

definition claims_distinct :: "audit_store \<Rightarrow> bool" where
  "claims_distinct st \<longleftrightarrow> distinct (map fst (au_claims st))"

lemma claim_distinct:
  "claims_distinct st \<Longrightarrow> claims_distinct (confirmMessage k now st)"
  "claims_distinct st \<Longrightarrow> claims_distinct (snd (claimMessage k now st))"
  unfolding claims_distinct_def claimMessage_def confirmMessage_def
  by (auto split: option.split claim_state.split prod.split intro: distinct_update)

lemma ingest_distinct:
  assumes "claims_distinct st"
  shows "claims_distinct (ingest_message sha bson now how m st)"
proof -
  have past: "claims_distinct st1" if "past_claim (am_key m) now st st1" for st1
    using that assms claim_distinct(2) [OF assms, of "am_key m" now] by (auto simp: past_claim_def)
  show ?thesis
  proof (cases rule: ingest_message_cases [of m now st sha bson how])
    case refused
    then show ?thesis using claim_distinct(2) [OF assms, of "am_key m" now] by simp
  next
    case claimed
    with past show ?thesis by blast
  next
    case (tried st1 r st2)
    have "au_claims st2 = au_claims st1" using append_alone_claims [of sha bson how "am_content m" st1] tried(3) by simp
    then have "claims_distinct st2" using past [OF tried(1)] by (simp add: claims_distinct_def)
    then show ?thesis unfolding tried(4) by (simp add: claim_distinct(1))
  qed
qed

text \<open>The queue and the clock: deliveries, one at a time, each with the time and the fate of the attempt, and
  sweeps of the ledger.\<close>

datatype audit_input = Delivery rat attempt jsval | Expiry rat

fun audit_handle :: "(string \<Rightarrow> string) \<Rightarrow> (jsval \<Rightarrow> jsval) \<Rightarrow> (string \<Rightarrow> rat option) \<Rightarrow> audit_input
    \<Rightarrow> audit_store \<Rightarrow> audit_store" where
  "audit_handle sha bson parse_date (Delivery now how p) st = ingestEvent sha bson parse_date now how p st"
| "audit_handle sha bson parse_date (Expiry now) st = expire_claims now st"

definition deliver :: "(string \<Rightarrow> string) \<Rightarrow> (jsval \<Rightarrow> jsval) \<Rightarrow> (string \<Rightarrow> rat option) \<Rightarrow> audit_input list
    \<Rightarrow> audit_store \<Rightarrow> audit_store" where
  "deliver sha bson parse_date ds st = foldl (\<lambda>st d. audit_handle sha bson parse_date d st) st ds"

definition empty_store :: audit_store where
  "empty_store = \<lparr>au_heads = [], au_events = [], au_claims = []\<rparr>"

lemma deliver_simps [simp]:
  "deliver sha bson parse_date [] st = st"
  "deliver sha bson parse_date (d # ds) st = deliver sha bson parse_date ds (audit_handle sha bson parse_date d st)"
  "deliver sha bson parse_date (ds @ es) st = deliver sha bson parse_date es (deliver sha bson parse_date ds st)"
  by (simp_all add: deliver_def)

lemma expire_keeps [simp]: "au_events (expire_claims now st) = au_events st" "au_heads (expire_claims now st) = au_heads st"
  by (simp_all add: expire_claims_def)

lemma expire_claims_get:
  assumes "claims_distinct st"
  shows "map_of (au_claims (expire_claims now st)) k =
    (case map_of (au_claims st) k of Some (s, t) \<Rightarrow> if now \<le> t + claim_ttl then Some (s, t) else None | None \<Rightarrow> None)"
proof -
  have "distinct (map fst xs) \<Longrightarrow> map_of (filter (\<lambda>(_, _, t). now \<le> t + claim_ttl) xs) k =
      (case map_of xs k of Some (s, t) \<Rightarrow> if now \<le> t + claim_ttl then Some (s, t) else None | None \<Rightarrow> None)"
    for xs :: "(string \<times> claim_state \<times> rat) list"
  proof -
    assume d: "distinct (map fst xs)"
    let ?ys = "filter (\<lambda>(_, _, t). now \<le> t + claim_ttl) xs"
    have dy: "distinct (map fst ?ys)" using d by (rule distinct_map_filter)
    show ?thesis
    proof (cases "map_of xs k")
      case None
      then have "map_of ?ys k = None" by (auto simp: map_of_eq_None_iff)
      with None show ?thesis by simp
    next
      case (Some v)
      obtain s t where v: "v = (s, t)" by (cases v)
      have "map_of ?ys k = (if now \<le> t + claim_ttl then Some (s, t) else None)"
      proof (cases "map_of ?ys k")
        case None
        then show ?thesis using Some map_of_eq_Some_iff [OF d, of k] by (auto simp: v map_of_eq_None_iff image_iff)
      next
        case (Some w)
        then have "(k, w) \<in> set ?ys" using map_of_eq_Some_iff [OF dy] by blast
        then have "map_of xs k = Some w" using map_of_eq_Some_iff [OF d] by simp
        with \<open>map_of xs k = Some v\<close> \<open>(k, w) \<in> set ?ys\<close> Some show ?thesis by (auto simp: v)
      qed
      with Some show ?thesis by (simp add: v)
    qed
  qed
  with assms show ?thesis by (simp add: expire_claims_def claims_distinct_def)
qed

text \<open>What every input keeps, whenever the ledger is swept.\<close>

definition ledger_inv :: "audit_store \<Rightarrow> bool" where
  "ledger_inv st \<longleftrightarrow> claims_distinct st \<and> processed_stored st"

lemma handle_inv:
  assumes "ledger_inv st"
  shows "ledger_inv (audit_handle sha bson parse_date d st)"
    "set (au_events st) \<subseteq> set (au_events (audit_handle sha bson parse_date d st))"
proof -
  show "ledger_inv (audit_handle sha bson parse_date d st)"
  proof (cases d)
    case (Delivery now how p)
    then show ?thesis
      using assms ingest_distinct ingest_processed_stored message_of_key
      by (auto simp: ledger_inv_def ingestEvent_def split: option.split)
  next
    case (Expiry now)
    have "claims_distinct (expire_claims now st)"
      using assms by (simp add: ledger_inv_def claims_distinct_def expire_claims_def distinct_map_filter)
    moreover have "processed_stored (expire_claims now st)"
      using assms by (auto simp: ledger_inv_def processed_stored_def expire_claims_get split: option.splits if_splits)
    ultimately show ?thesis by (simp add: Expiry ledger_inv_def)
  qed
  show "set (au_events st) \<subseteq> set (au_events (audit_handle sha bson parse_date d st))"
    using ingest_grows by (cases d) (auto simp: ingestEvent_def split: option.split)
qed

lemma deliver_inv: "ledger_inv st \<Longrightarrow> ledger_inv (deliver sha bson parse_date ds st)"
  by (induction ds arbitrary: st) (simp_all add: handle_inv)

lemma deliver_grows: "set (au_events st) \<subseteq> set (au_events (deliver sha bson parse_date ds st))" if "ledger_inv st"
  using that
proof (induction ds arbitrary: st)
  case (Cons d ds)
  then show ?case using handle_inv [OF Cons.prems, of sha bson parse_date d] by fastforce
qed simp

definition insertions_sound :: "audit_input list \<Rightarrow> bool" where
  "insertions_sound ds \<longleftrightarrow> list_all (\<lambda>d. case d of Delivery _ how _ \<Rightarrow> how \<noteq> StoredButFails | Expiry _ \<Rightarrow> True) ds"

lemma deliver_seqs: "seqs_ok st \<Longrightarrow> insertions_sound ds \<Longrightarrow> seqs_ok (deliver sha bson parse_date ds st)"
proof (induction ds arbitrary: st)
  case (Cons d ds)
  have "seqs_ok (audit_handle sha bson parse_date d st)"
  proof (cases d)
    case (Delivery now how p)
    with Cons.prems(2) have "how \<noteq> StoredButFails" by (simp add: insertions_sound_def)
    with ingest_seqs [OF Cons.prems(1)] Cons.prems(1) show ?thesis
      unfolding Delivery audit_handle.simps ingestEvent_def by (cases "message_of parse_date now p") simp_all
  next
    case (Expiry now)
    show ?thesis unfolding Expiry by (rule seqs_same [OF Cons.prems(1)]) simp_all
  qed
  with Cons show ?case by (simp add: insertions_sound_def)
qed simp

lemma empty_ok: "ledger_inv empty_store" "seqs_ok empty_store" "key_ok T k empty_store"
  by (simp_all add: ledger_inv_def claims_distinct_def processed_stored_def seqs_ok_def key_ok_def empty_store_def)

text \<open>The times at which messages with a key are delivered, and whether every sweep of the run leaves a claim
  made or confirmed at one of them.\<close>

definition key_times :: "(string \<Rightarrow> rat option) \<Rightarrow> string \<Rightarrow> audit_input list \<Rightarrow> rat set" where
  "key_times parse_date k ds =
     {now. \<exists>how p m. Delivery now how p \<in> set ds \<and> message_of parse_date now p = Some m \<and> am_key m = k}"

definition claim_outlives :: "(string \<Rightarrow> rat option) \<Rightarrow> string \<Rightarrow> audit_input list \<Rightarrow> bool" where
  "claim_outlives parse_date k ds \<longleftrightarrow>
     (\<forall>n t. Expiry n \<in> set ds \<longrightarrow> t \<in> key_times parse_date k ds \<longrightarrow> n \<le> t + claim_ttl)"

lemma handle_key_ok:
  assumes "key_ok T k st" "claims_distinct st"
    and "\<And>now how p m. d = Delivery now how p \<Longrightarrow> message_of parse_date now p = Some m \<Longrightarrow> am_key m = k \<Longrightarrow> now \<in> T"
    and "\<And>n t. d = Expiry n \<Longrightarrow> t \<in> T \<Longrightarrow> n \<le> t + claim_ttl"
  shows "key_ok T k (audit_handle sha bson parse_date d st)"
proof (cases d)
  case (Delivery now how p)
  show ?thesis
  proof (cases "message_of parse_date now p")
    case None
    then show ?thesis using assms(1) by (simp add: Delivery ingestEvent_def)
  next
    case (Some m)
    then show ?thesis using ingest_message_key_ok [OF assms(1) _ message_of_key [OF Some]] assms(3) [OF Delivery Some]
      by (simp add: Delivery ingestEvent_def)
  qed
next
  case (Expiry n)
  have "map_of (au_claims (expire_claims n st)) k = map_of (au_claims st) k"
    using assms(1,2) assms(4) [OF Expiry] unfolding key_ok_def
    by (auto simp: expire_claims_get split: option.split)
  then show ?thesis using assms(1) by (simp add: Expiry key_ok_other)
qed

lemma deliver_key_ok:
  assumes "key_ok T k st" "ledger_inv st"
    and "\<forall>now how p m. Delivery now how p \<in> set ds \<longrightarrow> message_of parse_date now p = Some m \<longrightarrow> am_key m = k \<longrightarrow> now \<in> T"
    and "\<forall>n t. Expiry n \<in> set ds \<longrightarrow> t \<in> T \<longrightarrow> n \<le> t + claim_ttl"
  shows "key_ok T k (deliver sha bson parse_date ds st)"
  using assms
proof (induction ds arbitrary: st)
  case (Cons d ds)
  have "key_ok T k (audit_handle sha bson parse_date d st)"
    by (rule handle_key_ok) (use Cons.prems in \<open>auto simp: ledger_inv_def\<close>)
  with Cons handle_inv(1) show ?case by simp
qed simp

text \<open>Once an attempt with a fresh key completes its event is there, and a refused one has its event already.\<close>

lemma completes_stores:
  assumes "ledger_inv st" "seqs_ok st" "message_of parse_date now p = Some m" "am_key m = k" "k \<noteq> []"
  shows "keyed k (ingestEvent sha bson parse_date now Completes p st) \<noteq> []"
proof (cases "keyed k st = []")
  case True
  then have "past_claim k now st (snd (claimMessage k now st))"
    using assms(1,5) unfolding past_claim_def ledger_inv_def processed_stored_def
    by (auto simp: claimMessage_def list_ex_iff filter_empty_conv split: option.splits claim_state.splits prod.splits)
  with ingest_completes [OF assms(2), of m] assms(3-5) message_of_key [OF assms(3)] show ?thesis
    by (simp add: ingestEvent_def nonempty_def)
next
  case False
  then show ?thesis using handle_inv(2) [OF assms(1), of sha bson parse_date "Delivery now Completes p"]
    by (auto simp: filter_empty_conv)
qed

lemma deliver_stores:
  assumes "insertions_sound ds" "Delivery now Completes p \<in> set ds"
    and "message_of parse_date now p = Some m" "am_key m = k" "k \<noteq> []"
  shows "keyed k (deliver sha bson parse_date ds empty_store) \<noteq> []"
proof -
  obtain xs ys where ds: "ds = xs @ Delivery now Completes p # ys" using assms(2) by (meson split_list)
  let ?st = "deliver sha bson parse_date xs empty_store"
  have "seqs_ok ?st" using deliver_seqs [OF empty_ok(2), of xs] assms(1) by (simp add: ds insertions_sound_def)
  then have "keyed k (ingestEvent sha bson parse_date now Completes p ?st) \<noteq> []"
    using completes_stores deliver_inv [OF empty_ok(1)] assms(3-5) by blast
  moreover have "ledger_inv (ingestEvent sha bson parse_date now Completes p ?st)"
    using handle_inv(1) [OF deliver_inv [OF empty_ok(1)], of sha bson parse_date "Delivery now Completes p"] by simp
  ultimately show ?thesis using deliver_grows by (fastforce simp: ds filter_empty_conv)
qed

text \<open>C23: A message counts once. However often the queue redelivers messages one after another, and wherever the
  attempts die or fail (after the claim, after the swap of the head, in the insertion with or without
  the record stored, before the confirmation), at most one event is stored under an idempotency key, as long as no
  sweep of the ledger comes more than seven days after a delivery with that key; and exactly one once an
  attempt with that key ran to its end, if no insertion of the run was stored but reported as failed.
  Deliveries that overlap in time are not covered, and a claim that expired lets the message in again.\<close>

theorem ingest_exactly_once:
  assumes "claim_outlives parse_date k ds"
  shows "length (keyed k (deliver sha bson parse_date ds empty_store)) \<le> 1
   \<and> (insertions_sound ds
      \<and> (\<exists>now p m. Delivery now Completes p \<in> set ds \<and> message_of parse_date now p = Some m \<and> am_key m = k \<and> k \<noteq> [])
      \<longrightarrow> length (keyed k (deliver sha bson parse_date ds empty_store)) = 1)"
proof -
  have "key_ok (key_times parse_date k ds) k (deliver sha bson parse_date ds empty_store)"
    by (rule deliver_key_ok [OF empty_ok(3,1)]) (use assms in \<open>auto simp: claim_outlives_def key_times_def\<close>)
  then have one: "length (keyed k (deliver sha bson parse_date ds empty_store)) \<le> 1" by (simp add: key_ok_def)
  with deliver_stores [of ds _ _ parse_date _ k sha bson] show ?thesis
    by (metis One_nat_def le_Suc_eq le_zero_eq length_0_conv)
qed

subsection \<open>Where a message counts twice or not at all\<close>

text \<open>A claim that expired lets the message in again: the events are not consulted for an unknown key.\<close>

lemma expired_claim_doubles:
  assumes m: "message_of parse_date t p = Some m" "message_of parse_date t' p = Some m'"
    and k: "am_key m = k" "am_key m' = k" "k \<noteq> []" and late: "t + claim_ttl < n"
  shows "length (keyed k (deliver sha bson parse_date [Delivery t Completes p, Expiry n, Delivery t' Completes p] empty_store)) = 2"
proof -
  define st1 where "st1 = deliver sha bson parse_date [Delivery t Completes p] empty_store"
  define st2 where "st2 = expire_claims n st1"
  have inv: "ledger_inv st1" unfolding st1_def by (rule deliver_inv [OF empty_ok(1)])
  have "key_ok {t} k st1" unfolding st1_def by (rule deliver_key_ok [OF empty_ok(3,1)]) simp_all
  then have "map_of (au_claims st2) k = None"
    using inv late unfolding st2_def by (auto simp: key_ok_def ledger_inv_def expire_claims_get split: option.split)
  then have past2: "past_claim (am_key m') t' st2 (snd (claimMessage k t' st2))"
    by (simp add: past_claim_def k claimMessage_def)
  have seqs1: "seqs_ok st1"
    unfolding st1_def by (rule deliver_seqs [OF empty_ok(2)]) (simp add: insertions_sound_def)
  have seqs2: "seqs_ok st2" by (rule seqs_same [OF seqs1]) (simp_all add: st2_def)
  have past1: "past_claim (am_key m) t empty_store (snd (claimMessage k t empty_store))"
    by (simp add: past_claim_def k claimMessage_def empty_store_def)
  have keys: "cc_idempotencyKey (am_content m) = Some k" "cc_idempotencyKey (am_content m') = Some k"
    using message_of_key [OF m(1)] message_of_key [OF m(2)] k by (simp_all add: nonempty_def)
  have "au_events st1 = au_events (ingest_message sha bson t Completes m empty_store)"
    by (simp add: st1_def ingestEvent_def m(1))
  then have one: "length (keyed k st1) = 1"
    using keys(1) unfolding ingest_completes [OF empty_ok(2) past1] by (simp add: empty_store_def)
  have "deliver sha bson parse_date [Delivery t Completes p, Expiry n, Delivery t' Completes p] empty_store
      = ingest_message sha bson t' Completes m' st2"
    by (simp add: st2_def st1_def ingestEvent_def m)
  then show ?thesis using one keys(2) by (simp add: ingest_completes [OF seqs2 past2]) (simp add: st2_def)
qed

text \<open>Two attempts at once both get past a claim that is pending, and both append: a consumer that reconnects
  while an attempt is still running is handed the message again.\<close>

lemma overlapping_attempts_double:
  fixes sha bson c k t t'
  defines "s1 \<equiv> snd (claimMessage k t empty_store)"
  defines "s2 \<equiv> snd (claimMessage k t' s1)"
  defines "s3 \<equiv> snd (append_alone sha bson Completes c s2)"
  assumes "cc_idempotencyKey c = Some k"
  shows "fst (claimMessage k t empty_store) \<and> fst (claimMessage k t' s1)
    \<and> length (keyed k (snd (append_alone sha bson Completes c s3))) = 2"
proof -
  have s12: "fst (claimMessage k t empty_store)" "fst (claimMessage k t' s1)" "au_events s2 = []"
    "au_heads s2 = []"
    by (simp_all add: s1_def s2_def claimMessage_def empty_store_def)
  then have ok2: "seqs_ok s2" by (simp add: seqs_ok_def)
  have ok3: "seqs_ok s3" unfolding s3_def by (rule append_alone_outcome(2) [OF ok2]) simp
  have "fst (append_alone sha bson Completes c s2) \<noteq> None" "fst (append_alone sha bson Completes c s3) \<noteq> None"
    using append_alone_outcome(1) [OF ok2, of Completes] append_alone_outcome(1) [OF ok3, of Completes] by simp_all
  note ev = append_alone_events(2) [OF this(1), folded s3_def] append_alone_events(2) [OF this(2)]
  show ?thesis using s12 assms(4) by (simp add: ev)
qed

text \<open>An insertion that is stored but reported as failed takes the head back below a stored record. From then on
  every append to the chain finds its position taken and fails.\<close>

definition blocked :: "string \<Rightarrow> audit_store \<Rightarrow> bool" where
  "blocked key st \<longleftrightarrow> (key, fst (head_get key st) + 1) \<in> pos ` set (au_events st)"

lemma stored_but_failed_blocks:
  assumes "seqs_ok st"
  shows "blocked (cc_chainKey c) (snd (append_alone sha bson StoredButFails c st))"
proof -
  let ?k = "cc_chainKey c" and ?h = "head_get (cc_chainKey c) st" and ?st0 = "head_init (cc_chainKey c) st"
  let ?r = "next_record sha (head_get (cc_chainKey c) st) c"
  define new where "new = (cc_seq (cr_content ?r), cr_hash ?r)"
  define st1 where "st1 = snd (head_cas ?k ?h new ?st0)"
  define st3 where "st3 = st1\<lparr>au_events := au_events st @ [event_of bson ?r]\<rparr>"
  note one = head_cas_alone [OF init_head [of ?k st], where new = new, folded st1_def, unfolded init_events init_claims head_get_init]
  have "(?k, fst ?h + 1) \<notin> pos ` set (au_events st)" using assms unfolding seqs_ok_def by fastforce
  then have fits: "insert_event (event_of bson ?r) st1 = Some st3"
    unfolding insert_event_Some one event_of_keeps next_record_simps st3_def by simp
  have heads: "map_of (au_heads st3) ?k = Some new" by (simp add: st3_def one(4))
  have run: "snd (append_alone sha bson StoredButFails c st) = snd (head_cas ?k new ?h st3)"
    unfolding append_alone_def Let_def head_get_init new_def [symmetric] st1_def [symmetric] fits by simp
  show ?thesis
    using head_cas_alone(5) [OF heads, where new = ?h and k = ?k] unfolding blocked_def run by (simp add: st3_def image_iff)
qed

lemma blocked_append_fails:
  assumes "blocked (cc_chainKey c) st"
  shows "fst (append_alone sha bson how c st) = None" "au_events (snd (append_alone sha bson how c st)) = au_events st"
    and "how \<noteq> DiesAfterSwap \<Longrightarrow> blocked (cc_chainKey c) (snd (append_alone sha bson how c st))"
proof -
  let ?k = "cc_chainKey c" and ?h = "head_get (cc_chainKey c) st" and ?st0 = "head_init (cc_chainKey c) st"
  let ?r = "next_record sha (head_get (cc_chainKey c) st) c"
  define new where "new = (cc_seq (cr_content ?r), cr_hash ?r)"
  define st1 where "st1 = snd (head_cas ?k ?h new ?st0)"
  note one = head_cas_alone [OF init_head [of ?k st], where new = new, folded st1_def, unfolded init_events init_claims head_get_init]
  note two = head_cas_alone [OF one(4), where new = ?h, unfolded one]
  have "insert_event (event_of bson ?r) st1 \<noteq> Some x" for x
    using assms unfolding insert_event_Some one event_of_keeps next_record_simps blocked_def by simp
  then have taken: "insert_event (event_of bson ?r) st1 = None" by (cases "insert_event (event_of bson ?r) st1") auto
  have run: "append_alone sha bson how c st =
      (if how = DiesAfterSwap then (None, st1) else (None, snd (head_cas ?k new ?h st1)))"
    unfolding append_alone_def Let_def head_get_init new_def [symmetric] st1_def [symmetric] taken by simp
  show "fst (append_alone sha bson how c st) = None" by (simp add: run)
  show "au_events (snd (append_alone sha bson how c st)) = au_events st" by (simp add: run one(2))
  show "blocked ?k (snd (append_alone sha bson how c st))" if "how \<noteq> DiesAfterSwap"
    using assms that two(5) [of ?k] unfolding blocked_def run by (simp add: one(2))
qed

subsection \<open>A message\<close>

definition sample_payload :: jsval where
  "sample_payload = JObj [(''type'', JStr ''crm.deal.updated''), (''projectId'', JStr ''p1''), (''messageId'', JStr ''m1''),
     (''timestamp'', JNum 1000), (''payload'', JObj [(''id'', JStr ''d1'')])]"

lemma content_ok_iff:
  "content_ok c \<longleftrightarrow> decimals 30 (of_nat (cc_seq c)) \<noteq> None \<and> decimals 30 (cc_createdAt c) \<noteq> None \<and> numbers_ok (cc_data c)"
  by (auto simp: content_ok_def content_js_def opt_js_def split: option.splits)

text \<open>All that is evaluated of it, at once: its key, its trace id, its chain, its numbers.\<close>

lemma sample_message:
  "\<exists>m. message_of (\<lambda>_. None) 3 sample_payload = Some m \<and> am_key m = ''m1'' \<and> js_get (cc_data (am_content m)) ''traceId'' = JUndef
     \<and> cc_chainKey (am_content m) = ''record|p1'' \<and> content_ok (am_content m)"
proof -
  have "map_option (\<lambda>m. am_key m = ''m1'' \<and> js_get (cc_data (am_content m)) ''traceId'' = JUndef
     \<and> cc_chainKey (am_content m) = ''record|p1'' \<and> cc_seq (am_content m) = 0 \<and> cc_createdAt (am_content m) = 1000
     \<and> numbers_ok (cc_data (am_content m))) (message_of (\<lambda>_. None) 3 sample_payload) = Some True"
    by code_simp
  moreover have "decimals 30 0 \<noteq> None" "decimals 30 1000 \<noteq> None" by (simp_all add: numeral_eq_Suc is_int_def)
  ultimately show ?thesis by (auto simp: content_ok_iff)
qed

definition sample_inputs :: "audit_input list" where
  "sample_inputs = [Delivery 1 DiesAfterSwap sample_payload, Delivery 2 InsertFails sample_payload, Expiry 1000,
     Delivery 3 Completes sample_payload, Delivery 4 Completes sample_payload]"

theorem ingest_exactly_once_witness:
  "length (keyed ''m1'' (deliver (\<lambda>m. m) (\<lambda>v. v) (\<lambda>_. None) sample_inputs empty_store)) = 1"
proof -
  have "key_times (\<lambda>_. None) ''m1'' sample_inputs \<subseteq> {1, 2, 3, 4}"
    by (auto simp: key_times_def sample_inputs_def)
  then have outlives: "claim_outlives (\<lambda>_. None) ''m1'' sample_inputs"
    by (auto simp: claim_outlives_def sample_inputs_def claim_ttl_def)
  obtain m where "message_of (\<lambda>_. None) 3 sample_payload = Some m" "am_key m = ''m1''" using sample_message by blast
  then show ?thesis
    by (intro ingest_exactly_once [OF outlives, THEN conjunct2, THEN mp] conjI exI [of _ 3] exI [of _ sample_payload] exI [of _ m])
       (simp_all add: insertions_sound_def sample_inputs_def)
qed

subsection \<open>Properties that are left undefined\<close>

lemma map_of_sortKeys:
  assumes "distinct (map fst ps)" "sortKeys (JObj ps) = JObj qs"
  shows "distinct (map fst qs)" "map_of qs k = map_option sortKeys (map_of ps k)"
proof -
  let ?ms = "map (\<lambda>(k, v). (k, sortKeys v)) ps"
  have qs: "qs = js_sort_by (\<lambda>a b. fst a \<le> fst b) ?ms" using assms(2) by simp
  have keys: "distinct (map fst ?ms)" using assms(1) by (simp add: comp_def case_prod_beta)
  then have "distinct ?ms" "inj_on fst (set ?ms)" unfolding distinct_map by blast+
  then show dq: "distinct (map fst qs)" unfolding qs distinct_map set_js_sort_by distinct_js_sort_by by simp
  have "map_of qs = map_of ?ms"
    using map_of_inject_set [OF dq keys] by (simp add: qs)
  then show "map_of qs k = map_option sortKeys (map_of ps k)" by (simp add: map_of_map)
qed

lemma drop_undef_absent:
  "distinct (map fst ps) \<Longrightarrow> map_of ps k = None \<or> map_of ps k = Some JUndef \<Longrightarrow> js_get (drop_undef (JObj ps)) k = JUndef"
proof (induction ps)
  case (Cons p ps)
  obtain l u where p: "p = (l, u)" by (cases p)
  have "map_of ps l = None" using Cons.prems(1) by (simp add: p map_of_eq_None_iff)
  with Cons p show ?case by (auto split: if_splits)
qed simp

lemma canon_get:
  assumes "distinct (map fst ps)"
  shows "js_get (canon (JObj ps)) k =
    (case map_of ps k of None \<Rightarrow> JUndef | Some v \<Rightarrow> if v = JUndef then JUndef else canon v)"
proof -
  obtain qs where qs: "sortKeys (JObj ps) = JObj qs" by simp
  note m = map_of_sortKeys [OF assms qs]
  have defined: "sortKeys v \<noteq> JUndef" if "v \<noteq> JUndef" for v using that by (cases v) auto
  show ?thesis
  proof (cases "map_of ps k")
    case None
    then show ?thesis using drop_undef_absent [OF m(1), of k] m(2) [of k] by (simp only: canon_def qs) simp
  next
    case (Some v)
    then have k: "map_of qs k = Some (sortKeys v)" by (simp add: m(2))
    show ?thesis
    proof (cases "v = JUndef")
      case True
      then show ?thesis using drop_undef_absent [OF m(1), of k] k Some by (simp only: canon_def qs) simp
    next
      case False
      then show ?thesis using drop_undef_get [OF m(1) k defined] Some by (simp only: canon_def qs) simp
    qed
  qed
qed

lemma canon_data: "cc_data c \<noteq> JUndef \<Longrightarrow> js_get (canon (content_js c)) ''data'' = canon (cc_data c)"
  unfolding content_js_def by (subst canon_get) simp_all

lemma fold_update_keys:
  "distinct (map fst ps) \<Longrightarrow> distinct (map fst (foldl (\<lambda>m (k, x). AList.update k x m) ps qs))
      \<and> fst ` set ps \<subseteq> fst ` set (foldl (\<lambda>m (k, x). AList.update k x m) ps qs)"
proof (induction qs arbitrary: ps)
  case (Cons q qs)
  obtain a b where q: "q = (a, b)" by (cases q)
  have "distinct (map fst (AList.update a b ps))" using Cons.prems by (rule distinct_update)
  from Cons.IH [OF this] dom_update [of a b ps] show ?case unfolding q by auto
qed simp

lemma message_data:
  assumes "message_of parse_date now p = Some m"
  shows "\<exists>ps. cc_data (am_content m) = JObj ps \<and> distinct (map fst ps) \<and> map_of ps ''traceId'' \<noteq> None"
proof -
  obtain n where "cc_data (am_content m) = event_data n p"
    using assms unfolding message_of_def Let_def if_Some by auto
  then obtain a b c v where data: "cc_data (am_content m) = spread [(''category'', a), (''traceId'', b), (''causationId'', c)] v"
    unfolding event_data_def by blast
  show ?thesis
  proof (cases v)
    case (JObj qs)
    with data fold_update_keys [of "[(''category'', a), (''traceId'', b), (''causationId'', c)]" qs] show ?thesis
      by (simp add: spread_def map_of_eq_None_iff)
  qed (simp_all add: data spread_def)
qed

lemma nat_decimal: "decimals 30 (of_nat n) \<noteq> None"
  by (simp add: numeral_eq_Suc is_int_def)

lemma chained_element:
  "chained sha h n rs \<Longrightarrow> r \<in> set rs \<Longrightarrow> cr_hash r = computeHash sha (cr_prevHash r) (cr_content r)"
  by (induction rs arbitrary: h n) (auto simp: linked_iff)

lemma stored_is_loaded:
  assumes "e \<in> set (au_events st)"
  shows "toChainRecord e \<in> set (loadChain (cc_chainKey (ed_content e)) st)"
  using assms by (simp add: loadChain_def)

text \<open>The content of a record whose data the driver changed, as it is loaded.\<close>

definition reloaded :: "(jsval \<Rightarrow> jsval) \<Rightarrow> chain_content \<Rightarrow> chain_content" where
  "reloaded bson c = c\<lparr>cc_data := bson (cc_data c)\<rparr>"

lemma reload_event:
  assumes "cc_data c = JObj ps" "bson (JObj ps) = JObj qs" "cr_content r = c"
  shows "toChainRecord (event_of bson r) = r\<lparr>cr_content := reloaded bson c\<rparr>"
  using assms by (simp add: toChainRecord_def event_of_def Let_def js_or_def reloaded_def)

text \<open>A chain with a record that comes back changed verifies only if the two texts collide.\<close>

lemma changed_record_breaks:
  assumes "event_of bson (linkRecord sha h c) \<in> set (au_events st)" "verify sha (cc_chainKey c) st = Verified n"
    and "cc_data c = JObj ps" "bson (JObj ps) = JObj qs" "record_text h c \<noteq> record_text h (reloaded bson c)"
  shows "collide sha [record_text h c] [record_text h (reloaded bson c)]"
proof -
  let ?r = "linkRecord sha h c"
  have "cc_chainKey (ed_content (event_of bson ?r)) = cc_chainKey c" by (simp add: linkRecord_def)
  from stored_is_loaded [OF assms(1)] this
  have "?r\<lparr>cr_content := reloaded bson c\<rparr> \<in> set (loadChain (cc_chainKey c) st)"
    using reload_event [of c ps bson qs ?r] assms(3,4) by (simp add: linkRecord_def)
  moreover have "chained sha GENESIS_HASH 1 (loadChain (cc_chainKey c) st)"
    using assms(2) by (simp add: verify_def verifyChain_iff)
  ultimately have "cr_hash ?r = computeHash sha (cr_prevHash ?r) (reloaded bson c)"
    using chained_element by fastforce
  then show ?thesis using assms(5) by (simp add: collide_iff linkRecord_def computeHash_def)
qed

text \<open>With \<open>traceId\<close> undefined the text before and the text after differ.\<close>

lemma undefined_changes_text:
  assumes ps: "cc_data c = JObj ps" "distinct (map fst ps)" "map_of ps ''traceId'' = Some JUndef"
    and qs: "qs = map (\<lambda>(k, v). (k, if v = JUndef then JNull else bson v)) ps" "bson (JObj ps) = JObj qs"
    and ok: "content_ok c" "content_ok (reloaded bson c)"
  shows "record_text h c \<noteq> record_text h (reloaded bson c)"
proof
  assume "record_text h c = record_text h (reloaded bson c)"
  from audit.text_inj [OF ok this]
  have "js_get (canon (content_js c)) ''data'' = js_get (canon (content_js (reloaded bson c))) ''data''" by simp
  then have same: "canon (JObj ps) = canon (JObj qs)" by (simp add: canon_data reloaded_def ps(1) qs(2))
  have keys: "distinct (map fst qs)" using ps(2) by (simp add: qs(1) comp_def case_prod_beta)
  have "map_of qs ''traceId'' = Some JNull" using ps(3) by (simp add: qs(1) map_of_map)
  with ps(3) have "js_get (canon (JObj ps)) ''traceId'' = JUndef" "js_get (canon (JObj qs)) ''traceId'' = canon JNull"
    unfolding canon_get [OF ps(2)] canon_get [OF keys] by simp_all
  with same show False by (simp add: canon_def)
qed

lemma deliver_completes:
  assumes "insertions_sound ds" "message_of parse_date now p = Some m"
    and "keyed (am_key m) (deliver sha bson parse_date ds empty_store) = []"
  defines "st \<equiv> deliver sha bson parse_date ds empty_store"
  shows "event_of bson (next_record sha (head_get (cc_chainKey (am_content m)) st) (am_content m))
    \<in> set (au_events (deliver sha bson parse_date (ds @ Delivery now Completes p # ds') empty_store))"
proof -
  let ?k = "am_key m"
  have st: "ledger_inv st" "seqs_ok st" "keyed ?k st = []"
    using deliver_inv [OF empty_ok(1)] deliver_seqs [OF empty_ok(2) assms(1)] assms(3) by (simp_all add: st_def)
  then have "past_claim ?k now st (if ?k = [] then st else snd (claimMessage ?k now st))"
    unfolding past_claim_def ledger_inv_def processed_stored_def
    by (auto simp: claimMessage_def list_ex_iff filter_empty_conv split: option.splits claim_state.splits prod.splits)
  from ingest_completes [OF st(2) this, of sha bson]
  have "event_of bson (next_record sha (head_get (cc_chainKey (am_content m)) st) (am_content m))
      \<in> set (au_events (ingestEvent sha bson parse_date now Completes p st))"
    by (simp add: ingestEvent_def assms(2))
  moreover have "ledger_inv (ingestEvent sha bson parse_date now Completes p st)"
    using handle_inv(1) [OF st(1), of sha bson parse_date "Delivery now Completes p"] by simp
  ultimately show ?thesis using deliver_grows unfolding st_def by fastforce
qed

text \<open>C32: An event without a trace id breaks the journal. The data put under the hash has the property \<open>traceId\<close>
  undefined, which the hashed text leaves out; the driver stores an undefined property as null (its
  default), so the record that is loaded shows \<open>traceId: null\<close> and its hash does not match. Wherever in the
  life of the service the first such event of a key is appended, the chain never verifies again,
  whatever is delivered later, unless the text that was hashed and the different text of the loaded
  record have the same digest. (No earlier insertion was stored but reported as failed, and numbers
  print in plain decimal notation.)\<close>

theorem absent_trace_breaks_chain:
  assumes "message_of parse_date now p = Some m" "js_get (cc_data (am_content m)) ''traceId'' = JUndef"
    and null: "\<And>ps. bson (JObj ps) = JObj (map (\<lambda>(k, v). (k, if v = JUndef then JNull else bson v)) ps)"
    and numbers: "\<And>v. numbers_ok v \<Longrightarrow> numbers_ok (bson v)"
    and "content_ok (am_content m)" "insertions_sound ds"
    and "keyed (am_key m) (deliver sha bson parse_date ds empty_store) = []"
  shows "let h = head_get (cc_chainKey (am_content m)) (deliver sha bson parse_date ds empty_store);
             c = (am_content m)\<lparr>cc_seq := fst h + 1\<rparr>
         in collide sha [record_text (snd h) c] [record_text (snd h) (reloaded bson c)]
          \<or> (\<forall>ds' n. verify sha (cc_chainKey c)
                (deliver sha bson parse_date (ds @ Delivery now Completes p # ds') empty_store) \<noteq> Verified n)"
proof -
  define h where "h = head_get (cc_chainKey (am_content m)) (deliver sha bson parse_date ds empty_store)"
  define c where "c = (am_content m)\<lparr>cc_seq := fst h + 1\<rparr>"
  obtain ps where "cc_data (am_content m) = JObj ps" and ps': "distinct (map fst ps)" "map_of ps ''traceId'' \<noteq> None"
    using message_data [OF assms(1)] by blast
  then have ps: "cc_data c = JObj ps" "distinct (map fst ps)" "map_of ps ''traceId'' \<noteq> None" by (simp_all add: c_def)
  have trace: "map_of ps ''traceId'' = Some JUndef" using assms(2) ps(1,3) by (auto simp: c_def)
  let ?qs = "map (\<lambda>(k, v). (k, if v = JUndef then JNull else bson v)) ps"
  have "content_ok c" using assms(5) nat_decimal [of "Suc (fst h)"] by (simp add: content_ok_iff c_def)
  moreover from this have "content_ok (reloaded bson c)" using numbers by (simp add: content_ok_iff reloaded_def)
  ultimately have differ: "record_text (snd h) c \<noteq> record_text (snd h) (reloaded bson c)"
    by (rule undefined_changes_text [OF ps(1,2) trace refl null])
  have "next_record sha h (am_content m) = linkRecord sha (snd h) c" by (simp add: next_record_def c_def)
  then have "event_of bson (linkRecord sha (snd h) c)
      \<in> set (au_events (deliver sha bson parse_date (ds @ Delivery now Completes p # ds') empty_store))" for ds'
    using deliver_completes [OF assms(6,1,7), of ds'] by (simp add: h_def)
  from changed_record_breaks [OF this _ ps(1) null differ]
  have "collide sha [record_text (snd h) c] [record_text (snd h) (reloaded bson c)]
      \<or> (\<forall>ds' n. verify sha (cc_chainKey c)
            (deliver sha bson parse_date (ds @ Delivery now Completes p # ds') empty_store) \<noteq> Verified n)"
    by blast
  then show ?thesis by (simp only: Let_def c_def h_def)
qed

text \<open>An instance of what is assumed of the driver.\<close>

fun null_undefined :: "jsval \<Rightarrow> jsval" where
  "null_undefined (JObj ps) = JObj (map (\<lambda>(k, v). (k, if v = JUndef then JNull else null_undefined v)) ps)"
| "null_undefined v = v"

lemma null_undefined_numbers: "numbers_ok v \<Longrightarrow> numbers_ok (null_undefined v)"
  by (induction v rule: null_undefined.induct) (auto simp: list_all_iff)

text \<open>Under a digest that keeps the whole text nothing collides.\<close>

theorem absent_trace_breaks_chain_witness:
  "\<forall>ds n. verify (\<lambda>m. m) ''record|p1''
     (deliver (\<lambda>m. m) null_undefined (\<lambda>_. None) (Delivery 3 Completes sample_payload # ds) empty_store) \<noteq> Verified n"
proof -
  obtain m where m: "message_of (\<lambda>_. None) 3 sample_payload = Some m"
    "js_get (cc_data (am_content m)) ''traceId'' = JUndef" "content_ok (am_content m)" "cc_chainKey (am_content m) = ''record|p1''"
    using sample_message by blast
  have ds: "insertions_sound []" "keyed (am_key m) (deliver (\<lambda>m. m) null_undefined (\<lambda>_. None) [] empty_store) = []"
    by (simp_all add: insertions_sound_def empty_store_def)
  from absent_trace_breaks_chain [OF m(1,2) null_undefined.simps(1) null_undefined_numbers m(3) ds] m(4)
  show ?thesis by (simp add: Let_def collide_def)
qed

end
