(* ===== verification/RolesStore.thy ===== *)
theory RolesStore
  imports PermRbac
begin

text \<open>
  The roles service of control (\<^verbatim>\<open>control/src/roles/roles.service.ts\<close>) over the rows it reads and
  writes: the seed of the system roles with its memo, custom roles, assignments, addressed grants, and
  the resolution of a user's effective permissions with the departments and the units he belongs to.
  A request is a function from the store to an error or a result, and the store it leaves; requests run
  one after another. Tables are lists in insertion order, permission rows are kept in their role,
  \<open>newEntityId\<close> is the parameter \<open>ids\<close>, the clock an argument. Row timestamps are not kept.
\<close>

subsection \<open>Rows\<close>

record project_row =
  pj_id :: string
  pj_ownerId :: string
  pj_modules :: "string list option"
  pj_moduleConfigs :: jsval
  pj_modulePolicies :: jsval

record member_row =
  mb_projectId :: string
  mb_userId :: string
  mb_role :: string

record employee_row =
  em_organizationId :: string
  em_userId :: string
  em_departmentId :: "string option"

record unit_row =
  un_id :: string
  un_scopeType :: string
  un_scopeId :: string
  un_archived :: bool

record unit_member_row =
  um_unitId :: string
  um_memberType :: string
  um_memberId :: string

record binding_row =
  bd_projectId :: string
  bd_defaultRole :: string

record role_row =
  ro_id :: string
  ro_scopeType :: string
  ro_scopeId :: "string option"
  ro_key :: "string option"
  ro_name :: string
  ro_kind :: string
  ro_isArchived :: bool
  ro_permissions :: "(string \<times> string) list"

record assignment_row =
  as_id :: string
  as_projectId :: string
  as_subjectType :: string
  as_subjectId :: string
  as_roleId :: string
  as_scope :: string
  as_expiresAt :: "nat option"
  as_createdBy :: string

record grant_row =
  gr_id :: string
  gr_projectId :: string
  gr_moduleId :: string
  gr_effect :: string
  gr_subject :: string
  gr_action :: string
  gr_resource :: string
  gr_granteeType :: "string option"
  gr_granteeId :: "string option"
  gr_createdBy :: string

record role_audit =
  ra_projectId :: string
  ra_actorUserId :: string
  ra_action :: string
  ra_entityType :: string
  ra_entityId :: string
  ra_before :: jsval
  ra_after :: jsval

record control_db =
  db_projects :: "project_row list"
  db_members :: "member_row list"
  db_employees :: "employee_row list"
  db_units :: "unit_row list"
  db_unitMembers :: "unit_member_row list"
  db_bindings :: "binding_row list"
  db_roles :: "role_row list"
  db_assignments :: "assignment_row list"
  db_grants :: "grant_row list"
  db_audit :: "role_audit list"
  db_roleSync :: "(string \<times> string \<times> (project_role \<times> string) list \<times> nat) list"
  db_next :: nat

subsection \<open>Requests\<close>

datatype app_kind = Invalid | Access | NotFound | Conflict

text \<open>The kind of an error, its message and the code of its details, if any.\<close>

datatype app_error = AppError app_kind string string

type_synonym 'a svc = "control_db \<Rightarrow> (app_error + 'a) \<times> control_db"

definition rret :: "'a \<Rightarrow> 'a svc" where
  "rret x = (\<lambda>db. (Inr x, db))"

definition rfail :: "app_error \<Rightarrow> 'a svc" where
  "rfail e = (\<lambda>db. (Inl e, db))"

definition rbind :: "'a svc \<Rightarrow> ('a \<Rightarrow> 'b svc) \<Rightarrow> 'b svc" where
  "rbind m f = (\<lambda>db. case m db of (Inl e, db') \<Rightarrow> (Inl e, db') | (Inr x, db') \<Rightarrow> f x db')"

definition rget :: "(control_db \<Rightarrow> 'a) \<Rightarrow> 'a svc" where
  "rget f = (\<lambda>db. (Inr (f db), db))"

definition rmod :: "(control_db \<Rightarrow> control_db) \<Rightarrow> unit svc" where
  "rmod f = (\<lambda>db. (Inr (), f db))"

definition rreject :: "bool \<Rightarrow> app_error \<Rightarrow> unit svc" where
  "rreject b e = (if b then rfail e else rret ())"

definition rsome :: "'a option \<Rightarrow> app_error \<Rightarrow> 'a svc" where
  "rsome x e = (case x of None \<Rightarrow> rfail e | Some y \<Rightarrow> rret y)"

definition newEntityId :: "(nat \<Rightarrow> string) \<Rightarrow> string svc" where
  "newEntityId ids = (\<lambda>db. (Inr (ids (db_next db)), db\<lparr>db_next := db_next db + 1\<rparr>))"

definition audit :: "role_audit \<Rightarrow> unit svc" where
  "audit a = rmod (\<lambda>db. db\<lparr>db_audit := db_audit db @ [a]\<rparr>)"

text \<open>Updating the rows a condition selects.\<close>

definition update_where :: "('a \<Rightarrow> bool) \<Rightarrow> ('a \<Rightarrow> 'a) \<Rightarrow> 'a list \<Rightarrow> 'a list" where
  "update_where P f xs = map (\<lambda>x. if P x then f x else x) xs"

subsection \<open>The catalog of a project\<close>

definition effectiveModules :: "project_row \<Rightarrow> string list" where
  "effectiveModules p =
     extractEnabledModulesFromConfigs
       (normalizeModuleConfigs (Some (case pj_modules p of None \<Rightarrow> [] | Some ms \<Rightarrow> ms)) (pj_moduleConfigs p))"

definition find_project :: "string \<Rightarrow> control_db \<Rightarrow> project_row option" where
  "find_project pid db = find (\<lambda>p. pj_id p = pid) (db_projects db)"

definition projectEnabledModules :: "string \<Rightarrow> string list svc" where
  "projectEnabledModules pid =
     rbind (rget (find_project pid)) (\<lambda>p.
     rbind (rsome p (AppError NotFound ''Project not found'' [])) (\<lambda>p. rret (effectiveModules p)))"

definition getCatalog :: "string \<Rightarrow> catalog svc" where
  "getCatalog pid = rbind (projectEnabledModules pid) (\<lambda>ms. rret (buildProjectCatalogWithSystem ms))"

subsection \<open>System roles\<close>

definition find_role :: "string \<Rightarrow> control_db \<Rightarrow> role_row option" where
  "find_role rid db = find (\<lambda>r. ro_id r = rid) (db_roles db)"

definition is_system_role :: "string \<Rightarrow> project_role \<Rightarrow> role_row \<Rightarrow> bool" where
  "is_system_role pid key r \<longleftrightarrow> ro_scopeType r = ''project'' \<and> ro_scopeId r = Some pid \<and> ro_key r = Some (role_name key)"

definition parsed_keys :: "string list \<Rightarrow> (string \<times> string) list" where
  "parsed_keys ks = List.map_filter parsePermissionKey ks"

text \<open>One transaction of the seed: the role is created when missing, its permissions are replaced.\<close>

definition sync_role :: "(nat \<Rightarrow> string) \<Rightarrow> string \<Rightarrow> catalog \<Rightarrow> project_role \<Rightarrow> string svc" where
  "sync_role ids pid c key =
     (let desired = parsed_keys (expandSystemRolePermissions key c) in
      rbind (rget (\<lambda>db. find (is_system_role pid key) (db_roles db))) (\<lambda>existing.
      case existing of
        Some r \<Rightarrow> rbind (rmod (\<lambda>db. db\<lparr>db_roles := update_where (\<lambda>x. ro_id x = ro_id r) (\<lambda>x. x\<lparr>ro_permissions := desired\<rparr>) (db_roles db)\<rparr>))
          (\<lambda>_. rret (ro_id r))
      | None \<Rightarrow>
          rbind (newEntityId ids) (\<lambda>rid.
          rbind (rmod (\<lambda>db. db\<lparr>db_roles := db_roles db @ [\<lparr>ro_id = rid, ro_scopeType = ''project'', ro_scopeId = Some pid,
             ro_key = Some (role_name key), ro_name = role_name key, ro_kind = ''system'', ro_isArchived = False,
             ro_permissions = desired\<rparr>]\<rparr>)) (\<lambda>_. rret rid))))"

fun sync_roles :: "(nat \<Rightarrow> string) \<Rightarrow> string \<Rightarrow> catalog \<Rightarrow> project_role list \<Rightarrow> (project_role \<times> string) list svc" where
  "sync_roles ids pid c [] = rret []"
| "sync_roles ids pid c (key # keys) =
     rbind (sync_role ids pid c key) (\<lambda>rid.
     rbind (sync_roles ids pid c keys) (\<lambda>byKey. rret ((key, rid) # byKey)))"

definition sync_signature :: "catalog \<Rightarrow> string" where
  "sync_signature c = join ''|'' (cat_keys c)"

text \<open>The seed is skipped while the catalog it was made from is unchanged and its memo has not expired.\<close>

definition sync_current :: "nat \<Rightarrow> nat \<Rightarrow> catalog \<Rightarrow> (string \<times> (project_role \<times> string) list \<times> nat) option \<Rightarrow> bool" where
  "sync_current ttl now c memo \<longleftrightarrow>
     ttl > 0 \<and> (case memo of None \<Rightarrow> False | Some (sig, byKey, expires) \<Rightarrow> sig = sync_signature c \<and> expires > now)"

definition store_sync :: "nat \<Rightarrow> nat \<Rightarrow> string \<Rightarrow> catalog \<Rightarrow> (project_role \<times> string) list \<Rightarrow> unit svc" where
  "store_sync ttl now pid c byKey =
     rmod (\<lambda>db. if ttl > 0 then db\<lparr>db_roleSync := AList.update pid (sync_signature c, byKey, now + ttl) (db_roleSync db)\<rparr> else db)"

definition ensureSystemRoles :: "(nat \<Rightarrow> string) \<Rightarrow> nat \<Rightarrow> nat \<Rightarrow> string \<Rightarrow> catalog \<Rightarrow> (project_role \<times> string) list svc" where
  "ensureSystemRoles ids ttl now pid c =
     rbind (rget (\<lambda>db. map_of (db_roleSync db) pid)) (\<lambda>memo.
     if sync_current ttl now c memo then rret (fst (snd (the memo)))
     else rbind (sync_roles ids pid c SYSTEM_PROJECT_ROLE_KEYS) (\<lambda>byKey.
          rbind (store_sync ttl now pid c byKey) (\<lambda>_. rret byKey)))"

definition invalidateSystemRoleSync :: "string option \<Rightarrow> control_db \<Rightarrow> control_db" where
  "invalidateSystemRoleSync pid db =
     (case pid of None \<Rightarrow> db\<lparr>db_roleSync := []\<rparr>
      | Some p \<Rightarrow> db\<lparr>db_roleSync := if p = [] then [] else AList.delete p (db_roleSync db)\<rparr>)"

subsection \<open>Departments and units of a user\<close>

definition nonempty_id :: "string option \<Rightarrow> string option" where
  "nonempty_id d = (case d of None \<Rightarrow> None | Some x \<Rightarrow> if x = [] then None else Some x)"

definition userDepartmentIds :: "string \<Rightarrow> string \<Rightarrow> control_db \<Rightarrow> string list" where
  "userDepartmentIds pid uid db =
     (case find_project pid db of
        None \<Rightarrow> []
      | Some p \<Rightarrow> List.map_filter (\<lambda>e. nonempty_id (em_departmentId e))
          (filter (\<lambda>e. em_organizationId e = pj_ownerId p \<and> em_userId e = uid) (db_employees db)))"

definition MAX_GROUP_DEPTH :: nat where
  "MAX_GROUP_DEPTH = 20"

definition project_units :: "string \<Rightarrow> control_db \<Rightarrow> unit_row list" where
  "project_units pid db =
     filter (\<lambda>u. un_scopeType u = ''PROJECT'' \<and> un_scopeId u = pid \<and> \<not> un_archived u) (db_units db)"

definition units_members :: "unit_row list \<Rightarrow> control_db \<Rightarrow> unit_member_row list" where
  "units_members us db = filter (\<lambda>m. um_unitId m \<in> set (map un_id us)) (db_unitMembers db)"

text \<open>The units that contain a unit as a group, and the units the user is a direct member of.\<close>

definition parents_of :: "unit_member_row list \<Rightarrow> string \<Rightarrow> string list" where
  "parents_of ms x = map um_unitId (filter (\<lambda>m. um_memberType m = ''group'' \<and> um_memberId m = x) ms)"

definition direct_units :: "unit_member_row list \<Rightarrow> string \<Rightarrow> string list" where
  "direct_units ms uid = map um_unitId (filter (\<lambda>m. um_memberType m = ''user'' \<and> um_memberId m = uid) ms)"

text \<open>The breadth-first walk upward, with the number of iterations left.\<close>

fun unit_walk :: "(string \<Rightarrow> bool) \<Rightarrow> (string \<Rightarrow> string list) \<Rightarrow> nat \<Rightarrow> string list \<Rightarrow> string list \<Rightarrow> string list" where
  "unit_walk inScope parents 0 queue effective = effective"
| "unit_walk inScope parents (Suc n) [] effective = effective"
| "unit_walk inScope parents (Suc n) (x # queue) effective =
     (if x \<in> set effective \<or> \<not> inScope x then unit_walk inScope parents n queue effective
      else let effective' = effective @ [x]
           in unit_walk inScope parents n (queue @ filter (\<lambda>p. p \<notin> set effective') (parents x)) effective')"

definition userUnitIds :: "string \<Rightarrow> string \<Rightarrow> control_db \<Rightarrow> string list" where
  "userUnitIds pid uid db =
     (let us = project_units pid db in
      if us = [] then []
      else let ms = units_members us db; maxSteps = length us * (MAX_GROUP_DEPTH + 1) + 1
           in unit_walk (\<lambda>x. x \<in> set (map un_id us)) (parents_of ms) (maxSteps + 1) (direct_units ms uid) [])"

subsection \<open>Effective permissions of a user\<close>

definition in_scope_of :: "string \<Rightarrow> string option" where
  "in_scope_of scope = (if starts_with scope ''module:'' then Some (drop 7 scope) else None)"

definition role_keys :: "role_row \<Rightarrow> string list" where
  "role_keys r = map (\<lambda>(s, a). permissionKey s (normalizeAction a)) (ro_permissions r)"

text \<open>The assignments that address the user, with their roles, expired ones left out.\<close>

definition addresses_user :: "string \<Rightarrow> string \<Rightarrow> string list \<Rightarrow> string list \<Rightarrow> assignment_row \<Rightarrow> bool" where
  "addresses_user pid uid deptIds unitIds a \<longleftrightarrow>
     as_projectId a = pid
     \<and> (as_subjectType a = ''user'' \<and> as_subjectId a = uid
        \<or> as_subjectType a = ''department'' \<and> as_subjectId a \<in> set deptIds
        \<or> as_subjectType a = ''unit'' \<and> as_subjectId a \<in> set unitIds)"

definition active_assignments :: "nat \<Rightarrow> string \<Rightarrow> string \<Rightarrow> control_db \<Rightarrow> (assignment_row \<times> role_row) list" where
  "active_assignments now pid uid db =
     List.map_filter (\<lambda>a. map_option (Pair a) (find_role (as_roleId a) db))
       (filter (\<lambda>a. (case as_expiresAt a of None \<Rightarrow> True | Some t \<Rightarrow> t > now))
         (filter (addresses_user pid uid (userDepartmentIds pid uid db) (userUnitIds pid uid db)) (db_assignments db)))"

definition baselineKey :: "string \<Rightarrow> string \<Rightarrow> control_db \<Rightarrow> project_role option" where
  "baselineKey pid uid db =
     (case find (\<lambda>m. mb_projectId m = pid \<and> mb_userId m = uid) (db_members db) of
        None \<Rightarrow> None | Some m \<Rightarrow> opt_role (Some (mb_role m)))"

definition grant_reaches :: "string \<Rightarrow> string list \<Rightarrow> string list \<Rightarrow> role_row list \<Rightarrow> grant_row \<Rightarrow> bool" where
  "grant_reaches uid deptIds unitIds roles g \<longleftrightarrow>
     (let gid = nonempty_id (gr_granteeId g) in
      gr_effect g = ''deny'' \<and> gid = None
      \<or> gr_granteeType g = Some ''member'' \<and> gr_granteeId g = Some uid
      \<or> gr_granteeType g = Some ''department'' \<and> (\<exists>x \<in> set deptIds. gid = Some x)
      \<or> gr_granteeType g = Some ''unit'' \<and> (\<exists>x \<in> set unitIds. gid = Some x)
      \<or> gr_granteeType g = Some ''role'' \<and> (\<exists>r \<in> set roles. ro_key r = gr_granteeId g))"

definition grant_input_of :: "grant_row \<Rightarrow> grant_input" where
  "grant_input_of g =
     \<lparr>gi_effect = (if gr_effect g = ''deny'' then GDeny else GAllow),
      gi_key = permissionKey (gr_subject g) (normalizeAction (gr_action g)), gi_source = Some (''grant:'' @ gr_effect g)\<rparr>"

definition assignment_input :: "assignment_row \<times> role_row \<Rightarrow> role_input" where
  "assignment_input = (\<lambda>(a, r). \<lparr>ri_keys = role_keys r, ri_moduleScope = in_scope_of (as_scope a),
     ri_source = Some (''assignment:'' @ (case ro_key r of None \<Rightarrow> as_roleId a | Some k \<Rightarrow> k))\<rparr>)"

definition baseline_input :: "catalog \<Rightarrow> project_role \<Rightarrow> role_input" where
  "baseline_input c r = \<lparr>ri_keys = expandSystemRolePermissions r c, ri_moduleScope = None, ri_source = Some (''baseline:'' @ role_name r)\<rparr>"

definition role_rank :: "string \<Rightarrow> nat" where
  "role_rank k = (case map_of [(''viewer'', 1), (''member'', 2), (''manager'', 3), (''admin'', 4), (''owner'', 5)] k of
     None \<Rightarrow> 0 | Some n \<Rightarrow> n)"

definition dominantRole :: "string option list \<Rightarrow> string" where
  "dominantRole ks = fst (foldl (\<lambda>(best, rank) k. case k of None \<Rightarrow> (best, rank)
       | Some x \<Rightarrow> if role_rank x > rank then (x, role_rank x) else (best, rank)) ([], 0) ks)"

record resolved =
  rs_effective :: effective_set
  rs_role :: string
  rs_catalog :: catalog

text \<open>The part of \<open>resolveEffective\<close> after the seed.\<close>

definition effective_inputs :: "nat \<Rightarrow> string \<Rightarrow> string \<Rightarrow> catalog \<Rightarrow> control_db \<Rightarrow> role_input list \<times> grant_input list" where
  "effective_inputs now pid uid c db =
     (let active = active_assignments now pid uid db in
      (map assignment_input active @ (case baselineKey pid uid db of None \<Rightarrow> [] | Some r \<Rightarrow> [baseline_input c r]),
       map grant_input_of (filter (\<lambda>g. gr_projectId g = pid
         \<and> grant_reaches uid (userDepartmentIds pid uid db) (userUnitIds pid uid db) (map snd active) g) (db_grants db))))"

definition resolved_of :: "nat \<Rightarrow> string \<Rightarrow> string \<Rightarrow> catalog \<Rightarrow> control_db \<Rightarrow> resolved" where
  "resolved_of now pid uid c db =
     (let (roles, grants) = effective_inputs now pid uid c db in
      \<lparr>rs_effective = compileEffectivePermissionsWithSources roles grants (js_set_of (cat_keys c)),
       rs_role = dominantRole (map (ro_key \<circ> snd) (active_assignments now pid uid db) @ [map_option role_name (baselineKey pid uid db)]),
       rs_catalog = c\<rparr>)"

definition resolveEffective :: "(nat \<Rightarrow> string) \<Rightarrow> nat \<Rightarrow> nat \<Rightarrow> string \<Rightarrow> string \<Rightarrow> resolved svc" where
  "resolveEffective ids ttl now pid uid =
     rbind (getCatalog pid) (\<lambda>c.
     rbind (ensureSystemRoles ids ttl now pid c) (\<lambda>_.
     rget (resolved_of now pid uid c)))"

definition simulate :: "(nat \<Rightarrow> string) \<Rightarrow> nat \<Rightarrow> nat \<Rightarrow> string \<Rightarrow> string \<Rightarrow> string \<Rightarrow> string \<Rightarrow> (rbac_decision \<times> string) svc" where
  "simulate ids ttl now pid uid subject action =
     rbind (resolveEffective ids ttl now pid uid) (\<lambda>r.
     rbind (getCatalog pid) (\<lambda>c.
     rret (decideRbac subject action (ef_allow (rs_effective r), ef_deny (rs_effective r)) c, rs_role r)))"

subsection \<open>Custom roles\<close>

text \<open>The parameters every request runs with: the id source, the memo's lifetime, the clock.\<close>

record roles_env =
  en_ids :: "nat \<Rightarrow> string"
  en_ttl :: nat
  en_now :: nat

abbreviation effective :: "roles_env \<Rightarrow> string \<Rightarrow> string \<Rightarrow> resolved svc" where
  "effective env pid uid \<equiv> resolveEffective (en_ids env) (en_ttl env) (en_now env) pid uid"

definition not_in_catalog :: "string \<Rightarrow> app_error" where
  "not_in_catalog key = AppError Invalid (''Permission '' @ key @ '' not in catalog'') ''ROLE_PERMISSION_NOT_IN_CATALOG''"

text \<open>One requested key: parsed, normalised, in the catalog and grantable.\<close>

definition check_key :: "catalog \<Rightarrow> string \<Rightarrow> app_error + string" where
  "check_key c raw =
     (case parsePermissionKey raw of
        None \<Rightarrow> Inl (AppError Invalid (''Malformed permission '' @ raw) ''ROLE_PERMISSION_NOT_IN_CATALOG'')
      | Some (s, a) \<Rightarrow>
          (let key = permissionKey s (normalizeAction a) in
           if \<not> cat_hasKey c key then Inl (not_in_catalog key)
           else if \<not> isProjectGrantablePermission key
           then Inl (AppError Access (''Permission '' @ key @ '' cannot be granted by a project role'') ''SELF_ESCALATION_DENIED'')
           else Inr key))"

definition self_check :: "resolved \<Rightarrow> string list \<Rightarrow> string list" where
  "self_check actor requested =
     checkNoSelfEscalation (rs_role actor = ''owner'') (ef_allow (rs_effective actor)) (ef_deny (rs_effective actor)) requested"

definition validateRolePermissions :: "roles_env \<Rightarrow> string \<Rightarrow> string \<Rightarrow> string list \<Rightarrow> string list svc" where
  "validateRolePermissions env pid actor raws =
     rbind (getCatalog pid) (\<lambda>c.
     rbind (\<lambda>db. (smap (check_key c) raws, db)) (\<lambda>keys.
     let normalized = js_set_of keys in
     rbind (effective env pid actor) (\<lambda>a.
     rbind (rreject (self_check a normalized \<noteq> []) (AppError Access ''Cannot grant permissions you do not hold'' ''SELF_ESCALATION_DENIED''))
       (\<lambda>_. rret (js_sort normalized)))))"

definition lintWarnings :: "string list \<Rightarrow> string list" where
  "lintWarnings keys =
     (let ps = parsed_keys keys; subjects = js_set_of (map fst ps) in
      map (\<lambda>s. s @ '': delete/manage without read'')
        (filter (\<lambda>s. ((s, ''delete'') \<in> set ps \<or> (s, ''manage'') \<in> set ps) \<and> (s, ''read'') \<notin> set ps) subjects))"

text \<open>A role for transport.\<close>

record role_view =
  rv_role :: role_row
  rv_permissions :: "string list"

definition mapRole :: "role_row \<Rightarrow> role_view" where
  "mapRole r = \<lparr>rv_role = r, rv_permissions = js_sort (role_keys r)\<rparr>"

definition toRoleView :: "string \<Rightarrow> role_view svc" where
  "toRoleView rid =
     rbind (rget (find_role rid)) (\<lambda>r.
     rbind (rsome r (AppError NotFound ''Role not found'' [])) (\<lambda>r. rret (mapRole r)))"

definition listRoles :: "roles_env \<Rightarrow> string \<Rightarrow> role_view list svc" where
  "listRoles env pid =
     rbind (getCatalog pid) (\<lambda>c.
     rbind (ensureSystemRoles (en_ids env) (en_ttl env) (en_now env) pid c) (\<lambda>_.
     rget (\<lambda>db. map mapRole (filter (\<lambda>r. ro_scopeType r = ''project'' \<and> ro_scopeId r = Some pid \<and> \<not> ro_isArchived r) (db_roles db)))))"

text \<open>An unarchived project role of that name, other than the one given.\<close>

definition name_taken :: "string \<Rightarrow> string \<Rightarrow> string option \<Rightarrow> control_db \<Rightarrow> bool" where
  "name_taken pid name except db =
     list_ex (\<lambda>r. ro_scopeType r = ''project'' \<and> ro_scopeId r = Some pid \<and> ro_name r = name \<and> \<not> ro_isArchived r
        \<and> Some (ro_id r) \<noteq> except) (db_roles db)"

definition name_error :: app_error where
  "name_error = AppError Invalid ''Role name already taken'' ''ROLE_NAME_TAKEN''"

definition strs :: "string list \<Rightarrow> jsval" where
  "strs ks = JArr (map JStr ks)"

definition createRole :: "roles_env \<Rightarrow> string \<Rightarrow> string \<Rightarrow> string \<Rightarrow> string list \<Rightarrow> (role_view \<times> string list) svc" where
  "createRole env pid actor name permissions =
     rbind (rreject (trim name = []) (AppError Invalid ''Role name required'' ''INVALID_ARGUMENT'')) (\<lambda>_.
     rbind (validateRolePermissions env pid actor permissions) (\<lambda>keys.
     rbind (rget (name_taken pid name None)) (\<lambda>dup.
     rbind (rreject dup name_error) (\<lambda>_.
     rbind (newEntityId (en_ids env)) (\<lambda>rid.
     rbind (rmod (\<lambda>db. db\<lparr>db_roles := db_roles db @ [\<lparr>ro_id = rid, ro_scopeType = ''project'', ro_scopeId = Some pid,
        ro_key = None, ro_name = name, ro_kind = ''custom'', ro_isArchived = False, ro_permissions = parsed_keys keys\<rparr>]\<rparr>)) (\<lambda>_.
     rbind (audit \<lparr>ra_projectId = pid, ra_actorUserId = actor, ra_action = ''role.created'', ra_entityType = ''role'', ra_entityId = rid,
        ra_before = JUndef, ra_after = JObj [(''name'', JStr name), (''permissions'', strs keys)]\<rparr>) (\<lambda>_.
     rbind (toRoleView rid) (\<lambda>v. rret (v, lintWarnings keys)))))))))"

definition assertCustomRole :: "string \<Rightarrow> string \<Rightarrow> role_row svc" where
  "assertCustomRole rid pid =
     rbind (rget (find_role rid)) (\<lambda>r.
     case r of
       None \<Rightarrow> rfail (AppError NotFound ''Role not found'' [])
     | Some r \<Rightarrow>
         if ro_scopeId r \<noteq> Some pid \<or> ro_scopeType r \<noteq> ''project'' then rfail (AppError NotFound ''Role not found'' [])
         else if ro_kind r = ''system'' then rfail (AppError Access ''System role is immutable'' ''SYSTEM_ROLE_IMMUTABLE'')
         else rret r)"

text \<open>The two writes of an update, each when asked for.\<close>

definition rename_role :: "string \<Rightarrow> string \<Rightarrow> string option \<Rightarrow> unit svc" where
  "rename_role pid rid newName =
     (case newName of
        None \<Rightarrow> rret ()
      | Some n \<Rightarrow>
          rbind (rget (name_taken pid n (Some rid))) (\<lambda>dup.
          rbind (rreject dup name_error) (\<lambda>_.
          rmod (\<lambda>db. db\<lparr>db_roles := update_where (\<lambda>x. ro_id x = rid) (\<lambda>x. x\<lparr>ro_name := n\<rparr>) (db_roles db)\<rparr>))))"

definition replace_keys :: "string \<Rightarrow> string list option \<Rightarrow> unit svc" where
  "replace_keys rid keys =
     (case keys of
        None \<Rightarrow> rret ()
      | Some ks \<Rightarrow> rmod (\<lambda>db. db\<lparr>db_roles := update_where (\<lambda>x. ro_id x = rid) (\<lambda>x. x\<lparr>ro_permissions := parsed_keys ks\<rparr>) (db_roles db)\<rparr>))"

definition optional_keys :: "roles_env \<Rightarrow> string \<Rightarrow> string \<Rightarrow> string list option \<Rightarrow> string list option svc" where
  "optional_keys env pid actor permissions =
     (case permissions of None \<Rightarrow> rret None
      | Some ps \<Rightarrow> rbind (validateRolePermissions env pid actor ps) (\<lambda>ks. rret (Some ks)))"

definition updateRole :: "roles_env \<Rightarrow> string \<Rightarrow> string \<Rightarrow> string \<Rightarrow> string option \<Rightarrow> string list option
    \<Rightarrow> (role_view \<times> string list) svc" where
  "updateRole env pid actor rid name permissions =
     rbind (assertCustomRole rid pid) (\<lambda>existing.
     rbind (toRoleView rid) (\<lambda>before.
     rbind (optional_keys env pid actor permissions) (\<lambda>keys.
     let warnings = (case keys of None \<Rightarrow> [] | Some ks \<Rightarrow> lintWarnings ks);
         newName = (case nonempty_id name of Some n \<Rightarrow> if n = ro_name existing then None else Some n | None \<Rightarrow> None)
     in
     rbind (rename_role pid rid newName) (\<lambda>_.
     rbind (replace_keys rid keys) (\<lambda>_.
     rbind (audit \<lparr>ra_projectId = pid, ra_actorUserId = actor, ra_action = ''role.updated'', ra_entityType = ''role'', ra_entityId = rid,
        ra_before = JObj [(''name'', JStr (ro_name (rv_role before))), (''permissions'', strs (rv_permissions before))],
        ra_after = JObj [(''name'', JStr (case name of Some n \<Rightarrow> n | None \<Rightarrow> ro_name (rv_role before))),
                         (''permissions'', strs (case keys of Some ks \<Rightarrow> ks | None \<Rightarrow> rv_permissions before))]\<rparr>) (\<lambda>_.
     rbind (toRoleView rid) (\<lambda>v. rret (v, warnings))))))))"

definition deleteRole :: "roles_env \<Rightarrow> string \<Rightarrow> string \<Rightarrow> string \<Rightarrow> unit svc" where
  "deleteRole env pid actor rid =
     rbind (assertCustomRole rid pid) (\<lambda>r.
     rbind (rget (\<lambda>db. list_ex (\<lambda>a. as_roleId a = rid \<and> as_projectId a = pid) (db_assignments db))) (\<lambda>inUse.
     rbind (rreject inUse (AppError Conflict ''Role is assigned and cannot be deleted'' ''ROLE_IN_USE'')) (\<lambda>_.
     let refs = List.map_filter nonempty_id [Some (ro_id r), ro_key r] in
     rbind (rget (\<lambda>db. list_ex (\<lambda>b. bd_projectId b = pid \<and> bd_defaultRole b \<in> set refs) (db_bindings db))) (\<lambda>bound.
     rbind (rreject bound (AppError Conflict ''Role is used by a department binding and cannot be deleted'' ''ROLE_IN_USE'')) (\<lambda>_.
     rbind (rmod (\<lambda>db. db\<lparr>db_roles := update_where (\<lambda>x. ro_id x = rid) (\<lambda>x. x\<lparr>ro_isArchived := True\<rparr>) (db_roles db)\<rparr>)) (\<lambda>_.
     audit \<lparr>ra_projectId = pid, ra_actorUserId = actor, ra_action = ''role.deleted'', ra_entityType = ''role'', ra_entityId = rid,
        ra_before = JUndef, ra_after = JUndef\<rparr>))))))"

definition cloneRole :: "roles_env \<Rightarrow> string \<Rightarrow> string \<Rightarrow> string \<Rightarrow> string \<Rightarrow> role_view svc" where
  "cloneRole env pid actor rid name =
     rbind (rget (find_role rid)) (\<lambda>r.
     case r of
       None \<Rightarrow> rfail (AppError NotFound ''Role not found'' [])
     | Some r \<Rightarrow>
         if ro_scopeId r \<noteq> Some pid then rfail (AppError NotFound ''Role not found'' [])
         else rbind (createRole env pid actor name (role_keys r)) (\<lambda>v. rret (fst v)))"

subsection \<open>Assignments\<close>

definition resolveRoleForAssignment :: "string \<Rightarrow> string \<Rightarrow> role_row svc" where
  "resolveRoleForAssignment pid rid =
     rbind (rget (find_role rid)) (\<lambda>r.
     case r of
       None \<Rightarrow> rfail (AppError NotFound ''Role not found'' [])
     | Some r \<Rightarrow> if ro_isArchived r \<or> ro_scopeType r = ''project'' \<and> ro_scopeId r \<noteq> Some pid
                 then rfail (AppError NotFound ''Role not found'' []) else rret r)"

definition same_assignment :: "string \<Rightarrow> string \<Rightarrow> string \<Rightarrow> string \<Rightarrow> string \<Rightarrow> assignment_row \<Rightarrow> bool" where
  "same_assignment pid st sid rid scope a \<longleftrightarrow>
     as_projectId a = pid \<and> as_subjectType a = st \<and> as_subjectId a = sid \<and> as_roleId a = rid \<and> as_scope a = scope"

definition upsert_assignment :: "assignment_row \<Rightarrow> control_db \<Rightarrow> control_db" where
  "upsert_assignment a db =
     (let same = same_assignment (as_projectId a) (as_subjectType a) (as_subjectId a) (as_roleId a) (as_scope a) in
      db\<lparr>db_assignments := (if list_ex same (db_assignments db)
            then update_where same (\<lambda>x. x\<lparr>as_expiresAt := as_expiresAt a\<rparr>) (db_assignments db)
            else db_assignments db @ [a])\<rparr>)"

definition grantRole :: "roles_env \<Rightarrow> string \<Rightarrow> string \<Rightarrow> string \<Rightarrow> string \<Rightarrow> string \<Rightarrow> string \<Rightarrow> nat option
    \<Rightarrow> (assignment_row option \<times> role_row) svc" where
  "grantRole env pid actor subjectType subjectId rid scope0 expiresAt =
     rbind (rreject (subjectId = []) (AppError Invalid ''subjectId required'' ''INVALID_ARGUMENT'')) (\<lambda>_.
     rbind (resolveRoleForAssignment pid rid) (\<lambda>role.
     let scope = (if scope0 = [] then ''project'' else scope0) in
     rbind (if scope = ''project'' then rret ()
            else let m = (if starts_with scope ''module:'' then drop 7 scope else []) in
              rbind (projectEnabledModules pid) (\<lambda>ms.
              rreject (m = [] \<or> m \<notin> set ms) (AppError Invalid (''Invalid module scope '' @ scope) ''INVALID_MODULE_SCOPE''))) (\<lambda>_.
     rbind (rreject ((subjectType = ''department'' \<or> subjectType = ''unit'') \<and> ro_key role = Some ''owner'')
              (AppError Invalid ''Owner role cannot be assigned to a group'' ''OWNER_NOT_DELEGABLE'')) (\<lambda>_.
     rbind (newEntityId (en_ids env)) (\<lambda>aid.
     rbind (rmod (upsert_assignment \<lparr>as_id = aid, as_projectId = pid, as_subjectType = subjectType, as_subjectId = subjectId,
        as_roleId = rid, as_scope = scope, as_expiresAt = expiresAt, as_createdBy = actor\<rparr>)) (\<lambda>_.
     rbind (audit \<lparr>ra_projectId = pid, ra_actorUserId = actor, ra_action = ''assignment.granted'', ra_entityType = ''role_assignment'',
        ra_entityId = aid, ra_before = JUndef,
        ra_after = JObj [(''roleId'', JStr rid), (''subjectId'', JStr subjectId), (''scope'', JStr scope)]\<rparr>) (\<lambda>_.
     rbind (rget (\<lambda>db. find (same_assignment pid subjectType subjectId rid scope) (db_assignments db))) (\<lambda>created.
     rret (created, role)))))))))"

text \<open>The assignments of a user to an owner role of the project.\<close>

definition owner_role_ids :: "string \<Rightarrow> control_db \<Rightarrow> string list" where
  "owner_role_ids pid db = map ro_id (filter (is_system_role pid Owner) (db_roles db))"

definition owner_assignments :: "string \<Rightarrow> control_db \<Rightarrow> assignment_row list" where
  "owner_assignments pid db =
     filter (\<lambda>a. as_projectId a = pid \<and> as_subjectType a = ''user'' \<and> as_roleId a \<in> set (owner_role_ids pid db)) (db_assignments db)"

definition revokeRole :: "roles_env \<Rightarrow> string \<Rightarrow> string \<Rightarrow> string \<Rightarrow> unit svc" where
  "revokeRole env pid actor aid =
     rbind (rget (\<lambda>db. find (\<lambda>a. as_id a = aid) (db_assignments db))) (\<lambda>a.
     case a of
       None \<Rightarrow> rfail (AppError NotFound ''Assignment not found'' [])
     | Some a \<Rightarrow>
         if as_projectId a \<noteq> pid then rfail (AppError NotFound ''Assignment not found'' [])
         else
           rbind (rget (\<lambda>db. (case find_role (as_roleId a) db of None \<Rightarrow> None | Some r \<Rightarrow> ro_key r) = Some ''owner''
                     \<and> as_subjectType a = ''user'' \<and> length (owner_assignments pid db) \<le> 1)) (\<lambda>last.
           rbind (rreject last (AppError Invalid ''Cannot revoke the last owner'' ''LAST_OWNER'')) (\<lambda>_.
           rbind (rmod (\<lambda>db. db\<lparr>db_assignments := filter (\<lambda>x. \<not> (as_id x = aid \<and> as_projectId x = pid)) (db_assignments db)\<rparr>)) (\<lambda>_.
           audit \<lparr>ra_projectId = pid, ra_actorUserId = actor, ra_action = ''assignment.revoked'', ra_entityType = ''role_assignment'',
             ra_entityId = aid,
             ra_before = JObj [(''roleId'', JStr (as_roleId a)), (''subjectId'', JStr (as_subjectId a)), (''scope'', JStr (as_scope a))],
             ra_after = JUndef\<rparr>))))"

definition listAssignments :: "string \<Rightarrow> string option \<Rightarrow> string option \<Rightarrow> (assignment_row \<times> role_row option) list svc" where
  "listAssignments pid subjectId subjectType =
     rget (\<lambda>db. map (\<lambda>a. (a, find_role (as_roleId a) db))
       (filter (\<lambda>a. as_projectId a = pid
          \<and> (case nonempty_id subjectId of None \<Rightarrow> True | Some x \<Rightarrow> as_subjectId a = x)
          \<and> (case nonempty_id subjectType of None \<Rightarrow> True | Some x \<Rightarrow> as_subjectType a = x)) (db_assignments db)))"

subsection \<open>Addressed grants\<close>

definition PROJECT_GRANT_MODULE :: string where
  "PROJECT_GRANT_MODULE = ''project''"

definition DENY_FORBIDDEN_SUBJECTS :: "string list" where
  "DENY_FORBIDDEN_SUBJECTS = [''roles'', ''project'', ''members'']"

definition GRANTEE_TYPES :: "string list" where
  "GRANTEE_TYPES = [''role'', ''member'', ''department'', ''unit'']"

definition listGrants :: "string \<Rightarrow> grant_row list svc" where
  "listGrants pid = rget (\<lambda>db. filter (\<lambda>g. gr_projectId g = pid) (db_grants db))"

definition same_grant :: "string \<Rightarrow> string \<Rightarrow> string \<Rightarrow> string \<Rightarrow> string \<Rightarrow> grant_row \<Rightarrow> bool" where
  "same_grant pid s a gt gid g \<longleftrightarrow>
     gr_projectId g = pid \<and> gr_subject g = s \<and> gr_action g = a \<and> gr_granteeType g = Some gt \<and> gr_granteeId g = Some gid
     \<and> gr_resource g = ''*''"

text \<open>What is asked for, checked: the subject, the action, the key and the grantee.\<close>

definition check_grant :: "string \<Rightarrow> string \<Rightarrow> string \<Rightarrow> string \<Rightarrow> string \<Rightarrow> string \<Rightarrow> (string \<times> string \<times> string \<times> string) svc" where
  "check_grant pid effect subject0 action0 granteeType granteeId0 =
     rbind (rreject (effect \<noteq> ''deny'' \<and> effect \<noteq> ''allow'') (AppError Invalid ''effect must be allow or deny'' ''INVALID_ARGUMENT'')) (\<lambda>_.
     rbind (rreject (granteeType \<notin> set GRANTEE_TYPES)
              (AppError Invalid (''Unsupported grantee type '' @ granteeType) ''INVALID_GRANTEE_TYPE'')) (\<lambda>_.
     let granteeId = trim granteeId0 in
     rbind (rreject (granteeId = []) (AppError Invalid ''granteeId required (blanket grants are not allowed)'' ''GRANT_GRANTEE_REQUIRED'')) (\<lambda>_.
     rbind (rsome (parsePermissionKey (mk_key subject0 action0))
              (AppError Invalid (''Malformed permission '' @ mk_key subject0 action0) ''ROLE_PERMISSION_NOT_IN_CATALOG'')) (\<lambda>(subject, a).
     let action = normalizeAction a; key = permissionKey subject action in
     rbind (getCatalog pid) (\<lambda>c.
     rbind (rreject (\<not> cat_hasKey c key) (not_in_catalog key)) (\<lambda>_.
     rbind (rreject (\<not> isProjectGrantablePermission key)
              (AppError Access (''Permission '' @ key @ '' cannot be granted in a project'') ''SELF_ESCALATION_DENIED'')) (\<lambda>_.
     rbind (rreject (effect = ''deny'' \<and> subject \<in> set DENY_FORBIDDEN_SUBJECTS)
              (AppError Access (''Deny grants on '' @ subject @ '' are not allowed'') ''GRANT_DENY_FORBIDDEN_SUBJECT'')) (\<lambda>_.
     rret (subject, action, key, granteeId)))))))))"

definition grant_held :: "roles_env \<Rightarrow> string \<Rightarrow> string \<Rightarrow> string \<Rightarrow> string \<Rightarrow> unit svc" where
  "grant_held env pid actor effect key =
     (if effect = ''allow'' then
        rbind (effective env pid actor) (\<lambda>act.
        rreject (self_check act [key] \<noteq> []) (AppError Access ''Cannot grant a permission you do not hold'' ''SELF_ESCALATION_DENIED''))
      else rret ())"

text \<open>The row is updated when there is one, else created; the id and the row before.\<close>

definition write_grant :: "roles_env \<Rightarrow> string \<Rightarrow> string \<Rightarrow> string \<Rightarrow> string \<Rightarrow> string \<Rightarrow> string \<Rightarrow> string \<Rightarrow> (string \<times> grant_row option) svc" where
  "write_grant env pid actor effect subject action granteeType granteeId =
     rbind (rget (\<lambda>db. find (same_grant pid subject action granteeType granteeId) (db_grants db))) (\<lambda>existing.
     case existing of
       Some g \<Rightarrow>
         rbind (rmod (\<lambda>db. db\<lparr>db_grants := update_where (\<lambda>x. gr_id x = gr_id g)
            (\<lambda>x. x\<lparr>gr_effect := effect, gr_moduleId := PROJECT_GRANT_MODULE, gr_createdBy := actor\<rparr>) (db_grants db)\<rparr>)) (\<lambda>_.
         rret (gr_id g, existing))
     | None \<Rightarrow>
         rbind (newEntityId (en_ids env)) (\<lambda>gid.
         rbind (rmod (\<lambda>db. db\<lparr>db_grants := db_grants db @ [\<lparr>gr_id = gid, gr_projectId = pid, gr_moduleId = PROJECT_GRANT_MODULE,
            gr_effect = effect, gr_subject = subject, gr_action = action, gr_resource = ''*'', gr_granteeType = Some granteeType,
            gr_granteeId = Some granteeId, gr_createdBy = actor\<rparr>]\<rparr>)) (\<lambda>_.
         rret (gid, existing))))"

definition upsertGrant :: "roles_env \<Rightarrow> string \<Rightarrow> string \<Rightarrow> string \<Rightarrow> string \<Rightarrow> string \<Rightarrow> string \<Rightarrow> string \<Rightarrow> grant_row option svc" where
  "upsertGrant env pid actor effect subject0 action0 granteeType granteeId0 =
     rbind (check_grant pid effect subject0 action0 granteeType granteeId0) (\<lambda>(subject, action, key, granteeId).
     rbind (grant_held env pid actor effect key) (\<lambda>_.
     rbind (write_grant env pid actor effect subject action granteeType granteeId) (\<lambda>(gid, existing).
     rbind (audit \<lparr>ra_projectId = pid, ra_actorUserId = actor,
        ra_action = (case existing of Some _ \<Rightarrow> ''grant.updated'' | None \<Rightarrow> ''grant.created''),
        ra_entityType = ''permission_grant'', ra_entityId = gid,
        ra_before = (case existing of Some g \<Rightarrow> JObj [(''effect'', JStr (gr_effect g)), (''key'', JStr key)] | None \<Rightarrow> JUndef),
        ra_after = JObj [(''effect'', JStr effect), (''key'', JStr key), (''granteeType'', JStr granteeType), (''granteeId'', JStr granteeId)]\<rparr>) (\<lambda>_.
     rget (\<lambda>db. find (\<lambda>g. gr_id g = gid) (db_grants db))))))"

definition deleteGrant :: "roles_env \<Rightarrow> string \<Rightarrow> string \<Rightarrow> string \<Rightarrow> unit svc" where
  "deleteGrant env pid actor gid =
     rbind (rget (\<lambda>db. find (\<lambda>g. gr_id g = gid) (db_grants db))) (\<lambda>g.
     case g of
       None \<Rightarrow> rfail (AppError NotFound ''Grant not found'' [])
     | Some g \<Rightarrow>
         if gr_projectId g \<noteq> pid then rfail (AppError NotFound ''Grant not found'' [])
         else
           rbind (rmod (\<lambda>db. db\<lparr>db_grants := filter (\<lambda>x. \<not> (gr_id x = gid \<and> gr_projectId x = pid)) (db_grants db)\<rparr>)) (\<lambda>_.
           audit \<lparr>ra_projectId = pid, ra_actorUserId = actor, ra_action = ''grant.deleted'', ra_entityType = ''permission_grant'',
             ra_entityId = gid,
             ra_before = JObj [(''effect'', JStr (gr_effect g)), (''subject'', JStr (gr_subject g)), (''action'', JStr (gr_action g)),
               (''granteeType'', case gr_granteeType g of None \<Rightarrow> JNull | Some x \<Rightarrow> JStr x),
               (''granteeId'', case gr_granteeId g of None \<Rightarrow> JNull | Some x \<Rightarrow> JStr x)],
             ra_after = JUndef\<rparr>))"

end
