(* ===== verification/RolesUnits.thy ===== *)
theory RolesUnits
  imports RolesStore
begin

text \<open>
  The units a user belongs to: the breadth-first walk of the roles service against its specification,
  membership in a unit or in a unit that contains it as a group, all inside one project.
\<close>

definition live_unit :: "string \<Rightarrow> control_db \<Rightarrow> string \<Rightarrow> bool" where
  "live_unit pid db u \<longleftrightarrow> (\<exists>r \<in> set (project_units pid db). un_id r = u)"

inductive effective_unit :: "string \<Rightarrow> string \<Rightarrow> control_db \<Rightarrow> string \<Rightarrow> bool" for pid uid db where
  direct: "m \<in> set (db_unitMembers db) \<Longrightarrow> um_memberType m = ''user'' \<Longrightarrow> um_memberId m = uid \<Longrightarrow> live_unit pid db (um_unitId m)
    \<Longrightarrow> effective_unit pid uid db (um_unitId m)"
| group: "effective_unit pid uid db u \<Longrightarrow> m \<in> set (db_unitMembers db) \<Longrightarrow> um_memberType m = ''group'' \<Longrightarrow> um_memberId m = u
    \<Longrightarrow> live_unit pid db (um_unitId m) \<Longrightarrow> effective_unit pid uid db (um_unitId m)"

subsection \<open>The walk\<close>

text \<open>What a walk may collect: the nodes in scope it starts from, and the parents in scope of what it collects.\<close>

inductive above :: "(string \<Rightarrow> bool) \<Rightarrow> (string \<Rightarrow> string list) \<Rightarrow> string set \<Rightarrow> string \<Rightarrow> bool" for S P seeds where
  seed: "x \<in> seeds \<Longrightarrow> S x \<Longrightarrow> above S P seeds x"
| parent: "above S P seeds x \<Longrightarrow> p \<in> set (P x) \<Longrightarrow> S p \<Longrightarrow> above S P seeds p"

lemma unit_walk_sound:
  assumes "\<And>x. x \<in> set e \<Longrightarrow> above S P A x" "\<And>x. x \<in> set q \<Longrightarrow> S x \<Longrightarrow> above S P A x"
  shows "x \<in> set (unit_walk S P n q e) \<Longrightarrow> above S P A x"
  using assms
proof (induction S P n q e rule: unit_walk.induct)
  case (3 S P n y q e)
  show ?case
  proof (cases "y \<in> set e \<or> \<not> S y")
    case True
    with 3 show ?thesis by simp
  next
    case False
    then have y: "above S P A y" using "3.prems"(3) [of y] by simp
    have "above S P A x"
    proof (rule "3.IH"(2) [OF False refl])
      show "x \<in> set (unit_walk S P n (q @ filter (\<lambda>p. p \<notin> set (e @ [y])) (P y)) (e @ [y]))"
        using "3.prems"(1) False by (simp add: Let_def)
    qed (use "3.prems" y above.parent [OF y] in auto)
    then show ?thesis .
  qed
qed auto

lemma unit_walk_distinct: "distinct e \<Longrightarrow> distinct (unit_walk S P n q e)"
  by (induction S P n q e rule: unit_walk.induct) (auto simp: Let_def)

lemma unit_walk_keeps: "set e \<subseteq> set (unit_walk S P n q e)"
proof (induction S P n q e rule: unit_walk.induct)
  case (3 S P n y q e)
  then show ?case by (auto simp: Let_def)
qed auto

text \<open>Iterations still needed at most: the queue, and the parents of what is not collected yet.\<close>

lemma unit_walk_complete:
  assumes "finite U" "\<And>x. S x \<longleftrightarrow> x \<in> U" "length q + (\<Sum>u \<in> U - set e. length (P u)) \<le> n"
    and "\<And>x p. x \<in> set e \<Longrightarrow> p \<in> set (P x) \<Longrightarrow> S p \<Longrightarrow> p \<in> set e \<union> set q"
    and "\<And>x. x \<in> A \<Longrightarrow> S x \<Longrightarrow> x \<in> set e \<union> set q" "above S P A x"
  shows "x \<in> set (unit_walk S P n q e)"
  using assms(2-)
proof (induction S P n q e rule: unit_walk.induct)
  case (1 S P q e)
  then have "q = []" by simp
  from "1.prems"(5) show ?case
    by (induction rule: above.induct) (use "1.prems"(3,4) \<open>q = []\<close> in auto)
next
  case (2 S P n e)
  from "2.prems"(5) show ?case
    by (induction rule: above.induct) (use "2.prems"(3,4) in auto)
next
  case (3 S P n y q e)
  show ?case
  proof (cases "y \<in> set e \<or> \<not> S y")
    case True
    then have "x \<in> set (unit_walk S P n q e)"
      by (intro "3.IH"(1)) (use "3.prems" in auto)
    with True show ?thesis by simp
  next
    case False
    let ?e = "e @ [y]" and ?q = "q @ filter (\<lambda>p. p \<notin> set (e @ [y])) (P y)"
    have "y \<in> U - set e" using False "3.prems"(1) by simp
    moreover have "U - set e - {y} = U - set ?e" by auto
    ultimately have "(\<Sum>u \<in> U - set e. length (P u)) = length (P y) + (\<Sum>u \<in> U - set ?e. length (P u))"
      using assms(1) sum.remove [of "U - set e" y "\<lambda>u. length (P u)"] by simp
    moreover have "length ?q \<le> length q + length (P y)" by (simp only: length_append length_filter_le add_le_mono le_refl)
    ultimately have "length ?q + (\<Sum>u \<in> U - set ?e. length (P u)) \<le> n"
      using "3.prems"(2) [unfolded length_Cons] by linarith
    then have "x \<in> set (unit_walk S P n ?q ?e)"
      by (intro "3.IH"(2) [OF False refl]) (use "3.prems" in auto)
    with False show ?thesis by (simp add: Let_def)
  qed
qed

text \<open>Each row is a parent edge of one unit or a direct membership of the user, or neither.\<close>

lemma parent_rows:
  "finite U \<Longrightarrow> length (direct_units ms uid) + (\<Sum>u \<in> U. length (parents_of ms u)) \<le> length ms"
proof (induction ms)
  case (Cons m ms)
  let ?d = "um_memberType m = ''group''"
  have "(\<Sum>u \<in> U. length (parents_of (m # ms) u))
      = (\<Sum>u \<in> U. length (parents_of ms u)) + (\<Sum>u \<in> U. if ?d \<and> um_memberId m = u then 1 else 0)"
    unfolding sum.distrib [symmetric] by (intro sum.cong) (simp_all add: parents_of_def)
  moreover have "(\<Sum>u \<in> U. if ?d \<and> um_memberId m = u then 1 else (0::nat)) \<le> (if ?d then 1 else 0)"
    using Cons.prems by (simp add: sum.delta)
  moreover have "length (direct_units (m # ms) uid) \<le> length (direct_units ms uid) + (if ?d then 0 else 1)"
    by (simp add: direct_units_def)
  ultimately show ?case using Cons by (simp split: if_splits)
qed (simp add: direct_units_def parents_of_def)

lemma above_effective:
  assumes "us = project_units pid db" "ms = units_members us db"
  shows "above (\<lambda>x. x \<in> set (map un_id us)) (parents_of ms) (set (direct_units ms uid)) x \<longleftrightarrow> effective_unit pid uid db x"
proof -
  have live: "live_unit pid db u \<longleftrightarrow> u \<in> set (map un_id us)" for u
    by (auto simp: live_unit_def assms)
  have dr: "u \<in> set (direct_units ms uid) \<longleftrightarrow>
      (\<exists>m \<in> set (db_unitMembers db). um_memberType m = ''user'' \<and> um_memberId m = uid \<and> um_unitId m = u \<and> live_unit pid db u)" for u
    by (auto simp: direct_units_def assms(2) units_members_def live)
  have pr: "p \<in> set (parents_of ms u) \<longleftrightarrow>
      (\<exists>m \<in> set (db_unitMembers db). um_memberType m = ''group'' \<and> um_memberId m = u \<and> um_unitId m = p \<and> live_unit pid db p)" for u p
    by (auto simp: parents_of_def assms(2) units_members_def live)
  show ?thesis
    unfolding live [symmetric]
  proof
    assume "above (live_unit pid db) (parents_of ms) (set (direct_units ms uid)) x"
    then show "effective_unit pid uid db x"
    proof induction
      case (seed x)
      with dr effective_unit.direct show ?case by metis
    next
      case (parent x p)
      then obtain m where "m \<in> set (db_unitMembers db)" "um_memberType m = ''group''" "um_memberId m = x"
          "um_unitId m = p" "live_unit pid db p" using pr by blast
      with effective_unit.group [OF parent.IH, of m] show ?case by simp
    qed
  next
    assume "effective_unit pid uid db x"
    then show "above (live_unit pid db) (parents_of ms) (set (direct_units ms uid)) x"
    proof induction
      case (direct m)
      then show ?case by (intro above.seed) (use dr in blast)+
    next
      case (group u m)
      then show ?case by (intro above.parent [OF group.IH]) (use pr in blast)+
    qed
  qed
qed

text \<open>C10: The units of a user are exactly the project's own. The walk over the unit tables stays inside the
  project and inside what membership allows: it returns, without duplicates, only live units of the
  project that the user belongs to, directly or through a group they contain; and it returns all of
  them, cycles included, as long as the project has at most 21 member rows per unit (and two more),
  which is what its step limit is computed from.\<close>

theorem user_units_exact:
  "distinct (userUnitIds pid uid db)
   \<and> (\<forall>u \<in> set (userUnitIds pid uid db). effective_unit pid uid db u)
   \<and> (length (units_members (project_units pid db) db) \<le> 21 * length (project_units pid db) + 2
      \<longrightarrow> set (userUnitIds pid uid db) = {u. effective_unit pid uid db u})"
proof (cases "project_units pid db = []")
  case True
  have "\<not> effective_unit pid uid db u" for u
  proof
    assume "effective_unit pid uid db u"
    then show False by cases (auto simp: live_unit_def True)
  qed
  with True show ?thesis by (simp add: userUnitIds_def)
next
  case False
  let ?us = "project_units pid db"
  let ?ms = "units_members ?us db"
  let ?S = "\<lambda>x. x \<in> set (map un_id ?us)" and ?A = "set (direct_units ?ms uid)"
  have run: "userUnitIds pid uid db = unit_walk ?S (parents_of ?ms) (length ?us * 21 + 2) (direct_units ?ms uid) []"
    using False by (simp add: userUnitIds_def Let_def MAX_GROUP_DEPTH_def)
  have dist: "distinct (userUnitIds pid uid db)" unfolding run by (rule unit_walk_distinct) simp
  have sound: "effective_unit pid uid db u" if "u \<in> set (userUnitIds pid uid db)" for u
    using unit_walk_sound [of "[]" ?S "parents_of ?ms" ?A "direct_units ?ms uid" u] that above_effective [OF refl refl, where x = u]
    unfolding run by (simp add: above.seed)
  have "u \<in> set (userUnitIds pid uid db)" if "length ?ms \<le> 21 * length ?us + 2" "effective_unit pid uid db u" for u
    unfolding run
  proof (rule unit_walk_complete [of "set (map un_id ?us)"])
    show "length (direct_units ?ms uid) + (\<Sum>u \<in> set (map un_id ?us) - set []. length (parents_of ?ms u)) \<le> length ?us * 21 + 2"
      using parent_rows [of "set (map un_id ?us)" ?ms uid] that(1) by simp
    show "above ?S (parents_of ?ms) ?A u" using above_effective [OF refl refl] that(2) by blast
  qed simp_all
  with dist sound show ?thesis by blast
qed

end
