(* ===== verification/RolesRights.thy ===== *)
theory RolesRights
  imports RolesUnits
begin

text \<open>
  What the requests of the roles service may do to anybody's rights: the seed of the system roles is
  idempotent, and custom roles and addressed grants hand out nothing their author does not hold.
\<close>

subsection \<open>Requests that succeed\<close>

named_theorems svc_simps

lemma rbind_Inr [svc_simps]: "rbind m f db = (Inr y, db') \<longleftrightarrow> (\<exists>x db1. m db = (Inr x, db1) \<and> f x db1 = (Inr y, db'))"
  by (auto simp: rbind_def split: prod.splits sum.splits)

lemma rret_Inr [svc_simps]: "rret x db = (Inr y, db') \<longleftrightarrow> y = x \<and> db' = db"
  by (auto simp: rret_def)

lemma rfail_Inr [svc_simps]: "rfail e db = (Inr y, db') \<longleftrightarrow> False"
  by (simp add: rfail_def)

lemma rget_Inr [svc_simps]: "rget f db = (Inr y, db') \<longleftrightarrow> y = f db \<and> db' = db"
  by (auto simp: rget_def)

lemma rmod_Inr [svc_simps]: "rmod f db = (Inr y, db') \<longleftrightarrow> db' = f db"
  by (auto simp: rmod_def)

lemma rreject_Inr [svc_simps]: "rreject b e db = (Inr y, db') \<longleftrightarrow> \<not> b \<and> db' = db"
  by (simp add: rreject_def rret_Inr rfail_Inr)

lemma rsome_Inr [svc_simps]: "rsome x e db = (Inr y, db') \<longleftrightarrow> x = Some y \<and> db' = db"
  by (auto simp: rsome_def rret_Inr rfail_Inr split: option.split)

lemma newEntityId_Inr [svc_simps]: "newEntityId ids db = (Inr y, db') \<longleftrightarrow> y = ids (db_next db) \<and> db' = db\<lparr>db_next := db_next db + 1\<rparr>"
  by (auto simp: newEntityId_def)

lemma audit_Inr [svc_simps]: "audit a db = (Inr y, db') \<longleftrightarrow> db' = db\<lparr>db_audit := db_audit db @ [a]\<rparr>"
  by (simp add: audit_def rmod_Inr)

lemma rget_app [svc_simps]: "rbind (rget g) f db = f (g db) db"
  by (simp add: rbind_def rget_def)

subsection \<open>The seed\<close>

text \<open>The tables the seed does not touch.\<close>

definition same_but_roles :: "control_db \<Rightarrow> control_db \<Rightarrow> bool" where
  "same_but_roles db db' \<longleftrightarrow>
     db_projects db' = db_projects db \<and> db_members db' = db_members db \<and> db_employees db' = db_employees db
     \<and> db_units db' = db_units db \<and> db_unitMembers db' = db_unitMembers db \<and> db_bindings db' = db_bindings db
     \<and> db_assignments db' = db_assignments db \<and> db_grants db' = db_grants db \<and> db_audit db' = db_audit db"

lemma same_but_roles_refl [simp]: "same_but_roles db db"
  by (simp add: same_but_roles_def)

lemma same_but_roles_trans: "same_but_roles db db' \<Longrightarrow> same_but_roles db' db'' \<Longrightarrow> same_but_roles db db''"
  by (simp add: same_but_roles_def)

lemma sync_role_same: "sync_role ids pid c key db = (Inr rid, db') \<Longrightarrow> same_but_roles db db' \<and> db_roleSync db' = db_roleSync db"
  by (auto simp: sync_role_def Let_def svc_simps same_but_roles_def split: option.splits)

lemma sync_roles_same:
  "sync_roles ids pid c keys db = (Inr byKey, db') \<Longrightarrow> same_but_roles db db' \<and> db_roleSync db' = db_roleSync db"
proof (induction keys arbitrary: db byKey)
  case (Cons key keys)
  then obtain rid db1 where 1: "sync_role ids pid c key db = (Inr rid, db1)" "\<exists>k. sync_roles ids pid c keys db1 = (Inr k, db')"
    by (auto simp: svc_simps)
  with Cons.IH sync_role_same [OF 1(1)] same_but_roles_trans show ?case by metis
qed (simp add: svc_simps)

lemma sync_role_total: "\<exists>rid db'. sync_role ids pid c key db = (Inr rid, db')"
  by (auto simp: sync_role_def Let_def svc_simps split: option.split)

lemma sync_roles_total: "\<exists>byKey db'. sync_roles ids pid c keys db = (Inr byKey, db')"
proof (induction keys arbitrary: db)
  case (Cons key keys)
  obtain rid db1 where 1: "sync_role ids pid c key db = (Inr rid, db1)" using sync_role_total by blast
  obtain k db' where "sync_roles ids pid c keys db1 = (Inr k, db')" using Cons.IH by blast
  with 1 show ?case by (auto simp: svc_simps)
qed (simp add: svc_simps)

lemma ensure_total: "\<exists>byKey db'. ensureSystemRoles ids ttl now pid c db = (Inr byKey, db')"
  using sync_roles_total [of ids pid c SYSTEM_PROJECT_ROLE_KEYS db]
  by (auto simp: ensureSystemRoles_def store_sync_def svc_simps)

lemma ensure_cases:
  assumes "ensureSystemRoles ids ttl now pid c db = (Inr byKey, db')"
  obtains (current) "sync_current ttl now c (map_of (db_roleSync db) pid)" "db' = db"
  | (synced) db1 where "sync_roles ids pid c SYSTEM_PROJECT_ROLE_KEYS db = (Inr byKey, db1)"
      "db' = (if ttl > 0 then db1\<lparr>db_roleSync := AList.update pid (sync_signature c, byKey, now + ttl) (db_roleSync db1)\<rparr> else db1)"
proof (cases "sync_current ttl now c (map_of (db_roleSync db) pid)")
  case True
  with assms have "db' = db" by (simp add: ensureSystemRoles_def rget_app rret_Inr)
  with True show ?thesis by (rule current)
next
  case False
  then have "\<exists>db1. sync_roles ids pid c SYSTEM_PROJECT_ROLE_KEYS db = (Inr byKey, db1)
      \<and> store_sync ttl now pid c byKey db1 = (Inr (), db')"
    using assms by (simp add: ensureSystemRoles_def rget_app rbind_Inr rret_Inr)
  with synced show ?thesis unfolding store_sync_def rmod_Inr by blast
qed

lemma ensure_same:
  assumes "ensureSystemRoles ids ttl now pid c db = (Inr byKey, db')"
  shows "same_but_roles db db'" and "ttl > 0 \<Longrightarrow> sync_current ttl now c (map_of (db_roleSync db') pid)"
proof -
  show "same_but_roles db db'"
    using assms
  proof (cases rule: ensure_cases)
    case current
    then show ?thesis by simp
  next
    case (synced db1)
    with sync_roles_same [OF synced(1)] show ?thesis by (simp add: same_but_roles_def)
  qed
  show "sync_current ttl now c (map_of (db_roleSync db') pid)" if "ttl > 0"
    using assms
  proof (cases rule: ensure_cases)
    case (synced db1)
    with that show ?thesis by (simp add: sync_current_def update_conv')
  qed simp
qed

lemma ensure_current: "sync_current ttl now c (map_of (db_roleSync db) pid) \<Longrightarrow> ensureSystemRoles ids ttl now pid c db = (Inr (fst (snd (the (map_of (db_roleSync db) pid)))), db)"
  by (simp add: ensureSystemRoles_def svc_simps rret_def)

definition project_catalog :: "string \<Rightarrow> control_db \<Rightarrow> catalog option" where
  "project_catalog pid db = map_option (\<lambda>p. buildProjectCatalogWithSystem (effectiveModules p)) (find_project pid db)"

lemma getCatalog_Inr [svc_simps]: "getCatalog pid db = (Inr c, db') \<longleftrightarrow> project_catalog pid db = Some c \<and> db' = db"
  by (auto simp: getCatalog_def projectEnabledModules_def svc_simps project_catalog_def)

lemma catalog_same: "same_but_roles db db' \<Longrightarrow> project_catalog pid db' = project_catalog pid db"
  by (simp add: project_catalog_def find_project_def same_but_roles_def)

text \<open>What resolving a user's rights returns and leaves behind.\<close>

lemma resolve_Inr:
  "resolveEffective ids ttl now pid uid db = (Inr r, db') \<longleftrightarrow>
     (\<exists>c byKey. project_catalog pid db = Some c \<and> ensureSystemRoles ids ttl now pid c db = (Inr byKey, db')
        \<and> r = resolved_of now pid uid c db')"
  by (auto simp: resolveEffective_def svc_simps)

subsection \<open>The requests of the service\<close>

datatype role_request =
    CreateRole string "string list"
  | UpdateRole string "string option" "string list option"
  | DeleteRole string
  | CloneRole string string
  | GrantRole string string string string "nat option"
  | RevokeRole string
  | UpsertGrant string string string string string
  | DeleteGrant string

definition outcome :: "'a svc \<Rightarrow> unit svc" where
  "outcome m = rbind m (\<lambda>_. rret ())"

fun exec :: "roles_env \<Rightarrow> string \<Rightarrow> string \<Rightarrow> role_request \<Rightarrow> unit svc" where
  "exec env pid actor (CreateRole name ps) = outcome (createRole env pid actor name ps)"
| "exec env pid actor (UpdateRole rid name ps) = outcome (updateRole env pid actor rid name ps)"
| "exec env pid actor (DeleteRole rid) = deleteRole env pid actor rid"
| "exec env pid actor (CloneRole rid name) = outcome (cloneRole env pid actor rid name)"
| "exec env pid actor (GrantRole st sid rid scope ends) = outcome (grantRole env pid actor st sid rid scope ends)"
| "exec env pid actor (RevokeRole aid) = revokeRole env pid actor aid"
| "exec env pid actor (UpsertGrant eff s a gt gid) = outcome (upsertGrant env pid actor eff s a gt gid)"
| "exec env pid actor (DeleteGrant gid) = deleteGrant env pid actor gid"

text \<open>The system roles of the project are seeded and their memo is fresh, as after any resolution of rights.\<close>

definition seeded :: "roles_env \<Rightarrow> string \<Rightarrow> control_db \<Rightarrow> bool" where
  "seeded env pid db \<longleftrightarrow>
     (case project_catalog pid db of None \<Rightarrow> False
      | Some c \<Rightarrow> sync_current (en_ttl env) (en_now env) c (map_of (db_roleSync db) pid))"

lemma resolve_seeds: "effective env pid uid db = (Inr r, db') \<Longrightarrow> en_ttl env > 0 \<Longrightarrow> seeded env pid db'"
  using ensure_same catalog_same by (fastforce simp: resolve_Inr seeded_def)

lemma effective_seeded:
  assumes "seeded env pid db" "project_catalog pid db = Some c"
  shows "effective env pid uid db = (Inr r, db') \<longleftrightarrow> r = resolved_of (en_now env) pid uid c db \<and> db' = db"
  using assms ensure_current [of "en_ttl env" "en_now env" c db pid "en_ids env"] by (auto simp: resolve_Inr seeded_def)

text \<open>Primary and foreign keys.\<close>

definition tables_ok :: "control_db \<Rightarrow> bool" where
  "tables_ok db \<longleftrightarrow> distinct (map gr_id (db_grants db)) \<and> (\<forall>a \<in> set (db_assignments db). find_role (as_roleId a) db \<noteq> None)"

subsection \<open>Whose rights a request changes\<close>

text \<open>The keys some role or grant gives the user, and those a grant denies him.\<close>

definition granted :: "nat \<Rightarrow> string \<Rightarrow> string \<Rightarrow> catalog \<Rightarrow> control_db \<Rightarrow> string \<Rightarrow> bool" where
  "granted now pid uid c db k \<longleftrightarrow> (case effective_inputs now pid uid c db of (rs, gs) \<Rightarrow> key_granted rs gs k)"

definition denied :: "nat \<Rightarrow> string \<Rightarrow> string \<Rightarrow> catalog \<Rightarrow> control_db \<Rightarrow> string \<Rightarrow> bool" where
  "denied now pid uid c db k \<longleftrightarrow> (case effective_inputs now pid uid c db of (rs, gs) \<Rightarrow> key_denied gs k)"

lemma allow_iff:
  "k \<in> set (ef_allow (rs_effective (resolved_of now pid uid c db))) \<longleftrightarrow>
     k \<in> set (cat_keys c) \<and> isProjectGrantablePermission k \<and> granted now pid uid c db k \<and> \<not> denied now pid uid c db k"
  by (simp add: resolved_of_def granted_def denied_def effective_allow_iff case_prod_beta)

lemma deny_iff:
  "k \<in> set (ef_deny (rs_effective (resolved_of now pid uid c db))) \<longleftrightarrow> k \<in> set (cat_keys c) \<and> denied now pid uid c db k"
  by (simp add: resolved_of_def denied_def effective_deny_iff case_prod_beta)

text \<open>A key passes the check against self-escalation when the actor is an owner or holds it.\<close>

lemma self_check_ok: "self_check a ks = [] \<longleftrightarrow> rs_role a = ''owner''
    \<or> (\<forall>k \<in> set ks. k \<in> set (ef_allow (rs_effective a)) \<and> k \<notin> set (ef_deny (rs_effective a)))"
  by (auto simp: self_check_def checkNoSelfEscalation_def filter_empty_conv)

text \<open>Inputs depend on the tables that are read only.\<close>

definition same_people :: "control_db \<Rightarrow> control_db \<Rightarrow> bool" where
  "same_people db db' \<longleftrightarrow>
     db_projects db' = db_projects db \<and> db_members db' = db_members db \<and> db_employees db' = db_employees db
     \<and> db_units db' = db_units db \<and> db_unitMembers db' = db_unitMembers db \<and> db_roleSync db' = db_roleSync db"

lemma same_people_reads:
  assumes "same_people db db'"
  shows "project_catalog pid db' = project_catalog pid db" "userDepartmentIds pid uid db' = userDepartmentIds pid uid db"
    "userUnitIds pid uid db' = userUnitIds pid uid db" "baselineKey pid uid db' = baselineKey pid uid db"
    "seeded env pid db' = seeded env pid db"
proof -
  show pc: "project_catalog pid db' = project_catalog pid db" using assms by (simp add: project_catalog_def find_project_def same_people_def)
  show "seeded env pid db' = seeded env pid db" unfolding seeded_def pc using assms by (simp add: same_people_def cong: option.case_cong)
qed (use assms in \<open>simp_all add: userDepartmentIds_def userUnitIds_def project_units_def units_members_def baselineKey_def
     find_project_def same_people_def Let_def cong: option.case_cong\<close>)

text \<open>Keys that passed validation.\<close>

lemma normalize_idem [simp]: "normalizeAction (normalizeAction a) = normalizeAction a"
  by (simp add: normalizeAction_def ACTION_SYNONYMS_def)

lemma normalize_plain: "a \<noteq> [] \<Longrightarrow> CHR '':'' \<notin> set a \<Longrightarrow> normalizeAction a \<noteq> [] \<and> CHR '':'' \<notin> set (normalizeAction a)"
  by (simp add: normalizeAction_def ACTION_SYNONYMS_def)

definition valid_key :: "catalog \<Rightarrow> string \<Rightarrow> bool" where
  "valid_key c k \<longleftrightarrow> cat_hasKey c k \<and> isProjectGrantablePermission k
     \<and> (\<exists>s a. parsePermissionKey k = Some (s, normalizeAction a))"

lemma check_key_valid:
  assumes "check_key c raw = Inr k" shows "valid_key c k"
proof -
  obtain s a where p: "parsePermissionKey raw = Some (s, a)" "k = permissionKey s (normalizeAction a)"
      "cat_hasKey c k" "isProjectGrantablePermission k"
    using assms by (auto simp: check_key_def Let_def split: option.splits if_splits)
  then have "parsePermissionKey k = Some (s, normalizeAction a)"
    using normalize_plain by (simp add: parse_key_iff)
  with p show ?thesis by (auto simp: valid_key_def)
qed

lemma valid_key_back: "valid_key c k \<Longrightarrow> parsePermissionKey k = Some (s, a) \<Longrightarrow> permissionKey s (normalizeAction a) = k"
  by (auto simp: valid_key_def parse_key_iff)

lemma parsed_back:
  assumes "\<forall>k \<in> set ks. valid_key c k"
  shows "set (map (\<lambda>(s, a). permissionKey s (normalizeAction a)) (parsed_keys ks)) \<subseteq> set ks"
  using assms valid_key_back by (induction ks) (auto simp: parsed_keys_def map_filter_simps split: option.splits)

lemma smap_valid: "smap (check_key c) raws = Inr ks \<Longrightarrow> \<forall>k \<in> set ks. valid_key c k"
proof (induction raws arbitrary: ks)
  case (Cons raw raws)
  then obtain k ks' where "check_key c raw = Inr k" "smap (check_key c) raws = Inr ks'" "ks = k # ks'"
    by (auto simp: sbind_Inr)
  with Cons.IH check_key_valid show ?case by auto
qed simp

lemma validate_Inr:
  assumes "seeded env pid db" "validateRolePermissions env pid actor raws db = (Inr ks, db')"
  obtains c a where "db' = db" "project_catalog pid db = Some c" "a = resolved_of (en_now env) pid actor c db"
    "self_check a ks = []" "\<forall>k \<in> set ks. valid_key c k"
proof -
  from assms(2) obtain c keys a where v: "project_catalog pid db = Some c" "smap (check_key c) raws = Inr keys"
      "effective env pid actor db = (Inr a, db')" "self_check a (js_set_of keys) = []" "ks = js_sort (js_set_of keys)"
    by (auto simp: validateRolePermissions_def svc_simps Let_def)
  have "a = resolved_of (en_now env) pid actor c db" "db' = db" using v(3) effective_seeded [OF assms(1) v(1)] by blast+
  moreover have "self_check a ks = []" using v(4) by (simp add: v(5) self_check_ok)
  ultimately show thesis using that v(1,5) smap_valid [OF v(2)] by simp
qed

subsection \<open>Edits of roles\<close>

text \<open>Role tables in which every assigned role has the same key, and its keys come from \<open>K\<close> or from before.\<close>

definition roles_within :: "string set \<Rightarrow> control_db \<Rightarrow> control_db \<Rightarrow> bool" where
  "roles_within K db db' \<longleftrightarrow>
     (\<forall>a \<in> set (db_assignments db). \<exists>r r'. find_role (as_roleId a) db = Some r \<and> find_role (as_roleId a) db' = Some r'
        \<and> ro_key r' = ro_key r \<and> set (role_keys r') \<subseteq> set (role_keys r) \<union> K)"

lemma map_filter_pairs: "list_all2 Q (List.map_filter f xs) (List.map_filter g xs)"
  if "\<And>x. x \<in> set xs \<Longrightarrow> rel_option Q (f x) (g x)"
  using that
proof (induction xs)
  case (Cons x xs)
  then have "rel_option Q (f x) (g x)" "list_all2 Q (List.map_filter f xs) (List.map_filter g xs)" by simp_all
  then show ?case by (cases "f x"; cases "g x") (simp_all add: map_filter_simps)
qed (simp add: map_filter_simps)

lemma active_within:
  assumes "roles_within K db db'" "same_people db db'" "db_assignments db' = db_assignments db"
  shows "list_all2 (\<lambda>(a, r) (a', r'). a' = a \<and> ro_key r' = ro_key r \<and> set (role_keys r') \<subseteq> set (role_keys r) \<union> K)
    (active_assignments now pid uid db) (active_assignments now pid uid db')"
  unfolding active_assignments_def same_people_reads [OF assms(2)] assms(3)
proof (rule map_filter_pairs)
  fix a
  assume "a \<in> set (filter (\<lambda>a. case as_expiresAt a of None \<Rightarrow> True | Some t \<Rightarrow> now < t)
       (filter (addresses_user pid uid (userDepartmentIds pid uid db) (userUnitIds pid uid db)) (db_assignments db)))"
  then have "a \<in> set (db_assignments db)" by auto
  with assms(1) obtain r r' where "find_role (as_roleId a) db = Some r" "find_role (as_roleId a) db' = Some r'"
      "ro_key r' = ro_key r" "set (role_keys r') \<subseteq> set (role_keys r) \<union> K"
    unfolding roles_within_def by blast
  then show "rel_option (\<lambda>(a, r) (a', r'). a' = a \<and> ro_key r' = ro_key r \<and> set (role_keys r') \<subseteq> set (role_keys r) \<union> K)
      (map_option (Pair a) (find_role (as_roleId a) db)) (map_option (Pair a) (find_role (as_roleId a) db'))"
    by simp
qed

lemma list_all2_map_eq: "list_all2 Q xs ys \<Longrightarrow> (\<And>x y. Q x y \<Longrightarrow> f x = g y) \<Longrightarrow> map f xs = map g ys"
  by (induction rule: list_all2_induct) auto

lemma active_keys:
  assumes "roles_within K db db'" "same_people db db'" "db_assignments db' = db_assignments db"
  shows "map (ro_key \<circ> snd) (active_assignments now pid uid db') = map (ro_key \<circ> snd) (active_assignments now pid uid db)"
  by (rule list_all2_map_eq [OF active_within [OF assms], symmetric]) auto

lemma reaches_by_keys:
  fixes xs ys :: "('a \<times> role_row) list"
  shows "map (ro_key \<circ> snd) xs = map (ro_key \<circ> snd) ys \<Longrightarrow> grant_reaches uid ds us (map snd xs) g = grant_reaches uid ds us (map snd ys) g"
proof -
  assume keys: "map (ro_key \<circ> snd) xs = map (ro_key \<circ> snd) ys"
  have mem: "(\<exists>r \<in> set (map snd zs). ro_key r = x) \<longleftrightarrow> x \<in> set (map (ro_key \<circ> snd) zs)" for zs :: "('a \<times> role_row) list" and x
    by auto
  show ?thesis unfolding grant_reaches_def Let_def mem keys ..
qed

lemma edit_rights:
  assumes within: "roles_within K db db'" and people: "same_people db db'" and as: "db_assignments db' = db_assignments db"
    and gr: "db_grants db' = db_grants db"
  shows "granted now pid uid c db' k \<Longrightarrow> granted now pid uid c db k \<or> k \<in> K"
    and "denied now pid uid c db' k = denied now pid uid c db k"
    and "rs_role (resolved_of now pid uid c db') = rs_role (resolved_of now pid uid c db)"
proof -
  note act = active_within [OF within people as, of now pid uid] and keys = active_keys [OF within people as, of now pid uid]
  have grants: "snd (effective_inputs now pid uid c db') = snd (effective_inputs now pid uid c db)"
    unfolding effective_inputs_def Let_def snd_conv same_people_reads [OF people] gr
    by (simp only: reaches_by_keys [OF keys])
  then show "denied now pid uid c db' k = denied now pid uid c db k" by (simp add: denied_def case_prod_beta)
  show "rs_role (resolved_of now pid uid c db') = rs_role (resolved_of now pid uid c db)"
    by (simp add: resolved_of_def case_prod_beta Let_def keys same_people_reads [OF people])
  have role: "(\<exists>role \<in> set (fst (effective_inputs now pid uid c db)). k \<in> set (ri_keys role) \<and> in_module_scope role k) \<or> k \<in> K"
    if r: "role' \<in> set (fst (effective_inputs now pid uid c db'))" "k \<in> set (ri_keys role')" "in_module_scope role' k" for role'
  proof -
    from r(1) consider a r' where "(a, r') \<in> set (active_assignments now pid uid db')" "role' = assignment_input (a, r')"
      | b where "baselineKey pid uid db = Some b" "role' = baseline_input c b"
      by (cases "baselineKey pid uid db") (auto simp: effective_inputs_def Let_def same_people_reads [OF people])
    then show ?thesis
    proof cases
      case 1
      from 1(1) act obtain r0 where r0: "(a, r0) \<in> set (active_assignments now pid uid db)" "set (role_keys r') \<subseteq> set (role_keys r0) \<union> K"
        by (force simp: list_all2_conv_all_nth in_set_conv_nth)
      have "ri_keys role' = role_keys r'" "in_module_scope role' k = in_module_scope (assignment_input (a, r0)) k"
        by (simp_all add: 1(2) assignment_input_def in_module_scope_def)
      moreover have "assignment_input (a, r0) \<in> set (fst (effective_inputs now pid uid c db))"
        using r0(1) by (simp add: effective_inputs_def Let_def)
      moreover have "ri_keys (assignment_input (a, r0)) = role_keys r0" by (simp add: assignment_input_def)
      ultimately show ?thesis using r(2,3) r0(2) by (metis UnE subsetD)
    next
      case 2
      then have "role' \<in> set (fst (effective_inputs now pid uid c db))" by (simp add: effective_inputs_def Let_def)
      with r show ?thesis by blast
    qed
  qed
  show "granted now pid uid c db' k \<Longrightarrow> granted now pid uid c db k \<or> k \<in> K"
    using role unfolding granted_def key_granted_def case_prod_beta grants by blast
qed

text \<open>Grant tables that differ in rows of one key only.\<close>

lemma grant_rights:
  assumes "same_people db db'" "db_assignments db' = db_assignments db" "db_roles db' = db_roles db"
    and "\<And>g. g \<in> set (db_grants db') \<Longrightarrow> g \<in> set (db_grants db) \<or> gi_key (grant_input_of g) = key"
    and "\<And>g. g \<in> set (db_grants db) \<Longrightarrow> g \<in> set (db_grants db') \<or> gi_key (grant_input_of g) = key"
    and "k \<noteq> key"
  shows "granted now pid uid c db' k = granted now pid uid c db k" "denied now pid uid c db' k = denied now pid uid c db k"
proof -
  have act: "active_assignments now pid uid db' = active_assignments now pid uid db"
    unfolding active_assignments_def find_role_def same_people_reads [OF assms(1)] assms(2,3) ..
  have roles: "fst (effective_inputs now pid uid c db') = fst (effective_inputs now pid uid c db)"
    unfolding effective_inputs_def Let_def fst_conv act same_people_reads [OF assms(1)] ..
  have "g \<in> set (snd (effective_inputs now pid uid c db')) \<longleftrightarrow> g \<in> set (snd (effective_inputs now pid uid c db))"
    if "gi_key g = k" for g
    using assms(4-6) that unfolding effective_inputs_def Let_def snd_conv act same_people_reads [OF assms(1)] by auto
  then show "granted now pid uid c db' k = granted now pid uid c db k" "denied now pid uid c db' k = denied now pid uid c db k"
    unfolding granted_def denied_def key_granted_def key_denied_def case_prod_beta roles by blast+
qed

subsection \<open>What each request leaves\<close>

lemma find_role_append: "find_role rid db \<noteq> None \<Longrightarrow> find (\<lambda>r. ro_id r = rid) (db_roles db @ rs) = find_role rid db"
proof -
  have "find P (xs @ ys) = (case find P xs of None \<Rightarrow> find P ys | Some x \<Rightarrow> Some x)" for P and xs ys :: "role_row list"
    by (induction xs) auto
  then show "find_role rid db \<noteq> None \<Longrightarrow> ?thesis" by (auto simp: find_role_def)
qed

lemma find_update: "(\<And>x. P (f x) = P x) \<Longrightarrow> find P (update_where Q f xs) = map_option (\<lambda>x. if Q x then f x else x) (find P xs)"
  by (induction xs) (auto simp: update_where_def)

lemma toRoleView_Inr [svc_simps]: "toRoleView rid db = (Inr v, db') \<longleftrightarrow> (\<exists>r. find_role rid db = Some r \<and> v = mapRole r) \<and> db' = db"
  by (auto simp: toRoleView_def svc_simps)

lemma assertCustomRole_Inr [svc_simps]:
  "assertCustomRole rid pid db = (Inr r, db') \<longleftrightarrow> find_role rid db = Some r \<and> ro_scopeId r = Some pid \<and> ro_scopeType r = ''project''
     \<and> ro_kind r \<noteq> ''system'' \<and> db' = db"
  by (auto simp: assertCustomRole_def svc_simps split: option.splits)

text \<open>Only the roles table (and the audit log) changes.\<close>

definition roles_only :: "control_db \<Rightarrow> control_db \<Rightarrow> bool" where
  "roles_only db db' \<longleftrightarrow> same_people db db' \<and> db_assignments db' = db_assignments db \<and> db_grants db' = db_grants db"

lemma create_within:
  assumes "seeded env pid db" "tables_ok db" "createRole env pid actor name ps db = (Inr x, db')"
  shows "roles_within {} db db' \<and> roles_only db db'"
proof -
  from assms(3) obtain ks d where v: "validateRolePermissions env pid actor ps db = (Inr ks, d)"
    and rest: "\<exists>r. db_roles db' = db_roles d @ [r]" "same_people d db'" "db_assignments db' = db_assignments d" "db_grants db' = db_grants d"
    by (auto simp: createRole_def svc_simps same_people_def)
  have "d = db" using validate_Inr [OF assms(1) v] by metis
  moreover have "roles_within {} db db'"
    using rest(1) assms(2) find_role_append unfolding roles_within_def tables_ok_def \<open>d = db\<close> find_role_def by fastforce
  ultimately show ?thesis using rest by (simp add: roles_only_def)
qed

lemma find_role_updated:
  "db_roles db' = update_where (\<lambda>x. ro_id x = rid) f (db_roles db) \<Longrightarrow> (\<And>x. ro_id (f x) = ro_id x) \<Longrightarrow>
   find_role i db' = map_option (\<lambda>x. if ro_id x = rid then f x else x) (find_role i db)"
  by (simp add: find_role_def find_update)

lemma role_keys_simps [simp]:
  "role_keys (r\<lparr>ro_name := n\<rparr>) = role_keys r" "role_keys (r\<lparr>ro_isArchived := b\<rparr>) = role_keys r"
  by (simp_all add: role_keys_def)

lemma within_update:
  assumes "db_roles db' = update_where (\<lambda>x. ro_id x = rid) f (db_roles db)" "db_assignments db' = db_assignments db" "tables_ok db"
    and "\<And>x. ro_id (f x) = ro_id x \<and> ro_key (f x) = ro_key x \<and> set (role_keys (f x)) \<subseteq> set (role_keys x) \<union> K"
  shows "roles_within K db db'"
  unfolding roles_within_def
proof
  fix a
  assume "a \<in> set (db_assignments db)"
  then obtain r where "find_role (as_roleId a) db = Some r" using assms(3) unfolding tables_ok_def by blast
  with find_role_updated [OF assms(1)] assms(4)
  have "find_role (as_roleId a) db' = Some (if ro_id r = rid then f r else r)" by simp
  then show "\<exists>r r'. find_role (as_roleId a) db = Some r \<and> find_role (as_roleId a) db' = Some r' \<and> ro_key r' = ro_key r
      \<and> set (role_keys r') \<subseteq> set (role_keys r) \<union> K"
    using \<open>find_role (as_roleId a) db = Some r\<close> assms(4) [of r] by (cases "ro_id r = rid") auto
qed

lemma within_refl: "tables_ok db \<Longrightarrow> db_roles db' = db_roles db \<Longrightarrow> db_assignments db' = db_assignments db \<Longrightarrow> roles_within {} db db'"
  unfolding roles_within_def tables_ok_def find_role_def by fastforce

lemma within_trans:
  assumes "roles_within K db d" "roles_within K' d db'" "db_assignments d = db_assignments db"
  shows "roles_within (K \<union> K') db db'"
  unfolding roles_within_def
proof
  fix a
  assume a: "a \<in> set (db_assignments db)"
  then obtain r r1 where 1: "find_role (as_roleId a) db = Some r" "find_role (as_roleId a) d = Some r1"
      "ro_key r1 = ro_key r" "set (role_keys r1) \<subseteq> set (role_keys r) \<union> K"
    using assms(1) unfolding roles_within_def by blast
  from a obtain r2 where "find_role (as_roleId a) db' = Some r2" "ro_key r2 = ro_key r1" "set (role_keys r2) \<subseteq> set (role_keys r1) \<union> K'"
    using assms(2,3) 1(2) unfolding roles_within_def by fastforce
  with 1 show "\<exists>r r'. find_role (as_roleId a) db = Some r \<and> find_role (as_roleId a) db' = Some r' \<and> ro_key r' = ro_key r
      \<and> set (role_keys r') \<subseteq> set (role_keys r) \<union> (K \<union> K')" by fastforce
qed

lemma delete_within:
  assumes "tables_ok db" "deleteRole env pid actor rid db = (Inr x, db')"
  shows "roles_within {} db db' \<and> roles_only db db'"
proof -
  from assms(2) have r: "db_roles db' = update_where (\<lambda>x. ro_id x = rid) (\<lambda>x. x\<lparr>ro_isArchived := True\<rparr>) (db_roles db)"
    and rest: "roles_only db db'"
    by (auto simp: deleteRole_def svc_simps Let_def same_people_def roles_only_def)
  with within_update [OF r _ assms(1)] show ?thesis by (simp add: roles_only_def)
qed

lemma rename_within:
  assumes "tables_ok db" "rename_role pid rid n db = (Inr x, db')"
  shows "roles_within {} db db' \<and> roles_only db db' \<and> tables_ok db'"
proof (cases n)
  case None
  with assms show ?thesis by (simp add: rename_role_def svc_simps within_refl roles_only_def same_people_def)
next
  case (Some m)
  with assms(2) have r: "db_roles db' = update_where (\<lambda>x. ro_id x = rid) (\<lambda>x. x\<lparr>ro_name := m\<rparr>) (db_roles db)"
    and rest: "roles_only db db'"
    by (auto simp: rename_role_def svc_simps same_people_def roles_only_def)
  have "tables_ok db'" using assms(1) rest find_role_updated [OF r] by (simp add: tables_ok_def roles_only_def)
  with within_update [OF r _ assms(1)] rest show ?thesis by (simp add: roles_only_def)
qed

lemma replace_within:
  assumes "tables_ok db" "replace_keys rid keys db = (Inr x, db')" "case keys of None \<Rightarrow> True | Some ks \<Rightarrow> \<forall>k \<in> set ks. valid_key c k"
  shows "roles_within (case keys of None \<Rightarrow> {} | Some ks \<Rightarrow> set ks) db db' \<and> roles_only db db'"
proof (cases keys)
  case None
  with assms show ?thesis by (simp add: replace_keys_def svc_simps within_refl roles_only_def same_people_def)
next
  case (Some ks)
  with assms(2) have r: "db_roles db' = update_where (\<lambda>x. ro_id x = rid) (\<lambda>x. x\<lparr>ro_permissions := parsed_keys ks\<rparr>) (db_roles db)"
    and rest: "roles_only db db'"
    by (auto simp: replace_keys_def svc_simps same_people_def roles_only_def)
  have "set (role_keys (y\<lparr>ro_permissions := parsed_keys ks\<rparr>)) \<subseteq> set ks" for y
    using parsed_back assms(3) Some by (simp add: role_keys_def)
  with within_update [OF r _ assms(1)] rest Some show ?thesis by (simp add: roles_only_def le_supI2)
qed

lemma audited [simp]:
  "roles_within K db (d\<lparr>db_audit := as\<rparr>) = roles_within K db d" "roles_only db (d\<lparr>db_audit := as\<rparr>) = roles_only db d"
  by (simp_all add: roles_within_def roles_only_def same_people_def find_role_def)

lemma roles_only_trans: "roles_only db d \<Longrightarrow> roles_only d db' \<Longrightarrow> roles_only db db'"
  by (simp add: roles_only_def same_people_def)

lemma optional_Inr:
  assumes "seeded env pid db" "optional_keys env pid actor ps db = (Inr keys, d)"
  shows "d = db \<and> (case keys of None \<Rightarrow> True
     | Some ks \<Rightarrow> \<exists>c. project_catalog pid db = Some c \<and> self_check (resolved_of (en_now env) pid actor c db) ks = [] \<and> (\<forall>k \<in> set ks. valid_key c k))"
proof (cases ps)
  case None
  with assms(2) show ?thesis by (simp add: optional_keys_def svc_simps)
next
  case (Some qs)
  with assms(2) obtain ks where "validateRolePermissions env pid actor qs db = (Inr ks, d)" "keys = Some ks"
    by (auto simp: optional_keys_def svc_simps)
  moreover from validate_Inr [OF assms(1) this(1)] obtain c where "d = db" "project_catalog pid db = Some c"
    "self_check (resolved_of (en_now env) pid actor c db) ks = []" "\<forall>k \<in> set ks. valid_key c k" by metis
  ultimately show ?thesis by simp
qed

lemma update_within:
  assumes "seeded env pid db" "tables_ok db" "updateRole env pid actor rid name ps db = (Inr x, db')"
  obtains keys where "roles_within (case keys of None \<Rightarrow> {} | Some ks \<Rightarrow> set ks) db db'" "roles_only db db'"
    "case keys of None \<Rightarrow> True
     | Some ks \<Rightarrow> \<exists>c. project_catalog pid db = Some c \<and> self_check (resolved_of (en_now env) pid actor c db) ks = []"
proof -
  from assms(3) obtain keys d n d1 d2 as where
    1: "optional_keys env pid actor ps db = (Inr keys, d)" and 2: "rename_role pid rid n d = (Inr (), d1)"
    and 3: "replace_keys rid keys d1 = (Inr (), d2)" and 4: "db' = d2\<lparr>db_audit := as\<rparr>"
    by (auto simp: updateRole_def svc_simps Let_def)
  note opt = optional_Inr [OF assms(1) 1]
  then have "d = db" ..
  note ren = rename_within [OF assms(2) 2 [unfolded \<open>d = db\<close>]]
  obtain c where "case keys of None \<Rightarrow> True | Some ks \<Rightarrow> \<forall>k \<in> set ks. valid_key c k"
    using opt by (cases keys) auto
  note rep = replace_within [OF _ 3 this]
  have "roles_within ({} \<union> (case keys of None \<Rightarrow> {} | Some ks \<Rightarrow> set ks)) db db'" "roles_only db db'"
    using within_trans [of "{}" db d1 _ d2] roles_only_trans [of db d1 d2] ren rep unfolding 4 audited by (auto simp: roles_only_def)
  moreover have "case keys of None \<Rightarrow> True
     | Some ks \<Rightarrow> \<exists>c. project_catalog pid db = Some c \<and> self_check (resolved_of (en_now env) pid actor c db) ks = []"
    using opt by (auto split: option.splits)
  ultimately show thesis using that [of keys] by simp
qed

lemma check_grant_Inr:
  assumes "check_grant pid effect s0 a0 gt gid0 db = (Inr (s, a, key, gid), db')"
  shows "db' = db \<and> (\<exists>c. project_catalog pid db = Some c \<and> valid_key c key) \<and> key = permissionKey s a \<and> normalizeAction a = a"
proof -
  obtain a' c where p: "parsePermissionKey (mk_key s0 a0) = Some (s, a')" "a = normalizeAction a'" "key = permissionKey s a"
      "project_catalog pid db = Some c" "cat_hasKey c key" "isProjectGrantablePermission key" "db' = db"
    using assms by (auto simp: check_grant_def svc_simps Let_def)
  then have "parsePermissionKey key = Some (s, normalizeAction a')" using normalize_plain unfolding parse_key_iff by simp
  with p show ?thesis by (auto simp: valid_key_def)
qed

text \<open>Writing a grant touches rows of its key only.\<close>

lemma write_grant_Inr:
  assumes "write_grant env pid actor effect s a gt gid db = (Inr x, db')" "tables_ok db" "normalizeAction a = a"
  shows "same_people db db' \<and> db_assignments db' = db_assignments db \<and> db_roles db' = db_roles db"
    and "g \<in> set (db_grants db') \<Longrightarrow> g \<in> set (db_grants db) \<or> gi_key (grant_input_of g) = permissionKey s a"
    and "g \<in> set (db_grants db) \<Longrightarrow> g \<in> set (db_grants db') \<or> gi_key (grant_input_of g) = permissionKey s a"
proof -
  let ?P = "same_grant pid s a gt gid"
  show "same_people db db' \<and> db_assignments db' = db_assignments db \<and> db_roles db' = db_roles db"
    using assms(1) by (auto simp: write_grant_def svc_simps same_people_def split: option.splits)
  have key: "gi_key (grant_input_of g) = permissionKey s a" if "gr_subject g = s" "gr_action g = a" for g
    using that assms(3) by (simp add: grant_input_of_def)
  have rows: "(g \<in> set (db_grants db') \<longrightarrow> g \<in> set (db_grants db) \<or> gi_key (grant_input_of g) = permissionKey s a)
      \<and> (g \<in> set (db_grants db) \<longrightarrow> g \<in> set (db_grants db') \<or> gi_key (grant_input_of g) = permissionKey s a)" for g
  proof (cases "find ?P (db_grants db)")
    case None
    with assms(1) obtain r where "db_grants db' = db_grants db @ [r]" "gr_subject r = s" "gr_action r = a"
      by (auto simp: write_grant_def svc_simps)
    with key show ?thesis by auto
  next
    case (Some e)
    then have e: "e \<in> set (db_grants db)" "?P e" by (auto simp: find_Some_iff)
    with assms(1) Some have gs: "db_grants db' = update_where (\<lambda>x. gr_id x = gr_id e)
        (\<lambda>x. x\<lparr>gr_effect := effect, gr_moduleId := PROJECT_GRANT_MODULE, gr_createdBy := actor\<rparr>) (db_grants db)"
      by (auto simp: write_grant_def svc_simps)
    have same: "y = e" if "y \<in> set (db_grants db)" "gr_id y = gr_id e" for y
      using assms(2) e(1) that by (auto simp: tables_ok_def distinct_map dest: inj_onD)
    show ?thesis
    proof (intro conjI impI)
      assume "g \<in> set (db_grants db')"
      then obtain y where y: "y \<in> set (db_grants db)"
          "g = (if gr_id y = gr_id e then y\<lparr>gr_effect := effect, gr_moduleId := PROJECT_GRANT_MODULE, gr_createdBy := actor\<rparr> else y)"
        by (auto simp: gs update_where_def)
      show "g \<in> set (db_grants db) \<or> gi_key (grant_input_of g) = permissionKey s a"
      proof (cases "gr_id y = gr_id e")
        case True
        then have "y = e" by (rule same [OF y(1)])
        with y(2) e(2) have "gr_subject g = s" "gr_action g = a" by (simp_all add: same_grant_def)
        with key show ?thesis by blast
      next
        case False
        with y show ?thesis by simp
      qed
    next
      assume g: "g \<in> set (db_grants db)"
      show "g \<in> set (db_grants db') \<or> gi_key (grant_input_of g) = permissionKey s a"
      proof (cases "gr_id g = gr_id e")
        case True
        with same [OF g] e(2) have "gr_subject g = s" "gr_action g = a" by (simp_all add: same_grant_def)
        with key show ?thesis by blast
      next
        case False
        with g show ?thesis by (force simp: gs update_where_def)
      qed
    qed
  qed
  then show "g \<in> set (db_grants db') \<Longrightarrow> g \<in> set (db_grants db) \<or> gi_key (grant_input_of g) = permissionKey s a"
    "g \<in> set (db_grants db) \<Longrightarrow> g \<in> set (db_grants db') \<or> gi_key (grant_input_of g) = permissionKey s a" by blast+
qed

lemma grant_held_Inr:
  assumes "seeded env pid db" "grant_held env pid actor ''allow'' key db = (Inr x, db')"
  shows "db' = db \<and> (\<exists>c. project_catalog pid db = Some c \<and> self_check (resolved_of (en_now env) pid actor c db) [key] = [])"
proof -
  obtain c where c: "project_catalog pid db = Some c" using assms(1) by (auto simp: seeded_def split: option.splits)
  from assms(2) show ?thesis by (auto simp: grant_held_def svc_simps effective_seeded [OF assms(1) c] c)
qed

subsection \<open>Nobody gains what the author does not hold\<close>

fun hands_out :: "role_request \<Rightarrow> bool" where
  "hands_out (CreateRole _ _) = True"
| "hands_out (UpdateRole _ _ _) = True"
| "hands_out (DeleteRole _) = True"
| "hands_out (CloneRole _ _) = True"
| "hands_out (UpsertGrant eff _ _ _ _) = (eff = ''allow'')"
| "hands_out _ = False"

lemma same_people_audit [simp]: "same_people db (d\<lparr>db_audit := as\<rparr>) = same_people db d"
  by (simp add: same_people_def)

text \<open>A role edit changes role rows within keys the actor may hand out.\<close>

lemma edit_outcome:
  assumes "seeded env pid db" "tables_ok db" "exec env pid actor req db = (Inr x, db')" "hands_out req" "\<forall>s a gt gid e. req \<noteq> UpsertGrant e s a gt gid"
  obtains ks where "roles_within (set ks) db db'" "roles_only db db'"
    "ks = [] \<or> (\<exists>c. project_catalog pid db = Some c \<and> self_check (resolved_of (en_now env) pid actor c db) ks = [])"
proof (cases req)
  case (CreateRole name ps)
  with assms(3) obtain y where "createRole env pid actor name ps db = (Inr y, db')" by (auto simp: outcome_def svc_simps)
  from create_within [OF assms(1,2) this] that [of "[]"] show thesis by simp
next
  case (UpdateRole rid name ps)
  with assms(3) obtain y where "updateRole env pid actor rid name ps db = (Inr y, db')" by (auto simp: outcome_def svc_simps)
  then show thesis
  proof (rule update_within [OF assms(1,2)])
    fix keys
    assume k: "roles_within (case keys of None \<Rightarrow> {} | Some ks \<Rightarrow> set ks) db db'" "roles_only db db'"
      "case keys of None \<Rightarrow> True
       | Some ks \<Rightarrow> \<exists>c. project_catalog pid db = Some c \<and> self_check (resolved_of (en_now env) pid actor c db) ks = []"
    show thesis
    proof (cases keys)
      case None
      with k that [of "[]"] show thesis by simp
    next
      case (Some ks)
      with k that [of ks] show thesis by simp
    qed
  qed
next
  case (DeleteRole rid)
  with assms(3) delete_within [OF assms(2)] that [of "[]"] show thesis by auto
next
  case (CloneRole rid name)
  with assms(3) obtain ps y where "createRole env pid actor name ps db = (Inr y, db')"
    by (auto simp: outcome_def cloneRole_def svc_simps split: option.splits if_splits)
  from create_within [OF assms(1,2) this] that [of "[]"] show thesis by simp
qed (use assms(4,5) in auto)

text \<open>C8: Nobody can hand out more than he holds by editing roles and grants. When a user creates, clones, updates or
  archives a role or adds an allow grant, every permission anybody holds afterwards is one he held
  before, or one the author held himself, unless the author is an owner of the project.\<close>

theorem role_edits_never_escalate:
  assumes "seeded env pid db" "tables_ok db" "exec env pid actor req db = (Inr x, db')" "hands_out req"
    and "effective env pid u db = (Inr before, d1)" "effective env pid actor db = (Inr author, d2)"
    and "effective env pid u db' = (Inr after, d3)" "k \<in> set (ef_allow (rs_effective after))"
  shows "k \<in> set (ef_allow (rs_effective before)) \<or> k \<in> set (ef_allow (rs_effective author)) \<or> rs_role author = ''owner''"
proof -
  let ?now = "en_now env"
  obtain c where c: "project_catalog pid db = Some c" using assms(1) by (auto simp: seeded_def split: option.splits)
  have before: "before = resolved_of ?now pid u c db" and author: "author = resolved_of ?now pid actor c db"
    using assms(5,6) effective_seeded [OF assms(1) c] by blast+
  have after: "after = resolved_of ?now pid u c db'" if "same_people db db'"
  proof -
    have "seeded env pid db'" "project_catalog pid db' = Some c" using same_people_reads(1,5) [OF that] assms(1) c by simp_all
    from effective_seeded [OF this] assms(7) show ?thesis by blast
  qed
  show ?thesis
  proof (cases "\<exists>s a gt gid e. req = UpsertGrant e s a gt gid")
    case False
    then obtain ks where ks: "roles_within (set ks) db db'" "roles_only db db'"
        "ks = [] \<or> self_check author ks = []"
      using edit_outcome [OF assms(1-4)] c author by (metis option.inject)
    then have same: "same_people db db'" "db_assignments db' = db_assignments db" "db_grants db' = db_grants db"
      by (simp_all add: roles_only_def)
    note rights = edit_rights(1,2) [OF ks(1) same, of ?now pid u c k]
    from assms(8) have "k \<in> set (cat_keys c) \<and> isProjectGrantablePermission k \<and> granted ?now pid u c db' k \<and> \<not> denied ?now pid u c db' k"
      unfolding after [OF same(1)] allow_iff .
    with rights have "k \<in> set (ef_allow (rs_effective before)) \<or> k \<in> set ks" unfolding before allow_iff by blast
    with ks(3) show ?thesis by (auto simp: self_check_ok)
  next
    case True
    then obtain s a gt gid where req: "req = UpsertGrant ''allow'' s a gt gid" using assms(4) by auto
    then obtain s' a' key g' y1 db1 y2 db2 y3 db3 as where run: "check_grant pid ''allow'' s a gt gid db = (Inr (s', a', key, g'), db1)"
        "grant_held env pid actor ''allow'' key db1 = (Inr y2, db2)"
        "write_grant env pid actor ''allow'' s' a' gt g' db2 = (Inr y3, db3)" "db' = db3\<lparr>db_audit := as\<rparr>"
      using assms(3) by (auto simp: upsertGrant_def outcome_def svc_simps split: prod.splits)
    from check_grant_Inr [OF run(1)] have 1: "db1 = db" "key = permissionKey s' a'" "normalizeAction a' = a'" by blast+
    note held = grant_held_Inr [OF assms(1) run(2) [unfolded 1(1)]]
    then have "db2 = db" ..
    note wr = write_grant_Inr [OF run(3) [unfolded this] assms(2) 1(3)]
    have same: "same_people db db'" "db_assignments db' = db_assignments db" "db_roles db' = db_roles db" using wr(1) run(4) by simp_all
    have rows: "db_grants db' = db_grants db3" using run(4) by simp
    show ?thesis
    proof (cases "k = key")
      case True
      with held c author show ?thesis by (auto simp: self_check_ok)
    next
      case False
      from grant_rights [OF same _ _ False, of ?now pid u c] wr(2,3) rows 1(2)
      have "granted ?now pid u c db' k = granted ?now pid u c db k" "denied ?now pid u c db' k = denied ?now pid u c db k" by simp_all
      then have "k \<in> set (ef_allow (rs_effective before))" using assms(8) unfolding after [OF same(1)] before allow_iff by simp
      then show ?thesis by simp
    qed
  qed
qed

end
