(* ===== verification/RolesOwner.thy ===== *)
theory RolesOwner
  imports RolesRights
begin

text \<open>
  Ownership of a project: an owner assignment always remains, whatever requests are made in whatever
  order; yet the assignment of roles is not checked against what its author holds.
\<close>

subsection \<open>The last owner\<close>

definition ids_ok :: "(nat \<Rightarrow> string) \<Rightarrow> control_db \<Rightarrow> bool" where
  "ids_ok ids db \<longleftrightarrow>
     distinct (map ro_id (db_roles db)) \<and> distinct (map as_id (db_assignments db))
     \<and> (\<forall>n \<ge> db_next db. ids n \<notin> set (map ro_id (db_roles db)) \<and> ids n \<notin> set (map as_id (db_assignments db)))"

definition owned :: "(nat \<Rightarrow> string) \<Rightarrow> string \<Rightarrow> control_db \<Rightarrow> bool" where
  "owned ids pid db \<longleftrightarrow> ids_ok ids db \<and> owner_assignments pid db \<noteq> []"

text \<open>Requests that keep a condition, whether they succeed or fail.\<close>

definition keeps :: "(control_db \<Rightarrow> bool) \<Rightarrow> 'a svc \<Rightarrow> ('a \<Rightarrow> control_db \<Rightarrow> bool) \<Rightarrow> bool" where
  "keeps P m Q \<longleftrightarrow> (\<forall>db. P db \<longrightarrow> P (snd (m db)) \<and> (case fst (m db) of Inl e \<Rightarrow> True | Inr x \<Rightarrow> Q x (snd (m db))))"

abbreviation always :: "'a \<Rightarrow> control_db \<Rightarrow> bool" where
  "always \<equiv> (\<lambda>_ _. True)"

named_theorems keeps_intro

lemma keepsD: "keeps P m Q \<Longrightarrow> P db \<Longrightarrow> P (snd (m db))"
  by (simp add: keeps_def)

lemma keeps_bind_post:
  assumes "keeps P m Q" "\<And>x db. Q x db \<Longrightarrow> P db \<Longrightarrow> P (snd (f x db))"
  shows "keeps P (rbind m f) always"
  unfolding keeps_def
proof (intro allI impI)
  fix db
  assume "P db"
  obtain r db1 where m: "m db = (r, db1)" by force
  have "P db1" "case r of Inl e \<Rightarrow> True | Inr x \<Rightarrow> Q x db1" using assms(1) [unfolded keeps_def, rule_format, OF \<open>P db\<close>] unfolding m fst_conv snd_conv by blast+
  then show "P (snd (rbind m f db)) \<and> (case fst (rbind m f db) of Inl e \<Rightarrow> True | Inr x \<Rightarrow> True)"
    using assms(2) by (auto simp: rbind_def m split: sum.split)
qed

lemma keeps_bind [keeps_intro]: "keeps P m always \<Longrightarrow> (\<And>x. keeps P (f x) always) \<Longrightarrow> keeps P (rbind m f) always"
  by (rule keeps_bind_post [where Q = always]) (auto dest: keepsD)

lemma keeps_ret [keeps_intro]: "keeps P (rret x) always" "keeps P (rfail e) always" "keeps P (rget f) always"
    "keeps P (rreject b e) always" "keeps P (rsome y e) always"
  by (simp_all add: keeps_def rret_def rfail_def rget_def rreject_def rsome_def split: option.split)

lemma keeps_mod: "(\<And>db. P db \<Longrightarrow> P (f db)) \<Longrightarrow> keeps P (rmod f) always"
  by (simp add: keeps_def rmod_def)

lemma keeps_if [keeps_intro]: "keeps P m always \<Longrightarrow> keeps P m' always \<Longrightarrow> keeps P (if b then m else m') always"
  by simp

lemma keeps_option [keeps_intro]:
  "keeps P m always \<Longrightarrow> (\<And>x. keeps P (f x) always) \<Longrightarrow> keeps P (case y of None \<Rightarrow> m | Some x \<Rightarrow> f x) always"
  by (cases y) simp_all

lemma keeps_pair [keeps_intro]: "(\<And>x y. keeps P (f x y) always) \<Longrightarrow> keeps P (case p of (x, y) \<Rightarrow> f x y) always"
  by (cases p) simp

text \<open>What ownership depends on.\<close>

definition same_roles :: "role_row list \<Rightarrow> role_row list \<Rightarrow> bool" where
  "same_roles rs rs' \<longleftrightarrow> map (\<lambda>r. (ro_id r, ro_scopeType r, ro_scopeId r, ro_key r)) rs' = map (\<lambda>r. (ro_id r, ro_scopeType r, ro_scopeId r, ro_key r)) rs"

lemma owner_ids_map:
  "owner_role_ids pid db = map fst (filter (\<lambda>(i, st, si, k). st = ''project'' \<and> si = Some pid \<and> k = Some ''owner'')
     (map (\<lambda>r. (ro_id r, ro_scopeType r, ro_scopeId r, ro_key r)) (db_roles db)))"
  by (simp add: owner_role_ids_def is_system_role_def [abs_def] filter_map comp_def)

lemma owned_same:
  assumes "owned ids pid db" "same_roles (db_roles db) (db_roles db')" "db_next db' = db_next db"
    and "map (\<lambda>a. a\<lparr>as_expiresAt := None\<rparr>) (db_assignments db') = map (\<lambda>a. a\<lparr>as_expiresAt := None\<rparr>) (db_assignments db)"
  shows "owned ids pid db'"
proof -
  have ids: "map ro_id (db_roles db') = map ro_id (db_roles db)"
    using arg_cong [OF assms(2) [unfolded same_roles_def], of "map fst"] by (simp add: comp_def)
  have aids: "map as_id (db_assignments db') = map as_id (db_assignments db)"
    using arg_cong [OF assms(4), of "map as_id"] by (simp add: comp_def)
  have own: "owner_role_ids pid db' = owner_role_ids pid db"
    using assms(2) by (simp add: owner_ids_map same_roles_def)
  have strip: "owner_assignments pid d = [] \<longleftrightarrow> filter (\<lambda>a. as_projectId a = pid \<and> as_subjectType a = ''user'' \<and> as_roleId a \<in> set (owner_role_ids pid d))
      (map (\<lambda>a. a\<lparr>as_expiresAt := None\<rparr>) (db_assignments d)) = []" for d
    by (simp add: owner_assignments_def filter_map comp_def)
  have "owner_assignments pid db' = [] \<longleftrightarrow> owner_assignments pid db = []" unfolding strip own assms(4) ..
  then show ?thesis using assms(1) unfolding owned_def ids_ok_def ids aids assms(3) by blast
qed

lemma owned_other [keeps_intro]:
  "(\<And>db. db_roles (f db) = db_roles db \<and> db_assignments (f db) = db_assignments db \<and> db_next (f db) = db_next db)
     \<Longrightarrow> keeps (owned ids pid) (rmod f) always"
  by (rule keeps_mod) (erule owned_same, simp_all add: same_roles_def)

lemma same_roles_update: "(\<And>x. ro_id (f x) = ro_id x \<and> ro_scopeType (f x) = ro_scopeType x \<and> ro_scopeId (f x) = ro_scopeId x \<and> ro_key (f x) = ro_key x)
    \<Longrightarrow> same_roles rs (update_where P f rs)"
  by (simp add: same_roles_def update_where_def)

lemma owned_role_update [keeps_intro]:
  "(\<And>x. ro_id (f x) = ro_id x \<and> ro_scopeType (f x) = ro_scopeType x \<and> ro_scopeId (f x) = ro_scopeId x \<and> ro_key (f x) = ro_key x)
   \<Longrightarrow> keeps (owned ids pid) (rmod (\<lambda>db. db\<lparr>db_roles := update_where P f (db_roles db)\<rparr>)) always"
  by (rule keeps_mod) (erule owned_same, simp_all add: same_roles_update)

text \<open>A new id is the id of no row, and stays so until it is used.\<close>

definition unused :: "string \<Rightarrow> control_db \<Rightarrow> bool" where
  "unused i db \<longleftrightarrow> i \<notin> set (map ro_id (db_roles db)) \<and> i \<notin> set (map as_id (db_assignments db))"

lemma owned_new_id:
  assumes "inj ids" shows "keeps (owned ids pid) (newEntityId ids) (\<lambda>i db. unused i db \<and> (\<forall>n \<ge> db_next db. ids n \<noteq> i))"
  unfolding keeps_def
proof (intro allI impI)
  fix db
  assume "owned ids pid db"
  moreover have "ids n \<noteq> ids (db_next db)" if "n \<ge> db_next db + 1" for n using assms that by (auto dest: injD)
  ultimately show "owned ids pid (snd (newEntityId ids db)) \<and> (case fst (newEntityId ids db) of Inl e \<Rightarrow> True
      | Inr i \<Rightarrow> unused i (snd (newEntityId ids db)) \<and> (\<forall>n \<ge> db_next (snd (newEntityId ids db)). ids n \<noteq> i))"
    by (simp add: newEntityId_def owned_def ids_ok_def unused_def owner_assignments_def owner_role_ids_def)
qed

lemma owned_new_role:
  assumes "owned ids pid db" "unused (ro_id r) db" "\<forall>n \<ge> db_next db. ids n \<noteq> ro_id r"
  shows "owned ids pid (db\<lparr>db_roles := db_roles db @ [r]\<rparr>)"
proof -
  have "set (owner_assignments pid db) \<subseteq> set (owner_assignments pid (db\<lparr>db_roles := db_roles db @ [r]\<rparr>))"
    by (auto simp: owner_assignments_def owner_role_ids_def)
  with assms show ?thesis by (auto simp: owned_def ids_ok_def unused_def)
qed

lemma owned_upsert:
  assumes "owned ids pid db" "unused (as_id a) db" "\<forall>n \<ge> db_next db. ids n \<noteq> as_id a"
  shows "owned ids pid (upsert_assignment a db)"
proof (cases "list_ex (same_assignment (as_projectId a) (as_subjectType a) (as_subjectId a) (as_roleId a) (as_scope a)) (db_assignments db)")
  case True
  then show ?thesis
    by (intro owned_same [OF assms(1)]) (simp_all add: upsert_assignment_def Let_def same_roles_def update_where_def)
next
  case False
  then have u: "upsert_assignment a db = db\<lparr>db_assignments := db_assignments db @ [a]\<rparr>" by (simp add: upsert_assignment_def Let_def)
  show ?thesis unfolding u using assms by (auto simp: owned_def ids_ok_def unused_def owner_assignments_def owner_role_ids_def)
qed

lemma owned_with_new:
  assumes "inj ids" "\<And>i db. owned ids pid db \<Longrightarrow> unused i db \<Longrightarrow> \<forall>n \<ge> db_next db. ids n \<noteq> i \<Longrightarrow> owned ids pid (f i db)"
    and "\<And>i. keeps (owned ids pid) (g i) always"
  shows "keeps (owned ids pid) (rbind (newEntityId ids) (\<lambda>i. rbind (rmod (f i)) (\<lambda>_. g i))) always"
proof (rule keeps_bind_post [OF owned_new_id [OF assms(1)]])
  fix i db
  assume "unused i db \<and> (\<forall>n \<ge> db_next db. ids n \<noteq> i)" "owned ids pid db"
  then have "owned ids pid (f i db)" using assms(2) by blast
  then show "owned ids pid (snd (rbind (rmod (f i)) (\<lambda>_. g i) db))"
    using assms(3) [THEN keepsD] by (simp add: rbind_def rmod_def)
qed

lemma owned_audit [keeps_intro]: "keeps (owned ids pid) (audit a) always"
  unfolding audit_def by (rule owned_other) simp

lemma owned_sync_role [keeps_intro]:
  assumes "inj ids" shows "keeps (owned ids pid) (sync_role ids q c key) always"
  unfolding sync_role_def Let_def
  by (rule keeps_bind [OF keeps_ret(3)], rule keeps_option,
      rule owned_with_new [OF assms owned_new_role keeps_ret(1)], assumption, simp_all,
      intro keeps_bind keeps_ret owned_role_update, simp_all)

lemma owned_sync_roles [keeps_intro]: "inj ids \<Longrightarrow> keeps (owned ids pid) (sync_roles ids q c keys) always"
  by (induction keys) (auto intro!: keeps_intro)

lemma owned_store_sync [keeps_intro]: "keeps (owned ids pid) (store_sync ttl now q c byKey) always"
  unfolding store_sync_def by (rule owned_other) simp

lemma owned_ensure [keeps_intro]: "inj ids \<Longrightarrow> keeps (owned ids pid) (ensureSystemRoles ids ttl now q c) always"
  unfolding ensureSystemRoles_def by (intro keeps_intro)

lemma owned_catalog [keeps_intro]: "keeps (owned ids pid) (projectEnabledModules q) always" "keeps (owned ids pid) (getCatalog q) always"
  unfolding getCatalog_def projectEnabledModules_def by (intro keeps_intro)+

lemma owned_resolve [keeps_intro]: "inj ids \<Longrightarrow> keeps (owned ids pid) (resolveEffective ids ttl now q uid) always"
  unfolding resolveEffective_def by (intro keeps_intro)

lemma owned_pure [keeps_intro]: "keeps (owned ids pid) (\<lambda>db. (f db, db)) always"
  by (simp add: keeps_def split: sum.split)

lemma owned_views [keeps_intro]: "keeps (owned ids pid) (toRoleView rid) always" "keeps (owned ids pid) (assertCustomRole rid q) always"
    "keeps (owned ids pid) (resolveRoleForAssignment q rid) always"
  unfolding toRoleView_def assertCustomRole_def resolveRoleForAssignment_def by (intro keeps_intro)+

lemma owned_validate [keeps_intro]:
  "inj (en_ids env) \<Longrightarrow> keeps (owned (en_ids env) pid) (validateRolePermissions env q actor raws) always"
  unfolding validateRolePermissions_def Let_def by (intro keeps_intro)

lemma owned_create [keeps_intro]:
  assumes "inj (en_ids env)" shows "keeps (owned (en_ids env) pid) (createRole env q actor name ps) always"
  unfolding createRole_def
  by ((rule owned_with_new [OF assms owned_new_role], assumption, simp, simp) | rule keeps_intro assms)+

lemma owned_update [keeps_intro]:
  "inj (en_ids env) \<Longrightarrow> keeps (owned (en_ids env) pid) (updateRole env q actor rid name ps) always"
  unfolding updateRole_def optional_keys_def rename_role_def replace_keys_def Let_def
  by (intro keeps_intro; simp)

lemma owned_delete [keeps_intro]: "keeps (owned ids pid) (deleteRole env q actor rid) always"
  unfolding deleteRole_def Let_def by (intro keeps_intro; simp)

lemma owned_clone [keeps_intro]:
  "inj (en_ids env) \<Longrightarrow> keeps (owned (en_ids env) pid) (cloneRole env q actor rid name) always"
  unfolding cloneRole_def by (intro keeps_intro)

lemma owned_grant_role [keeps_intro]:
  assumes "inj (en_ids env)" shows "keeps (owned (en_ids env) pid) (grantRole env q actor st sid rid scope ends) always"
  unfolding grantRole_def Let_def
  by ((rule owned_with_new [OF assms owned_upsert], assumption, simp, simp) | rule keeps_intro)+

lemma owned_upsert_grant [keeps_intro]:
  assumes "inj (en_ids env)" shows "keeps (owned (en_ids env) pid) (upsertGrant env q actor eff s a gt gid) always"
proof -
  have new: "keeps (owned (en_ids env) pid) (newEntityId (en_ids env)) always"
    using owned_new_id [OF assms] by (auto simp: keeps_def split: sum.splits)
  show ?thesis
    unfolding upsertGrant_def check_grant_def grant_held_def write_grant_def Let_def
    by (intro keeps_intro new assms; simp)
qed

lemma owned_delete_grant [keeps_intro]: "keeps (owned ids pid) (deleteGrant env q actor gid) always"
  unfolding deleteGrant_def by (intro keeps_intro; simp)

text \<open>The one request that removes an assignment.\<close>

abbreviation without :: "string \<Rightarrow> string \<Rightarrow> control_db \<Rightarrow> control_db" where
  "without aid q db \<equiv> db\<lparr>db_assignments := filter (\<lambda>x. \<not> (as_id x = aid \<and> as_projectId x = q)) (db_assignments db)\<rparr>"

lemma revoke_outcome:
  assumes "snd (revokeRole env q actor aid db) \<noteq> db"
  obtains a as where "find (\<lambda>a. as_id a = aid) (db_assignments db) = Some a" "as_projectId a = q"
    "\<not> ((case find_role (as_roleId a) db of None \<Rightarrow> None | Some r \<Rightarrow> ro_key r) = Some ''owner''
        \<and> as_subjectType a = ''user'' \<and> length (owner_assignments q db) \<le> 1)"
    "snd (revokeRole env q actor aid db) = (without aid q db)\<lparr>db_audit := as\<rparr>"
proof (cases "find (\<lambda>a. as_id a = aid) (db_assignments db)")
  case None
  with assms show thesis by (simp add: revokeRole_def rbind_def rget_def rfail_def)
next
  case (Some a)
  let ?last = "(case find_role (as_roleId a) db of None \<Rightarrow> None | Some r \<Rightarrow> ro_key r) = Some ''owner''
        \<and> as_subjectType a = ''user'' \<and> length (owner_assignments q db) \<le> 1"
  note defs = revokeRole_def rbind_def rget_def rfail_def rreject_def rret_def rmod_def audit_def Some
  have 1: "as_projectId a = q"
  proof (rule ccontr)
    assume "as_projectId a \<noteq> q"
    then have "snd (revokeRole env q actor aid db) = db" by (simp add: defs)
    with assms show False ..
  qed
  moreover have 2: "\<not> ?last"
  proof
    assume l: ?last
    have "snd (revokeRole env q actor aid db) = db" unfolding defs using 1 l by simp
    with assms show False ..
  qed
  moreover have "\<exists>as. snd (revokeRole env q actor aid db) = (without aid q db)\<lparr>db_audit := as\<rparr>"
    unfolding defs using 1 2 by (simp del: de_Morgan_conj) blast
  ultimately show thesis using that Some by blast
qed

lemma unique_role: "ids_ok ids db \<Longrightarrow> r \<in> set (db_roles db) \<Longrightarrow> find_role (ro_id r) db = Some r"
proof -
  assume "ids_ok ids db" "r \<in> set (db_roles db)"
  then have d: "distinct (map ro_id (db_roles db))" by (simp add: ids_ok_def)
  obtain x where x: "find_role (ro_id r) db = Some x"
    using \<open>r \<in> set (db_roles db)\<close> by (cases "find_role (ro_id r) db") (auto simp: find_role_def find_None_iff)
  then have "x \<in> set (db_roles db)" "ro_id x = ro_id r" by (auto simp: find_role_def find_Some_iff)
  with d \<open>r \<in> set (db_roles db)\<close> x show ?thesis by (auto simp: distinct_map dest: inj_onD)
qed

lemma owned_without:
  assumes "owned ids pid db" "find (\<lambda>a. as_id a = aid) (db_assignments db) = Some a" "as_projectId a = q"
    and "\<not> ((case find_role (as_roleId a) db of None \<Rightarrow> None | Some r \<Rightarrow> ro_key r) = Some ''owner''
        \<and> as_subjectType a = ''user'' \<and> length (owner_assignments q db) \<le> 1)"
  shows "owned ids pid (without aid q db)"
proof -
  have ok: "ids_ok ids db" and some: "owner_assignments pid db \<noteq> []" using assms(1) by (simp_all add: owned_def)
  have a: "a \<in> set (db_assignments db)" "as_id a = aid" using assms(2) by (auto simp: find_Some_iff)
  have only: "x = a" if "x \<in> set (db_assignments db)" "as_id x = aid" for x
    using ok a that by (auto simp: ids_ok_def distinct_map dest: inj_onD)
  have "owner_assignments pid (without aid q db) = filter (\<lambda>x. \<not> (as_id x = aid \<and> as_projectId x = q)) (owner_assignments pid db)"
    unfolding owner_assignments_def owner_role_ids_def by (simp add: conj_commute)
  also have "\<dots> = filter (\<lambda>x. x \<noteq> a) (owner_assignments pid db)"
  proof (rule filter_cong [OF refl])
    fix x
    assume "x \<in> set (owner_assignments pid db)"
    then have "x \<in> set (db_assignments db)" by (simp add: owner_assignments_def)
    with only a(2) assms(3) show "(\<not> (as_id x = aid \<and> as_projectId x = q)) = (x \<noteq> a)" by blast
  qed
  finally have left: "owner_assignments pid (without aid q db) = filter (\<lambda>x. x \<noteq> a) (owner_assignments pid db)" .
  have "owner_assignments pid (without aid q db) \<noteq> []"
  proof (cases "a \<in> set (owner_assignments pid db)")
    case False
    then have "filter (\<lambda>x. x \<noteq> a) (owner_assignments pid db) = owner_assignments pid db" by (auto simp: filter_id_conv)
    with some left show ?thesis by simp
  next
    case True
    then obtain r where r: "r \<in> set (db_roles db)" "is_system_role pid Owner r" "as_roleId a = ro_id r" "as_projectId a = pid" "as_subjectType a = ''user''"
      by (auto simp: owner_assignments_def owner_role_ids_def)
    with unique_role [OF ok r(1)] have "length (owner_assignments pid db) > 1" using assms(3,4) by (simp add: is_system_role_def)
    moreover have "distinct (owner_assignments pid db)"
      using ok by (auto simp: ids_ok_def owner_assignments_def distinct_map)
    ultimately have "\<exists>b \<in> set (owner_assignments pid db). b \<noteq> a"
      using card_mono [of "{a}" "set (owner_assignments pid db)"] distinct_card [of "owner_assignments pid db"] by fastforce
    with left show ?thesis by (auto simp: filter_empty_conv)
  qed
  moreover have "ids_ok ids (without aid q db)" using ok by (auto simp: ids_ok_def distinct_map_filter)
  ultimately show ?thesis by (simp add: owned_def)
qed

lemma owned_revoke [keeps_intro]: "keeps (owned ids pid) (revokeRole env q actor aid) always"
  unfolding keeps_def
proof (intro allI impI conjI)
  fix db
  assume o: "owned ids pid db"
  show "owned ids pid (snd (revokeRole env q actor aid db))"
  proof (cases "snd (revokeRole env q actor aid db) = db")
    case False
    then show ?thesis
    proof (rule revoke_outcome)
      fix a as
      assume "find (\<lambda>a. as_id a = aid) (db_assignments db) = Some a" "as_projectId a = q"
        "\<not> ((case find_role (as_roleId a) db of None \<Rightarrow> None | Some r \<Rightarrow> ro_key r) = Some ''owner''
            \<and> as_subjectType a = ''user'' \<and> length (owner_assignments q db) \<le> 1)"
        and st: "snd (revokeRole env q actor aid db) = (without aid q db)\<lparr>db_audit := as\<rparr>"
      from owned_without [OF o this(1-3)] show ?thesis unfolding st by (rule owned_same) (simp_all add: same_roles_def)
    qed
  qed (use o in simp)
qed (simp split: sum.split)

lemma owned_exec: "inj (en_ids env) \<Longrightarrow> keeps (owned (en_ids env) pid) (exec env q actor req) always"
  by (cases req) (auto simp: outcome_def intro!: keeps_intro)

text \<open>Any requests by anybody, on any project, one after another, each at its own time.\<close>

definition serve :: "(nat \<Rightarrow> string) \<Rightarrow> nat \<Rightarrow> (nat \<times> string \<times> string \<times> role_request) list \<Rightarrow> control_db \<Rightarrow> control_db" where
  "serve ids ttl rs db = foldl (\<lambda>db (now, q, actor, req). snd (exec \<lparr>en_ids = ids, en_ttl = ttl, en_now = now\<rparr> q actor req db)) db rs"

text \<open>C9: A project never loses its last owner assignment. Whatever requests users make to the roles service, in
  whatever order and whether they succeed or fail, a project that has an owner assignment of a user
  still has one afterwards.\<close>

theorem owner_assignment_remains:
  assumes "inj ids" "ids_ok ids db" "owner_assignments pid db \<noteq> []"
  shows "owner_assignments pid (serve ids ttl rs db) \<noteq> []"
proof -
  have "owned ids pid (serve ids ttl rs db)"
    using assms(2,3)
  proof (induction rs rule: rev_induct)
    case Nil
    then show ?case by (simp add: serve_def owned_def)
  next
    case (snoc r rs)
    obtain now q actor req where r: "r = (now, q, actor, req)" by (cases r)
    let ?env = "\<lparr>en_ids = ids, en_ttl = ttl, en_now = now\<rparr>"
    have "serve ids ttl (rs @ [r]) db = snd (exec ?env q actor req (serve ids ttl rs db))" by (simp add: serve_def r)
    with keepsD [OF owned_exec [of ?env pid q actor req]] snoc assms(1) show ?case by simp
  qed
  then show ?thesis by (simp add: owned_def)
qed

end
