(* ===== verification/RolesPdp.thy ===== *)
theory RolesPdp
  imports RolesOwner GatewayGuard
begin

text \<open>
  The policy decision point of control (\<^verbatim>\<open>control/src/roles/pdp.service.ts\<close>): batched verdicts for the
  gateway, the explained decision through all layers, the projection for the client; and the answer of
  the gRPC method the gateway reads them from. The visibility resolver and the access epoch are
  parameters. The texts of trace steps are not kept.
\<close>

subsection \<open>Batched verdicts\<close>

definition isProjectOwner :: "string \<Rightarrow> string \<Rightarrow> control_db \<Rightarrow> bool" where
  "isProjectOwner pid uid db =
     (case find (\<lambda>m. mb_projectId m = pid \<and> mb_userId m = uid) (db_members db) of
        None \<Rightarrow> False | Some m \<Rightarrow> mb_role m = ''owner'')"

record pdp_decision =
  pd_subject :: string
  pd_action :: string
  pd_allow :: bool
  pd_reason :: string
  pd_matchedKeys :: "string list"
  pd_notApplicable :: bool

fun reason_text :: "rbac_reason \<Rightarrow> string" where
  "reason_text RbacOk = ''OK''"
| "reason_text NOT_IN_ANY_ROLE = ''NOT_IN_ANY_ROLE''"
| "reason_text DENIED_BY_GRANT = ''DENIED_BY_GRANT''"
| "reason_text PERMISSION_MAPPING_MISSING = ''PERMISSION_MAPPING_MISSING''"

definition decide_pair :: "bool \<Rightarrow> resolved \<Rightarrow> string \<times> string \<Rightarrow> pdp_decision" where
  "decide_pair isOwner r = (\<lambda>(s, a).
     if isOwner then \<lparr>pd_subject = s, pd_action = a, pd_allow = True, pd_reason = ''OWNER_ALL'', pd_matchedKeys = [], pd_notApplicable = False\<rparr>
     else let d = decideRbac s a (ef_allow (rs_effective r), ef_deny (rs_effective r)) (rs_catalog r);
              na = (rd_reason d = PERMISSION_MAPPING_MISSING)
          in \<lparr>pd_subject = s, pd_action = a, pd_allow = rd_allow d, pd_reason = (if na then ''NO_CATALOG_KEY'' else reason_text (rd_reason d)),
              pd_matchedKeys = rd_matchedKeys d, pd_notApplicable = na\<rparr>)"

record pdp_result =
  pr_decisions :: "pdp_decision list"
  pr_role :: string
  pr_epoch :: nat

definition checkPermissions :: "roles_env \<Rightarrow> (string \<Rightarrow> nat) \<Rightarrow> string \<Rightarrow> string \<Rightarrow> (string \<times> string) list \<Rightarrow> pdp_result svc" where
  "checkPermissions env epochOf pid uid checks =
     rbind (rreject (pid = [] \<or> uid = []) (AppError Invalid ''projectId and userId required'' [])) (\<lambda>_.
     let pairs = filter (\<lambda>(s, a). s \<noteq> [] \<and> a \<noteq> []) checks in
     rbind (effective env pid uid) (\<lambda>r.
     rget (\<lambda>db. let isOwner = isProjectOwner pid uid db \<or> rs_role r = ''owner''
       in \<lparr>pr_decisions = map (decide_pair isOwner r) pairs,
           pr_role = (if isOwner then (if rs_role r = [] then ''owner'' else rs_role r) else rs_role r),
           pr_epoch = epochOf pid\<rparr>)))"

text \<open>The reply of the gRPC method; an error is no reply.\<close>

definition decision_js :: "pdp_decision \<Rightarrow> jsval" where
  "decision_js d = JObj [(''subject'', JStr (pd_subject d)), (''action'', JStr (pd_action d)),
     (''decision'', JStr (if pd_allow d then ''allow'' else ''deny'')), (''reason'', JStr (pd_reason d)),
     (''matched_keys'', JArr (map JStr (pd_matchedKeys d))), (''not_applicable'', JBool (pd_notApplicable d))]"

definition check_reply :: "roles_env \<Rightarrow> (string \<Rightarrow> nat) \<Rightarrow> control_db \<Rightarrow> string \<Rightarrow> string \<Rightarrow> string \<Rightarrow> string \<Rightarrow> jsval option" where
  "check_reply env epochOf db pid uid s a =
     (case fst (checkPermissions env epochOf pid uid [(s, a)] db) of
        Inl _ \<Rightarrow> None
      | Inr r \<Rightarrow> Some (JObj [(''decisions'', JArr (map decision_js (pr_decisions r))), (''role'', JStr (pr_role r)),
          (''epoch'', JNum (of_nat (pr_epoch r)))]))"

subsection \<open>Policy rules and the attribute context\<close>

definition normalizePolicyRules :: "jsval \<Rightarrow> (string \<times> string \<times> abac_rule) list" where
  "normalizePolicyRules raw =
     List.map_filter (\<lambda>v.
       if list_all (\<lambda>k. js_string (js_get v k) \<noteq> None) [''id'', ''moduleId'', ''effect'', ''subject'', ''action'', ''resource'']
       then Some (the (js_string (js_get v ''id'')), the (js_string (js_get v ''moduleId'')),
         \<lparr>ar_effect = Some (if js_get v ''effect'' = JStr ''deny'' then ''deny'' else ''allow''),
          ar_subject = js_string (js_get v ''subject''), ar_action = js_string (js_get v ''action''),
          ar_resource = js_string (js_get v ''resource''),
          ar_condition = (case js_get v ''condition'' of JObj ps \<Rightarrow> JObj ps | _ \<Rightarrow> JObj [])\<rparr>)
       else None) (arr_of raw)"

definition modulePolicyRules :: "string \<Rightarrow> (string \<times> string \<times> abac_rule) list svc" where
  "modulePolicyRules pid =
     rbind (rget (find_project pid)) (\<lambda>p.
     rbind (rsome p (AppError NotFound ''Project not found'' [])) (\<lambda>p. rret (normalizePolicyRules (pj_modulePolicies p))))"

definition pdp_context :: "string \<Rightarrow> string \<Rightarrow> string \<Rightarrow> control_db \<Rightarrow> abac_ctx" where
  "pdp_context pid uid role db =
     (let ds = userDepartmentIds pid uid db in
      \<lparr>c_user = \<lparr>u_id = uid, u_departmentId = (case ds of [] \<Rightarrow> None | d # _ \<Rightarrow> Some d), u_departmentChain = ds,
                u_leaderOfDepartmentIds = [], u_role = role\<rparr>,
       c_project = \<lparr>p_id = pid, p_ownerType = ''ORGANIZATION'',
                   p_ownerId = (case find_project pid db of None \<Rightarrow> [] | Some p \<Rightarrow> pj_ownerId p)\<rparr>\<rparr>)"

subsection \<open>The explained decision\<close>

datatype trace_layer = LRbac | LAbac | LVisibility | LSharing
datatype trace_effect = TAllow | TDeny | TNarrow | TPass | TGrant

type_synonym trace_step = "trace_layer \<times> trace_effect \<times> bool"

text \<open>What the visibility resolver answers for a resource: everything, or owners and shared records.\<close>

record vis_answer =
  va_all :: bool
  va_ownerIds :: "string list"
  va_sharedRecordIds :: "string list"

definition SHAREABLE :: "string list" where
  "SHAREABLE = [''contacts'', ''companies'', ''deals'', ''orders'', ''activities'']"

record explain_result =
  xp_allow :: bool
  xp_reason :: string
  xp_trace :: "trace_step list"
  xp_role :: string

definition explain :: "bool \<Rightarrow> string \<Rightarrow> trace_step list \<Rightarrow> string \<Rightarrow> explain_result" where
  "explain b reason tr role = \<lparr>xp_allow = b, xp_reason = reason, xp_trace = tr, xp_role = role\<rparr>"

text \<open>Layers 3 and 4: visibility, with a share that rescues a record out of scope.\<close>

definition visibility_layers :: "vis_answer \<Rightarrow> string \<Rightarrow> string \<Rightarrow> doc option \<Rightarrow> trace_step list \<Rightarrow> string \<Rightarrow> explain_result" where
  "visibility_layers vis res recordId rcd tr role =
     (if va_all vis then explain True ''OK'' (tr @ [(LVisibility, TPass, False)]) role
      else
        let note = (if res \<in> set SHAREABLE then [(LSharing, TPass, recordId = [])] else []) in
        case (if recordId = [] then None else Option.bind rcd recordOwnerId) of
          None \<Rightarrow> explain True ''OK'' (tr @ [(LVisibility, TNarrow, recordId = [])] @ note) role
        | Some owner \<Rightarrow>
            if owner \<in> set (va_ownerIds vis) then explain True ''OK'' (tr @ [(LVisibility, TPass, False)] @ note) role
            else if recordId \<in> set (va_sharedRecordIds vis)
            then explain True ''OK_VIA_SHARE'' (tr @ [(LVisibility, TNarrow, False), (LSharing, TGrant, False)]) role
            else explain False ''VISIBILITY_DENY'' (tr @ [(LVisibility, TNarrow, False), (LSharing, TDeny, False)]) role)"

text \<open>The steps the attribute layer itself adds to the trace are left out.\<close>

definition simulateExplain :: "roles_env \<Rightarrow> (string \<Rightarrow> string \<Rightarrow> string \<Rightarrow> vis_answer) \<Rightarrow> string \<Rightarrow> string \<Rightarrow> string \<Rightarrow> string
    \<Rightarrow> string \<Rightarrow> string \<Rightarrow> doc option \<Rightarrow> explain_result svc" where
  "simulateExplain env visibility pid uid subject action res recordId rcd =
     rbind (rreject (pid = [] \<or> uid = []) (AppError Invalid ''projectId and userId required'' [])) (\<lambda>_.
     rbind (effective env pid uid) (\<lambda>r.
     rbind (rget (isProjectOwner pid uid)) (\<lambda>ownerMember.
     if ownerMember \<or> rs_role r = ''owner'' then rret (explain True ''OWNER_ALL'' [(LRbac, TAllow, False)] ''owner'')
     else
       rbind (getCatalog pid) (\<lambda>c.
       let d = decideRbac subject action (ef_allow (rs_effective r), ef_deny (rs_effective r)) c in
       if \<not> rd_allow d then rret (explain False (''RBAC_'' @ reason_text (rd_reason d)) [(LRbac, TDeny, False)] (rs_role r))
       else
         rbind (modulePolicyRules pid) (\<lambda>rls.
         rbind (rget (pdp_context pid uid (rs_role r))) (\<lambda>ctx.
         case evalAbacLayer (map (snd \<circ> snd) rls) ctx uid subject action res rcd of
           PdpDeny \<Rightarrow> rret (explain False ''ABAC_DENY'' [(LRbac, TPass, False)] (rs_role r))
         | PdpPass \<Rightarrow> rret (visibility_layers (visibility pid uid res) res recordId rcd [(LRbac, TPass, False)] (rs_role r))))))))"

subsection \<open>The projection for the client\<close>

text \<open>Flags of unconditional rules by module; the last rule of a pair decides.\<close>

definition policy_flags :: "(string \<times> string \<times> abac_rule) list \<Rightarrow> (string \<times> (string \<times> bool) list) list" where
  "policy_flags rls =
     foldl (\<lambda>m (i, mid, r).
       case (ar_subject r, ar_action r) of
         (Some s, Some a) \<Rightarrow>
           if mid = [] \<or> s = [] \<or> a = [] \<or> hasCondition r then m
           else AList.update mid (AList.update (mk_key s a) (ar_effect r \<noteq> Some ''deny'')
                  (case map_of m mid of None \<Rightarrow> [] | Some b \<Rightarrow> b)) m
       | _ \<Rightarrow> m) [] rls"

record projection =
  px_allowed :: "string list"
  px_flags :: "(string \<times> (string \<times> bool) list) list"
  px_visibility :: vis_answer
  px_departmentIds :: "string list"
  px_epoch :: nat

definition resolveProjection :: "roles_env \<Rightarrow> (string \<Rightarrow> string \<Rightarrow> vis_answer) \<Rightarrow> (string \<Rightarrow> nat) \<Rightarrow> string \<Rightarrow> string \<Rightarrow> projection svc" where
  "resolveProjection env visibility epochOf pid uid =
     rbind (rreject (pid = [] \<or> uid = []) (AppError Invalid ''projectId and userId required'' [])) (\<lambda>_.
     rbind (effective env pid uid) (\<lambda>r.
     rbind (modulePolicyRules pid) (\<lambda>rls.
     rbind (rget (isProjectOwner pid uid)) (\<lambda>owner.
     rbind (getCatalog pid) (\<lambda>c.
     rget (\<lambda>db. \<lparr>px_allowed = (if owner \<or> rs_role r = ''owner'' then cat_keys c else ef_allow (rs_effective r)),
       px_flags = policy_flags rls, px_visibility = visibility pid uid,
       px_departmentIds = userDepartmentIds pid uid db, px_epoch = epochOf pid\<rparr>))))))"

subsection \<open>Verdicts on a seeded project\<close>

lemma seeded_catalog: "seeded env pid db \<Longrightarrow> \<exists>c. project_catalog pid db = Some c"
  by (auto simp: seeded_def split: option.splits)

definition is_owner :: "nat \<Rightarrow> string \<Rightarrow> string \<Rightarrow> catalog \<Rightarrow> control_db \<Rightarrow> bool" where
  "is_owner now pid uid c db \<longleftrightarrow> isProjectOwner pid uid db \<or> rs_role (resolved_of now pid uid c db) = ''owner''"

lemma check_seeded:
  assumes "seeded env pid db" "project_catalog pid db = Some c" "pid \<noteq> []" "uid \<noteq> []" "s \<noteq> []" "a \<noteq> []"
  shows "\<exists>r. checkPermissions env epochOf pid uid [(s, a)] db = (Inr r, db) \<and> pr_epoch r = epochOf pid
     \<and> pr_decisions r = [decide_pair (is_owner (en_now env) pid uid c db) (resolved_of (en_now env) pid uid c db) (s, a)]"
proof -
  have "effective env pid uid db = (Inr (resolved_of (en_now env) pid uid c db), db)"
    using effective_seeded [OF assms(1,2)] by blast
  with assms(3-6) show ?thesis
    by (simp add: checkPermissions_def rbind_def rreject_def rret_def rget_def Let_def is_owner_def)
qed

text \<open>The catalog keys of a pair the user holds.\<close>

definition holds :: "nat \<Rightarrow> string \<Rightarrow> string \<Rightarrow> catalog \<Rightarrow> control_db \<Rightarrow> string \<Rightarrow> bool" where
  "holds now pid uid c db k \<longleftrightarrow> isProjectGrantablePermission k \<and> granted now pid uid c db k \<and> \<not> denied now pid uid c db k"

lemma decide_pair_iff:
  assumes "rs_catalog r = c" "r = resolved_of now pid uid c db"
  shows "pd_notApplicable (decide_pair own r (s, a)) \<longleftrightarrow> \<not> own \<and> resolveDecoratorPermission s a c = None"
    and "pd_allow (decide_pair own r (s, a)) \<longleftrightarrow>
      own \<or> (\<exists>ks. resolveDecoratorPermission s a c = Some ks \<and> (\<forall>k \<in> set ks. holds now pid uid c db k))"
proof -
  have "rd_reason (decideRbac s a eff c) = PERMISSION_MAPPING_MISSING \<longleftrightarrow> resolveDecoratorPermission s a c = None" for eff
    using resolve_decorator_known [of s a c] by (auto simp: decideRbac_def split: option.splits)
  then show "pd_notApplicable (decide_pair own r (s, a)) \<longleftrightarrow> \<not> own \<and> resolveDecoratorPermission s a c = None"
    using assms(1) by (simp add: decide_pair_def Let_def)
  have "rd_allow (decideRbac s a (ef_allow (rs_effective r), ef_deny (rs_effective r)) c)
      \<longleftrightarrow> (\<exists>ks. resolveDecoratorPermission s a c = Some ks \<and> (\<forall>k \<in> set ks. holds now pid uid c db k))"
    unfolding decide_allow_iff fst_conv snd_conv assms(2) allow_iff deny_iff holds_def
    using resolve_decorator_known [of s a c] by blast
  then show "pd_allow (decide_pair own r (s, a)) \<longleftrightarrow>
      own \<or> (\<exists>ks. resolveDecoratorPermission s a c = Some ks \<and> (\<forall>k \<in> set ks. holds now pid uid c db k))"
    using assms(1) by (simp add: decide_pair_def Let_def)
qed

lemma resolved_catalog [simp]: "rs_catalog (resolved_of now pid uid c db) = c"
  by (simp add: resolved_of_def case_prod_beta Let_def)

lemma verdict_of_reply:
  assumes "seeded env pid db" "project_catalog pid db = Some c" "pid \<noteq> []" "uid \<noteq> []" "s \<noteq> []" "a \<noteq> []"
    and "ct_check ct = check_reply env epochOf db"
  shows "vd_applicable (fresh_verdict ct pid uid (s, a)) \<longleftrightarrow> is_owner (en_now env) pid uid c db \<or> resolveDecoratorPermission s a c \<noteq> None"
    and "vd_allowed (fresh_verdict ct pid uid (s, a)) \<longleftrightarrow> is_owner (en_now env) pid uid c db
      \<or> (\<exists>ks. resolveDecoratorPermission s a c = Some ks \<and> (\<forall>k \<in> set ks. holds (en_now env) pid uid c db k))"
proof -
  let ?d = "decide_pair (is_owner (en_now env) pid uid c db) (resolved_of (en_now env) pid uid c db) (s, a)"
  obtain r where r: "checkPermissions env epochOf pid uid [(s, a)] db = (Inr r, db)" "pr_decisions r = [?d]"
    using check_seeded [OF assms(1-6)] by blast
  have sub: "pd_subject ?d = s" "pd_action ?d = a" by (simp_all add: decide_pair_def Let_def)
  have "fresh_verdict ct pid uid (s, a) = parseVerdict (JArr [decision_js ?d]) s a"
    by (simp add: fresh_verdict_def assms(7) check_reply_def r)
  then have v: "vd_applicable (fresh_verdict ct pid uid (s, a)) = (\<not> pd_notApplicable ?d)"
      "vd_allowed (fresh_verdict ct pid uid (s, a)) = pd_allow ?d"
    by (simp_all add: parseVerdict_def decision_js_def sub arr_of_def either_key_def)
  note iff = decide_pair_iff [OF resolved_catalog refl]
  show "vd_applicable (fresh_verdict ct pid uid (s, a)) \<longleftrightarrow> is_owner (en_now env) pid uid c db \<or> resolveDecoratorPermission s a c \<noteq> None"
    unfolding v iff by auto
  show "vd_allowed (fresh_verdict ct pid uid (s, a)) \<longleftrightarrow> is_owner (en_now env) pid uid c db
      \<or> (\<exists>ks. resolveDecoratorPermission s a c = Some ks \<and> (\<forall>k \<in> set ks. holds (en_now env) pid uid c db k))"
    unfolding v iff ..
qed

text \<open>C7: What the gateway enforces is what the decision point decides. Let the gateway take its verdicts from
  the decision point of control. Then it refuses a route pair as not granted if and only if the user is
  no owner of the project, the pair maps to catalog keys, and one of them no assignment, membership
  role or grant gives him, or a grant denies him.\<close>

theorem gateway_enforces_pdp:
  assumes "seeded env pid db" "project_catalog pid db = Some c" "pid \<noteq> []" "uid \<noteq> []" "s \<noteq> []" "a \<noteq> []"
    and "ct_check ct = check_reply env epochOf db"
  shows "vd_applicable (fresh_verdict ct pid uid (s, a)) \<and> \<not> vd_allowed (fresh_verdict ct pid uid (s, a)) \<longleftrightarrow>
     \<not> is_owner (en_now env) pid uid c db
     \<and> (\<exists>ks. resolveDecoratorPermission s a c = Some ks \<and> (\<exists>k \<in> set ks. \<not> holds (en_now env) pid uid c db k))"
  unfolding verdict_of_reply [OF assms] by auto


subsection \<open>A plain member\<close>

lemma holds_baseline:
  assumes "active_assignments now pid uid db = []" "baselineKey pid uid db = Some role" "\<forall>g \<in> set (db_grants db). gr_projectId g \<noteq> pid"
  shows "holds now pid uid c db k \<longleftrightarrow> isProjectGrantablePermission k \<and> k \<in> set (expandSystemRolePermissions role c)"
proof -
  have "effective_inputs now pid uid c db = ([baseline_input c role], [])"
    using assms by (simp add: effective_inputs_def Let_def filter_empty_conv)
  then show ?thesis
    by (simp add: holds_def granted_def denied_def key_granted_def key_denied_def baseline_input_def in_module_scope_def)
qed

lemma member_no_owner:
  assumes "active_assignments now pid uid db = []" "baselineKey pid uid db = Some role" "role \<noteq> Owner"
  shows "\<not> is_owner now pid uid c db"
proof -
  have "role_rank (role_name role) > 0" "role_name role \<noteq> ''owner''" using assms(3) by (cases role; simp add: role_rank_def)+
  then have "rs_role (resolved_of now pid uid c db) \<noteq> ''owner''"
    using assms(1,2) by (simp add: resolved_of_def effective_inputs_def Let_def dominantRole_def)
  moreover obtain m where "find (\<lambda>m. mb_projectId m = pid \<and> mb_userId m = uid) (db_members db) = Some m" "mb_role m = role_name role"
    using assms(2) by (auto simp: baselineKey_def opt_role_Some split: option.splits)
  ultimately show ?thesis using \<open>role_name role \<noteq> ''owner''\<close> by (simp add: is_owner_def isProjectOwner_def)
qed

text \<open>C15: For a plain member the decision point repeats the flat matrix. When all a user has in a project is the
  role of his membership, a pair of the catalog with no decorator of its own is allowed if and only
  if the flat key check of that role admits it, two cases apart: keys no project role may hold, and
  the elevated export of an analytic subject by a low role.\<close>

theorem baseline_decision_is_flat_matrix:
  assumes "seeded env pid db" "project_catalog pid db = Some (buildProjectCatalogWithSystem ms)"
    and "checkPermissions env epochOf pid uid [(s, a)] db = (Inr r, db')" "s \<noteq> []" "a \<noteq> []"
    and "active_assignments (en_now env) pid uid db = []" "baselineKey pid uid db = Some role" "role \<noteq> Owner"
    and "\<forall>g \<in> set (db_grants db). gr_projectId g \<noteq> pid"
    and "cat_has (buildProjectCatalogWithSystem ms) s a" "normalizeAction a = a" "map_of DECORATOR_SUBJECT_MAP (mk_key s a) = None"
  shows "map pd_allow (pr_decisions r) = [projectRoleCanKey (Some (role_name role)) s a
     \<and> isProjectGrantablePermission (permissionKey s a)
     \<and> \<not> (isLowRole role \<and> a = ''export'' \<and> s \<in> set ELEVATED_EXPORT_SUBJECTS)]"
proof -
  let ?c = "buildProjectCatalogWithSystem ms" and ?now = "en_now env"
  have ne: "pid \<noteq> []" "uid \<noteq> []" using assms(3) by (auto simp: checkPermissions_def rbind_def rreject_def rfail_def)
  have r: "pr_decisions r = [decide_pair (is_owner ?now pid uid ?c db) (resolved_of ?now pid uid ?c db) (s, a)]"
    using check_seeded [OF assms(1,2) ne assms(4,5), of epochOf] assms(3) by auto
  have d: "resolveDecoratorPermission s a ?c = Some [permissionKey s a]"
    using assms(10-12) by (simp add: resolveDecoratorPermission_def permissionKey_def cat_has_def)
  have "holds ?now pid uid ?c db (permissionKey s a) \<longleftrightarrow> isProjectGrantablePermission (permissionKey s a)
     \<and> projectRoleCanKey (Some (role_name role)) s a \<and> \<not> (isLowRole role \<and> a = ''export'' \<and> s \<in> set ELEVATED_EXPORT_SUBJECTS)"
    unfolding holds_baseline [OF assms(6,7,9)] expand_parity [OF assms(10)] ..
  moreover have "pd_allow (decide_pair (is_owner ?now pid uid ?c db) (resolved_of ?now pid uid ?c db) (s, a))
      \<longleftrightarrow> holds ?now pid uid ?c db (permissionKey s a)"
    unfolding decide_pair_iff(2) [OF resolved_catalog refl] using member_no_owner [OF assms(6-8), of ?c] by (simp add: d)
  ultimately show ?thesis unfolding r by auto
qed

subsection \<open>Owners\<close>

lemma role_rank_owner: "role_rank k \<le> 5" "role_rank k = 5 \<longleftrightarrow> k = ''owner''"
  by (simp_all add: role_rank_def)

abbreviation (input) dominant_step :: "string \<times> nat \<Rightarrow> string option \<Rightarrow> string \<times> nat" where
  "dominant_step \<equiv> \<lambda>(best, rank) k. case k of None \<Rightarrow> (best, rank) | Some x \<Rightarrow> if role_rank x > rank then (x, role_rank x) else (best, rank)"

lemma dominant_fold:
  "Some ''owner'' \<in> set ks \<or> b = ''owner'' \<Longrightarrow> fst (foldl dominant_step (b, role_rank b) ks) = ''owner''"
proof (induction ks arbitrary: b)
  case (Cons k ks)
  let ?b = "case k of None \<Rightarrow> b | Some x \<Rightarrow> if role_rank x > role_rank b then x else b"
  have step: "dominant_step (b, role_rank b) k = (?b, role_rank ?b)" by (simp split: option.split)
  have "?b = ''owner''" if "k = Some ''owner'' \<or> b = ''owner''"
  proof (cases "b = ''owner''")
    case True
    then have "role_rank b = 5" by (simp add: role_rank_owner)
    then have "\<not> role_rank x > role_rank b" for x using role_rank_owner(1) [of x] by simp
    with True show ?thesis by (simp split: option.split)
  next
    case False
    then have "role_rank b < role_rank ''owner''" using role_rank_owner [of b] role_rank_owner(2) [of "''owner''"] by simp
    with False that show ?thesis by simp
  qed
  then have "Some ''owner'' \<in> set ks \<or> ?b = ''owner''" using Cons.prems by auto
  from Cons.IH [OF this] show ?case unfolding foldl_Cons step .
qed simp

lemma dominant_owner: "Some ''owner'' \<in> set ks \<Longrightarrow> dominantRole ks = ''owner''"
proof -
  assume "Some ''owner'' \<in> set ks"
  moreover have "role_rank [] = 0" by (simp add: role_rank_def)
  ultimately show ?thesis using dominant_fold [of ks "[]"] unfolding dominantRole_def by simp
qed

lemma assigned_owner:
  assumes "(a, r) \<in> set (active_assignments now pid uid db)" "ro_key r = Some ''owner''"
  shows "is_owner now pid uid c db"
proof -
  have "Some ''owner'' \<in> set (map (ro_key \<circ> snd) (active_assignments now pid uid db))"
    using assms by force
  then have "rs_role (resolved_of now pid uid c db) = ''owner''"
    by (simp add: resolved_of_def case_prod_beta Let_def dominant_owner)
  then show ?thesis by (simp add: is_owner_def)
qed

text \<open>An assignment without an end that names the user is active, whatever was there.\<close>

lemma upserted_active:
  assumes "find_role rid db = Some r"
  shows "\<exists>a. (a, r) \<in> set (active_assignments now pid uid (upsert_assignment
     \<lparr>as_id = aid, as_projectId = pid, as_subjectType = ''user'', as_subjectId = uid, as_roleId = rid, as_scope = scope,
      as_expiresAt = None, as_createdBy = actor\<rparr> db))"
    (is "\<exists>a. _ \<in> set (active_assignments _ _ _ ?db)")
proof -
  have "\<exists>a \<in> set (db_assignments ?db). same_assignment pid ''user'' uid rid scope a \<and> as_expiresAt a = None"
    by (auto simp: upsert_assignment_def Let_def update_where_def list_ex_iff same_assignment_def)
  then obtain a where a: "a \<in> set (db_assignments ?db)" "same_assignment pid ''user'' uid rid scope a" "as_expiresAt a = None" by blast
  have fr: "find_role (as_roleId a) ?db = Some r"
    using a(2) assms by (simp add: find_role_def same_assignment_def upsert_assignment_def Let_def)
  have "(a, r) \<in> set (active_assignments now pid uid ?db)"
    unfolding active_assignments_def List.map_filter_def
    using a fr by (auto simp: addresses_user_def same_assignment_def intro!: image_eqI [where x = a])
  then show ?thesis ..
qed

text \<open>C16: The assignment of roles is not checked against what its author holds. Whoever gets a request to assign the
  owner role of a project through, whatever he holds himself, makes the addressed user (himself, say)
  an owner: every check of that user is allowed from then on.\<close>

theorem owner_role_grant_unchecked:
  assumes "seeded env pid db" "pid \<noteq> []" "user \<noteq> []" "s \<noteq> []" "a \<noteq> []"
    and "find_role rid db = Some role" "is_system_role pid Owner role" "\<not> ro_isArchived role"
  shows "\<exists>db' r. exec env pid actor (GrantRole ''user'' user rid [] None) db = (Inr (), db')
     \<and> checkPermissions env epochOf pid user [(s, a)] db' = (Inr r, db') \<and> map pd_allow (pr_decisions r) = [True]"
proof -
  let ?row = "\<lparr>as_id = en_ids env (db_next db), as_projectId = pid, as_subjectType = ''user'', as_subjectId = user,
     as_roleId = rid, as_scope = ''project'', as_expiresAt = None, as_createdBy = actor\<rparr>"
  let ?mid = "upsert_assignment ?row (db\<lparr>db_next := db_next db + 1\<rparr>)"
  obtain c where c: "project_catalog pid db = Some c" using seeded_catalog [OF assms(1)] ..
  let ?exec = "exec env pid actor (GrantRole ''user'' user rid [] None) db"
  have ex: "fst ?exec = Inr ()" "\<exists>as. snd ?exec = ?mid\<lparr>db_audit := as\<rparr>"
    using assms(3,6-8)
    by (simp_all add: grantRole_def outcome_def resolveRoleForAssignment_def is_system_role_def rbind_def rreject_def rret_def rget_def
        rmod_def newEntityId_def audit_def Let_def) blast
  define db' where "db' = snd ?exec"
  with ex(1) have ran: "?exec = (Inr (), db')" by (simp add: prod_eq_iff)
  from ex(2) db'_def obtain as where db': "db' = ?mid\<lparr>db_audit := as\<rparr>" by blast
  have same: "same_people db db'" by (simp add: db' same_people_def upsert_assignment_def Let_def)
  have "active_assignments (en_now env) pid user db' = active_assignments (en_now env) pid user ?mid"
    by (simp add: db' active_assignments_def find_role_def userDepartmentIds_def userUnitIds_def project_units_def units_members_def
        find_project_def Let_def cong: option.case_cong)
  moreover have "find_role rid (db\<lparr>db_next := db_next db + 1\<rparr>) = Some role" using assms(6) by (simp add: find_role_def)
  from upserted_active [OF this] have "\<exists>x. (x, role) \<in> set (active_assignments (en_now env) pid user ?mid)" by simp
  ultimately have own: "is_owner (en_now env) pid user c db'"
    using assigned_owner assms(7) by (auto simp: is_system_role_def)
  have "seeded env pid db'" "project_catalog pid db' = Some c" using same_people_reads(1,5) [OF same] assms(1) c by simp_all
  from check_seeded [OF this assms(2-5), of epochOf] own obtain r where
    r: "checkPermissions env epochOf pid user [(s, a)] db' = (Inr r, db')" "pr_decisions r = [decide_pair True (resolved_of (en_now env) pid user c db') (s, a)]"
    by auto
  from ran r show ?thesis by (auto simp: decide_pair_def)
qed

subsection \<open>The explained decision\<close>

text \<open>Visibility lets a record through when it has no known owner, an owner in scope, or is shared.\<close>

definition visible_record :: "vis_answer \<Rightarrow> string \<Rightarrow> doc option \<Rightarrow> bool" where
  "visible_record vis recordId rcd \<longleftrightarrow>
     va_all vis \<or> recordId = [] \<or> recordId \<in> set (va_sharedRecordIds vis)
     \<or> (case Option.bind rcd recordOwnerId of None \<Rightarrow> True | Some owner \<Rightarrow> owner \<in> set (va_ownerIds vis))"

lemma visibility_layers_iff: "xp_allow (visibility_layers vis res recordId rcd tr role) \<longleftrightarrow> visible_record vis recordId rcd"
  by (simp add: visibility_layers_def visible_record_def explain_def Let_def split: option.split)

text \<open>C14: The explanation follows the path of enforcement. The simulator allows a request if and only if the batched
  check of the same pair allows it and, for a user who is no owner, the attribute rules of the
  project and the visibility of the record let it pass as well.\<close>

theorem explain_agrees_with_check:
  assumes "seeded env pid db" "project_catalog pid db = Some c" "find_project pid db = Some p" "s \<noteq> []" "a \<noteq> []"
    and "simulateExplain env visibility pid uid s a res recordId rcd db = (Inr x, db1)"
    and "checkPermissions env epochOf pid uid [(s, a)] db = (Inr r, db2)" "pr_decisions r = [d]"
  shows "xp_allow x \<longleftrightarrow> pd_allow d \<and> (is_owner (en_now env) pid uid c db \<or>
     evalAbacLayer (map (snd \<circ> snd) (normalizePolicyRules (pj_modulePolicies p)))
       (pdp_context pid uid (rs_role (resolved_of (en_now env) pid uid c db)) db) uid s a res rcd = PdpPass
     \<and> visible_record (visibility pid uid res) recordId rcd)"
proof -
  let ?own = "is_owner (en_now env) pid uid c db" and ?res = "resolved_of (en_now env) pid uid c db"
  have ne: "pid \<noteq> []" "uid \<noteq> []" using assms(7) by (auto simp: checkPermissions_def rbind_def rreject_def rfail_def)
  have d: "d = decide_pair ?own ?res (s, a)"
    using check_seeded [OF assms(1,2) ne assms(4,5), of epochOf] assms(7,8) by auto
  have ef: "effective env pid uid db = (Inr ?res, db)" using effective_seeded [OF assms(1,2)] by blast
  have cat: "getCatalog pid db = (Inr c, db)" using assms(2) by (simp add: getCatalog_Inr)
  have pol: "modulePolicyRules pid db = (Inr (normalizePolicyRules (pj_modulePolicies p)), db)"
    using assms(3) by (simp add: modulePolicyRules_def rbind_def rget_def rsome_def rret_def)
  let ?dec = "decideRbac s a (ef_allow (rs_effective ?res), ef_deny (rs_effective ?res)) c"
  note run = assms(6) [unfolded simulateExplain_def rbind_Inr rreject_Inr ef cat pol]
  show ?thesis
  proof (cases ?own)
    case True
    with run ne have "xp_allow x"
      by (auto simp: svc_simps ef is_owner_def explain_def split: if_splits)
    with True d show ?thesis by (simp add: decide_pair_def)
  next
    case False
    then have x: "(if \<not> rd_allow ?dec then rret (explain False (''RBAC_'' @ reason_text (rd_reason ?dec)) [(LRbac, TDeny, False)] (rs_role ?res))
        else case evalAbacLayer (map (snd \<circ> snd) (normalizePolicyRules (pj_modulePolicies p))) (pdp_context pid uid (rs_role ?res) db) uid s a res rcd of
           PdpDeny \<Rightarrow> rret (explain False ''ABAC_DENY'' [(LRbac, TPass, False)] (rs_role ?res))
         | PdpPass \<Rightarrow> rret (visibility_layers (visibility pid uid res) res recordId rcd [(LRbac, TPass, False)] (rs_role ?res))) db = (Inr x, db1)"
      unfolding assms(6) [symmetric] using ne
      by (simp add: simulateExplain_def rbind_def rreject_def rret_def rget_def ef cat pol is_owner_def Let_def)
    have pd: "pd_allow d = rd_allow ?dec" using False d by (simp add: decide_pair_def Let_def)
    show ?thesis
    proof (cases "rd_allow ?dec")
      case False
      with x pd show ?thesis by (simp add: rret_Inr explain_def)
    next
      case True
      with x pd False show ?thesis by (auto simp: rret_Inr explain_def visibility_layers_iff split: pdp_verdict.splits)
    qed
  qed
qed

end
