(* ===== verification/RolesExample.thy ===== *)
theory RolesExample
  imports RolesPdp
begin

text \<open>
  One small project on which the theorems of the roles service and of the decision point are applied:
  an owner, an administrator and a member, an owner role with its one assignment, a custom role, and
  two units that contain each other.
\<close>

subsection \<open>The project\<close>

definition ex_project :: project_row where
  "ex_project = \<lparr>pj_id = ''p'', pj_ownerId = ''org'', pj_modules = Some [''deals''], pj_moduleConfigs = JArr [], pj_modulePolicies = JArr []\<rparr>"

definition ex_catalog :: catalog where
  "ex_catalog = buildProjectCatalogWithSystem (effectiveModules ex_project)"

definition ex_roles :: "role_row list" where
  "ex_roles =
     [\<lparr>ro_id = ''r-owner'', ro_scopeType = ''project'', ro_scopeId = Some ''p'', ro_key = Some ''owner'', ro_name = ''owner'',
       ro_kind = ''system'', ro_isArchived = False, ro_permissions = []\<rparr>,
      \<lparr>ro_id = ''r-team'', ro_scopeType = ''project'', ro_scopeId = Some ''p'', ro_key = None, ro_name = ''team'',
       ro_kind = ''custom'', ro_isArchived = False, ro_permissions = []\<rparr>]"

definition ex_assignments :: "assignment_row list" where
  "ex_assignments = [\<lparr>as_id = ''a1'', as_projectId = ''p'', as_subjectType = ''user'', as_subjectId = ''olga'', as_roleId = ''r-owner'',
     as_scope = ''project'', as_expiresAt = None, as_createdBy = ''olga''\<rparr>]"

definition ex_unit :: "string \<Rightarrow> unit_row" where
  "ex_unit i = \<lparr>un_id = i, un_scopeType = ''PROJECT'', un_scopeId = ''p'', un_archived = False\<rparr>"

definition ex_unit_members :: "unit_member_row list" where
  "ex_unit_members =
     [\<lparr>um_unitId = ''east'', um_memberType = ''user'', um_memberId = ''mia''\<rparr>,
      \<lparr>um_unitId = ''sales'', um_memberType = ''group'', um_memberId = ''east''\<rparr>,
      \<lparr>um_unitId = ''east'', um_memberType = ''group'', um_memberId = ''sales''\<rparr>]"

definition ex_db :: control_db where
  "ex_db = \<lparr>db_projects = [ex_project],
     db_members = [\<lparr>mb_projectId = ''p'', mb_userId = ''adam'', mb_role = ''admin''\<rparr>, \<lparr>mb_projectId = ''p'', mb_userId = ''mia'', mb_role = ''member''\<rparr>],
     db_employees = [], db_units = [ex_unit ''east'', ex_unit ''sales''], db_unitMembers = ex_unit_members, db_bindings = [],
     db_roles = ex_roles, db_assignments = ex_assignments, db_grants = [], db_audit = [],
     db_roleSync = [(''p'', sync_signature ex_catalog, [(Owner, ''r-owner'')], 100)], db_next = 0\<rparr>"

definition ex_ids :: "nat \<Rightarrow> string" where
  "ex_ids n = replicate n CHR ''n''"

definition ex_env :: roles_env where
  "ex_env = \<lparr>en_ids = ex_ids, en_ttl = 60, en_now = 50\<rparr>"

lemma ex_find [simp]: "find_project ''p'' ex_db = Some ex_project"
  by (simp add: find_project_def ex_db_def ex_project_def)

lemma ex_project_catalog [simp]: "project_catalog ''p'' ex_db = Some (buildProjectCatalogWithSystem (effectiveModules ex_project))"
  by (simp add: project_catalog_def)

lemma ex_seeded: "seeded ex_env ''p'' ex_db"
  unfolding seeded_def ex_project_catalog ex_catalog_def [symmetric] option.case sync_current_def
  by (simp add: ex_env_def ex_db_def)

lemma ex_ids_inj: "inj ex_ids"
  by (auto simp: inj_def ex_ids_def dest: arg_cong [where f = length])

lemma ex_ids_new: "ex_ids n \<noteq> ''r-owner''" "ex_ids n \<noteq> ''r-team''" "ex_ids n \<noteq> ''a1''"
  by (cases n; simp add: ex_ids_def)+

lemma ex_units: "userUnitIds ''p'' u ex_db = (if u = ''mia'' then [''east'', ''sales''] else [])"
  by (simp add: userUnitIds_def project_units_def units_members_def ex_db_def ex_unit_def ex_unit_members_def direct_units_def
      parents_of_def MAX_GROUP_DEPTH_def Let_def eval_nat_numeral)

lemma ex_departments: "userDepartmentIds ''p'' u ex_db = []"
  by (simp add: userDepartmentIds_def) (simp add: ex_db_def map_filter_simps)

lemma ex_baseline: "baselineKey ''p'' ''adam'' ex_db = Some Admin" "baselineKey ''p'' ''mia'' ex_db = Some Member"
  by (simp_all add: baselineKey_def ex_db_def opt_role_def role_of_def PROJECT_ROLES_def)

lemma ex_active: "u \<noteq> ''olga'' \<Longrightarrow> active_assignments now ''p'' u ex_db = []"
  unfolding active_assignments_def ex_units ex_departments
  by (simp add: addresses_user_def ex_db_def ex_assignments_def map_filter_simps)

lemma ex_no_grants: "\<forall>g \<in> set (db_grants ex_db). gr_projectId g \<noteq> ''p''"
  by (simp add: ex_db_def)

text \<open>The catalog has the subjects of the engine whatever modules are enabled.\<close>

lemma ex_roles_key: "cat_has (buildProjectCatalogWithSystem ms) ''roles'' ''read''" "cat_has (buildProjectCatalogWithSystem ms) ''roles'' ''manage''"
proof -
  have "listed systemSubjectsCatalog ''roles'' ''read'' \<and> listed systemSubjectsCatalog ''roles'' ''manage''" by code_simp
  then show "cat_has (buildProjectCatalogWithSystem ms) ''roles'' ''read''" "cat_has (buildProjectCatalogWithSystem ms) ''roles'' ''manage''"
    by (simp_all add: project_has_listed project_listed)
qed


subsection \<open>The theorems applied\<close>

theorem user_units_exact_witness:
  "set (userUnitIds ''p'' ''mia'' ex_db) = {u. effective_unit ''p'' ''mia'' ex_db u}
   \<and> userUnitIds ''p'' ''mia'' ex_db = [''east'', ''sales'']"
proof -
  have "length (units_members (project_units ''p'' ex_db) ex_db) \<le> 21 * length (project_units ''p'' ex_db) + 2"
    by (simp add: units_members_def project_units_def ex_db_def ex_unit_def ex_unit_members_def)
  with user_units_exact [of "''p''" "''mia''" ex_db] have "set (userUnitIds ''p'' ''mia'' ex_db) = {u. effective_unit ''p'' ''mia'' ex_db u}" by blast
  then show ?thesis by (simp add: ex_units)
qed

theorem owner_assignment_remains_witness:
  "owner_assignments ''p'' (serve ex_ids 60
     [(50, ''p'', ''adam'', RevokeRole ''a1''), (51, ''p'', ''olga'', GrantRole ''user'' ''mia'' ''r-owner'' [] None),
      (52, ''p'', ''mia'', RevokeRole ''a1'')] ex_db) \<noteq> []"
proof (rule owner_assignment_remains)
  show "ids_ok ex_ids ex_db"
    unfolding ids_ok_def using ex_ids_new by (auto simp: ex_db_def ex_roles_def ex_assignments_def)
  show "owner_assignments ''p'' ex_db \<noteq> []"
    by (simp add: owner_assignments_def owner_role_ids_def is_system_role_def ex_db_def ex_roles_def ex_assignments_def)
qed (rule ex_ids_inj)

abbreviation ex_cat :: catalog where
  "ex_cat \<equiv> buildProjectCatalogWithSystem (effectiveModules ex_project)"

text \<open>What the administrator and the member hold of the role editor.\<close>

lemma ex_roles_grantable: "isProjectGrantablePermission ''roles:read''"
  by (simp add: isProjectGrantablePermission_def parsePermissionKey_def isForbiddenProjectPermission_def Let_def)

lemma ex_admin_holds: "k = ''roles:read'' \<Longrightarrow> k \<in> set (ef_allow (rs_effective (resolved_of now ''p'' ''adam'' ex_cat ex_db)))"
proof -
  assume k: "k = ''roles:read''"
  have "''roles:read'' \<in> set (cat_keys ex_cat)"
    using ex_roles_key(1) [of "effectiveModules ex_project"] by (simp add: cat_has_def cat_hasKey_def permissionKey_def mk_key_def)
  moreover have "permissionKey ''roles'' ''read'' \<in> set (expandSystemRolePermissions Admin ex_cat)"
    unfolding expand_parity [OF ex_roles_key(1)] by code_simp
  then have "holds now ''p'' ''adam'' ex_cat ex_db ''roles:read''"
    using holds_baseline [OF ex_active ex_baseline(1) ex_no_grants] ex_roles_grantable by (simp add: permissionKey_def mk_key_def)
  ultimately show ?thesis unfolding allow_iff k holds_def by blast
qed

lemma ex_effective: "effective ex_env ''p'' u ex_db = (Inr (resolved_of 50 ''p'' u ex_cat ex_db), ex_db)"
  using effective_seeded [OF ex_seeded ex_project_catalog, of u] by (simp add: ex_env_def)

text \<open>The administrator makes a role of what he holds.\<close>

definition ex_request :: role_request where
  "ex_request = CreateRole ''readers'' [''roles:read'']"

lemma ex_validate: "validateRolePermissions ex_env ''p'' ''adam'' [''roles:read''] ex_db = (Inr [''roles:read''], ex_db)"
proof -
  have "cat_hasKey ex_cat ''roles:read''"
    using ex_roles_key(1) [of "effectiveModules ex_project"] by (simp add: cat_has_def permissionKey_def mk_key_def)
  then have "smap (check_key ex_cat) [''roles:read''] = Inr [''roles:read'']"
    using ex_roles_grantable
    by (simp add: check_key_def parsePermissionKey_def normalizeAction_def ACTION_SYNONYMS_def permissionKey_def mk_key_def Let_def)
  moreover have "self_check (resolved_of 50 ''p'' ''adam'' ex_cat ex_db) [''roles:read''] = []"
    unfolding self_check_ok using ex_admin_holds [OF refl, of 50] by (simp add: allow_iff deny_iff)
  moreover have "getCatalog ''p'' ex_db = (Inr ex_cat, ex_db)" by (simp add: getCatalog_Inr)
  ultimately show ?thesis
    by (simp add: validateRolePermissions_def rbind_def ex_effective rreject_def rret_def Let_def js_set_of_def js_add_def)
qed

lemma ex_create: "\<exists>db'. exec ex_env ''p'' ''adam'' ex_request ex_db = (Inr (), db') \<and> same_people ex_db db'
    \<and> db_assignments db' = ex_assignments \<and> db_grants db' = []"
proof -
  have "trim ''readers'' = ''readers''" by code_simp
  moreover have "\<not> name_taken ''p'' ''readers'' None ex_db" by (simp add: name_taken_def ex_db_def ex_roles_def)
  ultimately show ?thesis
    by (simp add: ex_request_def outcome_def createRole_def rbind_def ex_validate rreject_def rret_def rget_def newEntityId_def
        rmod_def audit_def toRoleView_def rsome_def find_role_def same_people_def)
      (simp add: ex_db_def ex_roles_def ex_env_def ex_ids_def rret_def)
qed

theorem role_edits_never_escalate_witness:
  "\<exists>db' after. exec ex_env ''p'' ''adam'' ex_request ex_db = (Inr (), db') \<and> effective ex_env ''p'' ''adam'' db' = (Inr after, db')
     \<and> ''roles:read'' \<in> set (ef_allow (rs_effective after))
     \<and> (''roles:read'' \<in> set (ef_allow (rs_effective (resolved_of 50 ''p'' ''adam'' ex_cat ex_db))) \<or> rs_role (resolved_of 50 ''p'' ''adam'' ex_cat ex_db) = ''owner'')"
proof -
  obtain db' where d: "exec ex_env ''p'' ''adam'' ex_request ex_db = (Inr (), db')" "same_people ex_db db'"
      "db_assignments db' = ex_assignments" "db_grants db' = []"
    using ex_create by blast
  note reads = same_people_reads [OF d(2)]
  have seeded: "seeded ex_env ''p'' db'" and cat: "project_catalog ''p'' db' = Some ex_cat"
    using ex_seeded by (simp_all add: reads)
  have act: "active_assignments 50 ''p'' ''adam'' db' = []"
    by (simp add: active_assignments_def reads ex_units ex_departments d(3) addresses_user_def ex_assignments_def map_filter_simps)
  have base: "baselineKey ''p'' ''adam'' db' = Some Admin" using ex_baseline by (simp add: reads)
  have "permissionKey ''roles'' ''read'' \<in> set (expandSystemRolePermissions Admin ex_cat)"
    unfolding expand_parity [OF ex_roles_key(1)] by code_simp
  then have "holds 50 ''p'' ''adam'' ex_cat db' ''roles:read''"
    using holds_baseline [OF act base] d(4) ex_roles_grantable by (simp add: permissionKey_def mk_key_def)
  moreover have "''roles:read'' \<in> set (cat_keys ex_cat)"
    using ex_roles_key(1) [of "effectiveModules ex_project"] by (simp add: cat_has_def cat_hasKey_def permissionKey_def mk_key_def)
  ultimately have k: "''roles:read'' \<in> set (ef_allow (rs_effective (resolved_of 50 ''p'' ''adam'' ex_cat db')))"
    unfolding allow_iff holds_def by blast
  have ef: "effective ex_env ''p'' ''adam'' db' = (Inr (resolved_of 50 ''p'' ''adam'' ex_cat db'), db')"
    using effective_seeded [OF seeded cat] by (simp add: ex_env_def)
  have "tables_ok ex_db" by (simp add: tables_ok_def ex_db_def ex_assignments_def find_role_def ex_roles_def)
  from role_edits_never_escalate [OF ex_seeded this d(1) _ ex_effective ex_effective ef k]
  show ?thesis using d(1) ef k by (auto simp: ex_request_def)
qed

text \<open>The administrator checks the role editor; the gateway asks the decision point.\<close>

definition ex_epoch :: "string \<Rightarrow> nat" where
  "ex_epoch p = 3"

lemma ex_check: "\<exists>r. checkPermissions ex_env ex_epoch ''p'' u [(s, a)] ex_db = (Inr r, ex_db)
    \<and> pr_decisions r = [decide_pair (is_owner 50 ''p'' u ex_cat ex_db) (resolved_of 50 ''p'' u ex_cat ex_db) (s, a)]"
  if "u \<noteq> []" "s \<noteq> []" "a \<noteq> []" for u s a
  using check_seeded [OF ex_seeded ex_project_catalog _ that, of ex_epoch] by (auto simp: ex_env_def)

theorem baseline_decision_is_flat_matrix_witness:
  "\<exists>r. checkPermissions ex_env ex_epoch ''p'' ''mia'' [(''roles'', ''manage'')] ex_db = (Inr r, ex_db)
     \<and> map pd_allow (pr_decisions r) = [False]"
proof -
  obtain r where r: "checkPermissions ex_env ex_epoch ''p'' ''mia'' [(''roles'', ''manage'')] ex_db = (Inr r, ex_db)"
    using ex_check [of "''mia''" "''roles''" "''manage''"] by auto
  have "map pd_allow (pr_decisions r) = [projectRoleCanKey (Some (role_name Member)) ''roles'' ''manage''
     \<and> isProjectGrantablePermission (permissionKey ''roles'' ''manage'')
     \<and> \<not> (isLowRole Member \<and> ''manage'' = ''export'' \<and> ''roles'' \<in> set ELEVATED_EXPORT_SUBJECTS)]"
    by (rule baseline_decision_is_flat_matrix [OF ex_seeded ex_project_catalog r _ _ ex_active ex_baseline(2) _ ex_no_grants ex_roles_key(2)])
      (simp_all add: normalizeAction_def ACTION_SYNONYMS_def DECORATOR_SUBJECT_MAP_def mk_key_def)
  moreover have "\<not> projectRoleCanKey (Some (role_name Member)) ''roles'' ''manage''" by code_simp
  ultimately show ?thesis using r by auto
qed

theorem gateway_enforces_pdp_witness:
  "vd_applicable (fresh_verdict (sample_control\<lparr>ct_check := check_reply ex_env ex_epoch ex_db\<rparr>) ''p'' ''mia'' (''roles'', ''manage''))
   \<and> \<not> vd_allowed (fresh_verdict (sample_control\<lparr>ct_check := check_reply ex_env ex_epoch ex_db\<rparr>) ''p'' ''mia'' (''roles'', ''manage''))"
proof -
  have d: "resolveDecoratorPermission ''roles'' ''manage'' ex_cat = Some [''roles:manage'']"
    using ex_roles_key(2) [of "effectiveModules ex_project"]
    by (simp add: resolveDecoratorPermission_def DECORATOR_SUBJECT_MAP_def normalizeAction_def ACTION_SYNONYMS_def cat_has_def
        permissionKey_def mk_key_def)
  have "\<not> projectRoleCanKey (Some (role_name Member)) ''roles'' ''manage''" by code_simp
  then have "\<not> holds 50 ''p'' ''mia'' ex_cat ex_db ''roles:manage''"
    using holds_baseline [OF ex_active ex_baseline(2) ex_no_grants] expand_parity [OF ex_roles_key(2), of Member]
    by (simp add: permissionKey_def mk_key_def)
  moreover have "\<not> is_owner 50 ''p'' ''mia'' ex_cat ex_db"
    by (rule member_no_owner [OF ex_active ex_baseline(2)]) simp_all
  ultimately have "\<not> is_owner (en_now ex_env) ''p'' ''mia'' ex_cat ex_db
      \<and> (\<exists>ks. resolveDecoratorPermission ''roles'' ''manage'' ex_cat = Some ks \<and> (\<exists>k \<in> set ks. \<not> holds (en_now ex_env) ''p'' ''mia'' ex_cat ex_db k))"
    by (simp add: d) (simp add: ex_env_def)
  then show ?thesis
    by (subst gateway_enforces_pdp [OF ex_seeded ex_project_catalog, where epochOf = ex_epoch]) simp_all
qed

theorem owner_role_grant_unchecked_witness:
  "\<exists>db' r. exec ex_env ''p'' ''mia'' (GrantRole ''user'' ''mia'' ''r-owner'' [] None) ex_db = (Inr (), db')
     \<and> checkPermissions ex_env ex_epoch ''p'' ''mia'' [(''roles'', ''manage'')] db' = (Inr r, db') \<and> map pd_allow (pr_decisions r) = [True]"
  by (rule owner_role_grant_unchecked [OF ex_seeded, where role = "hd ex_roles"]) (simp_all add: find_role_def ex_db_def ex_roles_def is_system_role_def)

theorem explain_agrees_with_check_witness:
  "\<exists>x. simulateExplain ex_env (\<lambda>_ _ _. \<lparr>va_all = True, va_ownerIds = [], va_sharedRecordIds = []\<rparr>) ''p'' ''adam'' ''roles'' ''read''
     ''roles'' [] None ex_db = (Inr x, ex_db) \<and> xp_allow x"
proof -
  let ?sim = "simulateExplain ex_env (\<lambda>_ _ _. \<lparr>va_all = True, va_ownerIds = [], va_sharedRecordIds = []\<rparr>) ''p'' ''adam'' ''roles'' ''read''
     ''roles'' [] None ex_db"
  have rules: "normalizePolicyRules (pj_modulePolicies ex_project) = []"
    by (simp add: normalizePolicyRules_def ex_project_def arr_of_def map_filter_simps)
  have pass: "evalAbacLayer [] ctx u s a r rcd = PdpPass" for ctx u s a r rcd
    by (simp add: evalAbacLayer_def pdp_applicable_def Let_def)
  have "getCatalog ''p'' ex_db = (Inr ex_cat, ex_db)" "modulePolicyRules ''p'' ex_db = (Inr [], ex_db)"
    by (simp_all add: getCatalog_Inr modulePolicyRules_def rbind_def rget_def rsome_def rret_def rules)
  then have "\<exists>x. ?sim = (Inr x, ex_db)"
    by (simp add: simulateExplain_def rbind_def rreject_def rret_def rget_def ex_effective Let_def pass)
  then obtain x where x: "?sim = (Inr x, ex_db)" ..
  obtain r where r: "checkPermissions ex_env ex_epoch ''p'' ''adam'' [(''roles'', ''read'')] ex_db = (Inr r, ex_db)"
      "pr_decisions r = [decide_pair (is_owner 50 ''p'' ''adam'' ex_cat ex_db) (resolved_of 50 ''p'' ''adam'' ex_cat ex_db) (''roles'', ''read'')]"
    using ex_check [of "''adam''" "''roles''" "''read''"] by auto
  have d: "resolveDecoratorPermission ''roles'' ''read'' ex_cat = Some [''roles:read'']"
    using ex_roles_key(1) [of "effectiveModules ex_project"]
    by (simp add: resolveDecoratorPermission_def DECORATOR_SUBJECT_MAP_def normalizeAction_def ACTION_SYNONYMS_def cat_has_def
        permissionKey_def mk_key_def)
  have "holds 50 ''p'' ''adam'' ex_cat ex_db ''roles:read''"
    using ex_admin_holds [OF refl, of 50] unfolding allow_iff holds_def by blast
  then have "pd_allow (decide_pair (is_owner 50 ''p'' ''adam'' ex_cat ex_db) (resolved_of 50 ''p'' ''adam'' ex_cat ex_db) (''roles'', ''read''))"
    unfolding decide_pair_iff(2) [OF resolved_catalog refl] by (simp add: d)
  with explain_agrees_with_check [OF ex_seeded ex_project_catalog ex_find _ _ x r] x show ?thesis
    by (simp add: rules pass visible_record_def)
qed

end
