(* ===== verification/VisGraph.thy ===== *)
theory VisGraph
  imports RolesUnits
begin

text \<open>
  The group graph behind record visibility
  (\<^verbatim>\<open>control/src/organizations/visibility-resolver.service.ts\<close>): units with their hierarchy and their
  members, loaded from the access units or, before these are backfilled, from departments and
  employees; the walk down group composition that collects users, the subtree and the ancestors of
  units. Each walk is proved against an inductive specification.
\<close>

subsection \<open>Rows\<close>

record vproject_row =
  vp_id :: string
  vp_ownerId :: string
  vp_visibilityConfig :: jsval

record vunit_row =
  vu_id :: string
  vu_scopeType :: string
  vu_scopeId :: string
  vu_parentId :: "string option"
  vu_leaderUserId :: "string option"
  vu_archived :: bool

record department_row =
  dp_id :: string
  dp_organizationId :: string
  dp_parentId :: "string option"
  dp_leaderUserId :: "string option"

record share_row =
  sh_projectId :: string
  sh_resource :: string
  sh_recordId :: string
  sh_granteeType :: string
  sh_granteeId :: string
  sh_expiresAt :: "nat option"

record vis_db =
  vd_members :: "member_row list"
  vd_projects :: "vproject_row list"
  vd_backfilled :: bool
  vd_units :: "vunit_row list"
  vd_unitMembers :: "unit_member_row list"
  vd_employees :: "employee_row list"
  vd_departments :: "department_row list"
  vd_shares :: "share_row list"

subsection \<open>The graph\<close>

text \<open>Of each loaded unit the users and the groups in it; of each user the units he is a direct member of.\<close>

record group_graph =
  gg_units :: "vunit_row list"
  gg_members :: "string \<Rightarrow> (string list \<times> string list) option"
  gg_unitsOfUser :: "string \<Rightarrow> string list"

definition unit_graph :: "vunit_row list \<Rightarrow> unit_member_row list \<Rightarrow> group_graph" where
  "unit_graph us ms =
     (let known = map vu_id us;
          ms' = filter (\<lambda>m. um_unitId m \<in> set known) ms
      in \<lparr>gg_units = us,
          gg_members = (\<lambda>x. if x \<in> set known then Some
             (map um_memberId (filter (\<lambda>m. um_unitId m = x \<and> um_memberType m \<noteq> ''group'') ms'),
              map um_memberId (filter (\<lambda>m. um_unitId m = x \<and> um_memberType m = ''group'') ms')) else None),
          gg_unitsOfUser = (\<lambda>u. map um_unitId (filter (\<lambda>m. um_memberType m \<noteq> ''group'' \<and> um_memberId m = u) ms'))\<rparr>)"

definition loadDepartmentGroupGraph :: "string \<Rightarrow> vis_db \<Rightarrow> group_graph" where
  "loadDepartmentGroupGraph org db =
     (let ds = filter (\<lambda>d. dp_organizationId d = org) (vd_departments db);
          known = map dp_id ds;
          es = List.map_filter (\<lambda>e. map_option (Pair (em_userId e)) (nonempty_id (em_departmentId e)))
                 (filter (\<lambda>e. em_organizationId e = org) (vd_employees db));
          es' = filter (\<lambda>(u, d). d \<in> set known) es
      in \<lparr>gg_units = map (\<lambda>d. \<lparr>vu_id = dp_id d, vu_scopeType = ''ORGANIZATION'', vu_scopeId = org, vu_parentId = dp_parentId d,
             vu_leaderUserId = dp_leaderUserId d, vu_archived = False\<rparr>) ds,
          gg_members = (\<lambda>x. if x \<in> set known then Some (map fst (filter (\<lambda>(u, d). d = x) es'), []) else None),
          gg_unitsOfUser = (\<lambda>u. map snd (filter (\<lambda>(v, d). v = u) es'))\<rparr>)"

definition loadGroupGraph :: "string \<Rightarrow> string \<Rightarrow> vis_db \<Rightarrow> group_graph" where
  "loadGroupGraph org pid db =
     (let us = filter (\<lambda>u. vu_scopeId u \<in> {org, pid} \<and> \<not> vu_archived u) (vd_units db) in
      if vd_backfilled db \<and> us \<noteq> [] then unit_graph us (vd_unitMembers db)
      else loadDepartmentGroupGraph org db)"

text \<open>A later unit of the same id shadows an earlier one.\<close>

definition unit_by_id :: "vunit_row list \<Rightarrow> string \<Rightarrow> vunit_row option" where
  "unit_by_id us x = find (\<lambda>u. vu_id u = x) (rev us)"

subsection \<open>The users of units\<close>

text \<open>One node of the walk per step, with the number of steps left.\<close>

fun users_walk :: "(string \<Rightarrow> bool) \<Rightarrow> (string \<Rightarrow> (string list \<times> string list) option) \<Rightarrow> nat
    \<Rightarrow> string list \<Rightarrow> string list \<Rightarrow> string list \<Rightarrow> string list" where
  "users_walk inScope bucket 0 queue visited into = into"
| "users_walk inScope bucket (Suc n) [] visited into = into"
| "users_walk inScope bucket (Suc n) (x # queue) visited into =
     (if x \<in> set visited then users_walk inScope bucket n queue visited into
      else let visited' = visited @ [x] in
        if \<not> inScope x then users_walk inScope bucket n queue visited' into
        else case bucket x of
            None \<Rightarrow> users_walk inScope bucket n queue visited' into
          | Some (users, groups) \<Rightarrow>
              users_walk inScope bucket n (queue @ filter (\<lambda>c. c \<notin> set visited') groups) visited' (foldl js_add into users))"

definition unit_in_scope :: "vunit_row list \<Rightarrow> string list \<Rightarrow> string \<Rightarrow> bool" where
  "unit_in_scope us scopes x = (case unit_by_id us x of None \<Rightarrow> False | Some u \<Rightarrow> vu_scopeId u \<in> set scopes)"

definition addEffectiveUsers :: "string list \<Rightarrow> group_graph \<Rightarrow> string list \<Rightarrow> string list \<Rightarrow> string list" where
  "addEffectiveUsers seeds g scopes into =
     (if seeds = [] then into
      else users_walk (unit_in_scope (gg_units g) scopes) (gg_members g)
             (length (gg_units g) * (MAX_GROUP_DEPTH + 1) + 2) seeds [] into)"

subsection \<open>Subtrees and ancestors\<close>

definition children_of :: "vunit_row list \<Rightarrow> string \<Rightarrow> string list" where
  "children_of us p = map vu_id (filter (\<lambda>u. nonempty_id (vu_parentId u) = Some p) us)"

lemma children_known: "set (children_of us p) \<subseteq> set (map vu_id us)"
  by (auto simp: children_of_def)

function subtree_walk :: "vunit_row list \<Rightarrow> string list \<Rightarrow> string list \<Rightarrow> string list" where
  "subtree_walk us [] out = out"
| "subtree_walk us (x # queue) out =
     (if x \<in> set out then subtree_walk us queue out
      else subtree_walk us (queue @ children_of us x) (out @ [x]))"
  by pat_completeness auto
termination
proof (relation "measures [\<lambda>(us, q, out). card ((set q \<union> set (map vu_id us)) - set out), \<lambda>(us, q, out). length q]", goal_cases)
  case (2 us x queue out)
  have "(set queue \<union> set (map vu_id us)) - set out \<subseteq> (set (x # queue) \<union> set (map vu_id us)) - set out" by auto
  then have "card ((set queue \<union> set (map vu_id us)) - set out) \<le> card ((set (x # queue) \<union> set (map vu_id us)) - set out)"
    by (intro card_mono) auto
  then show ?case by auto
next
  case (3 us x queue out)
  have "(set (queue @ children_of us x) \<union> set (map vu_id us)) - set (out @ [x]) \<subset> (set (x # queue) \<union> set (map vu_id us)) - set out"
    using 3 children_known [of us x] by auto
  then have "card ((set (queue @ children_of us x) \<union> set (map vu_id us)) - set (out @ [x])) < card ((set (x # queue) \<union> set (map vu_id us)) - set out)"
    by (intro psubset_card_mono) auto
  then show ?case by simp
qed simp

definition collectSubtree :: "vunit_row list \<Rightarrow> string list \<Rightarrow> string list" where
  "collectSubtree us roots = (if roots = [] then [] else subtree_walk us roots [])"

text \<open>The walk up the parents, until there is none or one comes round again.\<close>

definition parent_unit :: "vunit_row list \<Rightarrow> string \<Rightarrow> string option" where
  "parent_unit us x = (case unit_by_id us x of None \<Rightarrow> None | Some u \<Rightarrow> vu_parentId u)"

definition parent_ids :: "vunit_row list \<Rightarrow> string set" where
  "parent_ids us = {p. \<exists>u \<in> set us. vu_parentId u = Some p}"

lemma parent_ids_finite [simp]: "finite (parent_ids us)"
proof -
  have "parent_ids us \<subseteq> the ` vu_parentId ` set us" by (force simp: parent_ids_def)
  then show ?thesis by (rule finite_subset) simp
qed

lemma parent_unit_ids: "parent_unit us x = Some p \<Longrightarrow> p \<in> parent_ids us"
  by (auto simp: parent_unit_def unit_by_id_def parent_ids_def find_Some_iff in_set_conv_nth split: option.splits)
    (metis length_rev nth_mem set_rev)

function ancestors_walk :: "vunit_row list \<Rightarrow> string option \<Rightarrow> string list \<Rightarrow> string list" where
  "ancestors_walk us None guard = guard"
| "ancestors_walk us (Some x) guard =
     (if x = [] \<or> x \<in> set guard then guard else ancestors_walk us (parent_unit us x) (guard @ [x]))"
  by pat_completeness auto
termination
proof (relation "measure (\<lambda>(us, c, guard). card ((set_option c \<union> parent_ids us) - set guard))", goal_cases)
  case (2 us x guard)
  have "set_option (parent_unit us x) \<subseteq> parent_ids us" by (cases "parent_unit us x") (auto dest: parent_unit_ids)
  then have "(set_option (parent_unit us x) \<union> parent_ids us) - set (guard @ [x]) \<subset> (set_option (Some x) \<union> parent_ids us) - set guard"
    using 2 by auto
  then have "card ((set_option (parent_unit us x) \<union> parent_ids us) - set (guard @ [x])) < card ((set_option (Some x) \<union> parent_ids us) - set guard)"
    by (intro psubset_card_mono) auto
  then show ?case by simp
qed simp

definition collectAncestors :: "vunit_row list \<Rightarrow> string \<Rightarrow> string list" where
  "collectAncestors us x = ancestors_walk us (Some x) []"


subsection \<open>What the walk down collects\<close>

definition users_in :: "(string \<Rightarrow> (string list \<times> string list) option) \<Rightarrow> string \<Rightarrow> string list" where
  "users_in bucket x = (case bucket x of None \<Rightarrow> [] | Some (users, groups) \<Rightarrow> users)"

definition groups_in :: "(string \<Rightarrow> (string list \<times> string list) option) \<Rightarrow> string \<Rightarrow> string list" where
  "groups_in bucket x = (case bucket x of None \<Rightarrow> [] | Some (users, groups) \<Rightarrow> groups)"

lemma users_walk_Cons:
  "users_walk S B (Suc n) (x # q) v into =
     (if x \<in> set v then users_walk S B n q v into
      else if \<not> S x then users_walk S B n q (v @ [x]) into
      else users_walk S B n (q @ filter (\<lambda>c. c \<notin> set (v @ [x])) (groups_in B x)) (v @ [x]) (foldl js_add into (users_in B x)))"
  by (cases "B x") (simp_all add: users_in_def groups_in_def Let_def case_prod_beta)

declare users_walk.simps(3) [simp del]

lemma users_walk_sound:
  assumes "y \<in> set (users_walk S B n q v into)" "\<And>x. x \<in> set q \<Longrightarrow> S x \<Longrightarrow> above S (groups_in B) A x"
  shows "y \<in> set into \<or> (\<exists>x. above S (groups_in B) A x \<and> y \<in> set (users_in B x))"
  using assms
proof (induction n arbitrary: q v into)
  case (Suc n)
  show ?case
  proof (cases q)
    case Nil
    with Suc.prems show ?thesis by simp
  next
    case (Cons x q')
    consider (seen) "x \<in> set v" | (out) "x \<notin> set v" "\<not> S x" | (new) "x \<notin> set v" "S x" by blast
    then show ?thesis
    proof cases
      case seen
      with Suc.prems(1) have "y \<in> set (users_walk S B n q' v into)" by (simp add: Cons users_walk_Cons)
      then show ?thesis by (rule Suc.IH) (use Suc.prems(2) Cons in auto)
    next
      case out
      with Suc.prems(1) have "y \<in> set (users_walk S B n q' (v @ [x]) into)" by (simp add: Cons users_walk_Cons)
      then show ?thesis by (rule Suc.IH) (use Suc.prems(2) Cons in auto)
    next
      case new
      have x: "above S (groups_in B) A x" using Suc.prems(2) Cons new by simp
      from new Suc.prems(1) have "y \<in> set (users_walk S B n (q' @ filter (\<lambda>c. c \<notin> set (v @ [x])) (groups_in B x)) (v @ [x]) (foldl js_add into (users_in B x)))"
        by (simp add: Cons users_walk_Cons)
      then have "y \<in> set (foldl js_add into (users_in B x)) \<or> (\<exists>x. above S (groups_in B) A x \<and> y \<in> set (users_in B x))"
        by (rule Suc.IH) (use Suc.prems(2) Cons above.parent [OF x] in auto)
      with x show ?thesis by auto
    qed
  qed
qed simp

lemma users_walk_keeps: "set into \<subseteq> set (users_walk S B n q v into)"
proof (induction S B n q v into rule: users_walk.induct)
  case (3 S B n x q v into)
  then show ?case unfolding users_walk_Cons by (auto simp: groups_in_def users_in_def split: option.splits prod.splits)
qed auto

lemma users_walk_complete:
  assumes "finite U" "\<And>x. S x \<Longrightarrow> x \<in> U"
    and "length q + (\<Sum>u \<in> U - set v. length (groups_in B u)) \<le> n"
    and "\<And>x p. x \<in> set v \<Longrightarrow> S x \<Longrightarrow> p \<in> set (groups_in B x) \<Longrightarrow> S p \<Longrightarrow> p \<in> set v \<union> set q"
    and "\<And>x. x \<in> A \<Longrightarrow> S x \<Longrightarrow> x \<in> set v \<union> set q"
    and "\<And>x y. x \<in> set v \<Longrightarrow> S x \<Longrightarrow> y \<in> set (users_in B x) \<Longrightarrow> y \<in> set into"
    and "above S (groups_in B) A x"
  shows "set (users_in B x) \<subseteq> set (users_walk S B n q v into)"
  using assms(3-)
proof (induction n arbitrary: q v into)
  case (0 q v into)
  then have q: "q = []" by simp
  from "0.prems"(5) have "x \<in> set v \<and> S x"
    by (induction rule: above.induct) (use "0.prems"(2,3) q in auto)
  with "0.prems"(4) show ?case by auto
next
  case (Suc n)
  show ?case
  proof (cases q)
    case Nil
    from Suc.prems(5) have "x \<in> set v \<and> S x"
      by (induction rule: above.induct) (use Suc.prems(2,3) Nil in auto)
    with Suc.prems(4) Nil show ?thesis by auto
  next
    case (Cons y q')
    have shrink: "(\<Sum>u \<in> U - set (v @ [y]). length (groups_in B u)) \<le> (\<Sum>u \<in> U - set v. length (groups_in B u))"
      by (rule sum_mono2) (use assms(1) in auto)
    consider (seen) "y \<in> set v" | (out) "y \<notin> set v" "\<not> S y" | (new) "y \<notin> set v" "S y" by blast
    then show ?thesis
    proof cases
      case seen
      have "set (users_in B x) \<subseteq> set (users_walk S B n q' v into)"
        by (rule Suc.IH) (use Suc.prems Cons seen in auto)
      with seen show ?thesis by (simp add: Cons users_walk_Cons)
    next
      case out
      have "set (users_in B x) \<subseteq> set (users_walk S B n q' (v @ [y]) into)"
      proof (rule Suc.IH)
        show "length q' + (\<Sum>u \<in> U - set (v @ [y]). length (groups_in B u)) \<le> n" using Suc.prems(1) Cons shrink by simp
      qed (use Suc.prems(2-) Cons out in auto)
      with out show ?thesis by (simp add: Cons users_walk_Cons)
    next
      case new
      let ?q = "q' @ filter (\<lambda>c. c \<notin> set (v @ [y])) (groups_in B y)"
      have "y \<in> U - set v" using assms(2) new by blast
      moreover have "U - set v - {y} = U - set (v @ [y])" by auto
      ultimately have "(\<Sum>u \<in> U - set v. length (groups_in B u)) = length (groups_in B y) + (\<Sum>u \<in> U - set (v @ [y]). length (groups_in B u))"
        using assms(1) sum.remove [of "U - set v" y "\<lambda>u. length (groups_in B u)"] by simp
      moreover have "length ?q \<le> length q' + length (groups_in B y)" by (simp only: length_append length_filter_le add_le_mono le_refl)
      ultimately have n: "length ?q + (\<Sum>u \<in> U - set (v @ [y]). length (groups_in B u)) \<le> n"
        using Suc.prems(1) [unfolded Cons length_Cons] by linarith
      have "set (users_in B x) \<subseteq> set (users_walk S B n ?q (v @ [y]) (foldl js_add into (users_in B y)))"
        by (rule Suc.IH [OF n]) (use Suc.prems(2-) Cons new in auto)
      with new show ?thesis by (simp add: Cons users_walk_Cons)
    qed
  qed
qed

subsection \<open>What the subtree and the ancestors are\<close>

inductive sub_unit :: "vunit_row list \<Rightarrow> string set \<Rightarrow> string \<Rightarrow> bool" for us roots where
  root: "x \<in> roots \<Longrightarrow> sub_unit us roots x"
| child: "sub_unit us roots p \<Longrightarrow> u \<in> set us \<Longrightarrow> vu_parentId u = Some p \<Longrightarrow> p \<noteq> [] \<Longrightarrow> sub_unit us roots (vu_id u)"

lemma children_iff: "y \<in> set (children_of us p) \<longleftrightarrow> p \<noteq> [] \<and> (\<exists>u \<in> set us. vu_id u = y \<and> vu_parentId u = Some p)"
  by (auto simp: children_of_def nonempty_id_def split: option.splits if_splits)

lemma subtree_walk_spec:
  assumes "\<And>x. x \<in> set out \<union> set q \<Longrightarrow> sub_unit us R x" "R \<subseteq> set out \<union> set q" "distinct out"
    and "\<And>x. x \<in> set out \<Longrightarrow> set (children_of us x) \<subseteq> set out \<union> set q"
  shows "set (subtree_walk us q out) = {x. sub_unit us R x} \<and> distinct (subtree_walk us q out)"
  using assms
proof (induction us q out rule: subtree_walk.induct)
  case (1 us out)
  have "x \<in> set out" if "sub_unit us R x" for x
    using that
  proof induction
    case (root x)
    with "1.prems"(2) show ?case by auto
  next
    case (child p u)
    then have "vu_id u \<in> set (children_of us p)" by (auto simp: children_iff)
    with child.IH "1.prems"(4) show ?case by auto
  qed
  with "1.prems" show ?case by auto
next
  case (2 us x q out)
  show ?case
  proof (cases "x \<in> set out")
    case True
    have "set (subtree_walk us q out) = {x. sub_unit us R x} \<and> distinct (subtree_walk us q out)"
      by (rule "2.IH"(1) [OF True]) (use "2.prems" True in auto)
    with True show ?thesis by simp
  next
    case False
    have kids: "sub_unit us R y" if "y \<in> set (children_of us x)" for y
      using that sub_unit.child [of us R x] "2.prems"(1) [of x] by (auto simp: children_iff)
    have "set (subtree_walk us (q @ children_of us x) (out @ [x])) = {x. sub_unit us R x}
        \<and> distinct (subtree_walk us (q @ children_of us x) (out @ [x]))"
      by (rule "2.IH"(2) [OF False]) (use "2.prems" False kids in auto)
    with False show ?thesis by simp
  qed
qed

lemma collectSubtree_spec: "set (collectSubtree us roots) = {x. sub_unit us (set roots) x}" "distinct (collectSubtree us roots)"
proof -
  have none: "\<not> sub_unit us {} x" for x
  proof
    assume "sub_unit us {} x" then show False by induction auto
  qed
  have "set (subtree_walk us roots []) = {x. sub_unit us (set roots) x} \<and> distinct (subtree_walk us roots [])"
    by (rule subtree_walk_spec) (auto intro: sub_unit.root)
  with none show "set (collectSubtree us roots) = {x. sub_unit us (set roots) x}" "distinct (collectSubtree us roots)"
    by (auto simp: collectSubtree_def)
qed

inductive super_unit :: "vunit_row list \<Rightarrow> string \<Rightarrow> string \<Rightarrow> bool" for us start where
  self: "start \<noteq> [] \<Longrightarrow> super_unit us start start"
| up: "super_unit us start x \<Longrightarrow> parent_unit us x = Some p \<Longrightarrow> p \<noteq> [] \<Longrightarrow> super_unit us start p"

lemma ancestors_walk_spec:
  assumes "\<And>x. x \<in> set guard \<Longrightarrow> super_unit us start x" "\<And>x. c = Some x \<Longrightarrow> x \<noteq> [] \<Longrightarrow> super_unit us start x"
    and "start \<noteq> [] \<Longrightarrow> start \<in> set guard \<or> c = Some start"
    and "\<And>x p. x \<in> set guard \<Longrightarrow> parent_unit us x = Some p \<Longrightarrow> p \<noteq> [] \<Longrightarrow> p \<in> set guard \<or> c = Some p"
  shows "set (ancestors_walk us c guard) = {x. super_unit us start x}"
  using assms
proof (induction us c guard rule: ancestors_walk.induct)
  case (1 us guard)
  have "x \<in> set guard" if "super_unit us start x" for x
    using that by induction (use "1.prems"(3,4) in auto)
  with "1.prems"(1) show ?case by auto
next
  case (2 us x guard)
  show ?case
  proof (cases "x = [] \<or> x \<in> set guard")
    case True
    have "y \<in> set guard" if "super_unit us start y" for y
      using that by induction (use "2.prems"(3,4) True in auto)
    with "2.prems"(1) True show ?thesis by auto
  next
    case False
    have x: "super_unit us start x" using "2.prems"(2) False by simp
    have "set (ancestors_walk us (parent_unit us x) (guard @ [x])) = {x. super_unit us start x}"
      by (rule "2.IH" [OF False]) (use "2.prems" False x super_unit.up [OF x] in auto)
    with False show ?thesis by simp
  qed
qed

lemma collectAncestors_spec: "set (collectAncestors us x) = {y. super_unit us x y}"
  unfolding collectAncestors_def by (rule ancestors_walk_spec) (auto intro: super_unit.self)

end
