(* ===== verification/VisResolver.thy ===== *)
theory VisResolver
  imports VisGraph VisFilter
begin

text \<open>
  The record visibility of a user in a project, resolved in control
  (\<^verbatim>\<open>control/src/organizations/visibility-resolver.service.ts\<close>): the policy of his role is expanded over
  the group graph into owners, departments and shared records, or, when the lists are too long for the
  metadata, into a descriptor. The clock is an argument.
\<close>

record resolved_vis =
  rv_allowed :: bool
  rv_role :: string
  rv_level :: scope_level
  rv_mode :: scope_mode
  rv_ownerIds :: "string list"
  rv_sharedRecordIds :: "string list"
  rv_viewerDepartmentIds :: "string list"
  rv_departmentIds :: "string list"
  rv_deferred :: bool
  rv_descriptor :: "vis_descriptor option"
  rv_viewerUnitIds :: "string list option"

definition vis_denied :: resolved_vis where
  "vis_denied = \<lparr>rv_allowed = False, rv_role = [], rv_level = Lvl OnlyOwn, rv_mode = ModeRestricted, rv_ownerIds = [],
     rv_sharedRecordIds = [], rv_viewerDepartmentIds = [], rv_departmentIds = [], rv_deferred = False, rv_descriptor = None,
     rv_viewerUnitIds = None\<rparr>"

definition diagnosticLevel :: "string \<Rightarrow> vis_level config \<Rightarrow> scope_level" where
  "diagnosticLevel role legacy =
     (case (case role_of role of None \<Rightarrow> None | Some r \<Rightarrow> map_of legacy r) of
        Some l \<Rightarrow> Lvl l
      | None \<Rightarrow> Lvl (effectiveVisibilityLevel (Some role) legacy))"

fun rule_kind :: "vis_rule \<Rightarrow> string" where
  "rule_kind ROwn = ''own''"
| "rule_kind ROwnGroups = ''own_groups''"
| "rule_kind (ROwnSubgroups _) = ''own_subgroups''"
| "rule_kind (RSelectedGroups _) = ''selected_groups''"
| "rule_kind RAll = ''all''"

definition led_units :: "vunit_row list \<Rightarrow> string \<Rightarrow> string list" where
  "led_units us uid = map vu_id (filter (\<lambda>u. vu_leaderUserId u = Some uid) us)"

subsection \<open>Expanding the rules\<close>

record expansion =
  ex_ownerIds :: "string list"
  ex_departmentIds :: "string list"
  ex_ruleKinds :: "string list"
  ex_selectedGroupIds :: "string list"
  ex_usedLed :: bool

text \<open>The units a rule starts from.\<close>

fun rule_seeds :: "group_graph \<Rightarrow> string list \<Rightarrow> string \<Rightarrow> vis_rule \<Rightarrow> string list" where
  "rule_seeds g scopes uid ROwnGroups = gg_unitsOfUser g uid"
| "rule_seeds g scopes uid (ROwnSubgroups Led) = collectSubtree (gg_units g) (led_units (gg_units g) uid)"
| "rule_seeds g scopes uid (ROwnSubgroups MemberOf) = collectSubtree (gg_units g) (gg_unitsOfUser g uid)"
| "rule_seeds g scopes uid (RSelectedGroups gs) = filter (unit_in_scope (gg_units g) scopes) gs"
| "rule_seeds g scopes uid _ = []"

definition expand_rule :: "group_graph \<Rightarrow> string list \<Rightarrow> string \<Rightarrow> expansion \<Rightarrow> vis_rule \<Rightarrow> expansion" where
  "expand_rule g scopes uid st r =
     (let seeds = rule_seeds g scopes uid r in
      st\<lparr>ex_ownerIds := addEffectiveUsers seeds g scopes (ex_ownerIds st),
         ex_departmentIds := foldl js_add (ex_departmentIds st) seeds,
         ex_ruleKinds := ex_ruleKinds st @ [rule_kind r],
         ex_selectedGroupIds := (case r of RSelectedGroups _ \<Rightarrow> foldl js_add (ex_selectedGroupIds st) seeds | _ \<Rightarrow> ex_selectedGroupIds st),
         ex_usedLed := (ex_usedLed st \<or> r = ROwnSubgroups Led)\<rparr>)"

definition expand_rules :: "group_graph \<Rightarrow> string list \<Rightarrow> string \<Rightarrow> vis_rule list \<Rightarrow> expansion" where
  "expand_rules g scopes uid rs =
     foldl (expand_rule g scopes uid)
       \<lparr>ex_ownerIds = [uid], ex_departmentIds = [], ex_ruleKinds = [], ex_selectedGroupIds = [], ex_usedLed = False\<rparr> rs"

subsection \<open>Shared records\<close>

definition share_reaches :: "string \<Rightarrow> string list \<Rightarrow> share_row \<Rightarrow> bool" where
  "share_reaches uid chain s \<longleftrightarrow>
     sh_granteeType s = ''user'' \<and> sh_granteeId s = uid
     \<or> (sh_granteeType s = ''department'' \<or> sh_granteeType s = ''unit'') \<and> sh_granteeId s \<in> set chain"

definition shared_record_ids :: "nat \<Rightarrow> vis_db \<Rightarrow> string \<Rightarrow> string \<Rightarrow> string \<Rightarrow> string list \<Rightarrow> vunit_row list \<Rightarrow> string list" where
  "shared_record_ids now db pid res uid viewerUnits us =
     (if res = [] then []
      else let chain = foldl js_add [] (concat (map (collectAncestors us) viewerUnits)) in
        js_set_of (map sh_recordId (filter (\<lambda>s. sh_projectId s = pid \<and> sh_resource s = res \<and> share_reaches uid chain s
           \<and> (case sh_expiresAt s of None \<Rightarrow> True | Some t \<Rightarrow> t > now)) (vd_shares db))))"

subsection \<open>The resolver\<close>

definition resolve :: "nat \<Rightarrow> nat \<Rightarrow> vis_db \<Rightarrow> string \<Rightarrow> string \<Rightarrow> string \<Rightarrow> bool \<Rightarrow> resolved_vis" where
  "resolve maxInline now db pid uid res inline =
     (if pid = [] \<or> uid = [] then vis_denied
      else case find (\<lambda>m. mb_projectId m = pid \<and> mb_userId m = uid) (vd_members db) of
        None \<Rightarrow> vis_denied
      | Some m \<Rightarrow>
      (case find (\<lambda>p. vp_id p = pid) (vd_projects db) of
        None \<Rightarrow> vis_denied
      | Some p \<Rightarrow>
         (let role = mb_role m;
              config = normalizeVisibilityConfigV2 (vp_visibilityConfig p);
              policy = effectiveVisibilityPolicy (Some role) config;
              lv = diagnosticLevel role (normalizeVisibilityConfig (vp_visibilityConfig p));
              sharing = visibilityPolicyUsesSharing (Some role) config;
              strict = (lv = Lvl OnlyOwn)
          in if RAll \<in> set (rules policy)
             then \<lparr>rv_allowed = True, rv_role = role, rv_level = lv, rv_mode = ModeAll, rv_ownerIds = [], rv_sharedRecordIds = [],
                   rv_viewerDepartmentIds = [], rv_departmentIds = [], rv_deferred = False, rv_descriptor = None, rv_viewerUnitIds = None\<rparr>
             else
               let org = vp_ownerId p;
                   g = loadGroupGraph org pid db;
                   e = expand_rules g [pid, org] uid (rules policy);
                   viewer = gg_unitsOfUser g uid;
                   shared = (if strict \<or> \<not> sharing then [] else shared_record_ids now db pid res uid viewer (gg_units g))
               in if \<not> inline \<and> visibilityScopeExpandedSize (ex_ownerIds e) shared > maxInline
                  then \<lparr>rv_allowed = True, rv_role = role, rv_level = lv, rv_mode = ModeRestricted, rv_ownerIds = [],
                        rv_sharedRecordIds = [], rv_viewerDepartmentIds = viewer, rv_departmentIds = [], rv_deferred = True,
                        rv_descriptor = Some \<lparr>unitIds = viewer,
                          ledUnitIds = (if ex_usedLed e then led_units (gg_units g) uid else []),
                          selectedGroupIds = ex_selectedGroupIds e, ruleKinds = ex_ruleKinds e,
                          usesSharing = (\<not> strict \<and> sharing), orgId = org\<rparr>,
                        rv_viewerUnitIds = Some viewer\<rparr>
                  else \<lparr>rv_allowed = True, rv_role = role, rv_level = lv, rv_mode = ModeRestricted, rv_ownerIds = ex_ownerIds e,
                        rv_sharedRecordIds = shared, rv_viewerDepartmentIds = viewer, rv_departmentIds = ex_departmentIds e,
                        rv_deferred = False, rv_descriptor = None, rv_viewerUnitIds = Some viewer\<rparr>)))"

text \<open>The reply of the gRPC method.\<close>

definition wire_descriptor :: "vis_descriptor \<Rightarrow> jsval" where
  "wire_descriptor d = JObj [(''unit_ids'', strs_js (unitIds d)), (''led_unit_ids'', strs_js (ledUnitIds d)),
     (''selected_group_ids'', strs_js (selectedGroupIds d)), (''rule_kinds'', strs_js (ruleKinds d)),
     (''uses_sharing'', JBool (usesSharing d)), (''org_id'', JStr (orgId d))]"

definition visibility_reply :: "nat \<Rightarrow> resolved_vis \<Rightarrow> jsval" where
  "visibility_reply ep r =
     JObj ([(''allowed'', JBool (rv_allowed r)), (''role'', JStr (rv_role r)), (''level'', level_js (rv_level r)),
            (''mode'', mode_js (rv_mode r)), (''owner_ids'', strs_js (rv_ownerIds r)),
            (''shared_record_ids'', strs_js (rv_sharedRecordIds r)),
            (''viewer_department_ids'', strs_js (rv_viewerDepartmentIds r)), (''department_ids'', strs_js (rv_departmentIds r)),
            (''epoch'', JNum (of_nat ep)), (''deferred'', JBool (rv_deferred r))]
         @ opt_field ''descriptor'' wire_descriptor (rv_descriptor r)
         @ [(''viewer_unit_ids'', strs_js (case rv_viewerUnitIds r of None \<Rightarrow> [] | Some us \<Rightarrow> us))])"

subsection \<open>What it resolves to\<close>

text \<open>The units a rule speaks of, and the users in reach of a policy.\<close>

fun rule_units :: "group_graph \<Rightarrow> string list \<Rightarrow> string \<Rightarrow> vis_rule \<Rightarrow> string set" where
  "rule_units g scopes uid ROwnGroups = set (gg_unitsOfUser g uid)"
| "rule_units g scopes uid (ROwnSubgroups Led) = {x. sub_unit (gg_units g) (vu_id ` {u \<in> set (gg_units g). vu_leaderUserId u = Some uid}) x}"
| "rule_units g scopes uid (ROwnSubgroups MemberOf) = {x. sub_unit (gg_units g) (set (gg_unitsOfUser g uid)) x}"
| "rule_units g scopes uid (RSelectedGroups gs) = {x \<in> set gs. unit_in_scope (gg_units g) scopes x}"
| "rule_units g scopes uid _ = {}"

definition in_reach :: "group_graph \<Rightarrow> string list \<Rightarrow> string \<Rightarrow> vis_rule list \<Rightarrow> string \<Rightarrow> bool" where
  "in_reach g scopes uid rs v \<longleftrightarrow> v = uid \<or>
     (\<exists>r \<in> set rs. \<exists>x. above (unit_in_scope (gg_units g) scopes) (groups_in (gg_members g)) (rule_units g scopes uid r) x
        \<and> v \<in> set (users_in (gg_members g) x))"

definition units_in_reach :: "group_graph \<Rightarrow> string list \<Rightarrow> string \<Rightarrow> vis_rule list \<Rightarrow> string set" where
  "units_in_reach g scopes uid rs = (\<Union>r \<in> set rs. rule_units g scopes uid r)"

lemma rule_seeds_set: "set (rule_seeds g scopes uid r) = rule_units g scopes uid r"
  by (cases "(g, scopes, uid, r)" rule: rule_seeds.cases) (auto simp: collectSubtree_spec led_units_def)

text \<open>The step limit of the walk, 21 steps per unit and two more, is enough for the start units and every group row.\<close>

definition walk_fits :: "group_graph \<Rightarrow> string list \<Rightarrow> bool" where
  "walk_fits g seeds \<longleftrightarrow>
     length seeds + (\<Sum>x \<in> set (map vu_id (gg_units g)). length (groups_in (gg_members g) x)) \<le> 21 * length (gg_units g) + 2"

lemma unit_by_id_known: "unit_by_id us x = Some u \<Longrightarrow> u \<in> set us \<and> vu_id u = x"
  by (auto simp: unit_by_id_def find_Some_iff) (metis length_rev nth_mem set_rev)

lemma in_scope_known: "unit_in_scope us scopes x \<Longrightarrow> \<exists>u \<in> set us. vu_id u = x \<and> vu_scopeId u \<in> set scopes"
  by (auto simp: unit_in_scope_def dest!: unit_by_id_known split: option.splits)

lemma effective_users_sound:
  "y \<in> set (addEffectiveUsers seeds g scopes into) \<Longrightarrow>
     y \<in> set into \<or> (\<exists>x. above (unit_in_scope (gg_units g) scopes) (groups_in (gg_members g)) (set seeds) x \<and> y \<in> set (users_in (gg_members g) x))"
  unfolding addEffectiveUsers_def
  by (cases "seeds = []") (auto dest!: users_walk_sound [where A = "set seeds"] intro: above.seed)

lemma effective_users_keeps: "set into \<subseteq> set (addEffectiveUsers seeds g scopes into)"
  unfolding addEffectiveUsers_def using users_walk_keeps by auto

lemma effective_users_complete:
  assumes "walk_fits g seeds" "above (unit_in_scope (gg_units g) scopes) (groups_in (gg_members g)) (set seeds) x"
  shows "set (users_in (gg_members g) x) \<subseteq> set (addEffectiveUsers seeds g scopes into)"
proof -
  have "seeds \<noteq> []"
  proof
    assume "seeds = []"
    then have "above (unit_in_scope (gg_units g) scopes) (groups_in (gg_members g)) {} x" using assms(2) by simp
    then show False by induction auto
  qed
  moreover have "set (users_in (gg_members g) x) \<subseteq> set (users_walk (unit_in_scope (gg_units g) scopes) (gg_members g)
     (length (gg_units g) * (MAX_GROUP_DEPTH + 1) + 2) seeds [] into)"
  proof (rule users_walk_complete [where U = "set (map vu_id (gg_units g))" and A = "set seeds"])
    show "length seeds + (\<Sum>u \<in> set (map vu_id (gg_units g)) - set []. length (groups_in (gg_members g) u)) \<le> length (gg_units g) * (MAX_GROUP_DEPTH + 1) + 2"
      using assms(1) by (simp add: walk_fits_def MAX_GROUP_DEPTH_def)
  qed (use assms(2) in \<open>auto dest: in_scope_known\<close>)
  ultimately show ?thesis by (simp add: addEffectiveUsers_def)
qed

lemma expand_fold:
  shows "set (ex_ownerIds st) \<subseteq> set (ex_ownerIds (foldl (expand_rule g scopes uid) st rs))"
    and "y \<in> set (ex_ownerIds (foldl (expand_rule g scopes uid) st rs)) \<Longrightarrow> y \<in> set (ex_ownerIds st) \<or> (\<exists>r \<in> set rs. \<exists>x. above (unit_in_scope (gg_units g) scopes)
           (groups_in (gg_members g)) (rule_units g scopes uid r) x \<and> y \<in> set (users_in (gg_members g) x))"
    and "r \<in> set rs \<Longrightarrow> walk_fits g (rule_seeds g scopes uid r) \<Longrightarrow> above (unit_in_scope (gg_units g) scopes)
           (groups_in (gg_members g)) (rule_units g scopes uid r) x \<Longrightarrow> set (users_in (gg_members g) x) \<subseteq> set (ex_ownerIds (foldl (expand_rule g scopes uid) st rs))"
    and "set (ex_departmentIds (foldl (expand_rule g scopes uid) st rs)) = set (ex_departmentIds st) \<union> units_in_reach g scopes uid rs"
proof (induction rs arbitrary: st)
  case (Cons r0 rs)
  { case 1 then show ?case
      using Cons.IH(1) [of "expand_rule g scopes uid st r0"] effective_users_keeps
      by (fastforce simp: expand_rule_def Let_def)
  next
    case 2
    then have "y \<in> set (ex_ownerIds (expand_rule g scopes uid st r0)) \<or> (\<exists>r \<in> set rs. \<exists>x. above (unit_in_scope (gg_units g) scopes)
           (groups_in (gg_members g)) (rule_units g scopes uid r) x \<and> y \<in> set (users_in (gg_members g) x))"
      using Cons.IH(2) by simp
    then show ?case
      using effective_users_sound [of y "rule_seeds g scopes uid r0" g scopes "ex_ownerIds st"]
      by (auto simp: expand_rule_def Let_def rule_seeds_set)
  next
    case 3
    show ?case
    proof (cases "r \<in> set rs")
      case True
      with 3 Cons.IH(3) show ?thesis by simp
    next
      case False
      with 3 have "set (users_in (gg_members g) x) \<subseteq> set (ex_ownerIds (expand_rule g scopes uid st r0))"
        using effective_users_complete [of g "rule_seeds g scopes uid r0" scopes x] by (simp add: expand_rule_def Let_def rule_seeds_set)
      with Cons.IH(1) [of "expand_rule g scopes uid st r0"] show ?thesis by simp
    qed
  next
    case 4
    then show ?case using Cons.IH(4) [of "expand_rule g scopes uid st r0"]
      by (auto simp: expand_rule_def Let_def rule_seeds_set units_in_reach_def)
  }
qed (simp_all add: units_in_reach_def)

lemma expand_owners:
  "set (ex_ownerIds (expand_rules g scopes uid rs)) \<subseteq> {v. in_reach g scopes uid rs v}"
  "\<forall>r \<in> set rs. walk_fits g (rule_seeds g scopes uid r) \<Longrightarrow> set (ex_ownerIds (expand_rules g scopes uid rs)) = {v. in_reach g scopes uid rs v}"
  "set (ex_departmentIds (expand_rules g scopes uid rs)) = units_in_reach g scopes uid rs"
proof -
  note f = expand_fold [where st = "\<lparr>ex_ownerIds = [uid], ex_departmentIds = [], ex_ruleKinds = [], ex_selectedGroupIds = [], ex_usedLed = False\<rparr>"
      and g = g and scopes = scopes and uid = uid and rs = rs]
  show "set (ex_ownerIds (expand_rules g scopes uid rs)) \<subseteq> {v. in_reach g scopes uid rs v}"
    unfolding expand_rules_def in_reach_def using f(2) by fastforce
  moreover assume "\<forall>r \<in> set rs. walk_fits g (rule_seeds g scopes uid r)"
  then have "{v. in_reach g scopes uid rs v} \<subseteq> set (ex_ownerIds (expand_rules g scopes uid rs))"
    unfolding expand_rules_def in_reach_def using f(1,3) by fastforce
  ultimately show "set (ex_ownerIds (expand_rules g scopes uid rs)) = {v. in_reach g scopes uid rs v}" by blast
next
  show "set (ex_departmentIds (expand_rules g scopes uid rs)) = units_in_reach g scopes uid rs"
    unfolding expand_rules_def by (simp add: expand_fold(4))
qed


text \<open>The records of a resource shared with the user, or with a unit he is in or a unit above it, at a time.\<close>

definition shared_with :: "nat \<Rightarrow> vis_db \<Rightarrow> string \<Rightarrow> string \<Rightarrow> string \<Rightarrow> group_graph \<Rightarrow> string \<Rightarrow> bool" where
  "shared_with now db pid res uid g i \<longleftrightarrow> res \<noteq> [] \<and>
     (\<exists>s \<in> set (vd_shares db). sh_recordId s = i \<and> sh_projectId s = pid \<and> sh_resource s = res
        \<and> (case sh_expiresAt s of None \<Rightarrow> True | Some t \<Rightarrow> t > now)
        \<and> (sh_granteeType s = ''user'' \<and> sh_granteeId s = uid
           \<or> sh_granteeType s \<in> {''department'', ''unit''}
             \<and> (\<exists>u \<in> set (gg_unitsOfUser g uid). super_unit (gg_units g) u (sh_granteeId s))))"

lemma shared_ids_spec:
  "set (shared_record_ids now db pid res uid (gg_unitsOfUser g uid) (gg_units g)) = {i. shared_with now db pid res uid g i}"
proof -
  have "x \<in> set (foldl js_add [] (concat (map (collectAncestors (gg_units g)) (gg_unitsOfUser g uid))))
      \<longleftrightarrow> (\<exists>u \<in> set (gg_unitsOfUser g uid). super_unit (gg_units g) u x)" for x
    by (simp add: collectAncestors_spec)
  then show ?thesis
    by (auto simp: shared_record_ids_def shared_with_def share_reaches_def Let_def simp del: set_foldl_js_add)
qed

text \<open>Whether shares count for the role under the configuration of the project.\<close>

definition shares_count :: "string \<Rightarrow> jsval \<Rightarrow> bool" where
  "shares_count role config \<longleftrightarrow> diagnosticLevel role (normalizeVisibilityConfig config) \<noteq> Lvl OnlyOwn
     \<and> visibilityPolicyUsesSharing (Some role) (normalizeVisibilityConfigV2 config)"

abbreviation viewer_rules :: "string \<Rightarrow> jsval \<Rightarrow> vis_rule list" where
  "viewer_rules role config \<equiv> rules (effectiveVisibilityPolicy (Some role) (normalizeVisibilityConfigV2 config))"

lemma resolve_member:
  assumes "pid \<noteq> []" "uid \<noteq> []" "find (\<lambda>m. mb_projectId m = pid \<and> mb_userId m = uid) (vd_members db) = Some m"
    and "find (\<lambda>p. vp_id p = pid) (vd_projects db) = Some p" "g = loadGroupGraph (vp_ownerId p) pid db"
    and "e = expand_rules g [pid, vp_ownerId p] uid (viewer_rules (mb_role m) (vp_visibilityConfig p))"
    and "shared = (if shares_count (mb_role m) (vp_visibilityConfig p)
        then shared_record_ids now db pid res uid (gg_unitsOfUser g uid) (gg_units g) else [])"
    and "r = resolve mx now db pid uid res inline"
  shows "rv_allowed r" "rv_role r = mb_role m"
    and "rv_mode r = (if RAll \<in> set (viewer_rules (mb_role m) (vp_visibilityConfig p)) then ModeAll else ModeRestricted)"
    and "rv_deferred r \<longleftrightarrow> rv_mode r = ModeRestricted \<and> \<not> inline \<and> length (ex_ownerIds e) + length shared > mx"
    and "rv_mode r = ModeRestricted \<Longrightarrow> \<not> rv_deferred r \<Longrightarrow> rv_ownerIds r = ex_ownerIds e \<and> rv_sharedRecordIds r = shared
      \<and> rv_departmentIds r = ex_departmentIds e"
    and "rv_deferred r \<Longrightarrow> rv_descriptor r \<noteq> None"
    and "rv_mode r = ModeRestricted \<Longrightarrow> rv_viewerDepartmentIds r = gg_unitsOfUser g uid \<and> rv_viewerUnitIds r = Some (gg_unitsOfUser g uid)"
    and "rv_level r = diagnosticLevel (mb_role m) (normalizeVisibilityConfig (vp_visibilityConfig p))"
    and "rv_deferred r \<Longrightarrow> rv_departmentIds r = []"
proof -
  have sh: "shared = (if diagnosticLevel (mb_role m) (normalizeVisibilityConfig (vp_visibilityConfig p)) = Lvl OnlyOwn
      \<or> \<not> visibilityPolicyUsesSharing (Some (mb_role m)) (normalizeVisibilityConfigV2 (vp_visibilityConfig p)) then []
      else shared_record_ids now db pid res uid (gg_unitsOfUser g uid) (gg_units g))"
    using assms(7) by (simp add: shares_count_def)
  note r = assms(8) [unfolded resolve_def assms(3,4) option.case Let_def, folded assms(5), folded assms(6), folded sh]
  show "rv_allowed r" "rv_role r = mb_role m"
    "rv_mode r = (if RAll \<in> set (viewer_rules (mb_role m) (vp_visibilityConfig p)) then ModeAll else ModeRestricted)"
    "rv_deferred r \<longleftrightarrow> rv_mode r = ModeRestricted \<and> \<not> inline \<and> length (ex_ownerIds e) + length shared > mx"
    "rv_mode r = ModeRestricted \<Longrightarrow> \<not> rv_deferred r \<Longrightarrow> rv_ownerIds r = ex_ownerIds e \<and> rv_sharedRecordIds r = shared
      \<and> rv_departmentIds r = ex_departmentIds e"
    "rv_deferred r \<Longrightarrow> rv_descriptor r \<noteq> None"
    "rv_mode r = ModeRestricted \<Longrightarrow> rv_viewerDepartmentIds r = gg_unitsOfUser g uid \<and> rv_viewerUnitIds r = Some (gg_unitsOfUser g uid)"
    "rv_level r = diagnosticLevel (mb_role m) (normalizeVisibilityConfig (vp_visibilityConfig p))"
    "rv_deferred r \<Longrightarrow> rv_departmentIds r = []"
    unfolding r using assms(1,2) by (auto simp: visibilityScopeExpandedSize_def split: if_splits)
qed

lemma visibility_exact:
  assumes "pid \<noteq> []" "uid \<noteq> []" "find (\<lambda>m. mb_projectId m = pid \<and> mb_userId m = uid) (vd_members db) = Some m"
    and "find (\<lambda>p. vp_id p = pid) (vd_projects db) = Some p" "RAll \<notin> set (viewer_rules (mb_role m) (vp_visibilityConfig p))"
    and "\<forall>rule \<in> set (viewer_rules (mb_role m) (vp_visibilityConfig p)). walk_fits (loadGroupGraph (vp_ownerId p) pid db)
        (rule_seeds (loadGroupGraph (vp_ownerId p) pid db) [pid, vp_ownerId p] uid rule)"
    and "\<not> rv_deferred (resolve mx now db pid uid res inline)"
  shows "rv_mode (resolve mx now db pid uid res inline) = ModeRestricted
    \<and> set (rv_ownerIds (resolve mx now db pid uid res inline))
        = {v. in_reach (loadGroupGraph (vp_ownerId p) pid db) [pid, vp_ownerId p] uid (viewer_rules (mb_role m) (vp_visibilityConfig p)) v}
    \<and> set (rv_departmentIds (resolve mx now db pid uid res inline))
        = units_in_reach (loadGroupGraph (vp_ownerId p) pid db) [pid, vp_ownerId p] uid (viewer_rules (mb_role m) (vp_visibilityConfig p))
    \<and> set (rv_sharedRecordIds (resolve mx now db pid uid res inline))
        = {i. shares_count (mb_role m) (vp_visibilityConfig p) \<and> shared_with now db pid res uid (loadGroupGraph (vp_ownerId p) pid db) i}"
proof -
  note res = resolve_member [OF assms(1-4) refl refl refl refl]
  have restricted: "rv_mode (resolve mx now db pid uid res inline) = ModeRestricted" using res(3) assms(5) by simp
  show ?thesis
    using res(5) [OF restricted assms(7)] restricted expand_owners(2) [OF assms(6)]
    by (simp add: expand_owners(3) shared_ids_spec)
qed

text \<open>C11: The resolved scope is exactly what the policy of the viewer's role allows. For a member of the project whose
  policy does not hold the rule all, an answer that is not deferred lists as owners the viewer and the
  users his rules reach (his units, the subtrees he leads or belongs to, selected units, each with the
  groups in them, inside the project and its organization), as departments the units of the rules, and
  as shared records those shared with him or with a unit at or above his, unexpired, if
  shares count. The walks over the groups are within their step limit (\<open>walk_fits\<close>; 21 steps for each
  unit).\<close>

theorem visibility_resolution_exact:
  assumes "pid \<noteq> []" "uid \<noteq> []" "find (\<lambda>m. mb_projectId m = pid \<and> mb_userId m = uid) (vd_members db) = Some m"
    and "find (\<lambda>p. vp_id p = pid) (vd_projects db) = Some p" "RAll \<notin> set (viewer_rules (mb_role m) (vp_visibilityConfig p))"
    and "\<forall>rule \<in> set (viewer_rules (mb_role m) (vp_visibilityConfig p)). walk_fits (loadGroupGraph (vp_ownerId p) pid db)
        (rule_seeds (loadGroupGraph (vp_ownerId p) pid db) [pid, vp_ownerId p] uid rule)"
    and "\<not> rv_deferred (resolve mx now db pid uid res inline)"
  shows "rv_mode (resolve mx now db pid uid res inline) = ModeRestricted
    \<and> set (rv_ownerIds (resolve mx now db pid uid res inline))
        = {v. in_reach (loadGroupGraph (vp_ownerId p) pid db) [pid, vp_ownerId p] uid (viewer_rules (mb_role m) (vp_visibilityConfig p)) v}
    \<and> set (rv_departmentIds (resolve mx now db pid uid res inline))
        = units_in_reach (loadGroupGraph (vp_ownerId p) pid db) [pid, vp_ownerId p] uid (viewer_rules (mb_role m) (vp_visibilityConfig p))
    \<and> set (rv_sharedRecordIds (resolve mx now db pid uid res inline))
        = {i. shares_count (mb_role m) (vp_visibilityConfig p) \<and> shared_with now db pid res uid (loadGroupGraph (vp_ownerId p) pid db) i}"
  using assms by (rule visibility_exact)

text \<open>A walk cut short by its step limit lists fewer owners, never others.\<close>

lemma resolved_owners_in_reach:
  assumes "pid \<noteq> []" "uid \<noteq> []" "find (\<lambda>m. mb_projectId m = pid \<and> mb_userId m = uid) (vd_members db) = Some m"
    and "find (\<lambda>p. vp_id p = pid) (vd_projects db) = Some p" "v \<in> set (rv_ownerIds (resolve mx now db pid uid res inline))"
  shows "in_reach (loadGroupGraph (vp_ownerId p) pid db) [pid, vp_ownerId p] uid (viewer_rules (mb_role m) (vp_visibilityConfig p)) v"
proof -
  note res = resolve_member [OF assms(1-4) refl refl refl refl, of mx now res inline]
  show ?thesis
  proof (cases "rv_mode (resolve mx now db pid uid res inline) = ModeRestricted \<and> \<not> rv_deferred (resolve mx now db pid uid res inline)")
    case True
    then have "v \<in> set (ex_ownerIds (expand_rules (loadGroupGraph (vp_ownerId p) pid db) [pid, vp_ownerId p] uid
        (viewer_rules (mb_role m) (vp_visibilityConfig p))))"
      using res(5) assms(5) by simp
    then show ?thesis using expand_owners(1) by blast
  next
    case False
    have "rv_ownerIds (resolve mx now db pid uid res inline) = []"
      using False assms(1-4) by (auto simp: resolve_def Let_def)
    with assms(5) show ?thesis by simp
  qed
qed

end
