(* ===== verification/VisHydrate.thy ===== *)
theory VisHydrate
  imports VisResolver GatewayGuard
begin

text \<open>
  Deferred scopes (\<^verbatim>\<open>shared/src/grpc/visibility-hydration.ts\<close>): a domain that receives a scope without its
  lists asks control for them and caches the answer, bounded by entries and by ids; and the whole path of
  a scope from the tables of control over the gateway to the filter of a domain. Serialization
  (\<open>enc\<close>, \<open>dec\<close>), the clock and the call to control are parameters; metrics and logging are left out.
\<close>

subsection \<open>The cache\<close>

record hydrate_entry =
  he_epoch :: rat
  he_serialized :: string
  he_idCount :: nat
  he_expires :: int

record hydrator =
  hy_cache :: "(string \<times> hydrate_entry) list"
  hy_total :: int

record hydrate_config =
  hc_ttl :: nat
  hc_maxEntries :: nat
  hc_maxTotal :: nat
  hc_grace :: nat

definition ids_of :: "(string \<times> hydrate_entry) list \<Rightarrow> int" where
  "ids_of c = sum_list (map (\<lambda>(k, e). int (he_idCount e)) c)"

definition prune_expired :: "int \<Rightarrow> hydrator \<Rightarrow> hydrator" where
  "prune_expired now h =
     \<lparr>hy_cache = filter (\<lambda>(k, e). \<not> he_expires e \<le> now) (hy_cache h),
      hy_total = hy_total h - ids_of (filter (\<lambda>(k, e). he_expires e \<le> now) (hy_cache h))\<rparr>"

fun drop_oldest :: "hydrate_config \<Rightarrow> (string \<times> hydrate_entry) list \<Rightarrow> int \<Rightarrow> hydrator" where
  "drop_oldest cfg [] ids = \<lparr>hy_cache = [], hy_total = ids\<rparr>"
| "drop_oldest cfg ((k, e) # rest) ids =
     (if Suc (length rest) > hc_maxEntries cfg \<or> ids > int (hc_maxTotal cfg)
      then drop_oldest cfg rest (ids - int (he_idCount e))
      else \<lparr>hy_cache = (k, e) # rest, hy_total = ids\<rparr>)"

definition evict_hydrated :: "hydrate_config \<Rightarrow> int \<Rightarrow> hydrator \<Rightarrow> hydrator" where
  "evict_hydrated cfg now h = (let h' = prune_expired now h in drop_oldest cfg (hy_cache h') (hy_total h'))"

definition put_last :: "string \<Rightarrow> hydrate_entry \<Rightarrow> (string \<times> hydrate_entry) list \<Rightarrow> (string \<times> hydrate_entry) list" where
  "put_last k e c = filter (\<lambda>(k', _). k' \<noteq> k) c @ [(k, e)]"

definition store_hydrated :: "hydrate_config \<Rightarrow> int \<Rightarrow> string \<Rightarrow> hydrate_entry \<Rightarrow> hydrator \<Rightarrow> hydrator" where
  "store_hydrated cfg now k e h =
     evict_hydrated cfg now
       \<lparr>hy_cache = put_last k e (hy_cache h),
        hy_total = hy_total h - (case map_of (hy_cache h) k of None \<Rightarrow> 0 | Some p \<Rightarrow> int (he_idCount p)) + int (he_idCount e)\<rparr>"

subsection \<open>Hydration\<close>

text \<open>The client is absent where a domain has none; a call that fails gives \<open>None\<close>.\<close>

type_synonym visibility_client = "string \<Rightarrow> string \<Rightarrow> string \<Rightarrow> jsval option"

definition reply_ids :: "jsval \<Rightarrow> string \<Rightarrow> string \<Rightarrow> string list" where
  "reply_ids r a b = str_arr (either_key r a b)"

definition hydrate :: "(jsval \<Rightarrow> string) \<Rightarrow> (string \<Rightarrow> jsval option) \<Rightarrow> visibility_client option \<Rightarrow> hydrate_config \<Rightarrow> int
    \<Rightarrow> vis_scope \<Rightarrow> string \<Rightarrow> string \<Rightarrow> hydrator \<Rightarrow> vis_scope \<times> hydrator" where
  "hydrate enc dec client cfg now scope pid user h =
     (if \<not> deferred scope then (scope, h)
      else let uid = (if user = [] then selfId scope else user);
               res = (case resource scope of None \<Rightarrow> [] | Some r \<Rightarrow> r);
               key = access_key pid uid res;
               cached = map_of (hy_cache h) key;
               stored = (\<lambda>e. case parseVisibilityScope dec (Some (he_serialized e)) of Some s \<Rightarrow> s | None \<Rightarrow> scope)
           in if pid = [] \<or> uid = [] then (scope, h)
              else case (case cached of Some e \<Rightarrow> if he_expires e > now \<and> epoch scope = Some (he_epoch e) then Some e else None | None \<Rightarrow> None) of
                Some e \<Rightarrow> (stored e, h\<lparr>hy_cache := put_last key e (hy_cache h)\<rparr>)
              | None \<Rightarrow>
                (case client of
                   None \<Rightarrow> (scope, h)
                 | Some call \<Rightarrow>
                   (case call pid uid res of
                      Some r \<Rightarrow>
                        if js_get r ''allowed'' = JBool False then (scope, h)
                        else let owners = reply_ids r ''owner_ids'' ''ownerIds'';
                                 shared = reply_ids r ''shared_record_ids'' ''sharedRecordIds'';
                                 hydrated = hydrateVisibilityScope scope owners shared (Some (reply_ids r ''department_ids'' ''departmentIds''))
                             in (hydrated, store_hydrated cfg now key
                                  \<lparr>he_epoch = reply_epoch r (case epoch scope of None \<Rightarrow> 0 | Some e \<Rightarrow> e),
                                   he_serialized = serializeVisibilityScope enc hydrated,
                                   he_idCount = length owners + length shared, he_expires = now + int (hc_ttl cfg)\<rparr> h)
                    | None \<Rightarrow>
                        (case cached of
                           Some e \<Rightarrow> if hc_grace cfg > 0 \<and> he_expires e + int (hc_grace cfg) > now then (stored e, h) else (scope, h)
                         | None \<Rightarrow> (scope, h)))))"

text \<open>The guard of a domain: the raw metadata value before and after.\<close>

definition hydration_guard :: "(jsval \<Rightarrow> string) \<Rightarrow> (string \<Rightarrow> jsval option) \<Rightarrow> visibility_client option \<Rightarrow> hydrate_config \<Rightarrow> int
    \<Rightarrow> string \<Rightarrow> string \<Rightarrow> string \<Rightarrow> hydrator \<Rightarrow> string \<times> hydrator" where
  "hydration_guard enc dec client cfg now raw pid user h =
     (if raw = [] then (raw, h)
      else case parseVisibilityScope dec (Some raw) of
        None \<Rightarrow> (raw, h)
      | Some scope \<Rightarrow>
          if \<not> deferred scope then (raw, h)
          else let (hydrated, h') = hydrate enc dec client cfg now scope pid user h
               in (if \<not> deferred hydrated then serializeVisibilityScope enc hydrated else raw, h'))"

subsection \<open>The cache stays within its bounds\<close>

definition hydrator_ok :: "hydrator \<Rightarrow> bool" where
  "hydrator_ok h \<longleftrightarrow> distinct (map fst (hy_cache h)) \<and> hy_total h = ids_of (hy_cache h)"

lemma ids_of_simps [simp]: "ids_of [] = 0" "ids_of ((k, e) # c) = int (he_idCount e) + ids_of c" "ids_of (c @ c') = ids_of c + ids_of c'"
  by (simp_all add: ids_of_def)

lemma ids_of_nonneg [simp]: "ids_of c \<ge> 0"
  by (induction c) auto

lemma ids_of_split: "ids_of (filter (\<lambda>(k, e). P e) c) + ids_of (filter (\<lambda>(k, e). \<not> P e) c) = ids_of c"
  by (induction c) auto

lemma filter_absent: "k \<notin> fst ` set c \<Longrightarrow> filter (\<lambda>(k', _). k' \<noteq> k) c = c"
  by (induction c) auto

lemma ids_of_without:
  "distinct (map fst c) \<Longrightarrow> ids_of (filter (\<lambda>(k', _). k' \<noteq> k) c) = ids_of c - (case map_of c k of None \<Rightarrow> 0 | Some p \<Rightarrow> int (he_idCount p))"
proof (induction c)
  case (Cons a c)
  obtain k' e where a: "a = (k', e)" by force
  show ?case
  proof (cases "k' = k")
    case True
    then have "filter (\<lambda>(k', _). k' \<noteq> k) c = c" using Cons.prems by (simp add: a filter_absent)
    then show ?thesis by (simp add: a True)
  next
    case False
    with Cons show ?thesis by (simp add: a)
  qed
qed simp

lemma drop_oldest_ok:
  assumes "distinct (map fst c)" "ids = ids_of c"
  shows "hydrator_ok (drop_oldest cfg c ids) \<and> length (hy_cache (drop_oldest cfg c ids)) \<le> hc_maxEntries cfg
     \<and> hy_total (drop_oldest cfg c ids) \<le> int (hc_maxTotal cfg) \<and> (\<exists>pre. c = pre @ hy_cache (drop_oldest cfg c ids))"
  using assms
proof (induction cfg c ids rule: drop_oldest.induct)
  case (2 cfg k e rest ids)
  show ?case
  proof (cases "Suc (length rest) > hc_maxEntries cfg \<or> ids > int (hc_maxTotal cfg)")
    case True
    with "2.IH" [OF True] "2.prems" show ?thesis by (auto intro: exI [of _ "(k, e) # _"])
  next
    case False
    with "2.prems" show ?thesis by (auto simp: hydrator_ok_def)
  qed
qed (simp add: hydrator_ok_def)

lemma put_last_ok: "distinct (map fst c) \<Longrightarrow> distinct (map fst (put_last k e c))"
  by (auto simp: put_last_def distinct_map_filter)

lemma store_hydrated_ok:
  assumes "hydrator_ok h"
  shows "hydrator_ok (store_hydrated cfg now k e h) \<and> length (hy_cache (store_hydrated cfg now k e h)) \<le> hc_maxEntries cfg
     \<and> hy_total (store_hydrated cfg now k e h) \<le> int (hc_maxTotal cfg)"
proof -
  let ?c = "put_last k e (hy_cache h)"
  have d: "distinct (map fst ?c)" using assms by (simp add: hydrator_ok_def put_last_ok)
  have t: "hy_total h - (case map_of (hy_cache h) k of None \<Rightarrow> 0 | Some p \<Rightarrow> int (he_idCount p)) + int (he_idCount e) = ids_of ?c"
    using assms by (simp add: hydrator_ok_def put_last_def ids_of_without)
  have "distinct (map fst (filter (\<lambda>(k, e). \<not> he_expires e \<le> now) ?c))" using d by (simp add: distinct_map_filter)
  moreover have "ids_of ?c - ids_of (filter (\<lambda>(k, e). he_expires e \<le> now) ?c) = ids_of (filter (\<lambda>(k, e). \<not> he_expires e \<le> now) ?c)"
    using ids_of_split [of "\<lambda>e. he_expires e \<le> now" ?c] by simp
  ultimately show ?thesis
    using drop_oldest_ok [of "filter (\<lambda>(k, e). \<not> he_expires e \<le> now) ?c"]
    by (simp add: store_hydrated_def evict_hydrated_def prune_expired_def t Let_def)
qed

lemma touch_ok:
  assumes "hydrator_ok h" "map_of (hy_cache h) k = Some e"
  shows "hydrator_ok (h\<lparr>hy_cache := put_last k e (hy_cache h)\<rparr>)" "length (put_last k e (hy_cache h)) = length (hy_cache h)"
proof -
  have d: "distinct (map fst (hy_cache h))" using assms(1) by (simp add: hydrator_ok_def)
  have "length (filter (\<lambda>(k', _). k' \<noteq> k) c) + 1 = length c" if "distinct (map fst c)" "map_of c k = Some e" for c :: "(string \<times> hydrate_entry) list"
    using that
  proof (induction c)
    case (Cons a c)
    obtain k' e' where a: "a = (k', e')" by force
    show ?case
    proof (cases "k' = k")
      case True
      then have "filter (\<lambda>(k', _). k' \<noteq> k) c = c" using Cons.prems by (simp add: a filter_absent)
      then show ?thesis by (simp add: a True)
    next
      case False
      with Cons show ?thesis by (simp add: a)
    qed
  qed simp
  from this [OF d assms(2)] show "length (put_last k e (hy_cache h)) = length (hy_cache h)" by (simp add: put_last_def)
  show "hydrator_ok (h\<lparr>hy_cache := put_last k e (hy_cache h)\<rparr>)"
    using assms d by (simp add: hydrator_ok_def put_last_ok) (simp add: put_last_def ids_of_without)
qed


definition within_bounds :: "hydrate_config \<Rightarrow> hydrator \<Rightarrow> bool" where
  "within_bounds cfg h \<longleftrightarrow> hydrator_ok h \<and> length (hy_cache h) \<le> hc_maxEntries cfg \<and> hy_total h \<le> int (hc_maxTotal cfg)"

lemma store_within: "hydrator_ok h \<Longrightarrow> within_bounds cfg (store_hydrated cfg now k e h)"
  using store_hydrated_ok by (simp add: within_bounds_def)

text \<open>What hydration does to the cache: nothing, a renewed entry, or a new one.\<close>

lemma hydrate_cache:
  "snd (hydrate enc dec client cfg now scope pid user h) = h
   \<or> (\<exists>k e. map_of (hy_cache h) k = Some e \<and> snd (hydrate enc dec client cfg now scope pid user h) = h\<lparr>hy_cache := put_last k e (hy_cache h)\<rparr>)
   \<or> (\<exists>k e. snd (hydrate enc dec client cfg now scope pid user h) = store_hydrated cfg now k e h)"
proof (cases "\<not> deferred scope \<or> pid = [] \<or> (if user = [] then selfId scope else user) = []")
  case True
  then have "snd (hydrate enc dec client cfg now scope pid user h) = h" by (auto simp: hydrate_def Let_def)
  then show ?thesis ..
next
  case False
  let ?k = "access_key pid (if user = [] then selfId scope else user) (case resource scope of None \<Rightarrow> [] | Some r \<Rightarrow> r)"
  show ?thesis
  proof (cases "case map_of (hy_cache h) ?k of Some e \<Rightarrow> if he_expires e > now \<and> epoch scope = Some (he_epoch e) then Some e else None | None \<Rightarrow> None")
    case (Some e)
    then have "map_of (hy_cache h) ?k = Some e" by (auto split: option.splits if_splits)
    moreover have "snd (hydrate enc dec client cfg now scope pid user h) = h\<lparr>hy_cache := put_last ?k e (hy_cache h)\<rparr>"
      unfolding hydrate_def Let_def Some using False by simp
    ultimately show ?thesis by blast
  next
    case None
    note fresh = this
    show ?thesis
    proof (cases client)
      case None
      have "snd (hydrate enc dec client cfg now scope pid user h) = h" unfolding hydrate_def Let_def fresh None using False by simp
      then show ?thesis ..
    next
      case (Some call)
      let ?r = "call pid (if user = [] then selfId scope else user) (case resource scope of None \<Rightarrow> [] | Some r \<Rightarrow> r)"
      show ?thesis
      proof (cases ?r)
        case None
        have "snd (hydrate enc dec client cfg now scope pid user h) = h"
          unfolding hydrate_def Let_def fresh Some option.case None using False by (simp split: option.split)
        then show ?thesis ..
      next
        case (Some r)
        have run: "snd (hydrate enc dec client cfg now scope pid user h) = (if js_get r ''allowed'' = JBool False then h else
            store_hydrated cfg now ?k \<lparr>he_epoch = reply_epoch r (case epoch scope of None \<Rightarrow> 0 | Some e \<Rightarrow> e),
              he_serialized = serializeVisibilityScope enc (hydrateVisibilityScope scope (reply_ids r ''owner_ids'' ''ownerIds'')
                (reply_ids r ''shared_record_ids'' ''sharedRecordIds'') (Some (reply_ids r ''department_ids'' ''departmentIds''))),
              he_idCount = length (reply_ids r ''owner_ids'' ''ownerIds'') + length (reply_ids r ''shared_record_ids'' ''sharedRecordIds''),
              he_expires = now + int (hc_ttl cfg)\<rparr> h)"
          unfolding hydrate_def Let_def fresh \<open>client = Some call\<close> option.case Some using False by simp
        show ?thesis unfolding run by auto
      qed
    qed
  qed
qed

text \<open>C13: The cache of hydrated scopes keeps both its bounds: whatever scope is hydrated, whether control answers,
  refuses or fails, the cache keeps distinct keys, an exact count of the ids it holds, at most the
  allowed entries and at most the allowed ids.\<close>

theorem hydrator_cache_bounded:
  assumes "within_bounds cfg h"
  shows "within_bounds cfg (snd (hydrate enc dec client cfg now scope pid user h))"
proof -
  have ok: "hydrator_ok h" using assms by (simp add: within_bounds_def)
  from hydrate_cache [of enc dec client cfg now scope pid user h] show ?thesis
  proof (elim disjE exE conjE)
    fix k e
    assume "map_of (hy_cache h) k = Some e" "snd (hydrate enc dec client cfg now scope pid user h) = h\<lparr>hy_cache := put_last k e (hy_cache h)\<rparr>"
    then show ?thesis using assms touch_ok [OF ok] by (simp add: within_bounds_def)
  qed (use assms store_within [OF ok] in simp_all)
qed

subsection \<open>From the tables of control to the filter of a domain\<close>

definition gateway_scope :: "nat \<Rightarrow> resolved_vis \<Rightarrow> string \<Rightarrow> string \<Rightarrow> vis_scope" where
  "gateway_scope ep r uid res = parseScope (visibility_reply ep r) uid res (of_nat ep)"

lemma reply_fields [simp]:
  "js_get (visibility_reply ep r) ''allowed'' = JBool (rv_allowed r)"
  "js_get (visibility_reply ep r) ''mode'' = mode_js (rv_mode r)"
  "js_get (visibility_reply ep r) ''owner_ids'' = strs_js (rv_ownerIds r)"
  "js_get (visibility_reply ep r) ''shared_record_ids'' = strs_js (rv_sharedRecordIds r)"
  "js_get (visibility_reply ep r) ''department_ids'' = strs_js (rv_departmentIds r)"
  "js_get (visibility_reply ep r) ''viewer_department_ids'' = strs_js (rv_viewerDepartmentIds r)"
  "js_get (visibility_reply ep r) ''deferred'' = JBool (rv_deferred r)"
  "js_get (visibility_reply ep r) ''epoch'' = JNum (of_nat ep)"
  by (simp_all add: visibility_reply_def map_of_append)

lemma mode_js_all [simp]: "mode_js m = JStr ''all'' \<longleftrightarrow> m = ModeAll"
  by (cases m) simp_all

lemma strs_js_not_nullish [simp]: "\<not> js_nullish (strs_js xs)"
  by (simp add: strs_js_def)

lemma coalesce_strs [simp]: "js_coalesce (strs_js xs) v = strs_js xs"
  by (simp add: strs_js_def)

lemma gateway_scope_fields [simp]:
  "mode (gateway_scope ep r uid res) = rv_mode r" "ownerIds (gateway_scope ep r uid res) = rv_ownerIds r"
  "sharedRecordIds (gateway_scope ep r uid res) = rv_sharedRecordIds r" "deferred (gateway_scope ep r uid res) = rv_deferred r"
  "departmentIds (gateway_scope ep r uid res) = Some (rv_departmentIds r)" "selfId (gateway_scope ep r uid res) = uid"
  "resource (gateway_scope ep r uid res) = Some res" "epoch (gateway_scope ep r uid res) = Some (of_nat ep)"
  by (simp_all add: gateway_scope_def parseScope_def either_key_def Let_def) (cases "rv_mode r"; simp)

text \<open>What the policy lets a member see of the records of a resource.\<close>

definition sees :: "nat \<Rightarrow> vis_db \<Rightarrow> string \<Rightarrow> string \<Rightarrow> string \<Rightarrow> member_row \<Rightarrow> vproject_row \<Rightarrow> string option \<Rightarrow> string option
    \<Rightarrow> string option \<Rightarrow> bool" where
  "sees now db pid uid res m p owner dept recordId \<longleftrightarrow>
     (let rs = viewer_rules (mb_role m) (vp_visibilityConfig p); g = loadGroupGraph (vp_ownerId p) pid db; scopes = [pid, vp_ownerId p] in
      RAll \<in> set rs
      \<or> (\<exists>v. owner = Some v \<and> in_reach g scopes uid rs v)
      \<or> (\<exists>x. dept = Some x \<and> x \<noteq> [] \<and> x \<in> units_in_reach g scopes uid rs)
      \<or> (\<exists>i. recordId = Some i \<and> shares_count (mb_role m) (vp_visibilityConfig p) \<and> shared_with now db pid res uid g i))"

lemma visible_of_lists:
  assumes "mode s = ModeRestricted" "\<not> deferred s" "departmentIds s = Some ds" "\<And>x. dept = Some x \<Longrightarrow> trim x = x"
  shows "isRecordVisible (Some s) owner (\<exists>i \<in> set (sharedRecordIds s). recordId = Some i) dept \<longleftrightarrow>
     (\<exists>v. owner = Some v \<and> v \<in> set (ownerIds s)) \<or> (\<exists>x. dept = Some x \<and> x \<noteq> [] \<and> x \<in> set ds)
     \<or> (\<exists>i. recordId = Some i \<and> i \<in> set (sharedRecordIds s))"
  using assms by (auto simp: isRecordVisible_def split: option.splits)

text \<open>The scope a domain filters with: what the gateway parsed, hydrated when deferred.\<close>

definition domain_scope :: "(jsval \<Rightarrow> string) \<Rightarrow> (string \<Rightarrow> jsval option) \<Rightarrow> hydrate_config \<Rightarrow> int \<Rightarrow> nat \<Rightarrow> nat \<Rightarrow> nat \<Rightarrow> vis_db
    \<Rightarrow> string \<Rightarrow> string \<Rightarrow> string \<Rightarrow> hydrator \<Rightarrow> vis_scope" where
  "domain_scope enc dec cfg clock mx now ep db pid uid res h =
     fst (hydrate enc dec (Some (\<lambda>p u r. Some (visibility_reply ep (resolve mx now db p u r True)))) cfg clock
       (gateway_scope ep (resolve mx now db pid uid res False) uid res) pid uid h)"

lemma domain_scope_lists:
  assumes "pid \<noteq> []" "uid \<noteq> []" "find (\<lambda>m. mb_projectId m = pid \<and> mb_userId m = uid) (vd_members db) = Some m"
    and "find (\<lambda>p. vp_id p = pid) (vd_projects db) = Some p" "RAll \<notin> set (viewer_rules (mb_role m) (vp_visibilityConfig p))"
    and "map_of (hy_cache h) (access_key pid uid res) = None"
  shows "mode (domain_scope enc dec cfg clock mx now ep db pid uid res h) = ModeRestricted"
    and "\<not> deferred (domain_scope enc dec cfg clock mx now ep db pid uid res h)"
    and "ownerIds (domain_scope enc dec cfg clock mx now ep db pid uid res h) = rv_ownerIds (resolve mx now db pid uid res True)"
    and "sharedRecordIds (domain_scope enc dec cfg clock mx now ep db pid uid res h) = rv_sharedRecordIds (resolve mx now db pid uid res True)"
    and "departmentIds (domain_scope enc dec cfg clock mx now ep db pid uid res h) = Some (rv_departmentIds (resolve mx now db pid uid res True))"
proof -
  let ?f = "resolve mx now db pid uid res False" and ?t = "resolve mx now db pid uid res True"
  let ?s = "domain_scope enc dec cfg clock mx now ep db pid uid res h"
  note f = resolve_member [OF assms(1-4) refl refl refl refl, of mx now res False]
  note t = resolve_member [OF assms(1-4) refl refl refl refl, of mx now res True]
  have modes: "rv_mode ?f = ModeRestricted" "rv_mode ?t = ModeRestricted" using f(3) t(3) assms(5) by simp_all
  have nd: "\<not> rv_deferred ?t" using t(4) by simp
  have "mode ?s = ModeRestricted \<and> \<not> deferred ?s \<and> ownerIds ?s = rv_ownerIds ?t \<and> sharedRecordIds ?s = rv_sharedRecordIds ?t
      \<and> departmentIds ?s = Some (rv_departmentIds ?t)"
  proof (cases "rv_deferred ?f")
    case False
    then have "?s = gateway_scope ep ?f uid res" by (simp add: domain_scope_def hydrate_def)
    moreover have "rv_ownerIds ?f = rv_ownerIds ?t" "rv_sharedRecordIds ?f = rv_sharedRecordIds ?t" "rv_departmentIds ?f = rv_departmentIds ?t"
      using f(5) [OF modes(1) False] t(5) [OF modes(2) nd] by simp_all
    ultimately show ?thesis using modes False by simp
  next
    case True
    then have "rv_departmentIds ?f = []" by (rule f(9))
    have s: "?s = hydrateVisibilityScope (gateway_scope ep ?f uid res) (rv_ownerIds ?t) (rv_sharedRecordIds ?t) (Some (rv_departmentIds ?t))"
      using True assms(1,2,6) t(1) by (simp add: domain_scope_def hydrate_def Let_def reply_ids_def either_key_def)
    show ?thesis unfolding s using True modes \<open>rv_departmentIds ?f = []\<close>
      by (cases "rv_departmentIds ?t") (simp_all add: hydrateVisibilityScope_def)
  qed
  then show "mode ?s = ModeRestricted" "\<not> deferred ?s" "ownerIds ?s = rv_ownerIds ?t" "sharedRecordIds ?s = rv_sharedRecordIds ?t"
    "departmentIds ?s = Some (rv_departmentIds ?t)" by blast+
qed

lemma domain_scope_all:
  assumes "pid \<noteq> []" "uid \<noteq> []" "find (\<lambda>m. mb_projectId m = pid \<and> mb_userId m = uid) (vd_members db) = Some m"
    and "find (\<lambda>p. vp_id p = pid) (vd_projects db) = Some p" "RAll \<in> set (viewer_rules (mb_role m) (vp_visibilityConfig p))"
  shows "mode (domain_scope enc dec cfg clock mx now ep db pid uid res h) = ModeAll"
proof -
  note f = resolve_member [OF assms(1-4) refl refl refl refl, of mx now res False]
  have "rv_mode (resolve mx now db pid uid res False) = ModeAll" "\<not> rv_deferred (resolve mx now db pid uid res False)"
    using f(3,4) assms(5) by simp_all
  then show ?thesis by (simp add: domain_scope_def hydrate_def)
qed

text \<open>C6: A domain shows a member exactly the records the policy of his role lets him see. Follow a scope from the
  tables of control through the resolver, its gRPC reply, the gateway and, when the lists were too long
  and had to be deferred, the hydration in the domain: on a store that keeps the meaning of the filter
  operators the filter selects a record if and only if the policy holds the rule all, or its owner is in
  reach, or its department is one of the units of the rules, or it is shared with him. The walks over the
  groups are within their step limit, the department of the record carries no blanks, and the domain
  holds no older hydration of this scope in its cache.\<close>

theorem domain_filter_exact:
  assumes "mongo_core mt" "id_field d ownerField" "id_field d deptField" "id_field d ''_id''" "deptField \<noteq> []"
    and "\<And>x. str_field d deptField = Some x \<Longrightarrow> trim x = x"
    and "pid \<noteq> []" "uid \<noteq> []" "find (\<lambda>m. mb_projectId m = pid \<and> mb_userId m = uid) (vd_members db) = Some m"
    and "find (\<lambda>p. vp_id p = pid) (vd_projects db) = Some p" "map_of (hy_cache h) (access_key pid uid res) = None"
    and "\<forall>rule \<in> set (viewer_rules (mb_role m) (vp_visibilityConfig p)). walk_fits (loadGroupGraph (vp_ownerId p) pid db)
        (rule_seeds (loadGroupGraph (vp_ownerId p) pid db) [pid, vp_ownerId p] uid rule)"
    and "s = domain_scope enc dec cfg clock mx now ep db pid uid res h"
  shows "selects mt (buildVisibilityFilter (Some s) ownerField (sharedRecordIds s) (Some deptField)) d
    \<longleftrightarrow> sees now db pid uid res m p (str_field d ownerField) (str_field d deptField) (str_field d ''_id'')"
proof -
  let ?t = "resolve mx now db pid uid res True"
  have "selects mt (buildVisibilityFilter (Some s) ownerField (sharedRecordIds s) (Some deptField)) d \<longleftrightarrow>
      isRecordVisible (Some s) (str_field d ownerField) (\<exists>i \<in> set (sharedRecordIds s). str_field d ''_id'' = Some i) (str_field d deptField)"
    using assms(1-6) by (rule mongo_core.visibility_filter_exact)
  also have "\<dots> \<longleftrightarrow> sees now db pid uid res m p (str_field d ownerField) (str_field d deptField) (str_field d ''_id'')"
  proof (cases "RAll \<in> set (viewer_rules (mb_role m) (vp_visibilityConfig p))")
    case True
    from domain_scope_all [OF assms(7-10) True] have "mode s = ModeAll" by (simp add: assms(13))
    with True show ?thesis by (simp add: isRecordVisible_def sees_def Let_def)
  next
    case False
    note l = domain_scope_lists [OF assms(7-10) False assms(11), of enc dec cfg clock mx now ep, folded assms(13)]
    have "\<not> rv_deferred ?t"
      using resolve_member(4) [OF assms(7-10) refl refl refl refl, of mx now res True] by simp
    note ex = visibility_exact [OF assms(7-10) False assms(12) this]
    have "isRecordVisible (Some s) (str_field d ownerField) (\<exists>i \<in> set (sharedRecordIds s). str_field d ''_id'' = Some i) (str_field d deptField) \<longleftrightarrow>
       (\<exists>v. str_field d ownerField = Some v \<and> v \<in> set (ownerIds s)) \<or> (\<exists>x. str_field d deptField = Some x \<and> x \<noteq> [] \<and> x \<in> set (rv_departmentIds ?t))
       \<or> (\<exists>i. str_field d ''_id'' = Some i \<and> i \<in> set (sharedRecordIds s))"
      by (rule visible_of_lists [OF l(1,2,5)]) (rule assms(6))
    then show ?thesis
      unfolding l(3,4) sees_def Let_def using ex False by simp
  qed
  finally show ?thesis .
qed

text \<open>C12: Hydration fails closed: when control cannot be asked, fails or refuses, and no entry for the viewer is
  cached, a deferred scope stays deferred and the filter of the domain selects nothing.\<close>

theorem hydration_fails_closed:
  assumes "mongo_core mt" "deferred scope" "mode scope = ModeRestricted"
    and "\<And>call p u r. client = Some call \<Longrightarrow> (case call p u r of None \<Rightarrow> True | Some j \<Rightarrow> js_get j ''allowed'' = JBool False)"
    and "map_of (hy_cache h) (access_key pid (if user = [] then selfId scope else user) (case resource scope of None \<Rightarrow> [] | Some r \<Rightarrow> r)) = None"
  shows "fst (hydrate enc dec client cfg now scope pid user h) = scope
    \<and> \<not> selects mt (buildVisibilityFilter (Some (fst (hydrate enc dec client cfg now scope pid user h))) ownerField shared deptField) d"
proof -
  have "fst (hydrate enc dec client cfg now scope pid user h) = scope"
  proof (cases client)
    case None
    with assms(2,5) show ?thesis by (simp add: hydrate_def Let_def)
  next
    case (Some call)
    let ?r = "call pid (if user = [] then selfId scope else user) (case resource scope of None \<Rightarrow> [] | Some r \<Rightarrow> r)"
    note refused = assms(4) [OF Some, of pid "if user = [] then selfId scope else user" "case resource scope of None \<Rightarrow> [] | Some r \<Rightarrow> r"]
    show ?thesis
    proof (cases ?r)
      case None
      show ?thesis unfolding hydrate_def Let_def assms(5) Some option.case None by simp
    next
      case (Some j)
      have "js_get j ''allowed'' = JBool False" using refused unfolding Some option.case .
      then show ?thesis unfolding hydrate_def Let_def assms(5) \<open>client = Some call\<close> option.case Some by simp
    qed
  qed
  moreover have "\<not> mt DENY_ALL_FILTER d" using mongo_core.mt_deny_all [OF assms(1)] by simp
  ultimately show ?thesis using assms(2,3) by (simp add: buildVisibilityFilter_def selects_def)
qed


subsection \<open>A project with a nested unit\<close>

text \<open>Mia and Ben are in the sales unit, which contains the east group of Eva; record r9 is shared with sales.\<close>

definition team_project :: vproject_row where
  "team_project = \<lparr>vp_id = ''p'', vp_ownerId = ''org'', vp_visibilityConfig = JObj [(''member'',
     JObj [(''rules'', JArr [JObj [(''kind'', JStr ''own'')], JObj [(''kind'', JStr ''own_groups'')]])])]\<rparr>"

definition team_member :: member_row where
  "team_member = \<lparr>mb_projectId = ''p'', mb_userId = ''mia'', mb_role = ''member''\<rparr>"

definition team_unit :: "string \<Rightarrow> vunit_row" where
  "team_unit i = \<lparr>vu_id = i, vu_scopeType = ''PROJECT'', vu_scopeId = ''p'', vu_parentId = None, vu_leaderUserId = None, vu_archived = False\<rparr>"

definition team_db :: vis_db where
  "team_db = \<lparr>vd_members = [team_member], vd_projects = [team_project], vd_backfilled = True,
     vd_units = [team_unit ''sales'', team_unit ''east''],
     vd_unitMembers = [\<lparr>um_unitId = ''sales'', um_memberType = ''user'', um_memberId = ''mia''\<rparr>,
       \<lparr>um_unitId = ''sales'', um_memberType = ''user'', um_memberId = ''ben''\<rparr>,
       \<lparr>um_unitId = ''sales'', um_memberType = ''group'', um_memberId = ''east''\<rparr>,
       \<lparr>um_unitId = ''east'', um_memberType = ''user'', um_memberId = ''eva''\<rparr>],
     vd_employees = [], vd_departments = [],
     vd_shares = [\<lparr>sh_projectId = ''p'', sh_resource = ''deals'', sh_recordId = ''r9'', sh_granteeType = ''unit'', sh_granteeId = ''sales'',
       sh_expiresAt = None\<rparr>]\<rparr>"

abbreviation team_graph :: group_graph where
  "team_graph \<equiv> loadGroupGraph ''org'' ''p'' team_db"

lemma team_rows:
  "find (\<lambda>m. mb_projectId m = ''p'' \<and> mb_userId m = ''mia'') (vd_members team_db) = Some team_member"
  "find (\<lambda>p. vp_id p = ''p'') (vd_projects team_db) = Some team_project" "vp_ownerId team_project = ''org''" "mb_role team_member = ''member''"
  by (simp_all add: team_db_def team_member_def team_project_def)

lemma team_rules: "viewer_rules ''member'' (vp_visibilityConfig team_project) = [ROwn, ROwnGroups]"
  by (simp add: team_project_def effectiveVisibilityPolicy_def normalizeVisibilityConfigV2_def role_of_def PROJECT_ROLES_def
      normalizeVisibilityPolicy_def as_rule_def map_filter_simps policy_js_def clampVisibilityPolicy_def visibilityPolicyHasAll_def policy_of_def)

lemma team_graph:
  "gg_units team_graph = [team_unit ''sales'', team_unit ''east'']" "gg_unitsOfUser team_graph ''mia'' = [''sales'']"
  "gg_members team_graph ''sales'' = Some ([''mia'', ''ben''], [''east''])" "gg_members team_graph ''east'' = Some ([''eva''], [])"
  by (simp_all add: loadGroupGraph_def unit_graph_def team_db_def team_unit_def Let_def)

lemma team_fits: "\<forall>rule \<in> set (viewer_rules (mb_role team_member) (vp_visibilityConfig team_project)).
    walk_fits (loadGroupGraph (vp_ownerId team_project) ''p'' team_db)
      (rule_seeds (loadGroupGraph (vp_ownerId team_project) ''p'' team_db) [''p'', vp_ownerId team_project] ''mia'' rule)"
  by (simp add: team_rows team_rules walk_fits_def team_graph team_unit_def groups_in_def)

lemma team_reach: "in_reach team_graph [''p'', ''org''] ''mia'' [ROwn, ROwnGroups] ''eva''"
proof -
  have scope: "unit_in_scope (gg_units team_graph) [''p'', ''org''] x" if "x = ''sales'' \<or> x = ''east''" for x
    using that by (auto simp: unit_in_scope_def unit_by_id_def team_graph team_unit_def)
  have "above (unit_in_scope (gg_units team_graph) [''p'', ''org'']) (groups_in (gg_members team_graph)) (rule_units team_graph [''p'', ''org''] ''mia'' ROwnGroups) ''sales''"
    by (rule above.seed) (simp_all add: team_graph(2) scope)
  then have "above (unit_in_scope (gg_units team_graph) [''p'', ''org'']) (groups_in (gg_members team_graph)) (rule_units team_graph [''p'', ''org''] ''mia'' ROwnGroups) ''east''"
    by (rule above.parent) (simp_all add: groups_in_def team_graph(3) scope)
  then show ?thesis unfolding in_reach_def by (force simp: users_in_def team_graph)
qed

text \<open>The lists are resolved in line, and with room for two ids only they are deferred and hydrated.\<close>

theorem visibility_resolution_exact_witness:
  "''eva'' \<in> set (rv_ownerIds (resolve 2000 0 team_db ''p'' ''mia'' ''deals'' False))
   \<and> set (rv_departmentIds (resolve 2000 0 team_db ''p'' ''mia'' ''deals'' False)) = {''sales''}"
proof -
  let ?r = "resolve 2000 0 team_db ''p'' ''mia'' ''deals'' False"
  have "\<not> rv_deferred ?r" by code_simp
  moreover have "RAll \<notin> set (viewer_rules (mb_role team_member) (vp_visibilityConfig team_project))" by (simp add: team_rows team_rules)
  ultimately have "set (rv_ownerIds ?r) = {v. in_reach team_graph [''p'', ''org''] ''mia'' [ROwn, ROwnGroups] v}
     \<and> set (rv_departmentIds ?r) = units_in_reach team_graph [''p'', ''org''] ''mia'' [ROwn, ROwnGroups]"
    using visibility_resolution_exact [OF _ _ team_rows(1,2) _ team_fits, of 2000 0 "''deals''" False] by (simp add: team_rows team_rules)
  then show ?thesis using team_reach by (simp add: units_in_reach_def team_graph)
qed

definition cold_hydrator :: hydrator where
  "cold_hydrator = \<lparr>hy_cache = [], hy_total = 0\<rparr>"

definition small_cache :: hydrate_config where
  "small_cache = \<lparr>hc_ttl = 300000, hc_maxEntries = 128, hc_maxTotal = 1000000, hc_grace = 0\<rparr>"

definition eva_record :: doc where
  "eva_record = [(''_id'', JStr ''r1''), (''ownerId'', JStr ''eva'')]"

lemma eva_fields: "fld eva_record ''_id'' = JStr ''r1''" "fld eva_record ''ownerId'' = JStr ''eva''" "fld eva_record ''departmentId'' = JUndef"
  by (simp_all add: eva_record_def fld_def)

theorem domain_filter_exact_witness:
  "rv_deferred (resolve 2 0 team_db ''p'' ''mia'' ''deals'' False)
   \<and> selects fake_matches (buildVisibilityFilter (Some (domain_scope (\<lambda>_. []) (\<lambda>_. None) small_cache 0 2 0 7 team_db ''p'' ''mia'' ''deals'' cold_hydrator))
       ''ownerId'' (sharedRecordIds (domain_scope (\<lambda>_. []) (\<lambda>_. None) small_cache 0 2 0 7 team_db ''p'' ''mia'' ''deals'' cold_hydrator))
       (Some ''departmentId'')) eva_record"
proof -
  let ?s = "domain_scope (\<lambda>_. []) (\<lambda>_. None) small_cache 0 2 0 7 team_db ''p'' ''mia'' ''deals'' cold_hydrator"
  have "rv_deferred (resolve 2 0 team_db ''p'' ''mia'' ''deals'' False)" by code_simp
  moreover have "selects fake_matches (buildVisibilityFilter (Some ?s) ''ownerId'' (sharedRecordIds ?s) (Some ''departmentId'')) eva_record
     \<longleftrightarrow> sees 0 team_db ''p'' ''mia'' ''deals'' team_member team_project (str_field eva_record ''ownerId'') (str_field eva_record ''departmentId'')
       (str_field eva_record ''_id'')"
    by (rule domain_filter_exact [OF fake.mongo_core_axioms _ _ _ _ _ _ _ team_rows(1,2) _ team_fits])
      (simp_all add: eva_fields id_field_def str_field_def cold_hydrator_def)
  moreover have "sees 0 team_db ''p'' ''mia'' ''deals'' team_member team_project (Some ''eva'') None (Some ''r1'')"
    using team_reach by (simp add: sees_def Let_def team_rows team_rules)
  ultimately show ?thesis by (simp add: eva_fields str_field_def)
qed

theorem hydrator_cache_bounded_witness:
  "within_bounds small_cache (snd (hydrate (\<lambda>_. []) (\<lambda>_. None) (Some (\<lambda>p u r. Some (visibility_reply 7 (resolve 2 0 team_db p u r True))))
     small_cache 0 (gateway_scope 7 (resolve 2 0 team_db ''p'' ''mia'' ''deals'' False) ''mia'' ''deals'') ''p'' ''mia'' cold_hydrator))"
  by (rule hydrator_cache_bounded) (simp add: within_bounds_def hydrator_ok_def cold_hydrator_def)

theorem hydration_fails_closed_witness:
  "\<not> selects fake_matches (buildVisibilityFilter (Some (fst (hydrate (\<lambda>_. []) (\<lambda>_. None) (Some (\<lambda>_ _ _. None)) small_cache 0
     (gateway_scope 7 (resolve 2 0 team_db ''p'' ''mia'' ''deals'' False) ''mia'' ''deals'') ''p'' ''mia'' cold_hydrator)))
     ''ownerId'' [] (Some ''departmentId'')) eva_record"
proof -
  have "rv_deferred (resolve 2 0 team_db ''p'' ''mia'' ''deals'' False)" by code_simp
  moreover have "rv_mode (resolve 2 0 team_db ''p'' ''mia'' ''deals'' False) = ModeRestricted" by code_simp
  ultimately have "fst (hydrate (\<lambda>_. []) (\<lambda>_. None) (Some (\<lambda>_ _ _. None)) small_cache 0
     (gateway_scope 7 (resolve 2 0 team_db ''p'' ''mia'' ''deals'' False) ''mia'' ''deals'') ''p'' ''mia'' cold_hydrator)
       = gateway_scope 7 (resolve 2 0 team_db ''p'' ''mia'' ''deals'' False) ''mia'' ''deals''
    \<and> \<not> selects fake_matches (buildVisibilityFilter (Some (fst (hydrate (\<lambda>_. []) (\<lambda>_. None) (Some (\<lambda>_ _ _. None)) small_cache 0
     (gateway_scope 7 (resolve 2 0 team_db ''p'' ''mia'' ''deals'' False) ''mia'' ''deals'') ''p'' ''mia'' cold_hydrator)))
     ''ownerId'' [] (Some ''departmentId'')) eva_record"
    by (intro hydration_fails_closed [OF fake.mongo_core_axioms]) (auto simp: cold_hydrator_def)
  then show ?thesis by (rule conjunct2)
qed

end
