(* ===== verification/AutoPredicate.thy ===== *)
theory AutoPredicate
  imports AbacEval JsonText
begin

text \<open>
  The predicates of automation graphs
  (\<^verbatim>\<open>automation/src/automation/graph/abac-eval.ts\<close>): an evaluator over untyped stored JSON with the
  extra operators contains, is_empty and is_not_empty, and the shape check that runs when a graph is
  saved. Evaluation of a malformed tree may raise (a \<open>TypeError\<close> of the language); that is \<open>None\<close> here.
\<close>

subsection \<open>Conversion to a string\<close>

text \<open>\<open>String(v)\<close>; inside an array null and undefined give the empty text.\<close>

fun js_String :: "jsval \<Rightarrow> string" where
  "js_String JUndef = ''undefined''"
| "js_String JNull = ''null''"
| "js_String (JBool b) = (if b then ''true'' else ''false'')"
| "js_String (JNum q) = num_text q"
| "js_String (JStr s) = s"
| "js_String (JArr xs) = join '','' (map (\<lambda>x. if x = JUndef \<or> x = JNull then [] else js_String x) xs)"
| "js_String (JObj ps) = ''[object Object]''"

text \<open>\<open>v ?? d\<close>.\<close>

definition coalesce :: "jsval \<Rightarrow> jsval \<Rightarrow> jsval" where
  "coalesce v d = (if js_nullish v then d else v)"

subsection \<open>Operands\<close>

text \<open>The text after the first dot, the whole text without one.\<close>

fun after_dot :: "string \<Rightarrow> string option" where
  "after_dot [] = None"
| "after_dot (c # s) = (if c = CHR ''.'' then Some s else after_dot s)"

definition flatField :: "string \<Rightarrow> string" where
  "flatField r = (case after_dot r of None \<Rightarrow> r | Some s \<Rightarrow> s)"

text \<open>The property a reference names. Only a string or an array has \<open>indexOf\<close> and \<open>slice\<close>.\<close>

fun ref_key :: "jsval \<Rightarrow> string option" where
  "ref_key (JStr r) = Some (flatField r)"
| "ref_key (JArr xs) = Some (js_String (JArr (case dropWhile (\<lambda>x. \<not> js_seq x (JStr ''.'')) xs of [] \<Rightarrow> xs | _ # ys \<Rightarrow> ys)))"
| "ref_key _ = None"

fun is_object :: "jsval \<Rightarrow> bool" where
  "is_object (JObj _) = True"
| "is_object (JArr _) = True"
| "is_object _ = False"

definition pred_operand :: "jsval \<Rightarrow> doc \<Rightarrow> jsval option" where
  "pred_operand x d =
     (if \<not> is_object x then Some JNull
      else if js_has x ''ref'' then map_option (\<lambda>k. nul (fld d k)) (ref_key (js_get x ''ref''))
      else Some (js_get x ''lit''))"

text \<open>Two references to one field give the same object; otherwise the two sides are never the same.\<close>

definition same_field :: "jsval \<Rightarrow> jsval \<Rightarrow> bool" where
  "same_field x y \<longleftrightarrow> js_has x ''ref'' \<and> js_has y ''ref'' \<and> ref_key (js_get x ''ref'') = ref_key (js_get y ''ref'')"

fun isEmptyValue :: "jsval \<Rightarrow> bool" where
  "isEmptyValue JUndef = True"
| "isEmptyValue JNull = True"
| "isEmptyValue (JStr s) = (s = [])"
| "isEmptyValue (JArr xs) = (xs = [])"
| "isEmptyValue (JObj ps) = (ps = [])"
| "isEmptyValue _ = False"

subsection \<open>Evaluation\<close>

definition contains_value :: "jsval \<Rightarrow> jsval \<Rightarrow> bool" where
  "contains_value lv rv = (case lv of
       JStr s \<Rightarrow> contains_str s (js_String (coalesce rv (JStr [])))
     | JArr xs \<Rightarrow> js_includes xs rv
     | _ \<Rightarrow> False)"

definition ABAC_EVAL_LEAF_OPS :: "string list" where
  "ABAC_EVAL_LEAF_OPS = [''eq'', ''ne'', ''gt'', ''gte'', ''lt'', ''lte'', ''in'', ''nin'', ''contains'', ''is_empty'', ''is_not_empty'']"

definition pred_leaf :: "jsval \<Rightarrow> doc \<Rightarrow> bool option" where
  "pred_leaf n d =
     Option.bind (pred_operand (js_get n ''left'') d) (\<lambda>lv.
       let c = js_get n ''op'' in
       if c = JStr ''is_empty'' then Some (isEmptyValue lv)
       else if c = JStr ''is_not_empty'' then Some (\<not> isEmptyValue lv)
       else Option.bind (pred_operand (js_get n ''right'') d) (\<lambda>rv.
         if js_nullish lv then Some False
         else let same = (js_seq lv rv \<or> same_field (js_get n ''left'') (js_get n ''right'')) in
           Some (if c = JStr ''eq'' then same
            else if c = JStr ''ne'' then \<not> same
            else if c = JStr ''gt'' then ordCompare lv rv = Some GreaterC
            else if c = JStr ''gte'' then ordCompare lv rv = Some GreaterC \<or> ordCompare lv rv = Some EqC
            else if c = JStr ''lt'' then ordCompare lv rv = Some LessC
            else if c = JStr ''lte'' then ordCompare lv rv = Some LessC \<or> ordCompare lv rv = Some EqC
            else if c = JStr ''in'' then js_includes (arr_of rv) lv
            else if c = JStr ''nin'' then \<not> js_includes (arr_of rv) lv
            else if c = JStr ''contains'' then contains_value lv rv
            else False)))"

text \<open>\<open>every\<close> and \<open>some\<close> on the child list stop at the first child that decides; a \<open>nodes\<close> that is no
  array raises.\<close>

lemma member_size: "js_get v k = w \<Longrightarrow> w \<noteq> JUndef \<Longrightarrow> size w < size v"
proof (induction v k rule: js_get.induct)
  case (1 ps k)
  then obtain x where "map_of ps k = Some x" "x = w" by (auto split: option.splits)
  then have "(k, w) \<in> set ps" using map_of_SomeD by fastforce
  then have "size w < Suc (size_list (\<lambda>p. size (snd p)) ps)"
    by (induction ps) auto
  moreover have "size_list (\<lambda>p. size (snd p)) ps \<le> size_list (size_prod (\<lambda>_. 0) size) ps"
    by (rule size_list_pointwise) (auto simp: size_prod_simp split: prod.split)
  ultimately show ?case by (simp add: le_less_trans less_Suc_eq_le)
qed simp_all

lemma member_arr_size: "js_get v k = JArr xs \<Longrightarrow> x \<in> set xs \<Longrightarrow> size x < size v"
  by (drule member_size, simp) (auto dest: size_list_estimation' [where f = size and y = "size x"])

fun pred_every :: "('a \<Rightarrow> bool option) \<Rightarrow> 'a list \<Rightarrow> bool option" where
  "pred_every f [] = Some True"
| "pred_every f (x # xs) = Option.bind (f x) (\<lambda>b. if b then pred_every f xs else Some False)"

fun pred_some :: "('a \<Rightarrow> bool option) \<Rightarrow> 'a list \<Rightarrow> bool option" where
  "pred_some f [] = Some False"
| "pred_some f (x # xs) = Option.bind (f x) (\<lambda>b. if b then Some True else pred_some f xs)"

lemma pred_every_cong [fundef_cong]: "xs = ys \<Longrightarrow> (\<And>x. x \<in> set ys \<Longrightarrow> f x = g x) \<Longrightarrow> pred_every f xs = pred_every g ys"
  by (induction ys arbitrary: xs) (auto intro: Option.bind_cong)

lemma pred_some_cong [fundef_cong]: "xs = ys \<Longrightarrow> (\<And>x. x \<in> set ys \<Longrightarrow> f x = g x) \<Longrightarrow> pred_some f xs = pred_some g ys"
  by (induction ys arbitrary: xs) (auto intro: Option.bind_cong)

function evalAbac :: "jsval \<Rightarrow> doc \<Rightarrow> bool option" where
  "evalAbac n d =
     (if \<not> is_object n then Some True
      else if js_get n ''op'' = JStr ''and'' then
        (case js_get n ''nodes'' of JArr ns \<Rightarrow> pred_every (\<lambda>m. evalAbac m d) ns | _ \<Rightarrow> None)
      else if js_get n ''op'' = JStr ''or'' then
        (case js_get n ''nodes'' of JArr ns \<Rightarrow> pred_some (\<lambda>m. evalAbac m d) ns | _ \<Rightarrow> None)
      else if js_get n ''op'' = JStr ''not'' then map_option Not (evalAbac (js_get n ''node'') d)
      else pred_leaf n d)"
  by pat_completeness auto
termination
proof (relation "measure (size \<circ> fst)", goal_cases)
  case (4 n d)
  show ?case
  proof (cases "js_get n ''node''")
    case JUndef
    with 4 show ?thesis by (cases n) simp_all
  qed (use member_size [OF refl, of n "''node''"] in auto)
qed (auto dest: member_arr_size)

declare evalAbac.simps [simp del]

subsection \<open>The shape check\<close>

datatype shape_code = NodeNotObject | OpNotString | NodesNotArray | NodeAbsent | OpUnsupported | BadOperand

definition isOperandShape :: "jsval \<Rightarrow> bool" where
  "isOperandShape v \<longleftrightarrow> is_object v \<and> js_has v ''ref'' \<noteq> js_has v ''lit''"

definition leaf_shape :: "jsval \<Rightarrow> string \<Rightarrow> string \<Rightarrow> (shape_code \<times> string) option" where
  "leaf_shape n c path =
     (if c \<notin> set ABAC_EVAL_LEAF_OPS then Some (OpUnsupported, path @ ''.op'')
      else if \<not> isOperandShape (js_get n ''left'') then Some (BadOperand, path @ ''.left'')
      else if c \<noteq> ''is_empty'' \<and> c \<noteq> ''is_not_empty'' \<and> \<not> isOperandShape (js_get n ''right'') then Some (BadOperand, path @ ''.right'')
      else None)"

text \<open>The first error of the children, each at its own path.\<close>

definition child_path :: "string \<Rightarrow> nat \<Rightarrow> string" where
  "child_path path i = path @ ''.nodes['' @ nat_str i @ '']''"

fun first_err :: "('a \<Rightarrow> string \<Rightarrow> 'e option) \<Rightarrow> string \<Rightarrow> (nat \<times> 'a) list \<Rightarrow> 'e option" where
  "first_err f path [] = None"
| "first_err f path ((i, x) # xs) =
     (case f x (child_path path i) of Some e \<Rightarrow> Some e | None \<Rightarrow> first_err f path xs)"

lemma first_err_cong [fundef_cong]:
  "path = path' \<Longrightarrow> xs = ys \<Longrightarrow> (\<And>i x p. (i, x) \<in> set ys \<Longrightarrow> f x p = g x p) \<Longrightarrow> first_err f path xs = first_err g path' ys"
proof (induction ys arbitrary: xs)
  case (Cons a ys)
  obtain i x where a: "a = (i, x)" by force
  from Cons have "first_err f path ys = first_err g path' ys" by (metis list.set_intros(2))
  moreover have "f x p = g x p" for p by (rule Cons.prems(3) [of i]) (simp add: a)
  ultimately show ?case using Cons.prems(1,2) by (simp add: a cong: option.case_cong)
qed simp

lemma enumerate_in: "(i, x) \<in> set (enumerate k xs) \<Longrightarrow> x \<in> set xs"
  by (induction xs arbitrary: k) auto

function validateAbacShape :: "jsval \<Rightarrow> string \<Rightarrow> (shape_code \<times> string) option" where
  "validateAbacShape n path =
     (if js_nullish n then None
      else case n of JObj ps \<Rightarrow>
        (case js_get n ''op'' of
           JStr c \<Rightarrow>
             if c = ''and'' \<or> c = ''or'' then
               (case js_get n ''nodes'' of
                  JArr ns \<Rightarrow> first_err validateAbacShape path (enumerate 0 ns)
                | _ \<Rightarrow> Some (NodesNotArray, path @ ''.nodes''))
             else if c = ''not'' then
               (if \<not> js_has n ''node'' then Some (NodeAbsent, path @ ''.node'')
                else validateAbacShape (js_get n ''node'') (path @ ''.node''))
             else leaf_shape n c path
         | JUndef \<Rightarrow> if ps = [] then None else Some (OpNotString, path @ ''.op'')
         | _ \<Rightarrow> Some (OpNotString, path @ ''.op''))
      | _ \<Rightarrow> Some (NodeNotObject, path))"
  by pat_completeness auto
termination
proof (relation "measure (size \<circ> fst)", goal_cases)
  case (2 n path ps c ns i x p)
  then show ?case by (simp only: in_measure comp_def fst_conv) (rule member_arr_size, assumption, erule enumerate_in)
next
  case (3 n path ps c)
  show ?case
  proof (cases "js_get n ''node''")
    case JUndef
    with 3 show ?thesis by simp
  qed (use member_size [OF refl, of n "''node''"] in simp_all)
qed simp

declare validateAbacShape.simps [simp del]

subsection \<open>Agreement with the shared gate\<close>

text \<open>Trees of the shared language whose leaves compare a field of the record with a literal.\<close>

definition canvas_tree :: "abac_node \<Rightarrow> bool" where
  "canvas_tree n = all_leaves (\<lambda>c l r. (\<exists>f. l = ORef f \<and> starts_with f ''record.'') \<and> (\<exists>v. r = OLit v)) n"

lemma pred_every_total: "(\<And>x. x \<in> set xs \<Longrightarrow> f x = Some (P x)) \<Longrightarrow> pred_every f xs = Some (list_all P xs)"
  by (induction xs) auto

lemma pred_some_total: "(\<And>x. x \<in> set xs \<Longrightarrow> f x = Some (P x)) \<Longrightarrow> pred_some f xs = Some (list_ex P xs)"
  by (induction xs) auto

lemma flatField_record: "starts_with f ''record.'' \<Longrightarrow> flatField f = refField f"
  by (auto simp: starts_with_iff flatField_def refField_def)

lemma op_names: "op_name c \<in> set ABAC_EVAL_LEAF_OPS" "op_name c \<noteq> ''is_empty''" "op_name c \<noteq> ''is_not_empty''"
    "op_name c \<noteq> ''and''" "op_name c \<noteq> ''or''" "op_name c \<noteq> ''not''"
  by (cases c; simp add: ABAC_EVAL_LEAF_OPS_def)+

lemma canvas_leaf:
  assumes "starts_with f ''record.''"
  shows "pred_leaf (node_js (Leaf c (ORef f) (OLit v))) d = Some (gate_leaf c (ORef f) (OLit v) d)"
  using assms by (cases c) (simp_all add: pred_leaf_def pred_operand_def same_field_def evalLeaf_def fieldValue_def flatField_record Let_def)

lemma canvas_eval: "canvas_tree n \<Longrightarrow> evalAbac (node_js n) d = Some (gate n d)"
  unfolding canvas_tree_def
proof (induction n)
  case (Leaf c l r)
  then obtain f v where "l = ORef f" "r = OLit v" "starts_with f ''record.''" by auto
  then show ?case using canvas_leaf [of f c v d] op_names(4-6) [of c]
    by (subst evalAbac.simps) (simp del: gate_leaf.simps)
next
  case (AndN ns)
  then have "pred_every (\<lambda>m. evalAbac m d) (map node_js ns) = Some (list_all (\<lambda>n. gate n d) ns)"
    by (induction ns) auto
  then show ?case by (subst evalAbac.simps) simp
next
  case (OrN ns)
  then have "pred_some (\<lambda>m. evalAbac m d) (map node_js ns) = Some (list_ex (\<lambda>n. gate n d) ns)"
    by (induction ns) auto
  then show ?case by (subst evalAbac.simps) simp
next
  case (NotN n)
  then show ?case by (subst evalAbac.simps) simp
qed

lemma first_err_None: "\<forall>(i, x) \<in> set xs. \<forall>p. f x p = None \<Longrightarrow> first_err f path xs = None"
  by (induction xs) auto

lemma canvas_shape: "canvas_tree n \<Longrightarrow> validateAbacShape (node_js n) path = None"
  unfolding canvas_tree_def
proof (induction n arbitrary: path)
  case (Leaf c l r)
  then obtain f v where "l = ORef f" "r = OLit v" by auto
  then show ?case using op_names [of c] by (subst validateAbacShape.simps) (simp add: leaf_shape_def isOperandShape_def)
next
  case (AndN ns)
  then have "first_err validateAbacShape path (enumerate 0 (map node_js ns)) = None"
    by (intro first_err_None) (auto dest!: enumerate_in simp: list_all_iff)
  then show ?case by (subst validateAbacShape.simps) simp
next
  case (OrN ns)
  then have "first_err validateAbacShape path (enumerate 0 (map node_js ns)) = None"
    by (intro first_err_None) (auto dest!: enumerate_in simp: list_all_iff)
  then show ?case by (subst validateAbacShape.simps) simp
next
  case (NotN n)
  then show ?case by (subst validateAbacShape.simps) simp
qed

text \<open>C20: On the conditions the shared language and the canvas have in common, trees over fields of the record
  compared with literals, the evaluator of automation accepts the stored form, never raises, and decides
  every record as the shared gate does.\<close>

theorem canvas_predicate_is_shared_gate:
  assumes "canvas_tree n"
  shows "validateAbacShape (node_js n) ''$'' = None \<and> evalAbac (node_js n) d = Some (gate n d) \<and> evalGate n d = Inr (gate n d)"
proof -
  have "residual n" using assms by (induction n) (auto simp: canvas_tree_def list_all_iff)
  then have "evalGate n d = Inr (gate n d)" by (simp add: evalGate_def eval_residual(1))
  then show ?thesis using canvas_shape [OF assms] canvas_eval [OF assms] by simp
qed

theorem canvas_predicate_is_shared_gate_witness:
  "evalAbac (node_js (NotN (Leaf OGt (ORef ''record.amount'') (OLit (JNum 5))))) [(''amount'', JNum 7)] = Some False"
proof -
  have "canvas_tree (NotN (Leaf OGt (ORef ''record.amount'') (OLit (JNum 5))))" by (simp add: canvas_tree_def)
  from canvas_predicate_is_shared_gate [OF this, of "[(''amount'', JNum 7)]"]
  show ?thesis by (simp add: evalLeaf_def fieldValue_def fld_def ordCompare_def refField_def)
qed

subsection \<open>When evaluation cannot raise\<close>

text \<open>Every \<open>ref\<close> inside a value is a text.\<close>

fun text_refs :: "jsval \<Rightarrow> bool" where
  "text_refs (JArr xs) = list_all text_refs xs"
| "text_refs (JObj ps) \<longleftrightarrow> list_all (\<lambda>(k, v). text_refs v) ps \<and> (case map_of ps ''ref'' of None \<Rightarrow> True | Some v \<Rightarrow> (\<exists>s. v = JStr s))"
| "text_refs _ = True"

lemma text_refs_get: "text_refs v \<Longrightarrow> text_refs (js_get v k)"
  by (cases "(v, k)" rule: js_get.cases) (auto simp: list_all_iff split: option.split dest!: map_of_SomeD)

lemma text_refs_elem: "text_refs v \<Longrightarrow> js_get v k = JArr xs \<Longrightarrow> x \<in> set xs \<Longrightarrow> text_refs x"
  using text_refs_get [of v k] by (simp add: list_all_iff)

lemma operand_value: "text_refs x \<Longrightarrow> pred_operand x d \<noteq> None"
  by (cases x) (auto simp: pred_operand_def split: option.splits)

lemma leaf_value: "text_refs n \<Longrightarrow> pred_leaf n d \<noteq> None"
  using operand_value [OF text_refs_get, of n "''left''" d] operand_value [OF text_refs_get, of n "''right''" d]
  by (auto simp: pred_leaf_def Let_def)

lemma pred_every_some: "(\<And>x. x \<in> set xs \<Longrightarrow> f x \<noteq> None) \<Longrightarrow> pred_every f xs \<noteq> None \<and> pred_some f xs \<noteq> None"
  by (induction xs) (auto simp: Option.bind_eq_None_conv split: if_splits)

lemma first_err_ok: "first_err f path xs = None \<Longrightarrow> (i, x) \<in> set xs \<Longrightarrow> f x (child_path path i) = None"
  by (induction f path xs rule: first_err.induct) (auto split: option.splits)

lemma enumerate_nth: "x \<in> set xs \<Longrightarrow> \<exists>i. (i, x) \<in> set (enumerate k xs)"
  by (induction xs arbitrary: k) auto

text \<open>A predicate that passes the shape check and whose references are texts always gives a verdict.\<close>

lemma validated_predicate_total:
  "text_refs n \<Longrightarrow> validateAbacShape n path = None \<Longrightarrow> evalAbac n d \<noteq> None"
proof (induction n d arbitrary: path rule: evalAbac.induct)
  case (1 n d)
  show ?case
  proof (cases "is_object n \<and> js_get n ''op'' \<in> {JStr ''and'', JStr ''or''}")
    case True
    then obtain ps where n: "n = JObj ps" by (cases n) auto
    from True "1.prems"(2) obtain ns where ns: "js_get n ''nodes'' = JArr ns" "first_err validateAbacShape path (enumerate 0 ns) = None"
      unfolding n by (subst (asm) validateAbacShape.simps) (auto split: jsval.splits)
    have "evalAbac m d \<noteq> None" if m: "m \<in> set ns" for m
    proof -
      obtain i where "(i, m) \<in> set (enumerate 0 ns)" by (rule exE [OF enumerate_nth [OF m]])
      then have "validateAbacShape m (child_path path i) = None" by (rule first_err_ok [OF ns(2)])
      moreover have "text_refs m" by (rule text_refs_elem [OF "1.prems"(1) ns(1) m])
      ultimately show ?thesis using True ns(1) m "1.IH"(1,2) by auto
    qed
    from pred_every_some [of ns, OF this] show ?thesis using True ns(1) by (subst evalAbac.simps) auto
  next
    case False
    show ?thesis
    proof (cases "is_object n \<and> js_get n ''op'' = JStr ''not''")
      case True
      then obtain ps where n: "n = JObj ps" by (cases n) auto
      have "validateAbacShape (js_get n ''node'') (path @ ''.node'') = None"
        using True "1.prems"(2) unfolding n by (subst (asm) validateAbacShape.simps) (auto split: if_splits)
      then have "evalAbac (js_get n ''node'') d \<noteq> None" using "1.IH"(3) True text_refs_get "1.prems"(1) by simp
      with True show ?thesis by (subst evalAbac.simps) simp
    next
      case False
      then show ?thesis using \<open>\<not> (is_object n \<and> js_get n ''op'' \<in> {JStr ''and'', JStr ''or''})\<close> leaf_value "1.prems"(1)
        by (subst evalAbac.simps) auto
    qed
  qed
qed

text \<open>The empty condition, which the shape check documents as always true, is never satisfied; and a
  reference that is no text passes the check and raises.\<close>

lemma empty_predicate_fails: "validateAbacShape (JObj []) ''$'' = None" "evalAbac (JObj []) d = Some False"
  by (simp_all add: validateAbacShape.simps evalAbac.simps pred_leaf_def pred_operand_def)

lemma number_reference_raises:
  "validateAbacShape (JObj [(''op'', JStr ''eq''), (''left'', JObj [(''ref'', JNum 1)]), (''right'', JObj [(''lit'', JNum 1)])]) ''$'' = None"
  "evalAbac (JObj [(''op'', JStr ''eq''), (''left'', JObj [(''ref'', JNum 1)]), (''right'', JObj [(''lit'', JNum 1)])]) d = None"
  by (simp_all add: validateAbacShape.simps evalAbac.simps pred_leaf_def pred_operand_def leaf_shape_def ABAC_EVAL_LEAF_OPS_def isOperandShape_def)

end
