(* ===== verification/AutoGraph.thy ===== *)
theory AutoGraph
  imports AutoPredicate
begin

text \<open>
  Workflow graphs of automation rules and the checks that run before one is saved
  (\<^verbatim>\<open>automation/src/automation/graph/graph-types.ts\<close>, \<^verbatim>\<open>graph-validator.ts\<close>, \<^verbatim>\<open>registry.ts\<close>): node and edge
  types, the trigger and action catalogs, the validator with its issues in the order in which it
  reports them (their texts are left out), the topological pass that finds cycles and the search from
  the trigger. A graph is valid when no issue is an error; the theorems say what that gives.
\<close>

subsection \<open>Graphs\<close>

record graph_node =
  gn_id :: string
  gn_type :: string
  gn_x :: rat
  gn_y :: rat
  gn_config :: jsval

record graph_edge =
  ge_id :: string
  ge_source :: string
  ge_sourceHandle :: string
  ge_target :: string
  ge_targetHandle :: "string option"

record graph_spec =
  gs_version :: rat
  gs_nodes :: "graph_node list"
  gs_edges :: "graph_edge list"
  gs_viewport :: "(rat \<times> rat \<times> rat) option"

datatype graph_code =
    NO_NODES | GRAPH_TOO_LARGE | INVALID_NODE_TYPE | DUPLICATE_NODE_ID | NO_TRIGGER | MULTIPLE_TRIGGERS
  | UNKNOWN_TRIGGER | MISSING_DEPENDENCY | UNKNOWN_ACTION | EXTERNAL_EFFECT_REQUIRES_MANAGE | INVALID_ARGUMENT
  | CONDITION_NOT_COMPILABLE | INVALID_HANDLE | CYCLE | DANGLING_NODE

record graph_issue =
  gi_code :: graph_code
  gi_nodeId :: string
  gi_edgeId :: string
  gi_error :: bool

definition graph_err :: "graph_code \<Rightarrow> string \<Rightarrow> string \<Rightarrow> graph_issue" where
  "graph_err c n e = \<lparr>gi_code = c, gi_nodeId = n, gi_edgeId = e, gi_error = True\<rparr>"

definition graph_warn :: "graph_code \<Rightarrow> string \<Rightarrow> string \<Rightarrow> graph_issue" where
  "graph_warn c n e = \<lparr>gi_code = c, gi_nodeId = n, gi_edgeId = e, gi_error = False\<rparr>"

subsection \<open>The catalogs\<close>

text \<open>The output schemas of the triggers, all empty, are left out.\<close>

record trigger_def =
  td_id :: string
  td_requiredModule :: string
  td_entityType :: string
  td_eventName :: string
  td_configSchema :: "(string \<times> string) list"

record action_def =
  ad_id :: string
  ad_requiredModule :: string
  ad_externalEffect :: bool
  ad_configSchema :: "(string \<times> string) list"

abbreviation trig :: "string \<Rightarrow> string \<Rightarrow> string \<Rightarrow> (string \<times> string) list \<Rightarrow> trigger_def" where
  "trig i m t cs \<equiv> \<lparr>td_id = i, td_requiredModule = m, td_entityType = t, td_eventName = i, td_configSchema = cs\<rparr>"

abbreviation act :: "string \<Rightarrow> string \<Rightarrow> bool \<Rightarrow> (string \<times> string) list \<Rightarrow> action_def" where
  "act i m x cs \<equiv> \<lparr>ad_id = i, ad_requiredModule = m, ad_externalEffect = x, ad_configSchema = cs\<rparr>"

definition TRIGGER_CATALOG :: "trigger_def list" where
  "TRIGGER_CATALOG =
     [trig ''crm.contact.created'' ''contacts'' ''contact'' [],
      trig ''crm.contact.updated'' ''contacts'' ''contact'' [],
      trig ''crm.deal.created'' ''deals'' ''deal'' [],
      trig ''crm.deal.stage_changed'' ''deals'' ''deal'' [(''fromStage'', ''string''), (''toStage'', ''string'')],
      trig ''crm.deal.reopened'' ''deals'' ''deal'' [(''toStage'', ''string'')],
      trig ''crm.deal.won'' ''deals'' ''deal'' [],
      trig ''crm.deal.lost'' ''deals'' ''deal'' [],
      trig ''crm.order.status_changed'' ''orders'' ''order'' [(''toStatus'', ''string'')],
      trig ''crm.activity.created'' ''activities'' ''activity'' [],
      trig ''crm.activity.completed'' ''activities'' ''activity'' []]"

definition ACTION_CATALOG :: "action_def list" where
  "ACTION_CATALOG =
     [act ''create_activity'' ''activities'' False [(''type'', ''string''), (''title'', ''string'')],
      act ''assign_user'' ''automation'' False [(''userId'', ''string''), (''entityType'', ''string?''), (''entityId'', ''string?'')],
      act ''change_stage'' ''deals'' False [(''stageId'', ''string''), (''entityType'', ''string?''), (''entityId'', ''string?'')],
      act ''update_field'' ''automation'' False
        [(''field'', ''string''), (''value'', ''string''), (''entityType'', ''string?''), (''entityId'', ''string?'')],
      act ''send_notification'' ''automation'' False
        [(''userId'', ''string?''), (''title'', ''string?''), (''body'', ''string''), (''channel'', ''string?''), (''template'', ''string?'')],
      act ''qualify_deal'' ''deals'' False [(''target'', ''string?''), (''forceCreate'', ''boolean?'')],
      act ''send_webhook'' ''automation'' True [(''connectionId'', ''string'')],
      act ''send_email'' ''automation'' True [(''to'', ''string''), (''subject'', ''string''), (''template'', ''string'')],
      act ''generate_document'' ''documents'' False
        [(''template_id'', ''string''), (''context_type'', ''string?''), (''record_id'', ''string?''), (''trigger_event_id'', ''string?'')]]"

definition TRIGGER_IDS :: "string list" where
  "TRIGGER_IDS = map td_id TRIGGER_CATALOG"

definition ACTION_IDS :: "string list" where
  "ACTION_IDS = map ad_id ACTION_CATALOG"

definition EXTERNAL_EFFECT_ACTIONS :: "string list" where
  "EXTERNAL_EFFECT_ACTIONS = map ad_id (filter ad_externalEffect ACTION_CATALOG)"

definition NODE_TYPES :: "string list" where
  "NODE_TYPES = [''trigger'', ''condition'', ''branch'', ''action'']"

subsection \<open>Handles and configuration\<close>

definition caseHandle :: "jsval \<Rightarrow> string" where
  "caseHandle c = ''case:'' @ js_String (coalesce (js_get c ''key'') (JStr []))"

definition outHandlesOf :: "graph_node \<Rightarrow> string list" where
  "outHandlesOf n =
     (if gn_type n = ''trigger'' then [''out'']
      else if gn_type n = ''condition'' then [''true'', ''false'']
      else if gn_type n = ''branch'' then map caseHandle (arr_of (js_get (gn_config n) ''cases'')) @ [''else'']
      else if gn_type n = ''action'' then [''out'']
      else [])"

fun configString :: "jsval \<Rightarrow> string list \<Rightarrow> string" where
  "configString cfg [] = []"
| "configString cfg (k # ks) =
     (let v = js_get cfg k in if \<not> js_nullish v \<and> v \<noteq> JStr [] then js_String v else configString cfg ks)"

definition trigger_name :: "graph_node \<Rightarrow> string" where
  "trigger_name n = configString (gn_config n) [''trigger_id'', ''triggerId'', ''event_name'', ''eventName'']"

definition action_name :: "graph_node \<Rightarrow> string" where
  "action_name n = configString (gn_config n) [''action_id'', ''actionId'', ''type'']"

subsection \<open>The stages of the validator\<close>

definition checkModule :: "string list \<Rightarrow> string option \<Rightarrow> string \<Rightarrow> graph_issue list" where
  "checkModule mods req nodeId =
     (case req of
        None \<Rightarrow> []
      | Some m \<Rightarrow> if m = [] \<or> mods = [] \<or> m \<in> set mods then [] else [graph_err MISSING_DEPENDENCY nodeId []])"

text \<open>The index of the nodes by id, the first node of an id counts.\<close>

definition index_node :: "(string \<times> graph_node) list \<times> graph_issue list \<Rightarrow> graph_node \<Rightarrow> (string \<times> graph_node) list \<times> graph_issue list" where
  "index_node st n =
     (let (byId, issues) = st in
      if gn_id n = [] then (byId, issues @ [graph_err INVALID_NODE_TYPE [] []])
      else if map_of byId (gn_id n) \<noteq> None then (byId, issues @ [graph_err DUPLICATE_NODE_ID (gn_id n) []])
      else (byId @ [(gn_id n, n)],
            issues @ (if gn_type n \<in> set NODE_TYPES then [] else [graph_err INVALID_NODE_TYPE (gn_id n) []])))"

definition index_nodes :: "graph_node list \<Rightarrow> (string \<times> graph_node) list \<times> graph_issue list" where
  "index_nodes ns = foldl index_node ([], []) ns"

definition triggers_of :: "graph_node list \<Rightarrow> graph_node list" where
  "triggers_of ns = filter (\<lambda>n. gn_type n = ''trigger'') ns"

definition trigger_issues :: "string list \<Rightarrow> graph_node list \<Rightarrow> graph_issue list" where
  "trigger_issues mods ns =
     (case triggers_of ns of
        [] \<Rightarrow> [graph_err NO_TRIGGER [] []]
      | t # ts \<Rightarrow>
          (if ts \<noteq> [] then [graph_err MULTIPLE_TRIGGERS [] []] else [])
          @ (let i = trigger_name t in
             if i = [] \<or> i \<notin> set TRIGGER_IDS then [graph_err UNKNOWN_TRIGGER (gn_id t) []]
             else checkModule mods (map_option td_requiredModule (find (\<lambda>d. td_id d = i \<or> td_eventName d = i) TRIGGER_CATALOG)) (gn_id t)))"

definition webhook_connection :: "graph_node \<Rightarrow> string" where
  "webhook_connection n =
     (let params = coalesce (js_get (gn_config n) ''params'') (gn_config n) in
      trim (js_String (coalesce (coalesce (js_get params ''connection_id'') (js_get params ''connectionId'')) (JStr []))))"

definition action_issues :: "bool \<Rightarrow> string list \<Rightarrow> graph_node \<Rightarrow> graph_issue list" where
  "action_issues canManage mods n =
     (let i = action_name n in
      if i = [] \<or> i \<notin> set ACTION_IDS then [graph_err UNKNOWN_ACTION (gn_id n) []]
      else checkModule mods (map_option ad_requiredModule (find (\<lambda>d. ad_id d = i) ACTION_CATALOG)) (gn_id n)
        @ (if i \<in> set EXTERNAL_EFFECT_ACTIONS \<and> \<not> canManage then [graph_err EXTERNAL_EFFECT_REQUIRES_MANAGE (gn_id n) []] else [])
        @ (if i = ''send_webhook'' \<and> webhook_connection n = [] then [graph_err INVALID_ARGUMENT (gn_id n) []] else []))"

text \<open>The cases of a branch, with the keys seen so far. \<open>in\<close> raises on a case that is a plain value.\<close>

definition case_raises :: "graph_node \<Rightarrow> bool" where
  "case_raises n \<longleftrightarrow> gn_type n = ''branch''
     \<and> list_ex (\<lambda>c. \<not> js_nullish c \<and> \<not> is_object c) (arr_of (js_get (gn_config n) ''cases''))"

fun case_issues :: "string \<Rightarrow> string list \<Rightarrow> jsval list \<Rightarrow> graph_issue list" where
  "case_issues nid seen [] = []"
| "case_issues nid seen (c # cs) =
     (let key = js_String (coalesce (js_get c ''key'') (JStr [])) in
      (if key = [] then [graph_err CONDITION_NOT_COMPILABLE nid []] else [])
      @ (if key \<in> set seen then [graph_err CONDITION_NOT_COMPILABLE nid []] else [])
      @ (if js_has c ''equals'' then [] else [graph_err CONDITION_NOT_COMPILABLE nid []])
      @ case_issues nid (js_add seen key) cs)"

definition node_issues :: "bool \<Rightarrow> string list \<Rightarrow> graph_node \<Rightarrow> graph_issue list" where
  "node_issues canManage mods n =
     (if gn_type n = ''action'' then action_issues canManage mods n
      else if gn_type n = ''condition'' then
        (case validateAbacShape (js_get (gn_config n) ''predicate'') ''$'' of
           None \<Rightarrow> [] | Some e \<Rightarrow> [graph_err CONDITION_NOT_COMPILABLE (gn_id n) []])
      else if gn_type n = ''branch'' then
        (if configString (gn_config n) [''on''] = [] then [graph_err CONDITION_NOT_COMPILABLE (gn_id n) []] else [])
        @ case_issues (gn_id n) [] (arr_of (js_get (gn_config n) ''cases''))
      else [])"

definition edge_issue :: "(string \<times> graph_node) list \<Rightarrow> graph_edge \<Rightarrow> graph_issue option" where
  "edge_issue byId e =
     (if ge_id e = [] then Some (graph_err INVALID_HANDLE [] [])
      else case map_of byId (ge_source e) of
        None \<Rightarrow> Some (graph_err INVALID_HANDLE [] (ge_id e))
      | Some src \<Rightarrow>
          (case map_of byId (ge_target e) of
             None \<Rightarrow> Some (graph_err INVALID_HANDLE [] (ge_id e))
           | Some tgt \<Rightarrow>
               if gn_type tgt = ''trigger'' then Some (graph_err INVALID_HANDLE (gn_id tgt) (ge_id e))
               else if ge_sourceHandle e \<notin> set (outHandlesOf src) then Some (graph_err INVALID_HANDLE (gn_id src) (ge_id e))
               else None))"

text \<open>The edges that are entered into the adjacency lists and the counts of incoming edges.\<close>

definition good_edges :: "(string \<times> graph_node) list \<Rightarrow> graph_edge list \<Rightarrow> (string \<times> string) list" where
  "good_edges byId es = map (\<lambda>e. (ge_source e, ge_target e)) (filter (\<lambda>e. edge_issue byId e = None) es)"

definition adjacent :: "(string \<times> string) list \<Rightarrow> string \<Rightarrow> string list" where
  "adjacent es x = map snd (filter (\<lambda>e. fst e = x) es)"

definition incoming_count :: "graph_node list \<Rightarrow> (string \<times> string) list \<Rightarrow> (string \<times> int) list" where
  "incoming_count ns es = map (\<lambda>i. (i, int (length (filter (\<lambda>e. snd e = i) es)))) (js_set_of (map gn_id ns))"

subsection \<open>Cycles\<close>

text \<open>Topological pass: a node whose count of incoming edges reaches zero is queued.\<close>

definition count_of :: "(string \<times> int) list \<Rightarrow> string \<Rightarrow> int" where
  "count_of m x = (case map_of m x of None \<Rightarrow> 0 | Some d \<Rightarrow> d)"

fun relax :: "string list \<Rightarrow> (string \<times> int) list \<Rightarrow> string list \<Rightarrow> (string \<times> int) list \<times> string list" where
  "relax [] indeg queue = (indeg, queue)"
| "relax (y # ys) indeg queue =
     (let d = count_of indeg y - 1 in
      relax ys (AList.update y d indeg) (if d = 0 then queue @ [y] else queue))"

definition positive :: "(string \<times> int) list \<Rightarrow> string set" where
  "positive m = {x. count_of m x > 0}"

lemma count_of_update [simp]: "count_of (AList.update y d m) x = (if x = y then d else count_of m x)"
  by (simp add: count_of_def update_conv')

lemma finite_positive [simp]: "finite (positive m)"
proof -
  have "positive m \<subseteq> fst ` set m"
    by (auto simp: positive_def count_of_def split: option.splits dest!: map_of_SomeD intro: rev_image_eqI)
  then show ?thesis by (rule finite_subset) simp
qed

lemma relax_measure:
  "relax ys indeg queue = (indeg', queue') \<Longrightarrow> length queue' + card (positive indeg') = length queue + card (positive indeg)"
proof (induction ys indeg queue rule: relax.induct)
  case (2 y ys indeg queue)
  let ?d = "count_of indeg y - 1"
  have pos: "positive (AList.update y ?d indeg) = (if ?d = 0 then positive indeg - {y} else positive indeg)"
    by (auto simp: positive_def)
  have "card (positive (AList.update y ?d indeg)) = (if ?d = 0 then card (positive indeg) - 1 else card (positive indeg))"
    unfolding pos by (auto simp: positive_def)
  moreover have "card (positive indeg) > 0" if "?d = 0"
  proof -
    from that have "y \<in> positive indeg" by (simp add: positive_def)
    then show ?thesis by (auto simp: card_gt_0_iff)
  qed
  ultimately show ?case using 2 by (auto simp: Let_def split: if_splits)
qed simp

function kahn :: "(string \<times> string) list \<Rightarrow> (string \<times> int) list \<Rightarrow> string list \<Rightarrow> nat \<Rightarrow> nat \<times> (string \<times> int) list" where
  "kahn es indeg [] processed = (processed, indeg)"
| "kahn es indeg (x # queue) processed =
     (let (indeg', queue') = relax (adjacent es x) indeg queue in kahn es indeg' queue' (Suc processed))"
  by pat_completeness auto
termination
  by (relation "measure (\<lambda>(es, indeg, queue, p). length queue + card (positive indeg))") (auto dest!: relax_measure [OF sym])

definition cycle_issues :: "(string \<times> graph_node) list \<Rightarrow> graph_node list \<Rightarrow> (string \<times> string) list \<Rightarrow> graph_issue list" where
  "cycle_issues byId ns es =
     (let indeg = incoming_count ns es;
          (processed, rest) = kahn es indeg (map fst (filter (\<lambda>(i, d). d = 0) indeg)) 0
      in if processed < length byId
         then [graph_err CYCLE (case filter (\<lambda>(i, d). d > 0) rest of [] \<Rightarrow> [] | (i, d) # _ \<Rightarrow> i) []] else [])"

subsection \<open>Reachability\<close>

text \<open>The stack is kept with its top first.\<close>

fun push_new :: "string list \<Rightarrow> string list \<Rightarrow> string list \<Rightarrow> string list \<times> string list" where
  "push_new [] reached stack = (reached, stack)"
| "push_new (y # ys) reached stack =
     (if y \<in> set reached then push_new ys reached stack else push_new ys (reached @ [y]) (y # stack))"

lemma push_new_reached: "set (fst (push_new ys reached stack)) = set reached \<union> set ys"
  by (induction ys reached stack rule: push_new.induct) auto

lemma push_new_same: "set ys \<subseteq> set reached \<Longrightarrow> push_new ys reached stack = (reached, stack)"
  by (induction ys reached stack rule: push_new.induct) auto

lemma adjacent_targets: "set (adjacent es x) \<subseteq> snd ` set es"
  by (auto simp: adjacent_def)

function search :: "(string \<times> string) list \<Rightarrow> string list \<Rightarrow> string list \<Rightarrow> string list" where
  "search es reached [] = reached"
| "search es reached (x # stack) =
     (let (reached', stack') = push_new (adjacent es x) reached stack in search es reached' stack')"
  by pat_completeness auto
termination
proof (relation "measures [\<lambda>(es, reached, stack). card (snd ` set es - set reached), \<lambda>(es, reached, stack). length stack]", goal_cases)
  case (2 es reached x stack p reached' stack')
  then have p: "push_new (adjacent es x) reached stack = (reached', stack')" by simp
  show ?case
  proof (cases "set (adjacent es x) \<subseteq> set reached")
    case True
    with p show ?thesis by (simp add: push_new_same)
  next
    case False
    then obtain y where "y \<in> set (adjacent es x)" "y \<notin> set reached" by blast
    moreover have "set reached' = set reached \<union> set (adjacent es x)" using push_new_reached [of "adjacent es x" reached stack] p by simp
    ultimately have "snd ` set es - set reached' \<subset> snd ` set es - set reached" using adjacent_targets [of es x] by blast
    then have "card (snd ` set es - set reached') < card (snd ` set es - set reached)" by (intro psubset_card_mono) simp
    then show ?thesis by simp
  qed
qed simp

definition dangling_issues :: "graph_node list \<Rightarrow> (string \<times> string) list \<Rightarrow> graph_issue list" where
  "dangling_issues ns es =
     (case triggers_of ns of
        [] \<Rightarrow> []
      | t # _ \<Rightarrow>
          let reached = search es [gn_id t] [gn_id t] in
          map (\<lambda>n. if gn_type n = ''action'' \<and> action_name n \<in> set EXTERNAL_EFFECT_ACTIONS
                   then graph_err DANGLING_NODE (gn_id n) [] else graph_warn DANGLING_NODE (gn_id n) [])
            (filter (\<lambda>n. gn_type n \<noteq> ''trigger'' \<and> gn_id n \<notin> set reached) ns))"

subsection \<open>The validator\<close>

definition root_issues :: "graph_node list \<Rightarrow> (string \<times> string) list \<Rightarrow> graph_issue list" where
  "root_issues ns es =
     (case triggers_of ns of
        [] \<Rightarrow> []
      | t # _ \<Rightarrow> if count_of (incoming_count ns es) (gn_id t) > 0 then [graph_err INVALID_HANDLE (gn_id t) []] else [])"

text \<open>\<open>None\<close> when the validator raises.\<close>

definition validateGraph :: "nat \<Rightarrow> bool \<Rightarrow> string list \<Rightarrow> graph_spec \<Rightarrow> graph_issue list option" where
  "validateGraph maxNodes canManage enabledModules g =
     (let ns = gs_nodes g; mods = filter (\<lambda>m. m \<noteq> []) (map trim enabledModules) in
      if ns = [] then Some [graph_err NO_NODES [] []]
      else if list_ex case_raises ns then None
      else let (byId, index_issues) = index_nodes ns;
               es = good_edges byId (gs_edges g)
           in Some ((if length ns > maxNodes then [graph_err GRAPH_TOO_LARGE [] []] else [])
                @ index_issues
                @ trigger_issues mods ns
                @ concat (map (node_issues canManage mods) ns)
                @ List.map_filter (edge_issue byId) (gs_edges g)
                @ root_issues ns es
                @ cycle_issues byId ns es
                @ dangling_issues ns es))"

definition isGraphValid :: "graph_issue list \<Rightarrow> bool" where
  "isGraphValid issues \<longleftrightarrow> \<not> list_ex gi_error issues"

end
