(* ===== verification/AutoGraphCheck.thy ===== *)
theory AutoGraphCheck
  imports AutoGraph
begin

text \<open>
  What the graph validator of automation accepts: the topological pass finds a cycle exactly when there is
  one, the search reaches exactly the nodes below the trigger, and a graph is valid exactly when it is a
  well-formed workflow.
\<close>

subsection \<open>The search\<close>

lemma adjacent_iff [simp]: "y \<in> set (adjacent es x) \<longleftrightarrow> (x, y) \<in> set es"
  by (auto simp: adjacent_def intro: rev_image_eqI)

lemma push_new_stack: "set (snd (push_new ys reached stack)) = set stack \<union> (set ys - set reached)"
  by (induction ys reached stack rule: push_new.induct) auto

lemma search_sound:
  "\<lbrakk>\<And>x. x \<in> set reached \<union> set stack \<Longrightarrow> P x; \<And>x y. P x \<Longrightarrow> (x, y) \<in> set es \<Longrightarrow> P y; z \<in> set (search es reached stack)\<rbrakk> \<Longrightarrow> P z"
proof (induction es reached stack arbitrary: z rule: search.induct)
  case (2 es reached x stack)
  obtain r s where p: "push_new (adjacent es x) reached stack = (r, s)" by force
  have r: "set r = set reached \<union> set (adjacent es x)" using push_new_reached [of "adjacent es x" reached stack] p by simp
  have s: "set s = set stack \<union> (set (adjacent es x) - set reached)" using push_new_stack [of "adjacent es x" reached stack] p by simp
  show ?case
  proof (rule "2.IH" [OF p [symmetric] refl])
    show "P y" if "y \<in> set r \<union> set s" for y using that "2.prems"(1) "2.prems"(2) [of x y] r s by auto
    show "P b" if "P a" "(a, b) \<in> set es" for a b using that by (rule "2.prems"(2))
    show "z \<in> set (search es r s)" using "2.prems"(3) p by simp
  qed
qed simp

lemma search_closed:
  "\<lbrakk>set stack \<subseteq> set reached; \<And>x y. x \<in> set reached - set stack \<Longrightarrow> (x, y) \<in> set es \<Longrightarrow> y \<in> set reached\<rbrakk> \<Longrightarrow>
   set reached \<subseteq> set (search es reached stack)
   \<and> (\<forall>x \<in> set (search es reached stack). \<forall>y. (x, y) \<in> set es \<longrightarrow> y \<in> set (search es reached stack))"
proof (induction es reached stack rule: search.induct)
  case (2 es reached x stack)
  obtain r s where p: "push_new (adjacent es x) reached stack = (r, s)" by force
  have r: "set r = set reached \<union> set (adjacent es x)" using push_new_reached [of "adjacent es x" reached stack] p by simp
  have s: "set s = set stack \<union> (set (adjacent es x) - set reached)" using push_new_stack [of "adjacent es x" reached stack] p by simp
  have "set s \<subseteq> set r" using "2.prems"(1) r s by auto
  moreover have "b \<in> set r" if "a \<in> set r - set s" "(a, b) \<in> set es" for a b
  proof (cases "a = x")
    case True
    then show ?thesis using that(2) r by simp
  next
    case False
    then have "a \<in> set reached - set (x # stack)" using that(1) r s by auto
    then have "b \<in> set reached" using that(2) by (rule "2.prems"(2))
    then show ?thesis using r by simp
  qed
  ultimately have ih: "set r \<subseteq> set (search es r s) \<and> (\<forall>x \<in> set (search es r s). \<forall>y. (x, y) \<in> set es \<longrightarrow> y \<in> set (search es r s))"
    by (rule "2.IH" [OF p [symmetric] refl])
  have eq: "search es reached (x # stack) = search es r s" by (simp add: p)
  show ?case using ih r unfolding eq by (simp only: Un_subset_iff) blast
qed auto

lemma search_exact: "y \<in> set (search es [t] [t]) \<longleftrightarrow> (t, y) \<in> (set es)\<^sup>*"
proof
  show "y \<in> set (search es [t] [t]) \<Longrightarrow> (t, y) \<in> (set es)\<^sup>*"
    by (rule search_sound [where P = "\<lambda>y. (t, y) \<in> (set es)\<^sup>*" and es = es and reached = "[t]" and stack = "[t]"])
       (auto intro: rtrancl.rtrancl_into_rtrancl)
  have c: "set [t] \<subseteq> set (search es [t] [t])"
    "\<forall>x \<in> set (search es [t] [t]). \<forall>y. (x, y) \<in> set es \<longrightarrow> y \<in> set (search es [t] [t])"
    using search_closed [of "[t]" "[t]" es] by auto
  show "(t, y) \<in> (set es)\<^sup>* \<Longrightarrow> y \<in> set (search es [t] [t])"
    by (induction rule: rtrancl_induct) (use c in auto)
qed

subsection \<open>The topological pass\<close>

lemma relax_counts: "relax ys indeg queue = (indeg', queue') \<Longrightarrow> count_of indeg' z = count_of indeg z - int (count_list ys z)"
  by (induction ys indeg queue rule: relax.induct) (auto simp: Let_def split: if_splits)

lemma relax_queue:
  "\<lbrakk>relax ys indeg queue = (indeg', queue'); \<And>z. z \<in> set ys \<Longrightarrow> int (count_list ys z) \<le> count_of indeg z\<rbrakk> \<Longrightarrow>
   \<exists>news. queue' = queue @ news \<and> distinct news \<and> set news = {z \<in> set ys. count_of indeg z = int (count_list ys z)}"
proof (induction ys indeg queue rule: relax.induct)
  case (2 y ys indeg queue)
  let ?d = "count_of indeg y - 1"
  let ?m = "AList.update y ?d indeg"
  have bound: "int (count_list ys z) \<le> count_of ?m z" if "z \<in> set ys" for z
    using "2.prems"(2) [of z] that by (auto split: if_splits)
  have y: "int (count_list ys y) + 1 \<le> count_of indeg y" using "2.prems"(2) [of y] by simp
  from "2.IH" [OF refl _ bound] "2.prems"(1) obtain news where
    n: "queue' = (if ?d = 0 then queue @ [y] else queue) @ news" "distinct news"
      "set news = {z \<in> set ys. count_of ?m z = int (count_list ys z)}"
    by (auto simp: Let_def)
  show ?case
  proof (cases "?d = 0")
    case True
    then have "count_list ys y = 0" using y by simp
    then have "y \<notin> set ys" by (simp add: count_list_0_iff)
    then show ?thesis using n True by (intro exI [of _ "y # news"]) auto
  next
    case False
    have "set news = {z \<in> set (y # ys). count_of indeg z = int (count_list (y # ys) z)}"
    proof (cases "y \<in> set ys")
      case True
      then show ?thesis unfolding n(3) by auto
    next
      case out: False
      then have "count_list ys y = 0" by (simp add: count_list_0_iff)
      then show ?thesis unfolding n(3) using False out by auto
    qed
    then show ?thesis using n False by (intro exI [of _ news]) simp
  qed
qed simp

text \<open>Every node comes after all nodes it has an edge from.\<close>

definition topo :: "(string \<times> string) set \<Rightarrow> string list \<Rightarrow> bool" where
  "topo r l \<longleftrightarrow> (\<forall>xs y ys. l = xs @ y # ys \<longrightarrow> (\<forall>a. (a, y) \<in> r \<longrightarrow> a \<in> set xs))"

lemma topo_snoc: "topo r l \<Longrightarrow> (\<And>a. (a, y) \<in> r \<Longrightarrow> a \<in> set l) \<Longrightarrow> topo r (l @ [y])"
  unfolding topo_def
proof (intro allI impI)
  fix xs z ys a
  assume t: "\<forall>xs y ys. l = xs @ y # ys \<longrightarrow> (\<forall>a. (a, y) \<in> r \<longrightarrow> a \<in> set xs)" and y: "\<And>a. (a, y) \<in> r \<Longrightarrow> a \<in> set l"
    and split: "l @ [y] = xs @ z # ys" and a: "(a, z) \<in> r"
  show "a \<in> set xs"
  proof (cases ys rule: rev_cases)
    case Nil
    with split have "xs = l" "z = y" by simp_all
    with y a show ?thesis by simp
  next
    case (snoc ys' w)
    with split have "l = xs @ z # ys'" by (simp flip: append_assoc append_Cons)
    with t a show ?thesis by blast
  qed
qed

lemma topo_append: "topo r l \<Longrightarrow> (\<And>a y. y \<in> set ys \<Longrightarrow> (a, y) \<in> r \<Longrightarrow> a \<in> set l) \<Longrightarrow> topo r (l @ ys)"
proof (induction ys rule: rev_induct)
  case (snoc y ys)
  then show ?case using topo_snoc [of r "l @ ys" y] by auto
qed simp

lemma topo_acyclic: "topo r l \<Longrightarrow> distinct l \<Longrightarrow> Range r \<subseteq> set l \<Longrightarrow> acyclic r"
proof (induction l arbitrary: r rule: rev_induct)
  case (snoc y l)
  let ?r = "r - {e. snd e = y}"
  have "topo ?r l" using snoc.prems(1) unfolding topo_def by (metis Diff_iff append.assoc append_Cons)
  moreover have "Range ?r \<subseteq> set l" using snoc.prems(3) by auto
  ultimately have ac: "acyclic ?r" using snoc.IH snoc.prems(2) by simp
  have out: "(y, z) \<notin> r" for z
  proof
    assume yz: "(y, z) \<in> r"
    then have "z \<in> set (l @ [y])" using snoc.prems(3) by blast
    then obtain xs ys where s: "l @ [y] = xs @ z # ys" by (meson split_list)
    then have "y \<in> set xs" using snoc.prems(1) yz unfolding topo_def by blast
    then have "\<not> distinct (xs @ z # ys)" using s by (cases ys rule: rev_cases) (auto simp: append_eq_append_conv2)
    then show False using snoc.prems(2) unfolding s by simp
  qed
  show ?case
  proof (rule acyclicI, rule allI, rule notI)
    fix x
    assume xx: "(x, x) \<in> r\<^sup>+"
    have "(a, b) \<in> ?r\<^sup>+" if "(a, b) \<in> r\<^sup>+" "b \<noteq> y" for a b
      using that
    proof (induction rule: trancl_induct)
      case (step b c)
      then have "b \<noteq> y" using out by blast
      with step show ?case by (auto intro: trancl_into_trancl)
    qed auto
    moreover have "x \<noteq> y" using xx out by (metis tranclD)
    ultimately have "(x, x) \<in> ?r\<^sup>+" using xx by blast
    with ac show False by (simp add: acyclic_def)
  qed
next
  case Nil
  then have "r = {}" by auto
  then show ?case by (simp add: acyclic_def)
qed

text \<open>The edges into a node from nodes not yet processed.\<close>

definition pending :: "(string \<times> string) list \<Rightarrow> string list \<Rightarrow> string \<Rightarrow> nat" where
  "pending es done y = length (filter (\<lambda>e. snd e = y \<and> fst e \<notin> set done) es)"

lemma pending_zero: "pending es P y = 0 \<longleftrightarrow> (\<forall>a. (a, y) \<in> set es \<longrightarrow> a \<in> set P)"
  by (auto simp: pending_def filter_empty_conv)

lemma pending_step: "x \<notin> set P \<Longrightarrow> pending es P z = count_list (adjacent es x) z + pending es (P @ [x]) z"
  by (induction es) (auto simp: pending_def adjacent_def)

lemma kahn_result:
  "\<lbrakk>set es \<subseteq> K \<times> K; distinct (P @ queue); topo (set es) (P @ queue);
    \<And>y. y \<in> K \<Longrightarrow> count_of indeg y = int (pending es P y); set (P @ queue) = {y \<in> K. pending es P y = 0}\<rbrakk> \<Longrightarrow>
   \<exists>L. fst (kahn es indeg queue (length P)) = length L \<and> distinct L \<and> topo (set es) L \<and> set L = {y \<in> K. pending es L y = 0}"
proof (induction es indeg queue "length P" arbitrary: P rule: kahn.induct)
  case (1 es indeg)
  then show ?case by (intro exI [of _ P]) simp
next
  case (2 es indeg x queue)
  obtain indeg' queue' where r: "relax (adjacent es x) indeg queue = (indeg', queue')" by force
  have x: "x \<notin> set P" "x \<in> K" using 2(3,6) by auto
  have adjK: "set (adjacent es x) \<subseteq> K" using 2(2) by auto
  note step = pending_step [OF x(1), of es]
  have "int (count_list (adjacent es x) z) \<le> count_of indeg z" if "z \<in> set (adjacent es x)" for z
    using 2(5) [of z] that adjK step [of z] by auto
  from relax_queue [OF r this] obtain news where n: "queue' = queue @ news" "distinct news"
    "set news = {z \<in> set (adjacent es x). count_of indeg z = int (count_list (adjacent es x) z)}" by blast
  have news: "set news = {z \<in> set (adjacent es x). pending es (P @ [x]) z = 0}"
    unfolding n(3) using 2(5) adjK step by auto
  have pos: "pending es P z > 0" if "z \<in> set (adjacent es x)" for z
    using that step [of z] by (metis add_gr_0 count_list_0_iff gr0I)
  have "set news \<inter> set (P @ x # queue) = {}"
  proof (rule equals0I)
    fix z
    assume z: "z \<in> set news \<inter> set (P @ x # queue)"
    then have "pending es P z = 0" unfolding 2(6) by blast
    moreover have "pending es P z > 0" using z news pos by blast
    ultimately show False by simp
  qed
  then have "distinct ((P @ [x]) @ queue')" using 2(3) n(1,2) by auto
  moreover have "topo (set es) ((P @ [x]) @ queue')"
    using topo_append [OF 2(4), of news] news by (auto simp: n(1) pending_zero)
  moreover have "count_of indeg' y = int (pending es (P @ [x]) y)" if "y \<in> K" for y
    using relax_counts [OF r, of y] 2(5) [OF that] step [of y] by simp
  moreover have "set ((P @ [x]) @ queue') = {y \<in> K. pending es (P @ [x]) y = 0}"
  proof -
    have "set ((P @ [x]) @ queue') = {y \<in> K. pending es P y = 0} \<union> set news" using 2(6) n(1) by auto
    also have "\<dots> = {y \<in> K. pending es (P @ [x]) y = 0}"
      unfolding news using adjK step by (auto simp: count_list_0_iff)
    finally show ?thesis .
  qed
  ultimately show ?case using 2(1) [OF r [symmetric] refl, of "P @ [x]"] 2(2) r by simp
qed

lemma kahn_exact:
  assumes "set es \<subseteq> set keys \<times> set keys" "distinct keys"
    and "indeg = map (\<lambda>i. (i, int (length (filter (\<lambda>e. snd e = i) es)))) keys"
  shows "fst (kahn es indeg (map fst (filter (\<lambda>(i, d). d = 0) indeg)) 0) \<le> length keys"
    and "fst (kahn es indeg (map fst (filter (\<lambda>(i, d). d = 0) indeg)) 0) < length keys \<longleftrightarrow> \<not> acyclic (set es)"
proof -
  let ?q = "map fst (filter (\<lambda>(i, d). d = 0) indeg)"
  have count: "count_of indeg y = int (pending es [] y)" if "y \<in> set keys" for y
    using that unfolding assms(3) by (simp add: count_of_def pending_def map_of_map_restrict)
  have q: "?q = filter (\<lambda>i. pending es [] i = 0) keys"
    unfolding assms(3) by (induction keys) (auto simp: pending_def)
  have "topo (set es) ([] @ ?q)"
    unfolding q using topo_append [of "set es" "[]" "filter (\<lambda>i. pending es [] i = 0) keys"]
    by (simp add: topo_def pending_zero)
  moreover have "distinct ([] @ ?q)" "set ([] @ ?q) = {y \<in> set keys. pending es [] y = 0}" unfolding q using assms(2) by auto
  ultimately obtain L where L: "fst (kahn es indeg ?q 0) = length L" "distinct L" "topo (set es) L"
    "set L = {y \<in> set keys. pending es L y = 0}"
    using kahn_result [OF assms(1), of "[]" ?q indeg] count by auto
  have sub: "set L \<subseteq> set keys" using L(4) by auto
  then have le: "length L \<le> length keys" using L(2) assms(2) by (metis List.finite_set card_mono distinct_card)
  then show "fst (kahn es indeg ?q 0) \<le> length keys" using L(1) by simp
  have "length L < length keys \<longleftrightarrow> set L \<noteq> set keys"
    using L(2) assms(2) sub le by (metis List.finite_set card_seteq distinct_card linorder_not_less order_refl)
  also have "\<dots> \<longleftrightarrow> \<not> acyclic (set es)"
  proof
    assume "set L \<noteq> set keys"
    then have ne: "set keys - set L \<noteq> {}" using sub by blast
    show "\<not> acyclic (set es)"
    proof
      assume "acyclic (set es)"
      then have "wf (set es)" by (simp add: finite_acyclic_wf)
      from wfE_min' [OF this ne] obtain z where z: "z \<in> set keys - set L" "\<And>y. (y, z) \<in> set es \<Longrightarrow> y \<notin> set keys - set L" by blast
      then have "\<forall>a. (a, z) \<in> set es \<longrightarrow> a \<in> set L" using assms(1) by auto
      then have "z \<in> set L" using z(1) L(4) pending_zero by blast
      with z(1) show False by blast
    qed
  next
    assume "\<not> acyclic (set es)"
    then show "set L \<noteq> set keys" using topo_acyclic [OF L(3,2)] assms(1) by blast
  qed
  finally show "fst (kahn es indeg ?q 0) < length keys \<longleftrightarrow> \<not> acyclic (set es)" using L(1) by simp
qed

subsection \<open>Well-formed workflows\<close>

definition module_on :: "string list \<Rightarrow> string \<Rightarrow> bool" where
  "module_on mods m \<longleftrightarrow> mods = [] \<or> m \<in> set mods"

definition case_key :: "jsval \<Rightarrow> string" where
  "case_key c = js_String (coalesce (js_get c ''key'') (JStr []))"

definition lawful_action :: "bool \<Rightarrow> string list \<Rightarrow> graph_node \<Rightarrow> bool" where
  "lawful_action canManage mods n \<longleftrightarrow>
     (\<exists>d \<in> set ACTION_CATALOG. action_name n = ad_id d \<and> module_on mods (ad_requiredModule d) \<and> (ad_externalEffect d \<longrightarrow> canManage))
     \<and> (action_name n = ''send_webhook'' \<longrightarrow> webhook_connection n \<noteq> [])"

definition lawful_cases :: "jsval list \<Rightarrow> bool" where
  "lawful_cases cs \<longleftrightarrow> distinct (map case_key cs) \<and> (\<forall>c \<in> set cs. case_key c \<noteq> [] \<and> js_has c ''equals'')"

definition lawful_node :: "bool \<Rightarrow> string list \<Rightarrow> graph_node \<Rightarrow> bool" where
  "lawful_node canManage mods n \<longleftrightarrow>
     gn_type n \<in> set NODE_TYPES
     \<and> (gn_type n = ''action'' \<longrightarrow> lawful_action canManage mods n)
     \<and> (gn_type n = ''condition'' \<longrightarrow> validateAbacShape (js_get (gn_config n) ''predicate'') ''$'' = None)
     \<and> (gn_type n = ''branch'' \<longrightarrow> configString (gn_config n) [''on''] \<noteq> [] \<and> lawful_cases (arr_of (js_get (gn_config n) ''cases'')))"

definition lawful_trigger :: "string list \<Rightarrow> graph_node \<Rightarrow> bool" where
  "lawful_trigger mods t \<longleftrightarrow> (\<exists>d \<in> set TRIGGER_CATALOG. trigger_name t = td_id d \<and> module_on mods (td_requiredModule d))"

definition lawful_edge :: "graph_node list \<Rightarrow> graph_edge \<Rightarrow> bool" where
  "lawful_edge ns e \<longleftrightarrow> ge_id e \<noteq> []
     \<and> (\<exists>s \<in> set ns. gn_id s = ge_source e \<and> ge_sourceHandle e \<in> set (outHandlesOf s))
     \<and> (\<exists>t \<in> set ns. gn_id t = ge_target e \<and> gn_type t \<noteq> ''trigger'')"

definition links :: "graph_spec \<Rightarrow> (string \<times> string) set" where
  "links g = (\<lambda>e. (ge_source e, ge_target e)) ` set (gs_edges g)"

definition well_formed :: "nat \<Rightarrow> bool \<Rightarrow> string list \<Rightarrow> graph_spec \<Rightarrow> bool" where
  "well_formed maxNodes canManage mods g \<longleftrightarrow>
     length (gs_nodes g) \<le> maxNodes
     \<and> distinct (map gn_id (gs_nodes g)) \<and> [] \<notin> set (map gn_id (gs_nodes g))
     \<and> (\<forall>n \<in> set (gs_nodes g). lawful_node canManage mods n)
     \<and> (\<forall>e \<in> set (gs_edges g). lawful_edge (gs_nodes g) e)
     \<and> acyclic (links g)
     \<and> (\<exists>t. triggers_of (gs_nodes g) = [t] \<and> lawful_trigger mods t
          \<and> (\<forall>n \<in> set (gs_nodes g). gn_type n = ''action'' \<and> action_name n \<in> set EXTERNAL_EFFECT_ACTIONS
               \<longrightarrow> (gn_id t, gn_id n) \<in> (links g)\<^sup>*))"

subsection \<open>The stages\<close>

abbreviation clean :: "graph_issue list \<Rightarrow> bool" where
  "clean issues \<equiv> \<not> list_ex gi_error issues"

lemma gi_error_simps [simp]: "gi_error (graph_err c n e)" "\<not> gi_error (graph_warn c n e)"
  by (simp_all add: graph_err_def graph_warn_def)

lemma checkModule_clean: "m \<noteq> [] \<Longrightarrow> clean (checkModule mods (Some m) i) \<longleftrightarrow> module_on mods m"
  by (simp add: checkModule_def module_on_def)

definition ids_ok :: "graph_node list \<Rightarrow> bool" where
  "ids_ok ns \<longleftrightarrow> distinct (map gn_id ns) \<and> [] \<notin> set (map gn_id ns) \<and> (\<forall>n \<in> set ns. gn_type n \<in> set NODE_TYPES)"

lemma index_nodes_spec:
  "(clean (snd (index_nodes ns)) \<longleftrightarrow> ids_ok ns) \<and> (ids_ok ns \<longrightarrow> fst (index_nodes ns) = map (\<lambda>n. (gn_id n, n)) ns)"
proof (induction ns rule: rev_induct)
  case Nil
  show ?case by (simp add: index_nodes_def ids_ok_def)
next
  case (snoc n ns)
  have step: "index_nodes (ns @ [n]) = index_node (index_nodes ns) n" by (simp add: index_nodes_def)
  obtain m iss where st: "index_nodes ns = (m, iss)" by force
  show ?case
  proof (cases "ids_ok ns")
    case True
    with snoc st have m: "m = map (\<lambda>n. (gn_id n, n)) ns" "clean iss" by simp_all
    have "map_of m (gn_id n) = None \<longleftrightarrow> gn_id n \<notin> set (map gn_id ns)" by (simp add: m map_of_eq_None_iff image_image)
    then show ?thesis using True m(2) unfolding step st by (auto simp: index_node_def ids_ok_def m)
  next
    case False
    then have "\<not> clean iss" using snoc st by simp
    then have "\<not> clean (snd (index_node (m, iss) n))" by (auto simp: index_node_def Let_def)
    moreover have "\<not> ids_ok (ns @ [n])" using False by (auto simp: ids_ok_def)
    ultimately show ?thesis unfolding step st by simp
  qed
qed

lemma case_issues_clean:
  "clean (case_issues nid seen cs) \<longleftrightarrow> lawful_cases cs \<and> set seen \<inter> set (map case_key cs) = {}"
proof (induction nid seen cs rule: case_issues.induct)
  case (2 nid seen c cs)
  show ?case using 2 [OF refl] by (auto simp: Let_def lawful_cases_def case_key_def)
qed (simp add: lawful_cases_def)

lemma find_unique: "distinct (map f xs) \<Longrightarrow> d \<in> set xs \<Longrightarrow> find (\<lambda>x. f x = f d) xs = Some d"
  by (induction xs) (auto simp: image_iff)

lemma catalog_modules:
  "d \<in> set ACTION_CATALOG \<Longrightarrow> ad_requiredModule d \<noteq> [] \<and> ad_id d \<noteq> []"
  "t \<in> set TRIGGER_CATALOG \<Longrightarrow> td_requiredModule t \<noteq> [] \<and> td_id t \<noteq> [] \<and> td_eventName t = td_id t"
  by (auto simp: ACTION_CATALOG_def TRIGGER_CATALOG_def)

lemma action_lookup: "d \<in> set ACTION_CATALOG \<Longrightarrow> find (\<lambda>x. ad_id x = ad_id d) ACTION_CATALOG = Some d"
  by (rule find_unique) (simp_all add: ACTION_CATALOG_def)

lemma trigger_lookup:
  assumes "t \<in> set TRIGGER_CATALOG"
  shows "find (\<lambda>x. td_id x = td_id t \<or> td_eventName x = td_id t) TRIGGER_CATALOG = Some t"
proof -
  have "find (\<lambda>x. td_id x = td_id t \<or> td_eventName x = td_id t) TRIGGER_CATALOG = find (\<lambda>x. td_id x = td_id t) TRIGGER_CATALOG"
    by (rule find_cong) (auto dest: catalog_modules(2))
  also have "\<dots> = Some t" using assms by (rule find_unique [rotated]) (simp add: TRIGGER_CATALOG_def)
  finally show ?thesis .
qed

lemma external_iff: "d \<in> set ACTION_CATALOG \<Longrightarrow> ad_id d \<in> set EXTERNAL_EFFECT_ACTIONS \<longleftrightarrow> ad_externalEffect d"
  by (auto simp: EXTERNAL_EFFECT_ACTIONS_def ACTION_CATALOG_def)

lemma action_issues_clean: "clean (action_issues canManage mods n) \<longleftrightarrow> lawful_action canManage mods n"
proof (cases "\<exists>d \<in> set ACTION_CATALOG. action_name n = ad_id d")
  case True
  then obtain d where d: "d \<in> set ACTION_CATALOG" "action_name n = ad_id d" by blast
  then have known: "ad_id d \<noteq> []" "ad_id d \<in> set ACTION_IDS" using catalog_modules(1) by (auto simp: ACTION_IDS_def)
  have only: "e = d" if "e \<in> set ACTION_CATALOG" "ad_id e = ad_id d" for e
    using action_lookup [OF d(1)] action_lookup [OF that(1)] that(2) by simp
  have "lawful_action canManage mods n \<longleftrightarrow> module_on mods (ad_requiredModule d) \<and> (ad_externalEffect d \<longrightarrow> canManage)
      \<and> (ad_id d = ''send_webhook'' \<longrightarrow> webhook_connection n \<noteq> [])"
    unfolding lawful_action_def d(2) using d(1) only by metis
  moreover have "clean (action_issues canManage mods n) \<longleftrightarrow> module_on mods (ad_requiredModule d) \<and> (ad_externalEffect d \<longrightarrow> canManage)
      \<and> (ad_id d = ''send_webhook'' \<longrightarrow> webhook_connection n \<noteq> [])"
    unfolding action_issues_def d(2) Let_def using known external_iff [OF d(1)] action_lookup [OF d(1)] catalog_modules(1) [OF d(1)]
    by (auto simp: checkModule_clean)
  ultimately show ?thesis by simp
next
  case False
  then have "action_name n \<notin> set ACTION_IDS" by (auto simp: ACTION_IDS_def)
  with False show ?thesis by (auto simp: action_issues_def lawful_action_def)
qed

lemma trigger_issues_clean:
  "clean (trigger_issues mods ns) \<longleftrightarrow> (\<exists>t. triggers_of ns = [t] \<and> lawful_trigger mods t)"
proof (cases "triggers_of ns")
  case (Cons t ts)
  show ?thesis
  proof (cases "\<exists>d \<in> set TRIGGER_CATALOG. trigger_name t = td_id d")
    case True
    then obtain d where d: "d \<in> set TRIGGER_CATALOG" "trigger_name t = td_id d" by blast
    then have known: "td_id d \<noteq> []" "td_id d \<in> set TRIGGER_IDS" using catalog_modules(2) by (auto simp: TRIGGER_IDS_def)
    have only: "e = d" if "e \<in> set TRIGGER_CATALOG" "td_id e = td_id d" for e
      using trigger_lookup [OF d(1)] trigger_lookup [OF that(1)] that(2) by simp
    have "lawful_trigger mods t \<longleftrightarrow> module_on mods (td_requiredModule d)"
      unfolding lawful_trigger_def d(2) using d(1) only by metis
    then show ?thesis
      unfolding trigger_issues_def Cons list.case d(2) Let_def
      using known trigger_lookup [OF d(1)] catalog_modules(2) [OF d(1)] by (auto simp: checkModule_clean)
  next
    case False
    then have "trigger_name t \<notin> set TRIGGER_IDS" by (auto simp: TRIGGER_IDS_def)
    with False show ?thesis by (auto simp: trigger_issues_def Cons lawful_trigger_def)
  qed
qed (simp add: trigger_issues_def)

lemma node_issues_clean:
  "gn_type n \<in> set NODE_TYPES \<Longrightarrow> clean (node_issues canManage mods n) \<longleftrightarrow> lawful_node canManage mods n"
  by (auto simp: node_issues_def lawful_node_def action_issues_clean case_issues_clean split: option.splits)

subsection \<open>Validity\<close>

lemma js_set_of_distinct: "distinct xs \<Longrightarrow> js_set_of xs = xs"
proof -
  have "distinct (acc @ xs) \<Longrightarrow> foldl js_add acc xs = acc @ xs" for acc
    by (induction xs arbitrary: acc) (auto simp: js_add_def)
  from this [of "[]"] show "distinct xs \<Longrightarrow> js_set_of xs = xs" by (simp add: js_set_of_def)
qed

lemma by_id: "distinct (map gn_id ns) \<Longrightarrow> map_of (map (\<lambda>n. (gn_id n, n)) ns) x = Some n \<longleftrightarrow> n \<in> set ns \<and> gn_id n = x"
  by (induction ns) (auto simp: image_iff)

lemma by_id_None: "map_of (map (\<lambda>n. (gn_id n, n)) ns) x = None \<longleftrightarrow> x \<notin> gn_id ` set ns"
  by (simp add: map_of_eq_None_iff image_image)

lemma same_id: "distinct (map gn_id ns) \<Longrightarrow> n \<in> set ns \<Longrightarrow> m \<in> set ns \<Longrightarrow> gn_id n = gn_id m \<Longrightarrow> n = m"
  by (simp add: distinct_map inj_on_def)

lemma edge_issue_None:
  "edge_issue m e = None \<longleftrightarrow> ge_id e \<noteq> [] \<and> (\<exists>s t. map_of m (ge_source e) = Some s \<and> map_of m (ge_target e) = Some t
     \<and> gn_type t \<noteq> ''trigger'' \<and> ge_sourceHandle e \<in> set (outHandlesOf s))"
  by (cases "map_of m (ge_source e)"; cases "map_of m (ge_target e)") (simp_all add: edge_issue_def)

lemma edge_issue_lawful:
  "distinct (map gn_id ns) \<Longrightarrow> edge_issue (map (\<lambda>n. (gn_id n, n)) ns) e = None \<longleftrightarrow> lawful_edge ns e"
  unfolding edge_issue_None lawful_edge_def by (auto simp: by_id)

lemma edge_issue_error: "edge_issue m e = Some i \<Longrightarrow> gi_error i"
  by (auto simp: edge_issue_def split: option.splits if_splits)

lemma edges_clean: "clean (List.map_filter (edge_issue m) es) \<longleftrightarrow> (\<forall>e \<in> set es. edge_issue m e = None)"
  by (auto simp: list_ex_iff map_filter_def intro: edge_issue_error) (metis edge_issue_error option.collapse)

lemma good_edges_all: "\<forall>e \<in> set es. edge_issue m e = None \<Longrightarrow> good_edges m es = map (\<lambda>e. (ge_source e, ge_target e)) es"
  by (simp add: good_edges_def)

lemma good_edges_known:
  "set (good_edges (map (\<lambda>n. (gn_id n, n)) ns) es) \<subseteq> gn_id ` set ns \<times> gn_id ` set ns"
  by (auto simp: good_edges_def edge_issue_None dest!: map_of_SomeD)

lemma cycle_clean:
  assumes "distinct (map gn_id ns)" "m = map (\<lambda>n. (gn_id n, n)) ns"
  shows "clean (cycle_issues m ns (good_edges m es)) \<longleftrightarrow> acyclic (set (good_edges m es))"
proof -
  let ?es = "good_edges m es"
  have k: "set ?es \<subseteq> set (map gn_id ns) \<times> set (map gn_id ns)" using good_edges_known [of ns es] by (simp add: assms(2))
  have inc: "incoming_count ns ?es = map (\<lambda>i. (i, int (length (filter (\<lambda>e. snd e = i) ?es)))) (map gn_id ns)"
    by (simp only: incoming_count_def js_set_of_distinct [OF assms(1)])
  have len: "length m = length (map gn_id ns)" by (simp add: assms(2))
  have "clean (cycle_issues m ns ?es) \<longleftrightarrow>
      \<not> fst (kahn ?es (incoming_count ns ?es) (map fst (filter (\<lambda>(i, d). d = 0) (incoming_count ns ?es))) 0) < length m"
    by (simp add: cycle_issues_def Let_def split: prod.split)
  also have "\<dots> \<longleftrightarrow> acyclic (set ?es)"
    unfolding len using kahn_exact(2) [OF k assms(1) inc] by simp
  finally show ?thesis .
qed

lemma root_clean:
  assumes "distinct (map gn_id ns)" "m = map (\<lambda>n. (gn_id n, n)) ns"
  shows "root_issues ns (good_edges m es) = []"
proof (cases "triggers_of ns")
  case (Cons t ts)
  then have t: "t \<in> set ns" "gn_type t = ''trigger''" by (auto simp: triggers_of_def filter_eq_Cons_iff)
  have "filter (\<lambda>e. snd e = gn_id t) (good_edges m es) = []"
    using t assms(1) unfolding assms(2) by (auto simp: filter_empty_conv good_edges_def edge_issue_None by_id dest: same_id)
  then have "count_of (incoming_count ns (good_edges m es)) (gn_id t) = 0"
    by (auto simp: count_of_def incoming_count_def split: option.split dest!: map_of_SomeD)
  then show ?thesis by (simp add: root_issues_def Cons)
qed (simp add: root_issues_def)

lemma dangling_clean:
  assumes "triggers_of ns = [t]"
  shows "clean (dangling_issues ns es) \<longleftrightarrow>
   (\<forall>n \<in> set ns. gn_type n = ''action'' \<and> action_name n \<in> set EXTERNAL_EFFECT_ACTIONS \<longrightarrow> (gn_id t, gn_id n) \<in> (set es)\<^sup>*)"
proof -
  have e: "gi_error (if c then graph_err x y z else graph_warn x y z) \<longleftrightarrow> c" for c x y z by simp
  have m: "list_ex P (map f xs) \<longleftrightarrow> (\<exists>x \<in> set xs. P (f x))" for P f and xs :: "graph_node list" by (simp add: list_ex_iff)
  show ?thesis
    unfolding dangling_issues_def assms list.case Let_def search_exact [symmetric] m e by auto
qed

lemma lawful_no_raise: "lawful_node canManage mods n \<Longrightarrow> \<not> case_raises n"
proof
  assume l: "lawful_node canManage mods n" and r: "case_raises n"
  then obtain c where "c \<in> set (arr_of (js_get (gn_config n) ''cases''))" "\<not> is_object c" "gn_type n = ''branch''"
    unfolding case_raises_def list_ex_iff by blast
  from this(1,3) l have "js_has c ''equals''" unfolding lawful_node_def lawful_cases_def by blast
  with \<open>\<not> is_object c\<close> show False by (cases c) (simp_all del: split_paired_All)
qed

lemma lawful_ids_ok: "\<forall>n \<in> set ns. lawful_node canManage mods n \<Longrightarrow> ids_ok ns \<longleftrightarrow> distinct (map gn_id ns) \<and> [] \<notin> set (map gn_id ns)"
  by (auto simp: ids_ok_def lawful_node_def)

lemma stages_clean:
  assumes "ids_ok ns" "m = map (\<lambda>n. (gn_id n, n)) ns"
  shows "clean (trigger_issues mods ns @ concat (map (node_issues canManage mods) ns) @ List.map_filter (edge_issue m) es
      @ root_issues ns (good_edges m es) @ cycle_issues m ns (good_edges m es) @ dangling_issues ns (good_edges m es))
    \<longleftrightarrow> (\<forall>n \<in> set ns. lawful_node canManage mods n) \<and> (\<forall>e \<in> set es. lawful_edge ns e)
      \<and> acyclic ((\<lambda>e. (ge_source e, ge_target e)) ` set es)
      \<and> (\<exists>t. triggers_of ns = [t] \<and> lawful_trigger mods t
         \<and> (\<forall>n \<in> set ns. gn_type n = ''action'' \<and> action_name n \<in> set EXTERNAL_EFFECT_ACTIONS
              \<longrightarrow> (gn_id t, gn_id n) \<in> ((\<lambda>e. (ge_source e, ge_target e)) ` set es)\<^sup>*))" (is "?l \<longleftrightarrow> ?r")
proof -
  have d: "distinct (map gn_id ns)" using assms(1) by (simp add: ids_ok_def)
  have nodes: "clean (concat (map (node_issues canManage mods) ns)) \<longleftrightarrow> (\<forall>n \<in> set ns. lawful_node canManage mods n)"
  proof -
    have "clean (concat (map (node_issues canManage mods) ns)) \<longleftrightarrow> (\<forall>n \<in> set ns. clean (node_issues canManage mods n))"
      by (induction ns) auto
    also have "\<dots> \<longleftrightarrow> (\<forall>n \<in> set ns. lawful_node canManage mods n)"
      using assms(1) node_issues_clean unfolding ids_ok_def by blast
    finally show ?thesis .
  qed
  have edges: "clean (List.map_filter (edge_issue m) es) \<longleftrightarrow> (\<forall>e \<in> set es. lawful_edge ns e)"
    unfolding edges_clean assms(2) edge_issue_lawful [OF d] ..
  have parts: "?l \<longleftrightarrow> clean (trigger_issues mods ns) \<and> clean (concat (map (node_issues canManage mods) ns))
      \<and> clean (List.map_filter (edge_issue m) es) \<and> clean (cycle_issues m ns (good_edges m es)) \<and> clean (dangling_issues ns (good_edges m es))"
    by (simp only: root_clean [OF d assms(2)] list_ex_append append_Nil) blast
  show ?thesis
  proof (cases "(\<forall>e \<in> set es. lawful_edge ns e) \<and> (\<exists>t. triggers_of ns = [t])")
    case True
    then obtain t where t: "triggers_of ns = [t]" by blast
    have "set (good_edges m es) = (\<lambda>e. (ge_source e, ge_target e)) ` set es"
      using True edges [unfolded edges_clean] by (simp add: good_edges_all)
    then show ?thesis
      unfolding parts nodes edges cycle_clean [OF d assms(2)] trigger_issues_clean dangling_clean [OF t] using True t by auto
  next
    case False
    then show ?thesis unfolding parts edges trigger_issues_clean by blast
  qed
qed

lemma graph_valid_lawful:
  "(\<exists>issues. validateGraph maxNodes canManage enabledModules g = Some issues \<and> isGraphValid issues)
   \<longleftrightarrow> well_formed maxNodes canManage (filter (\<lambda>m. m \<noteq> []) (map trim enabledModules)) g"
proof -
  let ?ns = "gs_nodes g" and ?mods = "filter (\<lambda>m. m \<noteq> []) (map trim enabledModules)"
  consider "?ns = []" | "?ns \<noteq> []" "list_ex case_raises ?ns" | "?ns \<noteq> []" "\<not> list_ex case_raises ?ns" by blast
  then show ?thesis
  proof cases
    case 1
    then show ?thesis by (simp add: validateGraph_def isGraphValid_def well_formed_def triggers_of_def)
  next
    case 2
    have "\<exists>n \<in> set ?ns. \<not> lawful_node canManage ?mods n" using 2(2) lawful_no_raise unfolding list_ex_iff by blast
    then have "\<not> well_formed maxNodes canManage ?mods g" unfolding well_formed_def by blast
    then show ?thesis using 2 by (simp add: validateGraph_def Let_def)
  next
    case 3
    obtain m iss where idx: "index_nodes ?ns = (m, iss)" by force
    have v: "validateGraph maxNodes canManage enabledModules g = Some ((if length ?ns > maxNodes then [graph_err GRAPH_TOO_LARGE [] []] else []) @ iss
        @ (trigger_issues ?mods ?ns @ concat (map (node_issues canManage ?mods) ?ns) @ List.map_filter (edge_issue m) (gs_edges g)
        @ root_issues ?ns (good_edges m (gs_edges g)) @ cycle_issues m ?ns (good_edges m (gs_edges g))
        @ dangling_issues ?ns (good_edges m (gs_edges g))))"
      unfolding validateGraph_def Let_def idx prod.case using 3 by simp
    show ?thesis
    proof (cases "ids_ok ?ns")
      case True
      then have m: "clean iss" "m = map (\<lambda>n. (gn_id n, n)) ?ns" using index_nodes_spec [of ?ns] by (simp_all add: idx)
      have "(\<exists>issues. validateGraph maxNodes canManage enabledModules g = Some issues \<and> isGraphValid issues) \<longleftrightarrow>
          length ?ns \<le> maxNodes \<and> clean (trigger_issues ?mods ?ns @ concat (map (node_issues canManage ?mods) ?ns)
            @ List.map_filter (edge_issue m) (gs_edges g) @ root_issues ?ns (good_edges m (gs_edges g))
            @ cycle_issues m ?ns (good_edges m (gs_edges g)) @ dangling_issues ?ns (good_edges m (gs_edges g)))"
        unfolding v isGraphValid_def list_ex_append using m(1) by auto
      also have "\<dots> \<longleftrightarrow> well_formed maxNodes canManage ?mods g"
        unfolding stages_clean [OF True m(2)] well_formed_def links_def using True unfolding ids_ok_def by blast
      finally show ?thesis .
    next
      case False
      then have "\<not> clean iss" using index_nodes_spec [of ?ns] by (simp add: idx)
      then have "\<not> (\<exists>issues. validateGraph maxNodes canManage enabledModules g = Some issues \<and> isGraphValid issues)"
        unfolding v isGraphValid_def list_ex_append by simp
      moreover have "\<not> well_formed maxNodes canManage ?mods g"
        using False lawful_ids_ok unfolding well_formed_def by blast
      ultimately show ?thesis by blast
    qed
  qed
qed

text \<open>C19: The validator accepts exactly the well-formed workflows: it returns without an error issue if and only if
  the node count is within the limit, the ids are distinct and not empty, there is one trigger and it and all
  actions are in the catalog with their modules enabled, conditions and branches are readable, every
  edge leaves an output its source has and enters an existing node other than a trigger, the graph has no
  cycle, external effects are allowed to the caller and reachable from the trigger.\<close>

theorem graph_valid_iff:
  "(\<exists>issues. validateGraph maxNodes canManage enabledModules g = Some issues \<and> isGraphValid issues)
   \<longleftrightarrow> well_formed maxNodes canManage (filter (\<lambda>m. m \<noteq> []) (map trim enabledModules)) g"
  by (rule graph_valid_lawful)

end
