(* ===== verification/AutoExec.thy ===== *)
theory AutoExec
  imports AutoGraphCheck
begin

text \<open>
  Running a workflow graph (\<^verbatim>\<open>automation/src/automation/graph/graph-executor.ts\<close>): the walk from the
  trigger, the handle a node activates for a payload, one call of the dispatcher per action node. The
  dispatcher is a parameter, a state transformer that may throw; its state stands for everything its
  effects touch.
\<close>

subsection \<open>Results\<close>

datatype action_status = Success | Skipped | Fail | Deferred

record action_result =
  ar_index :: nat
  ar_type :: string
  ar_status :: action_status
  ar_error :: "string option"
  ar_attempts :: nat
  ar_assignee :: "string option"
  ar_connection_id :: "string option"
  ar_dlq_id :: "string option"
  ar_http_code :: "nat option"

definition result_of :: "nat \<Rightarrow> string \<Rightarrow> action_status \<Rightarrow> nat \<Rightarrow> string option \<Rightarrow> action_result" where
  "result_of i t st n e = \<lparr>ar_index = i, ar_type = t, ar_status = st, ar_error = e, ar_attempts = n, ar_assignee = None,
     ar_connection_id = None, ar_dlq_id = None, ar_http_code = None\<rparr>"

datatype run_status = RunSuccess | RunPartialFail | RunFail | RunSkipped

definition aggregateActionResults :: "action_result list \<Rightarrow> run_status" where
  "aggregateActionResults rs =
     (let eff = filter (\<lambda>r. ar_status r \<noteq> Skipped) rs;
          failed = length (filter (\<lambda>r. ar_status r = Fail \<or> ar_status r = Deferred) eff)
      in if eff = [] then RunSkipped else if failed = 0 then RunSuccess
         else if failed = length eff then RunFail else RunPartialFail)"

subsection \<open>Nodes\<close>

definition actionIdOf :: "graph_node \<Rightarrow> string" where
  "actionIdOf n =
     (let c = gn_config n in
      trim (js_String (coalesce (coalesce (coalesce (js_get c ''action_id'') (js_get c ''actionId'')) (js_get c ''type'')) (JStr []))))"

text \<open>The configuration of a node is an object: the mapper makes it one.\<close>

fun obj_fields :: "jsval \<Rightarrow> (string \<times> jsval) list" where
  "obj_fields (JObj ps) = ps"
| "obj_fields _ = []"

definition actionParamsOf :: "graph_node \<Rightarrow> (string \<times> jsval) list" where
  "actionParamsOf n =
     (case js_get (gn_config n) ''params'' of JObj ps \<Rightarrow> ps | _ \<Rightarrow> obj_fields (gn_config n))"

fun matching_case :: "jsval \<Rightarrow> jsval list \<Rightarrow> string option" where
  "matching_case v [] = Some ''else''"
| "matching_case v (c # cs) =
     (if \<not> js_nullish c \<and> \<not> is_object c then None
      else if js_has c ''equals'' \<and> js_seq (js_get c ''equals'') v then Some (caseHandle c) else matching_case v cs)"

text \<open>\<open>None\<close> when the code raises.\<close>

definition activeHandleOf :: "graph_node \<Rightarrow> doc \<Rightarrow> string option" where
  "activeHandleOf n payload =
     (if gn_type n = ''condition'' then
        map_option (\<lambda>b. if b then ''true'' else ''false'') (evalAbac (coalesce (js_get (gn_config n) ''predicate'') JNull) payload)
      else matching_case (fld payload (flatField (js_String (coalesce (js_get (gn_config n) ''on'') (JStr [])))))
             (arr_of (js_get (gn_config n) ''cases'')))"

subsection \<open>The walk\<close>

type_synonym 's dispatcher = "string \<Rightarrow> (string \<times> jsval) list \<Rightarrow> nat \<Rightarrow> 's \<Rightarrow> action_result option \<times> 's"

definition run_action :: "'s dispatcher \<Rightarrow> graph_node \<Rightarrow> nat \<Rightarrow> 's \<Rightarrow> action_result option \<times> 's" where
  "run_action dispatchOne n i s =
     (let a = actionIdOf n in
      if a = [] then (Some (result_of i [] Skipped 0 (Some ''missing_type'')), s)
      else let (r, s') = dispatchOne a (AList.update ''type'' (JStr a) (actionParamsOf n)) i s in
        (map_option (\<lambda>r. r\<lparr>ar_index := i\<rparr>) r, s'))"

definition node_by_id :: "graph_spec \<Rightarrow> string \<Rightarrow> graph_node option" where
  "node_by_id g x = map_of (rev (map (\<lambda>n. (gn_id n, n)) (gs_nodes g))) x"

definition targetsOf :: "graph_spec \<Rightarrow> string \<Rightarrow> string \<Rightarrow> string list" where
  "targetsOf g x h = map ge_target (filter (\<lambda>e. ge_source e = x \<and> ge_sourceHandle e = h) (gs_edges g))"

text \<open>The handles a node activates, apart from running it.\<close>

definition handles_of :: "graph_node \<Rightarrow> doc \<Rightarrow> string list option" where
  "handles_of n payload =
     (if gn_type n = ''trigger'' then Some [''out'']
      else if gn_type n = ''condition'' \<or> gn_type n = ''branch'' then map_option (\<lambda>h. [h]) (activeHandleOf n payload)
      else if gn_type n = ''action'' then Some [''out'']
      else Some [])"

definition new_targets :: "graph_spec \<Rightarrow> string list \<Rightarrow> string \<Rightarrow> string list \<Rightarrow> string list" where
  "new_targets g visited x hs = concat (map (\<lambda>h. filter (\<lambda>t. t \<notin> set visited) (targetsOf g x h)) hs)"

text \<open>One step per queue element; the results and the path collected so far. \<open>None\<close> when something throws.\<close>

fun graph_walk :: "graph_spec \<Rightarrow> doc \<Rightarrow> 's dispatcher \<Rightarrow> nat \<Rightarrow> string list \<Rightarrow> string list \<Rightarrow> action_result list \<Rightarrow> string list
    \<Rightarrow> 's \<Rightarrow> (action_result list \<times> string list) option \<times> 's" where
  "graph_walk g payload disp 0 queue visited results path s = (Some (results, path), s)"
| "graph_walk g payload disp (Suc n) [] visited results path s = (Some (results, path), s)"
| "graph_walk g payload disp (Suc n) (x # queue) visited results path s =
     (if x \<in> set visited then graph_walk g payload disp n queue visited results path s
      else let visited' = visited @ [x] in
        case node_by_id g x of
          None \<Rightarrow> graph_walk g payload disp n queue visited' results path s
        | Some node \<Rightarrow>
            (case handles_of node payload of
               None \<Rightarrow> (None, s)
             | Some hs \<Rightarrow>
                 if gn_type node = ''action'' then
                   (case run_action disp node (length results) s of
                      (None, s') \<Rightarrow> (None, s')
                    | (Some r, s') \<Rightarrow>
                        graph_walk g payload disp n (queue @ new_targets g visited' x hs) visited' (results @ [r]) (path @ [x]) s')
                 else graph_walk g payload disp n (queue @ new_targets g visited' x hs) visited' results (path @ [x]) s))"

record graph_run =
  gr_status :: run_status
  gr_results :: "action_result list"
  gr_path :: "string list"

definition executeGraph :: "graph_spec \<Rightarrow> doc \<Rightarrow> 's dispatcher \<Rightarrow> 's \<Rightarrow> graph_run option \<times> 's" where
  "executeGraph g payload disp s =
     (case find (\<lambda>n. gn_type n = ''trigger'') (gs_nodes g) of
        None \<Rightarrow> (Some \<lparr>gr_status = RunSkipped, gr_results = [], gr_path = []\<rparr>, s)
      | Some t \<Rightarrow>
          let (out, s') = graph_walk g payload disp (length (gs_nodes g) + length (gs_edges g) + 1) [gn_id t] [] [] [] s in
          (map_option (\<lambda>(rs, path). \<lparr>gr_status = aggregateActionResults rs, gr_results = rs, gr_path = path\<rparr>) out, s'))"

subsection \<open>What a run does\<close>

text \<open>The nodes a payload leads to, and the calls of the dispatcher, one per action node.\<close>

definition active_next :: "graph_spec \<Rightarrow> doc \<Rightarrow> string \<Rightarrow> string list" where
  "active_next g payload x =
     (case node_by_id g x of
        None \<Rightarrow> []
      | Some n \<Rightarrow> (case handles_of n payload of None \<Rightarrow> [] | Some hs \<Rightarrow> concat (map (targetsOf g x) hs)))"

inductive led_to :: "graph_spec \<Rightarrow> doc \<Rightarrow> string \<Rightarrow> string \<Rightarrow> bool" for g payload start where
  start: "led_to g payload start start"
| onward: "led_to g payload start x \<Longrightarrow> y \<in> set (active_next g payload x) \<Longrightarrow> led_to g payload start y"

fun run_actions :: "'s dispatcher \<Rightarrow> graph_node list \<Rightarrow> nat \<Rightarrow> 's \<Rightarrow> action_result list option \<times> 's" where
  "run_actions disp [] i s = (Some [], s)"
| "run_actions disp (n # ns) i s =
     (case run_action disp n i s of
        (None, s') \<Rightarrow> (None, s')
      | (Some r, s') \<Rightarrow> (case run_actions disp ns (Suc i) s' of (rs, s'') \<Rightarrow> (map_option (\<lambda>rs. r # rs) rs, s'')))"

definition actions_on :: "graph_spec \<Rightarrow> string list \<Rightarrow> graph_node list" where
  "actions_on g path = filter (\<lambda>n. gn_type n = ''action'') (List.map_filter (node_by_id g) path)"

text \<open>The walk without its effects: the nodes in the order in which they are visited.\<close>

fun visit :: "graph_spec \<Rightarrow> doc \<Rightarrow> nat \<Rightarrow> string list \<Rightarrow> string list \<Rightarrow> string list" where
  "visit g payload 0 queue visited = visited"
| "visit g payload (Suc n) [] visited = visited"
| "visit g payload (Suc n) (x # queue) visited =
     (if x \<in> set visited then visit g payload n queue visited
      else visit g payload n (queue @ filter (\<lambda>t. t \<notin> set (visited @ [x])) (active_next g payload x)) (visited @ [x]))"

definition readable :: "graph_spec \<Rightarrow> doc \<Rightarrow> bool" where
  "readable g payload \<longleftrightarrow> (\<forall>n \<in> set (gs_nodes g). handles_of n payload \<noteq> None)"

lemma node_by_id_in: "node_by_id g x = Some n \<Longrightarrow> n \<in> set (gs_nodes g) \<and> gn_id n = x"
  by (auto simp: node_by_id_def dest!: map_of_SomeD)

lemma visit_extends: "\<exists>ext. visit g payload n queue visited = visited @ ext"
proof (induction g payload n queue visited rule: visit.induct)
  case (3 g payload n x queue visited)
  show ?case
  proof (cases "x \<in> set visited")
    case True
    with 3 show ?thesis by simp
  next
    case False
    with 3(2) obtain ext where "visit g payload (Suc n) (x # queue) visited = visited @ x # ext" by auto
    then show ?thesis by blast
  qed
qed simp_all

definition known_path :: "graph_spec \<Rightarrow> string list \<Rightarrow> string list" where
  "known_path g xs = filter (\<lambda>x. node_by_id g x \<noteq> None) xs"

lemma walk_visits:
  "readable g payload \<Longrightarrow> graph_walk g payload disp n queue visited results path s =
    (let ext = known_path g (drop (length visited) (visit g payload n queue visited));
         (rs, s') = run_actions disp (actions_on g ext) (length results) s
     in (map_option (\<lambda>rs. (results @ rs, path @ ext)) rs, s'))"
proof (induction g payload disp n queue visited results path s rule: graph_walk.induct)
  case (3 g payload disp n x queue visited results path s)
  show ?case
  proof (cases "x \<in> set visited")
    case True
    with 3(1,5) show ?thesis by simp
  next
    case new: False
    let ?q = "queue @ filter (\<lambda>t. t \<notin> set (visited @ [x])) (active_next g payload x)"
    obtain ext where ext: "visit g payload n ?q (visited @ [x]) = (visited @ [x]) @ ext" using visit_extends by blast
    have visit: "visit g payload (Suc n) (x # queue) visited = visited @ x # ext" using new ext by simp
    show ?thesis
    proof (cases "node_by_id g x")
      case None
      then have "?q = queue" by (simp add: active_next_def)
      then show ?thesis
        using 3(2) [OF new refl None 3(5)] ext new None unfolding visit by (simp add: known_path_def)
    next
      case (Some node)
      have "handles_of node payload \<noteq> None"
        using node_by_id_in [OF Some] by (intro bspec [OF 3(5) [unfolded readable_def]]) simp
      then obtain hs where hs: "handles_of node payload = Some hs" by (cases "handles_of node payload") simp_all
      have q: "?q = queue @ new_targets g (visited @ [x]) x hs"
        by (simp add: active_next_def Some hs new_targets_def filter_concat comp_def)
      have path: "known_path g (x # ext) = x # known_path g ext" by (simp add: known_path_def Some)
      have acts: "actions_on g (x # p) = (if gn_type node = ''action'' then [node] else []) @ actions_on g p" for p
        by (simp add: actions_on_def map_filter_simps Some)
      have drops: "drop (length visited) (visited @ x # ext) = x # ext" "drop (length (visited @ [x])) ((visited @ [x]) @ ext) = ext"
        by simp_all
      show ?thesis
      proof (cases "gn_type node = ''action''")
        case True
        obtain r s' where run: "run_action disp node (length results) s = (r, s')" by force
        show ?thesis
        proof (cases r)
          case None
          then show ?thesis using new Some hs True run unfolding Let_def visit drops path acts by simp
        next
          case (Some r')
          note ih = 3(3) [OF new refl \<open>node_by_id g x = Some node\<close> hs True run [symmetric] Some 3(5)]
          show ?thesis
            using new \<open>node_by_id g x = Some node\<close> hs True run ih [unfolded Let_def ext [unfolded q] drops]
            unfolding Let_def visit drops path acts by (simp add: Some Let_def option.map_comp comp_def split: prod.split)
        qed
      next
        case False
        show ?thesis
          using 3(4) [OF new refl Some hs False 3(5), unfolded Let_def ext [unfolded q] drops] new Some hs False
          unfolding Let_def visit drops path acts by (simp add: Let_def split: prod.split)
      qed
    qed
  qed
qed (simp_all add: known_path_def actions_on_def map_filter_simps)

text \<open>The step limit is never reached: every step takes an element from the queue, and an edge puts its target
  into the queue at most once, when its source is visited.\<close>

definition outstanding :: "graph_spec \<Rightarrow> string list \<Rightarrow> nat" where
  "outstanding g visited = length (filter (\<lambda>e. ge_source e \<notin> set visited) (gs_edges g))"

lemma one_handle: "handles_of n payload = Some hs \<Longrightarrow> length hs \<le> 1"
  by (auto simp: handles_of_def split: if_splits)

lemma next_bound: "x \<notin> set visited \<Longrightarrow> length (active_next g payload x) + outstanding g (visited @ [x]) \<le> outstanding g visited"
proof -
  assume x: "x \<notin> set visited"
  have "length (active_next g payload x) \<le> length (filter (\<lambda>e. ge_source e = x) (gs_edges g))"
  proof (cases "active_next g payload x = []")
    case False
    then obtain n hs where n: "node_by_id g x = Some n" "handles_of n payload = Some hs" "hs \<noteq> []"
      unfolding active_next_def by (cases "node_by_id g x"; cases "handles_of (the (node_by_id g x)) payload") fastforce+
    then obtain h where "hs = [h]" using one_handle [OF n(2)] by (cases hs) auto
    then have "active_next g payload x = targetsOf g x h" using n by (simp add: active_next_def)
    moreover have "length (filter (\<lambda>e. ge_source e = x \<and> ge_sourceHandle e = h) es) \<le> length (filter (\<lambda>e. ge_source e = x) es)" for es
      by (induction es) auto
    ultimately show ?thesis by (simp add: targetsOf_def)
  qed simp
  moreover have "length (filter (\<lambda>e. ge_source e = x) (gs_edges g)) + outstanding g (visited @ [x]) = outstanding g visited"
  proof -
    have "length (filter (\<lambda>e. ge_source e = x) es) + length (filter (\<lambda>e. ge_source e \<notin> set (visited @ [x])) es)
        = length (filter (\<lambda>e. ge_source e \<notin> set visited) es)" for es
      using x by (induction es) auto
    then show ?thesis by (simp add: outstanding_def)
  qed
  ultimately show ?thesis by simp
qed

lemma visit_complete:
  "\<lbrakk>length queue + outstanding g visited \<le> n; distinct visited; V = visit g payload n queue visited\<rbrakk> \<Longrightarrow>
   distinct V \<and> set visited \<union> set queue \<subseteq> set V \<and> (\<forall>x \<in> set V - set visited. set (active_next g payload x) \<subseteq> set V)"
proof (induction g payload n queue visited rule: visit.induct)
  case (3 g payload n x queue visited)
  show ?case
  proof (cases "x \<in> set visited")
    case True
    with 3(1) [OF True] 3(3-5) show ?thesis by auto
  next
    case False
    let ?new = "filter (\<lambda>t. t \<notin> set (visited @ [x])) (active_next g payload x)"
    have "length (queue @ ?new) + outstanding g (visited @ [x]) \<le> n"
      using next_bound [OF False, of g payload] length_filter_le [of "\<lambda>t. t \<notin> set (visited @ [x])" "active_next g payload x"] 3(3)
      unfolding length_append length_Cons by linarith
    moreover have "distinct (visited @ [x])" using False 3(4) by simp
    moreover have "V = visit g payload n (queue @ ?new) (visited @ [x])" using False 3(5) by simp
    ultimately have ih: "distinct V" "set (visited @ [x]) \<union> set (queue @ ?new) \<subseteq> set V"
      "\<forall>y \<in> set V - set (visited @ [x]). set (active_next g payload y) \<subseteq> set V"
      using 3(2) [OF False] by blast+
    have "set (active_next g payload x) \<subseteq> set V" using ih(2) by auto
    then show ?thesis using ih by auto
  qed
qed auto

lemma visit_sound:
  "\<lbrakk>\<And>x. x \<in> set visited \<union> set queue \<Longrightarrow> led_to g payload r x; y \<in> set (visit g payload n queue visited)\<rbrakk> \<Longrightarrow> led_to g payload r y"
proof (induction g payload n queue visited rule: visit.induct)
  case (3 g payload n x queue visited)
  show ?case
  proof (cases "x \<in> set visited")
    case True
    show ?thesis
    proof (rule 3(1) [OF True])
      show "led_to g payload r z" if "z \<in> set visited \<union> set queue" for z using that by (intro 3(3)) auto
      show "y \<in> set (visit g payload n queue visited)" using 3(4) True by simp
    qed
  next
    case False
    let ?new = "filter (\<lambda>t. t \<notin> set (visited @ [x])) (active_next g payload x)"
    have x: "led_to g payload r x" by (rule 3(3)) simp
    show ?thesis
    proof (rule 3(2) [OF False])
      show "led_to g payload r z" if "z \<in> set (visited @ [x]) \<union> set (queue @ ?new)" for z
        using that 3(3) x led_to.onward [OF x] by auto
      show "y \<in> set (visit g payload n (queue @ ?new) (visited @ [x]))" using 3(4) False by simp
    qed
  qed
qed auto

lemma visit_exact:
  assumes "length (gs_edges g) < n"
  shows "distinct (visit g payload n [r] [])" and "set (visit g payload n [r] []) = {x. led_to g payload r x}"
    and "\<exists>ext. visit g payload n [r] [] = r # ext"
proof -
  let ?V = "visit g payload n [r] []"
  have "length [r] + outstanding g [] \<le> n" using assms by (simp add: outstanding_def)
  from visit_complete [OF this _ refl, of payload]
  have V: "distinct ?V" "r \<in> set ?V" "\<forall>x \<in> set ?V. set (active_next g payload x) \<subseteq> set ?V" by auto
  show "distinct ?V" by (rule V(1))
  have "x \<in> set ?V" if "led_to g payload r x" for x
    using that by induction (use V(2,3) in auto)
  moreover have "led_to g payload r x" if "x \<in> set ?V" for x
    using that by (rule visit_sound [rotated]) (auto intro: led_to.start)
  ultimately show "set ?V = {x. led_to g payload r x}" by auto
  obtain m where "n = Suc m" using assms by (cases n) auto
  then show "\<exists>ext. ?V = r # ext" using visit_extends [of g payload m "filter (\<lambda>t. t \<noteq> r) (active_next g payload r)" "[r]"] by auto
qed

lemma run_actions_index:
  "run_actions disp ns i s = (Some rs, s') \<Longrightarrow> map ar_index rs = [i ..< i + length ns]"
proof (induction ns arbitrary: i s rs)
  case (Cons n ns)
  from Cons.prems obtain r rs' t where "run_action disp n i s = (Some r, t)" "run_actions disp ns (Suc i) t = (Some rs', s')" "rs = r # rs'"
    by (auto split: prod.splits option.splits)
  moreover have "ar_index r = i" if "run_action disp n i s = (Some r, t)" for r t
    using that by (auto simp: run_action_def Let_def result_of_def split: if_splits prod.splits)
  ultimately show ?case using Cons.IH by (simp add: upt_conv_Cons del: upt_Suc)
qed simp

text \<open>C17: A run of a graph visits, starting at the trigger, exactly the known nodes the payload leads to, each once,
  and the step limit never cuts it short: the dispatcher is called once for every action node on the path, in
  this order and numbered from zero, unless one of its calls throws. The branch nodes are readable, so
  that choosing a handle does not raise.\<close>

theorem graph_execution_exact:
  assumes "find (\<lambda>n. gn_type n = ''trigger'') (gs_nodes g) = Some t" "readable g payload"
  shows "\<exists>path. distinct path \<and> hd path = gn_id t \<and> set path = {x. led_to g payload (gn_id t) x \<and> node_by_id g x \<noteq> None}
    \<and> executeGraph g payload disp s =
      (let (rs, s') = run_actions disp (actions_on g path) 0 s in
       (map_option (\<lambda>rs. \<lparr>gr_status = aggregateActionResults rs, gr_results = rs, gr_path = path\<rparr>) rs, s'))
    \<and> (case run_actions disp (actions_on g path) 0 s of
         (None, s') \<Rightarrow> True
       | (Some rs, s') \<Rightarrow> map ar_index rs = [0 ..< length (actions_on g path)])"
proof -
  let ?n = "length (gs_nodes g) + length (gs_edges g) + 1"
  let ?path = "known_path g (visit g payload ?n [gn_id t] [])"
  have V: "distinct (visit g payload ?n [gn_id t] [])" "set (visit g payload ?n [gn_id t] []) = {x. led_to g payload (gn_id t) x}"
    "\<exists>ext. visit g payload ?n [gn_id t] [] = gn_id t # ext"
    by (rule visit_exact; simp)+
  have "t \<in> set (gs_nodes g)" using assms(1) by (auto simp: find_Some_iff)
  then have "node_by_id g (gn_id t) \<noteq> None" by (auto simp: node_by_id_def map_of_eq_None_iff image_image)
  then have "hd ?path = gn_id t" using V(3) by (auto simp: known_path_def)
  moreover have "distinct ?path" "set ?path = {x. led_to g payload (gn_id t) x \<and> node_by_id g x \<noteq> None}"
    using V(1,2) by (auto simp: known_path_def)
  moreover have "executeGraph g payload disp s = (let (rs, s') = run_actions disp (actions_on g ?path) 0 s in
       (map_option (\<lambda>rs. \<lparr>gr_status = aggregateActionResults rs, gr_results = rs, gr_path = ?path\<rparr>) rs, s'))"
    unfolding executeGraph_def assms(1) option.case walk_visits [OF assms(2)]
    by (simp add: Let_def option.map_comp comp_def split: prod.split)
  moreover have "case run_actions disp (actions_on g ?path) 0 s of (None, s') \<Rightarrow> True | (Some rs, s') \<Rightarrow> map ar_index rs = [0 ..< length (actions_on g ?path)]"
    using run_actions_index [of disp "actions_on g ?path" 0 s] by (auto split: prod.split option.split)
  ultimately show ?thesis by (intro exI [of _ ?path] conjI)
qed

subsection \<open>The calls of a validated graph\<close>

definition connection_of :: "(string \<times> jsval) list \<Rightarrow> string" where
  "connection_of a = trim (js_String (coalesce (coalesce (fld a ''connection_id'') (fld a ''connectionId'')) (JStr [])))"

definition lawful_call :: "bool \<Rightarrow> string list \<Rightarrow> string \<Rightarrow> (string \<times> jsval) list \<Rightarrow> bool" where
  "lawful_call canManage mods a action \<longleftrightarrow>
     (\<exists>d \<in> set ACTION_CATALOG. a = ad_id d \<and> module_on mods (ad_requiredModule d) \<and> (ad_externalEffect d \<longrightarrow> canManage))
     \<and> (a = ''send_webhook'' \<longrightarrow> connection_of action \<noteq> [])"

lemma js_String_empty: "v = JStr [] \<Longrightarrow> js_String v = []"
  by simp

lemma action_id_name: "actionIdOf n = [] \<or> actionIdOf n = trim (action_name n)"
proof -
  let ?c = "gn_config n"
  consider "\<not> js_nullish (js_get ?c ''action_id'')" | "js_nullish (js_get ?c ''action_id'')" "\<not> js_nullish (js_get ?c ''actionId'')"
    | "js_nullish (js_get ?c ''action_id'')" "js_nullish (js_get ?c ''actionId'')" by blast
  then show ?thesis
    by cases (auto simp: actionIdOf_def action_name_def coalesce_def Let_def trim_def)
qed

lemma catalog_trim: "d \<in> set ACTION_CATALOG \<Longrightarrow> trim (ad_id d) = ad_id d"
  by (auto simp: ACTION_CATALOG_def trim_def is_ws_def)

lemma action_connection:
  assumes "webhook_connection n \<noteq> []"
  shows "connection_of (AList.update ''type'' v (actionParamsOf n)) \<noteq> []"
proof -
  have upd: "fld (AList.update ''type'' v ps) k = fld ps k" if "k \<noteq> ''type''" for ps k
    using that by (simp add: fld_def update_conv')
  obtain ps where ps: "coalesce (js_get (gn_config n) ''params'') (gn_config n) = JObj ps"
    using assms by (cases "coalesce (js_get (gn_config n) ''params'') (gn_config n)") (auto simp: webhook_connection_def coalesce_def trim_def)
  have "actionParamsOf n = ps"
    using ps by (cases "js_get (gn_config n) ''params''") (auto simp: actionParamsOf_def coalesce_def)
  then show ?thesis using assms by (simp add: webhook_connection_def ps connection_of_def upd) (simp add: fld_def)
qed

lemma lawful_run_action:
  assumes "lawful_action canManage mods n" "actionIdOf n \<noteq> []"
  shows "lawful_call canManage mods (actionIdOf n) (AList.update ''type'' (JStr (actionIdOf n)) (actionParamsOf n))"
proof -
  obtain d where d: "d \<in> set ACTION_CATALOG" "action_name n = ad_id d" "module_on mods (ad_requiredModule d)" "ad_externalEffect d \<longrightarrow> canManage"
    using assms(1) by (auto simp: lawful_action_def)
  have a: "actionIdOf n = ad_id d" using action_id_name [of n] assms(2) d(2) catalog_trim [OF d(1)] by simp
  have "connection_of (AList.update ''type'' (JStr (actionIdOf n)) (actionParamsOf n)) \<noteq> []" if "ad_id d = ''send_webhook''"
    using that assms(1) d(2) action_connection by (simp add: lawful_action_def)
  then show ?thesis using a d(1,3,4) by (auto simp: lawful_call_def)
qed

lemma walk_agree:
  "\<lbrakk>\<And>n i s. n \<in> set (gs_nodes g) \<Longrightarrow> gn_type n = ''action'' \<Longrightarrow> run_action disp n i s = run_action disp' n i s\<rbrakk> \<Longrightarrow>
   graph_walk g payload disp m queue visited results path s = graph_walk g payload disp' m queue visited results path s"
proof (induction g payload disp m queue visited results path s rule: graph_walk.induct)
  case (3 g payload disp m x queue visited results path s)
  show ?case
  proof (cases "x \<in> set visited")
    case True
    with 3(1) [OF True 3(5)] show ?thesis by simp
  next
    case False
    show ?thesis
    proof (cases "node_by_id g x")
      case None
      with 3(2) [OF False refl None 3(5)] False show ?thesis by simp
    next
      case (Some n)
      show ?thesis
      proof (cases "handles_of n payload")
        case None
        then show ?thesis using False Some by simp
      next
        case hs: (Some hs)
        show ?thesis
        proof (cases "gn_type n = ''action''")
          case True
          have same: "run_action disp n i s = run_action disp' n i s" for i s
            using 3(5) node_by_id_in [OF Some] True by blast
          obtain r s' where run: "run_action disp n (length results) s = (r, s')" by force
          show ?thesis
          proof (cases r)
            case None
            then show ?thesis using False Some hs True run same by (simp add: Let_def)
          next
            case (Some r')
            show ?thesis
              using 3(3) [OF False refl \<open>node_by_id g x = Some n\<close> hs True run [symmetric] Some 3(5)]
                False \<open>node_by_id g x = Some n\<close> hs True run [unfolded same] run Some by (simp add: Let_def)
          qed
        next
          case other: False
          show ?thesis using 3(4) [OF False refl Some hs other 3(5)] False Some hs other by (simp add: Let_def)
        qed
      qed
    qed
  qed
qed simp_all

text \<open>C18: A graph that was validated makes lawful calls only: on every payload its run is the same whatever the
  dispatcher would do with an action that is not in the catalog, whose module is not enabled, that has an
  external effect its author was not allowed, or a webhook without a connection. (With an empty list of
  modules the validator, like the code, takes every module to be enabled.)\<close>

theorem validated_run_makes_lawful_calls:
  assumes "validateGraph maxNodes canManage enabledModules g = Some issues" "isGraphValid issues"
    and "\<And>a action i s. lawful_call canManage (filter (\<lambda>m. m \<noteq> []) (map trim enabledModules)) a action \<Longrightarrow> disp a action i s = disp' a action i s"
  shows "executeGraph g payload disp s = executeGraph g payload disp' s"
proof -
  let ?mods = "filter (\<lambda>m. m \<noteq> []) (map trim enabledModules)"
  have "well_formed maxNodes canManage ?mods g" using assms(1,2) graph_valid_lawful by blast
  then have "lawful_node canManage ?mods n" if "n \<in> set (gs_nodes g)" for n using that by (simp add: well_formed_def)
  then have "run_action disp n i s = run_action disp' n i s" if "n \<in> set (gs_nodes g)" "gn_type n = ''action''" for n i s
    using that assms(3) [OF lawful_run_action, of n] by (simp add: run_action_def Let_def lawful_node_def)
  then have same: "graph_walk g payload disp m q v rs p s = graph_walk g payload disp' m q v rs p s" for m q v rs p s
    by (rule walk_agree)
  show ?thesis unfolding executeGraph_def same by (rule refl)
qed

subsection \<open>A workflow\<close>

text \<open>A won deal above 100 calls a webhook, a smaller one sends a notification; both then create an activity.\<close>

definition flow_node :: "string \<Rightarrow> string \<Rightarrow> (string \<times> jsval) list \<Rightarrow> graph_node" where
  "flow_node i t cfg = \<lparr>gn_id = i, gn_type = t, gn_x = 0, gn_y = 0, gn_config = JObj cfg\<rparr>"

definition flow_edge :: "string \<Rightarrow> string \<Rightarrow> string \<Rightarrow> string \<Rightarrow> graph_edge" where
  "flow_edge i x h y = \<lparr>ge_id = i, ge_source = x, ge_sourceHandle = h, ge_target = y, ge_targetHandle = Some ''in''\<rparr>"

definition won_deal_flow :: graph_spec where
  "won_deal_flow = \<lparr>gs_version = 2,
     gs_nodes =
       [flow_node ''t'' ''trigger'' [(''trigger_id'', JStr ''crm.deal.won'')],
        flow_node ''c'' ''condition'' [(''predicate'', node_js (Leaf OGt (ORef ''record.amount'') (OLit (JNum 100))))],
        flow_node ''w'' ''action'' [(''action_id'', JStr ''send_webhook''), (''params'', JObj [(''connection_id'', JStr ''hook'')])],
        flow_node ''n'' ''action'' [(''action_id'', JStr ''send_notification'')],
        flow_node ''d'' ''action'' [(''action_id'', JStr ''create_activity'')]],
     gs_edges =
       [flow_edge ''1'' ''t'' ''out'' ''c'', flow_edge ''2'' ''c'' ''true'' ''w'', flow_edge ''3'' ''c'' ''false'' ''n'',
        flow_edge ''4'' ''w'' ''out'' ''d'', flow_edge ''5'' ''n'' ''out'' ''d''],
     gs_viewport = None\<rparr>"

definition logging :: "string list dispatcher" where
  "logging a action i s = (Some (result_of 0 a Success 1 None), s @ [a])"

definition cautious :: "string list dispatcher" where
  "cautious a action i s = (if lawful_call True [] a action then logging a action i s else (None, s))"

lemma won_deal_flow_valid: "validateGraph 50 True [] won_deal_flow = Some []"
  by code_simp

lemma won_deal_readable: "readable won_deal_flow [(''amount'', JNum 500)]"
  by code_simp

theorem graph_execution_exact_witness:
  "snd (executeGraph won_deal_flow [(''amount'', JNum 500)] logging []) = [''send_webhook'', ''create_activity'']
   \<and> (\<exists>path. distinct path \<and> set path = {x. led_to won_deal_flow [(''amount'', JNum 500)] ''t'' x \<and> node_by_id won_deal_flow x \<noteq> None}
      \<and> snd (run_actions logging (actions_on won_deal_flow path) 0 []) = [''send_webhook'', ''create_activity''])"
proof -
  have run: "snd (executeGraph won_deal_flow [(''amount'', JNum 500)] logging []) = [''send_webhook'', ''create_activity'']" by code_simp
  have t: "find (\<lambda>n. gn_type n = ''trigger'') (gs_nodes won_deal_flow) = Some (flow_node ''t'' ''trigger'' [(''trigger_id'', JStr ''crm.deal.won'')])"
    by (simp add: won_deal_flow_def flow_node_def)
  from graph_execution_exact [OF t won_deal_readable, of logging "[]"] obtain path where
    p: "distinct path" "set path = {x. led_to won_deal_flow [(''amount'', JNum 500)] ''t'' x \<and> node_by_id won_deal_flow x \<noteq> None}"
      "snd (executeGraph won_deal_flow [(''amount'', JNum 500)] logging []) = snd (run_actions logging (actions_on won_deal_flow path) 0 [])"
    by (auto simp: flow_node_def split: prod.splits)
  show ?thesis using run p by auto
qed

theorem validated_run_makes_lawful_calls_witness:
  "executeGraph won_deal_flow [(''amount'', JNum 5)] logging [] = executeGraph won_deal_flow [(''amount'', JNum 5)] cautious []"
  by (rule validated_run_makes_lawful_calls [OF won_deal_flow_valid]) (simp_all add: isGraphValid_def cautious_def)

end
