(* ===== verification/Spec2Isabelle.thy ===== *)
theory Spec2Isabelle
  imports CacheFreshness SettingsSchema PermRbac AuditChain RolesExample VisHydrate AutoExec
begin

text \<open>
  The access, module, audit and workflow core of the fairflow backend, a set of NestJS services that
  talk gRPC and keep their rows in PostgreSQL and MongoDB. A request enters the gateway
  (\<^verbatim>\<open>src/gateway\<close>), whose guards ask the control service (\<^verbatim>\<open>src/control\<close>) what its user may do and pass
  a read filter on to a domain service; the rules they all share are a library (\<^verbatim>\<open>src/shared\<close>). The
  audit service (\<^verbatim>\<open>src/audit\<close>) keeps a hash chain of the events on the bus, the automation service
  (\<^verbatim>\<open>src/automation\<close>) runs workflow graphs.

  \<^bold>\<open>Which theory models what.\<close>

  \<^item> Prelude, JsonText: untyped values and the operations of the language the code calls;
    \<open>JSON.stringify\<close> and that its text determines the value.
  \<^item> Rbac, Visibility, VisFilter (\<^verbatim>\<open>shared/src/rbac.ts\<close>): the role matrix, visibility policies with
    their clamp, the scope that travels as metadata, the filters built from it and the single-record
    checks. VisFilter shows filter and check equal on every store that keeps the contract \<open>mongo_core\<close>.
  \<^item> MongoFilter: filter documents and the contracts \<open>mongo_core\<close> and \<open>mongo_store\<close> of the store, provided
    by the in-memory matcher of the repository (\<^verbatim>\<open>search/src/search/fake-mongo.testkit.ts\<close>, the first)
    and by a reference matcher (both).
  \<^item> AbacIr, AbacNormalize, AbacEval, AbacValidate (\<^verbatim>\<open>shared/src/abac\<close>): conditions, their parser,
    normaliser, evaluator (the gate), compiler to filters and validation. The lemmas show the parser
    and normaliser total and exact, and gate and filter equal on documents with scalar fields.
  \<^item> SettingsSchema, Catalog, Registry (\<^verbatim>\<open>settings-schema.ts\<close>, \<^verbatim>\<open>module-manifest.ts\<close>,
    \<^verbatim>\<open>permission-catalog.ts\<close>, \<^verbatim>\<open>module-registry.ts\<close>): settings validation, the fourteen modules, their
    dependency closure, normalisation of the stored configuration, the permission catalog (an instance
    of the locale \<open>permission_catalog\<close>).
  \<^item> PermRbac (\<^verbatim>\<open>shared/src/permission-rbac.ts\<close>): the effective permissions of roles and grants and the
    decision on a route pair.
  \<^item> AccessPredicate (\<^verbatim>\<open>gateway/src/guards/access-predicate*.ts\<close>, \<^verbatim>\<open>shared/src/abac/compose.ts\<close>, the attribute
    layer of \<^verbatim>\<open>pdp.service.ts\<close>): policy rules compiled to one filter for a route, the search and the
    aggregates, against the rules they come from and against the decision point.
  \<^item> GrpcStruct (\<^verbatim>\<open>gateway/src/bff/grpc-struct.ts\<close>, \<^verbatim>\<open>project-grpc.codec.ts\<close>): the wire form of conditions,
    its round trip, and what a row looks like after the channel.
  \<^item> BoundedCache, GatewayGuard, CacheFreshness (\<^verbatim>\<open>gateway/src/guards\<close>): the module guard and the access
    guard with their caches. The refinement against the replies of control, transparency of the caches,
    outages, and staleness in all interleavings of requests with changes at control (the step relation
    \<open>gw_reach\<close>).
  \<^item> RolesStore, RolesUnits, RolesRights, RolesOwner, RolesPdp, RolesExample (\<^verbatim>\<open>control/src/roles\<close>): the roles
    service over explicit tables, the units of a user, non-escalation and ownership over sequences of
    requests, the decision point and its agreement with the gateway; an example project for witnesses.
  \<^item> VisGraph, VisResolver, VisHydrate (\<^verbatim>\<open>control/src/organizations/visibility-resolver.service.ts\<close>,
    \<^verbatim>\<open>shared/src/grpc/visibility-hydration.ts\<close>): the group graph, the expansion of a policy over it against
    an inductive reach, deferred scopes and their hydration; end to end from the tables of control to
    the filter of a domain.
  \<^item> HashChain, AuditChain (\<^verbatim>\<open>audit/src/chain\<close>, \<^verbatim>\<open>audit/src/audit/audit.service.ts\<close>): the chain of hashes,
    appends by compare-and-swap in every interleaving (the step relations \<open>append_step\<close> and
    \<open>audit_step\<close> with the invariant \<open>audit_inv\<close>), the two-phase claim of messages over sequences of deliveries, attempts that
    stop anywhere, and sweeps of the ledger.
  \<^item> AutoPredicate, AutoGraph, AutoGraphCheck, AutoExec (\<^verbatim>\<open>automation/src/automation/graph\<close>, \<^verbatim>\<open>registry.ts\<close>):
    the predicates, validator and executor of workflow graphs; the validator against well-formedness,
    the executor against reachability under a payload.

  State is an explicit record passed through the operations (\<open>guard_state\<close>, \<open>control_db\<close>, \<open>audit_store\<close>,
  \<open>hydrator\<close>), an error a sum or an option; the names of the operations are those of the code.

  \<^bold>\<open>Parameters.\<close> Code outside the repository is an argument: the digest \<open>sha\<close> and the storage
  conversion \<open>bson\<close> of the audit, \<open>Date.parse\<close>, the matcher of the store, the replies of control as the
  gateway sees them, the gRPC channel \<open>recv\<close>, serialisation of a scope (\<open>enc\<close>, \<open>dec\<close>), fresh identifiers,
  the dispatcher of automation actions. What is relied on of them is a locale or a named hypothesis
  (\<open>mongo_core\<close>, \<open>mongo_store\<close>, \<open>channel_delivers\<close>, \<open>kept\<close>), with an instance for which it holds. Nothing is assumed of the
  digest: a theorem about tampering names the two lists of hashed texts among which a collision would
  have to be (\<open>collide\<close>).

  \<^bold>\<open>Bounds and fuel.\<close> The walks of \<open>userUnitIds\<close> and \<open>addEffectiveUsers\<close> stop in the code after 21 steps for
  each unit and one; the model has this number as its fuel, and the exactness theorems say when it is
  enough (\<open>walk_fits\<close>, or the step limit in the statement). \<open>executeGraph\<close> stops after one step for each node and edge and one,
  which is proved to suffice always. The text of a number has at most thirty decimals, more than the
  plain notation of a double needs. All other loops are functions with a measure.

  \<^bold>\<open>Limits of the model.\<close>

  \<^item> Requests to the roles service run one after another (the code counts owners outside its
    transaction); deliveries of a message too (lemma \<open>overlapping_attempts_double\<close> shows why).
  \<^item> The unique index of the audit events exists. An insertion that is stored and reported as failed is
    covered in the sequential attempts (lemma \<open>stored_but_failed_blocks\<close>), not in the interleaving of
    appends, where a failing insertion stores nothing.
  \<^item> An expired claim admits its message again (lemma \<open>expired_claim_doubles\<close>). The index that is to
    expire claims is on a number, which MongoDB never expires; a run may sweep at any time or never.
  \<^item> Numbers are rationals, strings ASCII; property names of \<open>Object.prototype\<close> are no module ids, and
    names that look like array indices keep their place. The base64 and JSON texts of headers are
    outside, as are log lines, metrics, display texts and messages of errors.
  \<^item> The theorem from the tables of control to the filter of a domain is about a domain with a cold cache; a
    warm one may serve an older expansion of the same scope.

  \<^bold>\<open>Not modelled.\<close> The controllers and the BFF of the gateway, the guard of organisation routes, the CRM
  domains (contacts, companies, deals, orders, products, documents, reports), authentication, chat,
  notifications, billing and platform, the administration of projects and organisations, and of
  automation the persistence, the dispatcher with its effects, retries and dead letters: they are mostly
  calls to databases, brokers and providers.
\<close>

end
